(* ===== verification/Prelude.thy ===== *)
theory Prelude
  imports Main "HOL-Library.Word"
begin

text \<open>
  Shared vocabulary of the development: the machine types of the firmware, byte sums and
  little-endian fields, copies into byte buffers, tables indexed by a unit id, and the small
  interfaces (locales) the components share.

  \<^item> \<open>byte\<close>, \<open>u16\<close>, \<open>u32\<close>, \<open>u64\<close> are \<^verbatim>\<open>uint8_t\<close> ... \<^verbatim>\<open>uint64_t\<close>; arithmetic on them wraps.
  \<^item> A \<^verbatim>\<open>uint8_t\<close>/\<^verbatim>\<open>uint16_t\<close> that is only an index, an id or a length is a \<open>nat\<close>.
  \<^item> \<open>time_us\<close> is a value of \<^verbatim>\<open>esp_timer_get_time\<close>, microseconds since boot, as an \<open>int\<close>
    (an \<^verbatim>\<open>int64_t\<close> of microseconds does not wrap in the life of a device).
\<close>

unbundle bit_operations_syntax

type_synonym byte = "8 word"
type_synonym u16 = "16 word"
type_synonym u32 = "32 word"
type_synonym u64 = "64 word"
type_synonym time_us = int

named_theorems unit_simps \<open>what an operation on one unit does to the table of all units\<close>
named_theorems wire_simps \<open>byte layouts: fields, copies and sums\<close>

section \<open>Sums of bytes\<close>

text \<open>The loop \<^verbatim>\<open>uint8_t sum = 0; for (i = 0; i < n; i++) sum += p[i];\<close> over the first \<open>n\<close> bytes.\<close>

definition sum8 :: "byte list \<Rightarrow> byte" where
  "sum8 bs = foldl (+) 0 bs"

lemma foldl_plus_sum_list: "foldl (+) (a :: 'a :: comm_monoid_add) bs = a + sum_list bs"
  by (induction bs arbitrary: a) (simp_all add: add.assoc)

lemma sum8_sum_list: "sum8 bs = sum_list bs"
  by (simp add: sum8_def foldl_plus_sum_list)

lemma sum8_Nil [simp]: "sum8 [] = 0"
  by (simp add: sum8_def)

lemma sum8_append [wire_simps]: "sum8 (as @ bs) = sum8 as + sum8 bs"
  by (simp add: sum8_sum_list)

section \<open>Little-endian fields\<close>

text \<open>\<^verbatim>\<open>p[0] | (p[1] << 8)\<close> and its 32-bit form, on the bytes from offset \<open>i\<close>.\<close>

definition le16 :: "byte list \<Rightarrow> nat \<Rightarrow> u16" where
  "le16 p i = ucast (p ! i) OR push_bit 8 (ucast (p ! (i + 1)))"

definition le32 :: "byte list \<Rightarrow> nat \<Rightarrow> u32" where
  "le32 p i = ucast (p ! i) OR push_bit 8 (ucast (p ! (i + 1)))
     OR push_bit 16 (ucast (p ! (i + 2))) OR push_bit 24 (ucast (p ! (i + 3)))"

text \<open>The bytes \<^verbatim>\<open>(uint8_t)v, (uint8_t)(v >> 8), ...\<close>, least significant first.\<close>

definition bytes16 :: "u16 \<Rightarrow> byte list" where
  "bytes16 v = [ucast v, ucast (drop_bit 8 v)]"

definition bytes32 :: "u32 \<Rightarrow> byte list" where
  "bytes32 v = [ucast v, ucast (drop_bit 8 v), ucast (drop_bit 16 v), ucast (drop_bit 24 v)]"

lemma length_bytes16 [simp]: "length (bytes16 v) = 2"
  by (simp add: bytes16_def)

lemma length_bytes32 [simp]: "length (bytes32 v) = 4"
  by (simp add: bytes32_def)

lemma le16_bytes16: "le16 (bytes16 v) 0 = v"
  by (rule bit_word_eqI) (auto simp: le16_def bytes16_def bit_simps)

lemma le32_bytes32: "le32 (bytes32 v) 0 = v"
proof (rule bit_word_eqI)
  fix n assume "n < LENGTH(32)"
  then have "n < 8 \<or> (8 \<le> n \<and> n < 16) \<or> (16 \<le> n \<and> n < 24) \<or> (24 \<le> n \<and> n < 32)" by auto
  then show "bit (le32 (bytes32 v) 0) n = bit v n"
    by (elim disjE) (auto simp: le32_def bytes32_def numeral_2_eq_2 numeral_3_eq_3 bit_simps)
qed

lemma le16_cong: "take 2 (drop i p) = take 2 (drop j q) \<Longrightarrow> i + 2 \<le> length p \<Longrightarrow> j + 2 \<le> length q
  \<Longrightarrow> le16 p i = le16 q j"
  by (auto simp: le16_def numeral_2_eq_2 take_Suc_conv_app_nth)

lemma le16_at: "i + 2 \<le> length p \<Longrightarrow> take 2 (drop i p) = bytes16 v \<Longrightarrow> le16 p i = v"
  using le16_cong [of i p 0 "bytes16 v"] by (simp add: le16_bytes16)

lemma take4: "i + 4 \<le> length p \<Longrightarrow> take 4 (drop i p) = [p ! i, p ! (i + 1), p ! (i + 2), p ! (i + 3)]"
  by (auto simp: eval_nat_numeral take_Suc_conv_app_nth)

lemma le32_cong: "take 4 (drop i p) = take 4 (drop j q) \<Longrightarrow> i + 4 \<le> length p \<Longrightarrow> j + 4 \<le> length q
  \<Longrightarrow> le32 p i = le32 q j"
  by (simp add: le32_def take4)

lemma le32_at: "i + 4 \<le> length p \<Longrightarrow> take 4 (drop i p) = bytes32 v \<Longrightarrow> le32 p i = v"
  using le32_cong [of i p 0 "bytes32 v"] by (simp add: le32_bytes32)

section \<open>Copies into a buffer\<close>

text \<open>\<^verbatim>\<open>memcpy(&out[i], xs, n)\<close> with \<open>n = length xs\<close>, inside the buffer.\<close>

definition put_bytes :: "nat \<Rightarrow> 'a list \<Rightarrow> 'a list \<Rightarrow> 'a list" where
  "put_bytes i xs out = take i out @ xs @ drop (i + length xs) out"

lemma length_put_bytes [simp]: "i + length xs \<le> length out \<Longrightarrow> length (put_bytes i xs out) = length out"
  by (simp add: put_bytes_def)

lemma take_drop_put_bytes_same:
  "i + length xs \<le> length out \<Longrightarrow> take (length xs) (drop i (put_bytes i xs out)) = xs"
  by (simp add: put_bytes_def)

lemma nth_put_bytes:
  "i + length xs \<le> length out \<Longrightarrow> k < length out \<Longrightarrow>
   put_bytes i xs out ! k = (if i \<le> k \<and> k < i + length xs then xs ! (k - i) else out ! k)"
  by (auto simp: put_bytes_def nth_append min_def)

lemma take_drop_put_bytes_other:
  assumes "i + length xs \<le> length out" "j + n \<le> length out" "j + n \<le> i \<or> i + length xs \<le> j"
  shows "take n (drop j (put_bytes i xs out)) = take n (drop j out)"
  by (rule nth_equalityI) (use assms in \<open>auto simp: nth_put_bytes\<close>)

section \<open>Tables indexed by a unit id\<close>

text \<open>
  Every table of the firmware indexed by a BMS id (\<^verbatim>\<open>s_state\<close>, \<^verbatim>\<open>s_pend\<close>, \<^verbatim>\<open>s_id\<close>, \<^verbatim>\<open>s_set\<close>, ...) has
  \<^verbatim>\<open>CFG_NUM_UNITS\<close> entries and is a list of that length here. The operations begin with
  \<^verbatim>\<open>if (id >= CFG_NUM_UNITS) return;\<close>: \<open>upd_unit\<close> is an update of one entry under that guard.
\<close>

definition upd_unit :: "nat \<Rightarrow> ('s \<Rightarrow> 's) \<Rightarrow> 's list \<Rightarrow> 's list" where
  "upd_unit i f xs = (if i < length xs then xs[i := f (xs ! i)] else xs)"

lemma length_upd_unit [simp, unit_simps]: "length (upd_unit i f xs) = length xs"
  by (simp add: upd_unit_def)

lemma upd_unit_same [unit_simps]: "i < length xs \<Longrightarrow> upd_unit i f xs ! i = f (xs ! i)"
  by (simp add: upd_unit_def)

lemma upd_unit_other [simp, unit_simps]: "j \<noteq> i \<Longrightarrow> upd_unit i f xs ! j = xs ! j"
  by (simp add: upd_unit_def)

lemma nth_upd_unit: "j < length xs \<Longrightarrow> upd_unit i f xs ! j = (if j = i then f (xs ! j) else xs ! j)"
  by (simp add: upd_unit_def)

lemma upd_unit_oob [simp, unit_simps]: "length xs \<le> i \<Longrightarrow> upd_unit i f xs = xs"
  by (simp add: upd_unit_def)

lemma upd_unit_cong: "i < length xs \<Longrightarrow> f (xs ! i) = g (xs ! i) \<Longrightarrow> upd_unit i f xs = upd_unit i g xs"
  by (simp add: upd_unit_def)

lemma upd_unit_id: "(i < length xs \<Longrightarrow> f (xs ! i) = xs ! i) \<Longrightarrow> upd_unit i f xs = xs"
  by (simp add: upd_unit_def)

lemma upd_unit_twice [simp]: "upd_unit i f (upd_unit i g xs) = upd_unit i (f \<circ> g) xs"
  by (simp add: upd_unit_def)

lemma list_all_upd_unit:
  "list_all P xs \<Longrightarrow> (\<And>x. P x \<Longrightarrow> P (f x)) \<Longrightarrow> list_all P (upd_unit i f xs)"
  by (auto simp: upd_unit_def list_all_length nth_list_update)

lemma list_all_upd_unit':
  "list_all P xs \<Longrightarrow> (i < length xs \<Longrightarrow> P (xs ! i) \<Longrightarrow> P (f (xs ! i))) \<Longrightarrow> list_all P (upd_unit i f xs)"
  by (auto simp: upd_unit_def list_all_length nth_list_update)

text \<open>
  The contract all of these operations share: an operation on unit \<open>i\<close> keeps the table's size,
  touches no other unit and ignores an id out of range. Operations on different units then
  commute, so the order in which the tasks of the firmware serve different units does not
  matter to the tables.
\<close>

locale unit_op =
  fixes opr :: "nat \<Rightarrow> 's list \<Rightarrow> 's list"
  assumes opr_length: "length (opr i xs) = length xs"
    and opr_frame: "j \<noteq> i \<Longrightarrow> opr i xs ! j = xs ! j"
    and opr_oob: "length xs \<le> i \<Longrightarrow> opr i xs = xs"
    and opr_local: "length xs = length ys \<Longrightarrow> xs ! i = ys ! i \<Longrightarrow> opr i xs ! i = opr i ys ! i"
begin

lemma opr_others_intact: "i < length xs \<Longrightarrow> opr i xs = xs[i := opr i xs ! i]"
  by (rule nth_equalityI) (auto simp: opr_length opr_frame nth_list_update)

lemma opr_upd_commute: "i \<noteq> j \<Longrightarrow> opr i (upd_unit j f xs) = upd_unit j f (opr i xs)"
proof (rule nth_equalityI)
  fix k assume ij: "i \<noteq> j" and k: "k < length (opr i (upd_unit j f xs))"
  show "opr i (upd_unit j f xs) ! k = upd_unit j f (opr i xs) ! k"
  proof (cases "k = i")
    case True
    with ij show ?thesis using opr_local [of "upd_unit j f xs" xs i] by simp
  next
    case False
    with k show ?thesis by (simp add: opr_frame opr_length nth_upd_unit)
  qed
qed (simp add: opr_length)

end

locale unit_ops = a: unit_op opa + b: unit_op opb
  for opa :: "nat \<Rightarrow> 's list \<Rightarrow> 's list" and opb :: "nat \<Rightarrow> 's list \<Rightarrow> 's list"
begin

lemma opr_commute: "i \<noteq> j \<Longrightarrow> opa i (opb j xs) = opb j (opa i xs)"
proof (cases "j < length xs")
  case True
  assume ij: "i \<noteq> j"
  have "opa i (opb j xs) = opa i (upd_unit j (\<lambda>_. opb j xs ! j) xs)"
    using True by (subst b.opr_others_intact) (simp_all add: upd_unit_def)
  also have "\<dots> = upd_unit j (\<lambda>_. opb j xs ! j) (opa i xs)"
    using ij by (rule a.opr_upd_commute)
  also have "\<dots> = (opa i xs)[j := opb j (opa i xs) ! j]"
    using ij True by (simp add: upd_unit_def a.opr_length a.opr_frame b.opr_local [of xs "opa i xs"])
  also have "\<dots> = opb j (opa i xs)"
    using True by (subst b.opr_others_intact [of j "opa i xs"]) (simp_all add: a.opr_length)
  finally show ?thesis .
qed (simp add: b.opr_oob a.opr_length)

end

lemma unit_op_upd_unit: "unit_op (\<lambda>i. upd_unit i f)"
  by unfold_locales (simp_all add: nth_upd_unit upd_unit_def)

section \<open>First match in a table\<close>

text \<open>\<^verbatim>\<open>for (i = 0; i < N; i++) if (P(t[i])) return i; return -1;\<close>\<close>

fun find_index :: "('a \<Rightarrow> bool) \<Rightarrow> 'a list \<Rightarrow> nat option" where
  "find_index P [] = None"
| "find_index P (x # xs) = (if P x then Some 0 else map_option Suc (find_index P xs))"

lemma find_index_Some_iff:
  "find_index P xs = Some i \<longleftrightarrow> i < length xs \<and> P (xs ! i) \<and> (\<forall>j < i. \<not> P (xs ! j))"
proof (induction xs arbitrary: i)
  case (Cons x xs)
  then show ?case by (cases i) (auto simp: less_Suc_eq_0_disj)
qed simp

lemma find_index_None_iff: "find_index P xs = None \<longleftrightarrow> (\<forall>x \<in> set xs. \<not> P x)"
  by (induction xs) auto

lemma find_index_SomeD:
  assumes "find_index P xs = Some i"
  shows "i < length xs" and "P (xs ! i)"
  using assms by (simp_all add: find_index_Some_iff)

section \<open>Loops over all units\<close>

text \<open>
  An invariant and a reflexive, transitive relation between the states before and after: what
  each round of a loop over the units keeps, the loop keeps.
\<close>

lemma fold_inv_rel:
  assumes "\<And>j a. j \<in> set js \<Longrightarrow> I a \<Longrightarrow> I (f j a) \<and> R a (f j a)"
    and "\<And>a. R a a" and "\<And>a b c. R a b \<Longrightarrow> R b c \<Longrightarrow> R a c" and "I a"
  shows "I (fold f js a) \<and> R a (fold f js a)"
  using assms(1,4)
proof (induction js arbitrary: a)
  case (Cons j js)
  then have "I (f j a)" "R a (f j a)" by simp_all
  with Cons have "I (fold f js (f j a)) \<and> R (f j a) (fold f js (f j a))" by simp
  with \<open>R a (f j a)\<close> assms(3) show ?case by auto
qed (simp add: assms(2))

lemma fold_inv:
  assumes "\<And>j a. j \<in> set js \<Longrightarrow> I a \<Longrightarrow> I (f j a)" "I a"
  shows "I (fold f js a)"
  using fold_inv_rel [of js I f "\<lambda>_ _. True"] assms by blast

section \<open>Searches and sums over updated tables\<close>

lemma nth_upd_unit_field:
  "(\<And>l. g (f l) = g l) \<Longrightarrow> g (upd_unit j f ls ! k) = g (ls ! k)"
  by (cases "j < length ls"; cases "j = k") (simp_all add: upd_unit_def)

lemma find_index_map: "find_index P xs = find_index (\<lambda>b. b) (map P xs)"
  by (induction xs) simp_all

lemma find_index_upd_unit: "(\<And>l. P (f l) = P l) \<Longrightarrow> find_index P (upd_unit k f ls) = find_index P ls"
proof -
  assume p: "\<And>l. P (f l) = P l"
  have "map P (upd_unit k f ls) = map P ls" by (rule nth_equalityI) (use p in \<open>auto simp: nth_upd_unit\<close>)
  then show ?thesis by (metis find_index_map)
qed

lemma sum_list_upd_unit:
  fixes g :: "'a \<Rightarrow> 'b :: cancel_comm_monoid_add"
  assumes "k < length xs"
  shows "(\<Sum>x\<leftarrow>upd_unit k f xs. g x) + g (xs ! k) = (\<Sum>x\<leftarrow>xs. g x) + g (f (xs ! k))"
  using assms
proof (induction xs arbitrary: k)
  case (Cons x xs)
  then show ?case
  proof (cases k)
    case (Suc j)
    with Cons.prems have "upd_unit k f (x # xs) = x # upd_unit j f xs" by (simp add: upd_unit_def)
    with Suc Cons.IH [of j] Cons.prems show ?thesis by (simp add: add.assoc)
  qed (simp add: upd_unit_def ac_simps)
qed simp

end
