(* ===== verification/C_Float.thy ===== *)
theory C_Float
  imports Complex_Main "HOL-Library.Log_Nat"
begin

text \<open>
  The part of C's \<^verbatim>\<open>float\<close> and \<^verbatim>\<open>double\<close> the settings path uses: finite binary32 and binary64
  values as rationals, with every operation rounded to nearest, ties to even, at the precision
  and exponent range of the type (subnormals included), and the one value a range check on a
  JSON number must tell from them, \<open>NonFinite\<close> (an infinity or a NaN).
  \<open>flr p q x\<close> rounds \<open>x\<close> to \<open>p\<close> significant bits with quantum at least \<open>2 powi q\<close>:
  \<open>flr 53 (-1074)\<close> is binary64 and \<open>flr 24 (-149)\<close> is binary32, both below their overflow
  threshold. The lemmas bound the rounding error, which is all the client proofs use.
\<close>

section \<open>Rounding\<close>

definition flog2 :: "rat \<Rightarrow> int" where
  "flog2 x = (case quotient_of \<bar>x\<bar> of (p, q) \<Rightarrow>
     let d = bitlen p - bitlen q in if 2 powi d \<le> \<bar>x\<bar> then d else d - 1)"

definition rne :: "rat \<Rightarrow> int" where
  "rne x = (let f = \<lfloor>x\<rfloor>; d = x - of_int f in
     if d < 1 / 2 then f else if 1 / 2 < d then f + 1 else if even f then f else f + 1)"

definition flr :: "int \<Rightarrow> int \<Rightarrow> rat \<Rightarrow> rat" where
  "flr p qmin x = (if x = 0 then 0
     else let q = max (flog2 x - p + 1) qmin in of_int (rne (x / 2 powi q)) * 2 powi q)"

abbreviation fl64 :: "rat \<Rightarrow> rat" where
  "fl64 \<equiv> flr 53 (- 1074)"

abbreviation fl32 :: "rat \<Rightarrow> rat" where
  "fl32 \<equiv> flr 24 (- 149)"

section \<open>Doubles\<close>

datatype cdouble = Finite rat | NonFinite

definition isfinite :: "cdouble \<Rightarrow> bool" where
  "isfinite d = (case d of Finite _ \<Rightarrow> True | NonFinite \<Rightarrow> False)"

text \<open>The result of an operation: rounded, or an infinity at \<open>2 powi 1024\<close> and above.\<close>

definition dround :: "rat \<Rightarrow> cdouble" where
  "dround x = (let r = fl64 x in if \<bar>r\<bar> < 2 powi 1024 then Finite r else NonFinite)"

fun dmul :: "cdouble \<Rightarrow> cdouble \<Rightarrow> cdouble" where
  "dmul (Finite a) (Finite b) = dround (a * b)"
| "dmul _ _ = NonFinite"

section \<open>Error bounds\<close>

lemma rne_error: "\<bar>of_int (rne x) - x\<bar> \<le> 1 / 2"
proof -
  have "of_int \<lfloor>x\<rfloor> \<le> x" "x < of_int \<lfloor>x\<rfloor> + 1"
    using floor_correct [of x] by simp_all
  then show ?thesis unfolding rne_def Let_def by (simp split: if_splits)
qed

lemma rne_of_int [simp]: "rne (of_int n) = n"
  by (simp add: rne_def)

lemma flr_nonzero:
  "x \<noteq> 0 \<Longrightarrow> q = max (flog2 x - p + 1) qmin \<Longrightarrow> flr p qmin x = of_int (rne (x / 2 powi q)) * 2 powi q"
  by (simp add: flr_def Let_def)

lemma flr_error: "x \<noteq> 0 \<Longrightarrow> \<bar>flr p qmin x - x\<bar> \<le> 2 powi (max (flog2 x - p + 1) qmin) / 2"
proof -
  define q where "q = max (flog2 x - p + 1) qmin"
  assume "x \<noteq> 0"
  then have "flr p qmin x - x = (of_int (rne (x / 2 powi q)) - x / 2 powi q) * 2 powi q"
    by (simp add: flr_nonzero [OF _ q_def] algebra_simps)
  then have "\<bar>flr p qmin x - x\<bar> = \<bar>of_int (rne (x / 2 powi q)) - x / 2 powi q\<bar> * 2 powi q"
    by (simp add: abs_mult)
  also have "\<dots> \<le> 1 / 2 * 2 powi q"
    by (rule mult_right_mono [OF rne_error]) simp
  finally show ?thesis by (simp add: q_def)
qed

lemma flog2_le: assumes "x \<noteq> 0" shows "2 powi (flog2 x) \<le> \<bar>x\<bar>"
proof -
  obtain p q where pq: "quotient_of \<bar>x\<bar> = (p, q)" by fastforce
  then have q0: "0 < q" and x: "\<bar>x\<bar> = of_int p / of_int q"
    by (auto dest: quotient_of_denom_pos quotient_of_div)
  moreover have "0 < \<bar>x\<bar>" using assms by simp
  ultimately have p0: "0 < p" by (simp add: zero_less_divide_iff)
  let ?d = "bitlen p - bitlen q"
  show ?thesis
  proof (cases "2 powi ?d \<le> \<bar>x\<bar>")
    case True
    then show ?thesis by (simp add: flog2_def pq)
  next
    case False
    have "2 ^ nat (bitlen p - 1) \<le> p" "q < 2 ^ nat (bitlen q)"
      using bitlen_bounds p0 q0 by auto
    then have "of_int (2 ^ nat (bitlen p - 1)) \<le> (of_int p :: rat)"
      "(of_int q :: rat) < of_int (2 ^ nat (bitlen q))"
      by (simp_all only: of_int_le_iff of_int_less_iff)
    moreover have "0 < bitlen p" "0 < bitlen q" using p0 q0 by (simp_all add: bitlen_alt_def)
    ultimately have "(2::rat) powi (bitlen p - 1) \<le> of_int p" "(of_int q :: rat) < 2 powi bitlen q"
      by (simp_all add: power_int_def)
    then have "2 powi (bitlen p - 1) / 2 powi bitlen q \<le> (of_int p / of_int q :: rat)"
      using q0 p0 by (intro frac_le) simp_all
    then have "2 powi (?d - 1) \<le> \<bar>x\<bar>"
      by (simp add: x power_int_diff [symmetric] algebra_simps)
    with False show ?thesis by (simp add: flog2_def pq)
  qed
qed

text \<open>Below \<open>2 powi m\<close> the quantum is at most \<open>2 powi (m - p)\<close>, and the error half of that.\<close>

lemma flog2_less: assumes "x \<noteq> 0" "\<bar>x\<bar> < 2 powi m" shows "flog2 x < m"
proof (rule ccontr)
  assume "\<not> flog2 x < m"
  then have "(2::rat) powi m \<le> 2 powi (flog2 x)" by (intro power_int_increasing) simp_all
  with flog2_le [OF assms(1)] assms(2) show False by linarith
qed

lemma flr_error_bound:
  assumes "\<bar>x\<bar> < 2 powi m" "qmin \<le> m - p"
  shows "\<bar>flr p qmin x - x\<bar> \<le> 2 powi (m - p) / 2"
proof (cases "x = 0")
  case True
  then show ?thesis by (simp add: flr_def)
next
  case False
  have "max (flog2 x - p + 1) qmin \<le> m - p"
    using flog2_less [OF False assms(1)] assms(2) by simp
  then have "(2::rat) powi (max (flog2 x - p + 1) qmin) \<le> 2 powi (m - p)"
    by (intro power_int_increasing) simp_all
  with flr_error [OF False, of p qmin] show ?thesis by linarith
qed

lemma fl64_error: "\<bar>x\<bar> < 4096 \<Longrightarrow> \<bar>fl64 x - x\<bar> \<le> 1 / 2 ^ 42"
  using flr_error_bound [of x 12 "- 1074" 53] by (simp add: power_int_def power_one_over divide_simps)

lemma fl32_error: "\<bar>x\<bar> < 4096 \<Longrightarrow> \<bar>fl32 x - x\<bar> \<le> 1 / 2 ^ 13"
  using flr_error_bound [of x 12 "- 149" 24] by (simp add: power_int_def power_one_over divide_simps)

text \<open>An integer that fits the precision is exact, and so is zero.\<close>

lemma flr_zero [simp]: "flr p qmin 0 = 0"
  by (simp add: flr_def)

lemma flr_of_int:
  assumes "\<bar>n\<bar> < 2 ^ k" "int k \<le> p" "qmin \<le> 0"
  shows "flr p qmin (of_int n) = of_int n"
proof (cases "n = 0")
  case False
  define q where "q = max (flog2 (of_int n) - p + 1) qmin"
  have "\<bar>of_int n\<bar> < (of_int (2 ^ k) :: rat)"
    using assms(1) by (metis of_int_abs of_int_less_iff)
  then have "flog2 (of_int n :: rat) < int k"
    using False by (intro flog2_less) (simp_all add: power_int_def)
  then have q: "q \<le> 0" using assms(2,3) by (simp add: q_def)
  then have "(2::rat) powi q = 1 / 2 ^ nat (- q)"
    by (cases "q = 0") (simp_all add: power_int_def power_one_over)
  then have "(of_int n :: rat) / 2 powi q = of_int (n * 2 ^ nat (- q))"
    and inv: "2 ^ nat (- q) * 2 powi q = (1::rat)"
    by simp_all
  then have "rne ((of_int n :: rat) / 2 powi q) = n * 2 ^ nat (- q)" by (simp only: rne_of_int)
  then show ?thesis
    using False inv flr_nonzero [OF _ q_def] by (simp add: mult.assoc)
qed simp

text \<open>The error relative to the value, for results far from the threshold.\<close>

lemma flr_rel_error: "\<bar>flr p qmin x - x\<bar> \<le> \<bar>x\<bar> * 2 powi (- p) + 2 powi qmin"
proof (cases "x = 0")
  case False
  have "(2::rat) powi (flog2 x - p + 1) / 2 = 2 powi (flog2 x) * 2 powi (- p)"
    by (simp add: power_int_add power_int_diff power_int_minus divide_simps)
  moreover have "(2::rat) powi (flog2 x) * 2 powi (- p) \<le> \<bar>x\<bar> * 2 powi (- p)"
    using flog2_le [OF False] by (intro mult_right_mono) simp_all
  ultimately have a: "(2::rat) powi (flog2 x - p + 1) / 2 \<le> \<bar>x\<bar> * 2 powi (- p)" by simp
  have b: "(2::rat) powi qmin / 2 \<le> 2 powi qmin" by simp
  have "0 \<le> \<bar>x\<bar> * 2 powi (- p)" "(0::rat) \<le> 2 powi qmin" by simp_all
  moreover have "\<bar>flr p qmin x - x\<bar> \<le> 2 powi (flog2 x - p + 1) / 2 \<or> \<bar>flr p qmin x - x\<bar> \<le> 2 powi qmin / 2"
    using flr_error [OF False, of p qmin] unfolding max_def by (simp split: if_splits)
  ultimately show ?thesis using a b by linarith
qed simp

text \<open>The sign is kept.\<close>

lemma flr_nonneg: "0 \<le> x \<Longrightarrow> 0 \<le> flr p qmin x"
proof -
  assume x: "0 \<le> x"
  have "0 \<le> rne y" if "0 \<le> y" for y :: rat
    using that by (auto simp: rne_def Let_def)
  moreover define q where "q = max (flog2 x - p + 1) qmin"
  ultimately have "0 \<le> rne (x / 2 powi q)" using x by simp
  then show ?thesis by (simp add: flr_def Let_def q_def)
qed

end
