(* ===== verification/Jk_Frame.thy ===== *)
theory Jk_Frame
  imports Prelude C_Float "HOL-Library.Sublist"
begin

text \<open>
  Records received from a BMS: \<^verbatim>\<open>components/jk_proto/jk_proto.c\<close> up to the decoders, with the
  constants of \<^verbatim>\<open>jk_ble_defs.h\<close> and \<^verbatim>\<open>jk_proto.h\<close>, and the loop of \<^verbatim>\<open>on_notify\<close> in
  \<^verbatim>\<open>node_a/main/ble_owner.c\<close> that feeds every notification chunk to the reassembler.

  A pointer and a length are a byte list; a record handed out by \<open>jk_reasm_push\<close> is the copy of
  the first \<open>want\<close> bytes of the buffer that every caller takes before the next push. Reads are
  at constant offsets below the length the decoder has checked.

  The reassembler is proved chunk-invariant (how the radio splits the stream does not matter),
  sound (what it delivers is a contiguous, checksum-valid 300-byte record of the stream) and
  complete (it delivers every valid record of a stream whose gaps hold no start magic).
\<close>

section \<open>Constants and types\<close>

datatype jk_frame_ver = JK_FRAME_UNKNOWN | JK_FRAME_JK04 | JK_FRAME_JK02_24S | JK_FRAME_JK02_32S

datatype jk_record = JK_REC_DEVICE_INFO | JK_REC_CELL_INFO | JK_REC_SETTINGS | JK_REC_NONE

definition JK02_MAGIC :: "byte list" where
  "JK02_MAGIC = [0x55, 0xAA, 0xEB, 0x90]"

definition JK02_RECORD_LEN :: nat where
  "JK02_RECORD_LEN = 300"

definition JK_FRAME_MAX :: nat where
  "JK_FRAME_MAX = 320"

definition JK_SETTINGS_RAW_MAX :: nat where
  "JK_SETTINGS_RAW_MAX = 320"

definition JK_MAX_CELLS :: nat where
  "JK_MAX_CELLS = 32"

text \<open>\<open>c_r_mohm\<close> is \<open>-1\<close> for a failed wire measurement.\<close>

record jk_cell =
  c_n :: nat
  c_mv :: u16
  c_r_mohm :: int

record jk_cell_info =
  ci_ver :: jk_frame_ver
  ci_cells :: "jk_cell list"
  ci_pack_mv :: int
  ci_current_ma :: int
  ci_power_mw :: int
  ci_soc_pct :: byte
  ci_temp_dc :: "int list"
  ci_cycle_count :: u32
  ci_balancing :: bool
  ci_charging :: bool
  ci_discharging :: bool
  ci_error_bitmask :: u32
  ci_wire_warn_bitmask :: u32

record jk_settings =
  se_ver :: jk_frame_ver
  se_balance_trigger_v :: rat
  se_balance_start_v :: rat
  se_cell_count_set :: u32
  se_balance_current_a :: rat
  se_balancing_enabled :: bool
  se_raw :: "byte list"

record jk_device_info =
  di_ver :: jk_frame_ver
  di_name :: "byte list"
  di_fw_version :: "byte list"
  di_hw_version :: "byte list"

section \<open>Checksum and identification\<close>

definition jk_checksum_ok :: "byte list \<Rightarrow> nat \<Rightarrow> bool" where
  "jk_checksum_ok f len = (if len < 5 then False else sum8 (take (len - 1) f) = f ! (len - 1))"

definition starts_with_magic :: "byte list \<Rightarrow> nat \<Rightarrow> bool" where
  "starts_with_magic p n = (n \<ge> 4 \<and> take 4 p = JK02_MAGIC)"

definition jk_frame_record :: "byte list \<Rightarrow> jk_record" where
  "jk_frame_record f =
     (if \<not> starts_with_magic f (length f) \<or> length f \<le> 4 then JK_REC_NONE
      else if f ! 4 = 0x03 then JK_REC_DEVICE_INFO
      else if f ! 4 = 0x02 then JK_REC_CELL_INFO
      else if f ! 4 = 0x01 then JK_REC_SETTINGS
      else JK_REC_NONE)"

definition jk_detect_version :: "byte list \<Rightarrow> jk_frame_ver" where
  "jk_detect_version f =
     (if starts_with_magic f (length f) then JK_FRAME_JK02_32S else JK_FRAME_UNKNOWN)"

section \<open>Reassembly\<close>

record jk_reasm =
  r_buf :: "byte list"
  r_have :: nat
  r_want :: nat
  r_ver :: jk_frame_ver

definition jk_reasm_init :: "jk_frame_ver \<Rightarrow> jk_reasm" where
  "jk_reasm_init ver = \<lparr>r_buf = replicate JK_FRAME_MAX 0, r_have = 0, r_want = 0, r_ver = ver\<rparr>"

definition jk_reasm_reset :: "jk_reasm \<Rightarrow> jk_reasm" where
  "jk_reasm_reset r = r\<lparr>r_have := 0, r_want := 0\<rparr>"

definition frame_target_len :: "jk_frame_ver \<Rightarrow> nat" where
  "frame_target_len ver = JK02_RECORD_LEN"

text \<open>The body of the loop of \<^verbatim>\<open>jk_reasm_push\<close>: one input byte, and the record it completes.\<close>

definition reasm_byte :: "jk_reasm \<Rightarrow> byte \<Rightarrow> jk_reasm \<times> byte list option" where
  "reasm_byte r b =
     (if r_want r = 0 then
        if b = JK02_MAGIC ! r_have r then
          let r1 = r\<lparr>r_buf := (r_buf r)[r_have r := b], r_have := r_have r + 1\<rparr>
          in (if r_have r1 = 4 then r1\<lparr>r_want := frame_target_len (r_ver r1)\<rparr> else r1, None)
        else if b = JK02_MAGIC ! 0 then (r\<lparr>r_have := 1, r_buf := (r_buf r)[0 := b]\<rparr>, None)
        else (r\<lparr>r_have := 0\<rparr>, None)
      else
        let r1 = (if r_have r < JK_FRAME_MAX then r\<lparr>r_buf := (r_buf r)[r_have r := b]\<rparr> else r);
            r2 = r1\<lparr>r_have := r_have r + 1\<rparr>
        in if r_have r2 \<ge> r_want r2 then
             let flen = r_want r2; r3 = jk_reasm_reset r2
             in if flen \<le> JK_FRAME_MAX \<and> jk_checksum_ok (r_buf r3) flen
                then (r3, Some (take flen (r_buf r3))) else (r3, None)
           else (r2, None))"

fun reasm_loop :: "jk_reasm \<Rightarrow> byte list \<Rightarrow> nat \<Rightarrow> jk_reasm \<times> byte list option \<times> nat" where
  "reasm_loop r [] i = (r, None, i)"
| "reasm_loop r (b # bs) i =
     (case reasm_byte r b of
        (r', Some f) \<Rightarrow> (r', Some f, i + 1)
      | (r', None) \<Rightarrow> reasm_loop r' bs (i + 1))"

text \<open>State, the record or NULL, and \<^verbatim>\<open>*consumed\<close>.\<close>

definition jk_reasm_push :: "jk_reasm \<Rightarrow> byte list \<Rightarrow> jk_reasm \<times> byte list option \<times> nat" where
  "jk_reasm_push r data = reasm_loop r data 0"

lemma reasm_loop_count:
  "reasm_loop r bs i = (r', fo, n) \<Longrightarrow>
     i \<le> n \<and> n \<le> i + length bs \<and> (bs \<noteq> [] \<longrightarrow> i < n) \<and> (fo = None \<longrightarrow> n = i + length bs)"
proof (induction bs arbitrary: r i)
  case (Cons b bs)
  then show ?case by (fastforce split: prod.splits option.splits)
qed auto

text \<open>The loop \<^verbatim>\<open>while (off < len)\<close> of \<^verbatim>\<open>on_notify\<close>: the records one notification completes.\<close>

function notify_frames :: "jk_reasm \<Rightarrow> byte list \<Rightarrow> jk_reasm \<times> byte list list" where
  "notify_frames r data =
     (if data = [] then (r, [])
      else case jk_reasm_push r data of
        (r', fo, consumed) \<Rightarrow>
          (case notify_frames r' (drop consumed data) of
             (r'', fs) \<Rightarrow> (r'', (case fo of None \<Rightarrow> fs | Some f \<Rightarrow> f # fs))))"
  by pat_completeness auto
termination
  by (relation "measure (\<lambda>(r, data). length data)")
     (auto simp: jk_reasm_push_def dest!: sym [THEN reasm_loop_count])

declare notify_frames.simps [simp del]

text \<open>A run of notifications.\<close>

fun feed_chunks :: "jk_reasm \<Rightarrow> byte list list \<Rightarrow> jk_reasm \<times> byte list list" where
  "feed_chunks r [] = (r, [])"
| "feed_chunks r (c # cs) =
     (case notify_frames r c of (r', fs) \<Rightarrow>
        (case feed_chunks r' cs of (r'', gs) \<Rightarrow> (r'', fs @ gs)))"

section \<open>Decoders\<close>

text \<open>
  Field offsets are those of \<^verbatim>\<open>jk_proto.c\<close> lines 33 to 52. C division truncates; the cast of the
  64-bit power to \<^verbatim>\<open>int32_t\<close> keeps the low 32 bits.
\<close>

definition c_div :: "int \<Rightarrow> int \<Rightarrow> int" where
  "c_div a b = sgn a * sgn b * (\<bar>a\<bar> div \<bar>b\<bar>)"

definition s16_of :: "u16 \<Rightarrow> int" where
  "s16_of w = sint w"

definition s32_of :: "u32 \<Rightarrow> int" where
  "s32_of w = sint w"

text \<open>The loop over the enabled-cell bitmask; \<open>k\<close> of the source is the length of the result.\<close>

fun decode_cells :: "byte list \<Rightarrow> u32 \<Rightarrow> nat list \<Rightarrow> jk_cell list \<Rightarrow> jk_cell list" where
  "decode_cells f enabled [] cells = cells"
| "decode_cells f enabled (i # is) cells =
     (if length cells < JK_MAX_CELLS then
        if enabled AND push_bit i 1 = 0 then decode_cells f enabled is cells
        else let raw_r = le16 f (80 + i * 2)
             in decode_cells f enabled is
                  (cells @ [\<lparr>c_n = i + 1, c_mv = le16 f (6 + i * 2),
                             c_r_mohm = (if raw_r = 0 then - 1 else uint raw_r)\<rparr>])
      else cells)"

definition jk_decode_cell_info :: "jk_frame_ver \<Rightarrow> byte list \<Rightarrow> jk_cell_info option" where
  "jk_decode_cell_info ver f =
     (if jk_frame_record f \<noteq> JK_REC_CELL_INFO then None
      else if length f < JK02_RECORD_LEN then None
      else let pack_mv = s32_of (le32 f 150); current_ma = s32_of (le32 f 158)
        in Some \<lparr>ci_ver = ver,
                 ci_cells = decode_cells f (le32 f 70) [0..<32] [],
                 ci_pack_mv = pack_mv,
                 ci_current_ma = current_ma,
                 ci_power_mw = s32_of (word_of_int (c_div (pack_mv * current_ma) 1000)),
                 ci_soc_pct = f ! 173,
                 ci_temp_dc = [s16_of (le16 f 162), s16_of (le16 f 164), s16_of (le16 f 144)],
                 ci_cycle_count = le32 f 182,
                 ci_balancing = (f ! 170 \<noteq> 0),
                 ci_charging = (current_ma > 0),
                 ci_discharging = (current_ma < 0),
                 ci_error_bitmask = ucast (le16 f 166),
                 ci_wire_warn_bitmask = le32 f 146\<rparr>)"

text \<open>\<^verbatim>\<open>rd_u32(p) / 1000.0f\<close>: the integer converted to \<^verbatim>\<open>float\<close>, then a \<^verbatim>\<open>float\<close> division.\<close>

definition milli_f32 :: "u32 \<Rightarrow> rat" where
  "milli_f32 w = fl32 (fl32 (of_int (uint w)) / 1000)"

definition jk_decode_settings :: "jk_frame_ver \<Rightarrow> byte list \<Rightarrow> jk_settings option" where
  "jk_decode_settings ver f =
     (if length f < JK02_RECORD_LEN then None
      else if jk_frame_record f \<noteq> JK_REC_SETTINGS then None
      else Some \<lparr>se_ver = ver,
                 se_balance_trigger_v = milli_f32 (le32 f 26),
                 se_balance_start_v = milli_f32 (le32 f 138),
                 se_cell_count_set = le32 f 114,
                 se_balance_current_a = milli_f32 (le32 f 78),
                 se_balancing_enabled = (le32 f 126 \<noteq> 0),
                 se_raw = take (min (length f) JK_SETTINGS_RAW_MAX) f\<rparr>)"

text \<open>The fixed character arrays, zeroed and then filled by \<^verbatim>\<open>memcpy\<close>.\<close>

definition jk_decode_device_info :: "byte list \<Rightarrow> jk_device_info option" where
  "jk_decode_device_info f =
     (if jk_frame_record f \<noteq> JK_REC_DEVICE_INFO then None
      else if length f < 62 then None
      else Some \<lparr>di_ver = jk_detect_version f,
                 di_name = put_bytes 0 (take 16 (drop 46 f)) (replicate 32 0),
                 di_fw_version = put_bytes 0 (take 8 (drop 30 f)) (replicate 16 0),
                 di_hw_version = put_bytes 0 (take 8 (drop 22 f)) (replicate 16 0)\<rparr>)"

section \<open>The reassembler processes a stream\<close>

text \<open>The reference: the bytes one at a time, the records in order.\<close>

fun reasm_run :: "jk_reasm \<Rightarrow> byte list \<Rightarrow> jk_reasm \<times> byte list list" where
  "reasm_run r [] = (r, [])"
| "reasm_run r (b # bs) =
     (case reasm_byte r b of (r', fo) \<Rightarrow>
        (case reasm_run r' bs of (r'', fs) \<Rightarrow> (r'', (case fo of None \<Rightarrow> fs | Some f \<Rightarrow> f # fs))))"

lemma reasm_run_append:
  "reasm_run r (as @ bs) =
     (case reasm_run r as of (r', fs) \<Rightarrow> (case reasm_run r' bs of (r'', gs) \<Rightarrow> (r'', fs @ gs)))"
  by (induction as arbitrary: r) (auto split: prod.splits option.splits)

lemma reasm_loop_run:
  "reasm_loop r bs i = (r', fo, n) \<Longrightarrow>
   reasm_run r bs = (case reasm_run r' (drop (n - i) bs) of
     (r'', fs) \<Rightarrow> (r'', (case fo of None \<Rightarrow> fs | Some f \<Rightarrow> f # fs)))"
proof (induction bs arbitrary: r i)
  case (Cons b bs)
  show ?case
  proof (cases "reasm_byte r b")
    case (Pair r1 fo1)
    show ?thesis
    proof (cases fo1)
      case None
      with Cons.prems Pair have loop: "reasm_loop r1 bs (i + 1) = (r', fo, n)" by simp
      then have "i < n" using reasm_loop_count by fastforce
      then have "drop (n - i) (b # bs) = drop (n - (i + 1)) bs" by (simp add: drop_Cons')
      with Cons.IH [OF loop] Pair None show ?thesis by (auto split: prod.splits)
    qed (use Cons.prems Pair in \<open>auto split: prod.splits\<close>)
  qed
qed auto

lemma notify_frames_run: "notify_frames r data = reasm_run r data"
proof (induction r data rule: notify_frames.induct)
  case (1 r data)
  show ?case
  proof (cases "data = []")
    case True
    then show ?thesis by (simp add: notify_frames.simps)
  next
    case False
    obtain r' fo n where push: "jk_reasm_push r data = (r', fo, n)" by (cases "jk_reasm_push r data") auto
    then have "reasm_run r data = (case reasm_run r' (drop n data) of
        (r'', fs) \<Rightarrow> (r'', (case fo of None \<Rightarrow> fs | Some f \<Rightarrow> f # fs)))"
      using reasm_loop_run [of r data 0 r' fo n] by (simp add: jk_reasm_push_def)
    with False push 1 [OF False push [symmetric] refl] show ?thesis
      by (simp add: notify_frames.simps [of r data])
  qed
qed

lemma feed_chunks_run: "feed_chunks r cs = reasm_run r (concat cs)"
  by (induction cs arbitrary: r) (auto simp: notify_frames_run reasm_run_append split: prod.splits)

section \<open>Soundness\<close>

definition valid_frame :: "byte list \<Rightarrow> bool" where
  "valid_frame f = (length f = JK02_RECORD_LEN \<and> take 4 f = JK02_MAGIC \<and> jk_checksum_ok f JK02_RECORD_LEN)"

definition reasm_wf :: "jk_reasm \<Rightarrow> bool" where
  "reasm_wf r = (length (r_buf r) = JK_FRAME_MAX \<and>
     (if r_want r = 0 then r_have r < 4 \<and> take (r_have r) (r_buf r) = take (r_have r) JK02_MAGIC
      else r_want r = JK02_RECORD_LEN \<and> 4 \<le> r_have r \<and> r_have r < JK02_RECORD_LEN \<and>
           take 4 (r_buf r) = JK02_MAGIC))"

lemmas frame_consts = JK02_RECORD_LEN_def JK_FRAME_MAX_def JK_MAX_CELLS_def JK_SETTINGS_RAW_MAX_def

lemma reasm_wf_init: "reasm_wf (jk_reasm_init ver)"
  by (simp add: reasm_wf_def jk_reasm_init_def)

lemma length_magic [simp]: "length JK02_MAGIC = 4"
  by (simp add: JK02_MAGIC_def)

lemma take_update_next: "i < length xs \<Longrightarrow> take (Suc i) (xs[i := x]) = take i xs @ [x]"
  by (simp add: take_Suc_conv_app_nth)

lemma jk_checksum_ok_take: "5 \<le> n \<Longrightarrow> n \<le> length f \<Longrightarrow> jk_checksum_ok (take n f) n = jk_checksum_ok f n"
  by (simp add: jk_checksum_ok_def)

text \<open>One byte while hunting for the start magic.\<close>

lemma reasm_byte_hunt:
  assumes "reasm_wf r" "r_want r = 0" "reasm_byte r b = (r', fo)"
  shows "fo = None" and "reasm_wf r'" and
    "take (r_have r') (r_buf r') = take (r_have r) (r_buf r) @ [b] \<or>
     take (r_have r') (r_buf r') = [b] \<or> r_have r' = 0"
proof -
  let ?h = "r_have r"
  from assms(1,2) have wf: "length (r_buf r) = JK_FRAME_MAX" "?h < 4"
    "take ?h (r_buf r) = take ?h JK02_MAGIC" by (auto simp: reasm_wf_def)
  have step: "take (Suc ?h) ((r_buf r)[?h := b]) = take ?h (r_buf r) @ [b]"
    using wf by (intro take_update_next) (simp add: frame_consts)
  have one: "take (Suc 0) ((r_buf r)[0 := b]) = [b]"
    using wf by (cases "r_buf r") (simp_all add: frame_consts)
  have grow: "take (Suc ?h) JK02_MAGIC = take ?h JK02_MAGIC @ [JK02_MAGIC ! ?h]"
    using wf(2) by (simp add: take_Suc_conv_app_nth)
  have lock: "take 4 ((r_buf r)[3 := b]) = JK02_MAGIC" if "?h = 3" "b = JK02_MAGIC ! 3"
    using step grow that wf(3) by (simp add: numeral_eq_Suc)
  from assms show "fo = None" by (auto simp: reasm_byte_def Let_def split: if_splits)
  show "reasm_wf r'"
    using assms(2,3) wf step grow lock one
    by (auto simp: reasm_byte_def Let_def reasm_wf_def frame_target_len_def frame_consts split: if_splits)
      (simp_all add: numeral_eq_Suc JK02_MAGIC_def)
  show "take (r_have r') (r_buf r') = take ?h (r_buf r) @ [b] \<or>
     take (r_have r') (r_buf r') = [b] \<or> r_have r' = 0"
    using assms(2,3) step one by (auto simp: reasm_byte_def Let_def split: if_splits)
qed

text \<open>One byte of a record whose start has been found: it is stored, and the 300th ends the record.\<close>

lemma reasm_byte_fill:
  assumes "reasm_wf r" "r_want r \<noteq> 0" "Suc (r_have r) < JK02_RECORD_LEN"
  obtains r' where "reasm_byte r b = (r', None)" "reasm_wf r'" "r_want r' \<noteq> 0" "r_have r' = Suc (r_have r)"
    "take (r_have r') (r_buf r') = take (r_have r) (r_buf r) @ [b]"
proof
  let ?r' = "r\<lparr>r_buf := (r_buf r)[r_have r := b], r_have := Suc (r_have r)\<rparr>"
  from assms show "reasm_byte r b = (?r', None)" "reasm_wf ?r'" "r_want ?r' \<noteq> 0"
    by (auto simp: reasm_wf_def reasm_byte_def Let_def frame_consts)
  show "take (r_have ?r') (r_buf ?r') = take (r_have r) (r_buf r) @ [b]"
    using assms by (simp add: reasm_wf_def take_update_next frame_consts)
qed simp

lemma reasm_byte_end:
  assumes "reasm_wf r" "r_want r \<noteq> 0" "Suc (r_have r) = JK02_RECORD_LEN"
    and f: "f = take (r_have r) (r_buf r) @ [b]"
  obtains r' where "reasm_byte r b = (r', if valid_frame f then Some f else None)"
    "reasm_wf r'" "r_want r' = 0" "r_have r' = 0"
proof
  let ?buf = "(r_buf r)[r_have r := b]"
  let ?r' = "r\<lparr>r_buf := ?buf, r_have := 0, r_want := 0\<rparr>"
  from assms have want: "r_want r = JK02_RECORD_LEN" and len: "length ?buf = JK_FRAME_MAX"
    and magic: "take 4 (r_buf r) = JK02_MAGIC" and have299: "r_have r = 299"
    by (auto simp: reasm_wf_def frame_consts)
  have tk: "take JK02_RECORD_LEN ?buf = f"
    using assms len take_update_next [of "r_have r" "r_buf r" b] by (simp add: frame_consts)
  have "valid_frame f = jk_checksum_ok ?buf JK02_RECORD_LEN"
    using jk_checksum_ok_take [of JK02_RECORD_LEN ?buf] len magic have299 unfolding tk [symmetric]
    by (simp add: valid_frame_def frame_consts min_def)
  then show "reasm_byte r b = (?r', if valid_frame f then Some f else None)"
    using assms(2,3) want tk have299
    by (simp add: reasm_byte_def Let_def jk_reasm_reset_def frame_consts)
  show "reasm_wf ?r'" using len by (simp add: reasm_wf_def)
qed simp_all

text \<open>
  What the buffer holds is always the end of what has been received: so a record handed out is a
  contiguous piece of the stream.
\<close>

definition reasm_held :: "jk_reasm \<Rightarrow> byte list" where
  "reasm_held r = take (r_have r) (r_buf r)"

lemma reasm_byte_inv:
  assumes wf: "reasm_wf r" and hold: "suffix (reasm_held r) s" and step: "reasm_byte r b = (r', fo)"
  shows "reasm_wf r' \<and> suffix (reasm_held r') (s @ [b]) \<and>
    (\<forall>f. fo = Some f \<longrightarrow> valid_frame f \<and> suffix f (s @ [b]))"
proof (cases "r_want r = 0")
  case True
  from reasm_byte_hunt [OF wf True step] hold show ?thesis
    by (auto simp: reasm_held_def suffix_def)
next
  case False
  from wf False have "r_have r < JK02_RECORD_LEN" by (simp add: reasm_wf_def)
  then consider "Suc (r_have r) < JK02_RECORD_LEN" | "Suc (r_have r) = JK02_RECORD_LEN" by linarith
  then show ?thesis
  proof cases
    case 1
    obtain r1 where "reasm_byte r b = (r1, None)" "reasm_wf r1"
      "take (r_have r1) (r_buf r1) = take (r_have r) (r_buf r) @ [b]"
      by (rule reasm_byte_fill [OF wf False 1, of b])
    with hold step show ?thesis by (auto simp: reasm_held_def suffix_def)
  next
    case 2
    obtain r1 where "reasm_byte r b = (r1, if valid_frame (reasm_held r @ [b]) then Some (reasm_held r @ [b]) else None)"
      "reasm_wf r1" "r_have r1 = 0"
      by (rule reasm_byte_end [OF wf False 2 refl, of b, folded reasm_held_def])
    with hold step show ?thesis by (auto simp: reasm_held_def suffix_def split: if_splits)
  qed
qed

lemma reasm_run_sound:
  assumes "reasm_wf r" "suffix (reasm_held r) s" "reasm_run r bs = (r', fs)" "f \<in> set fs"
  shows "valid_frame f \<and> sublist f (s @ bs)"
  using assms
proof (induction bs arbitrary: r s fs)
  case (Cons b bs)
  obtain r1 fo where step: "reasm_byte r b = (r1, fo)" by fastforce
  obtain r2 gs where rest: "reasm_run r1 bs = (r2, gs)" by fastforce
  note inv = reasm_byte_inv [OF Cons.prems(1,2) step]
  from Cons.prems(3,4) step rest consider "fo = Some f" | "f \<in> set gs" by (auto split: option.splits)
  then show ?case
  proof cases
    case 1
    with inv have "valid_frame f" "sublist f (s @ [b])" by (auto intro: suffix_imp_sublist)
    then show ?thesis using sublist_order.order.trans [of f "s @ [b]" "(s @ [b]) @ bs"] by simp
  next
    case 2
    with Cons.IH [of r1 "s @ [b]" gs] inv rest Cons.prems(3) step show ?thesis by auto
  qed
qed simp

section \<open>Completeness\<close>

lemma reasm_run_noise:
  assumes "reasm_wf r" "r_want r = 0" "\<not> sublist JK02_MAGIC (take (r_have r) JK02_MAGIC @ bs)"
  obtains r' where "reasm_run r bs = (r', [])" "reasm_wf r'" "r_want r' = 0"
  using assms
proof (induction bs arbitrary: r thesis)
  case (Cons b bs)
  obtain r1 fo where step: "reasm_byte r b = (r1, fo)" by fastforce
  note hunt = reasm_byte_hunt [OF Cons.prems(2,3) step]
  have "r_have r < 4" using Cons.prems(2,3) by (simp add: reasm_wf_def)
  then have grow: "take (Suc (r_have r)) JK02_MAGIC = take (r_have r) JK02_MAGIC @ [JK02_MAGIC ! r_have r]"
    by (simp add: take_Suc_conv_app_nth)
  have nobs: "\<not> sublist JK02_MAGIC (b # bs)"
    using Cons.prems(4) sublist_append_leftI sublist_order.order.trans by blast
  have "r_want r1 = 0 \<and> \<not> sublist JK02_MAGIC (take (r_have r1) JK02_MAGIC @ bs)"
  proof (cases "b = JK02_MAGIC ! r_have r")
    case True
    with grow Cons.prems(4) have no: "\<not> sublist JK02_MAGIC (take (Suc (r_have r)) JK02_MAGIC @ bs)" by simp
    then have "Suc (r_have r) \<noteq> 4" by auto
    with True no step Cons.prems(3) show ?thesis by (auto simp: reasm_byte_def Let_def)
  next
    case False
    moreover have "\<not> sublist JK02_MAGIC bs" using nobs by (auto simp: sublist_Cons_right)
    moreover have "take (Suc 0) JK02_MAGIC = [JK02_MAGIC ! 0]" by (simp add: JK02_MAGIC_def)
    ultimately show ?thesis using step Cons.prems(3) nobs
      by (auto simp: reasm_byte_def split: if_splits)
  qed
  then obtain r' where "reasm_run r1 bs = (r', [])" "reasm_wf r'" "r_want r' = 0"
    using Cons.IH [of r1] hunt(2) by blast
  with step hunt(1) show ?case using Cons.prems(1) by auto
qed simp

text \<open>The four magic bytes lock the reassembler, whatever partial match it held.\<close>

lemma reasm_run_magic:
  assumes "reasm_wf r" "r_want r = 0"
  obtains r' where "reasm_run r JK02_MAGIC = (r', [])" "reasm_wf r'" "r_want r' \<noteq> 0"
    "reasm_held r' = JK02_MAGIC"
proof -
  let ?b = "(r_buf r)[0 := 0x55]"
  let ?r' = "r\<lparr>r_buf := ?b[1 := 0xAA, 2 := 0xEB, 3 := 0x90], r_have := 4, r_want := JK02_RECORD_LEN\<rparr>"
  have len: "length (r_buf r) = JK_FRAME_MAX" and have4: "r_have r < 4"
    using assms by (auto simp: reasm_wf_def)
  then have cases4: "r_have r = 0 \<or> r_have r = 1 \<or> r_have r = 2 \<or> r_have r = 3" by auto
  have first: "reasm_byte r 0x55 = (r\<lparr>r_buf := ?b, r_have := 1\<rparr>, None)"
    using assms(2) cases4 by (auto simp: reasm_byte_def JK02_MAGIC_def)
  have run: "reasm_run r JK02_MAGIC = (?r', [])"
    using assms(2) first
    by (simp add: JK02_MAGIC_def reasm_byte_def frame_target_len_def numeral_2_eq_2 numeral_3_eq_3
          eval_nat_numeral)
  have tk: "take 4 (r_buf ?r') = JK02_MAGIC"
    using len take4 [of 0 "r_buf ?r'"] by (simp add: JK02_MAGIC_def frame_consts nth_list_update)
  show thesis
  proof (rule that [OF run])
    show "reasm_wf ?r'" using len tk by (simp add: reasm_wf_def frame_consts)
    show "reasm_held ?r' = JK02_MAGIC" using tk by (simp add: reasm_held_def)
  qed (simp add: frame_consts)
qed

lemma reasm_run_rest:
  assumes "reasm_wf r" "r_want r \<noteq> 0" "valid_frame (reasm_held r @ bs)"
  obtains r' where "reasm_run r bs = (r', [reasm_held r @ bs])" "reasm_wf r'" "r_want r' = 0" "r_have r' = 0"
  using assms
proof (induction bs arbitrary: r thesis)
  case Nil
  then show ?case by (auto simp: reasm_wf_def reasm_held_def valid_frame_def)
next
  case (Cons b bs)
  have lens: "length (r_buf r) = JK_FRAME_MAX" "r_have r < JK02_RECORD_LEN"
    using Cons.prems(2,3) by (auto simp: reasm_wf_def)
  then have total: "r_have r + Suc (length bs) = JK02_RECORD_LEN"
    using Cons.prems(4) by (simp add: valid_frame_def reasm_held_def frame_consts)
  show ?case
  proof (cases "bs = []")
    case True
    with total have "Suc (r_have r) = JK02_RECORD_LEN" by simp
    from reasm_byte_end [OF Cons.prems(2,3) this refl, of b, folded reasm_held_def] obtain r1 where
      "reasm_byte r b = (r1, if valid_frame (reasm_held r @ [b]) then Some (reasm_held r @ [b]) else None)"
      "reasm_wf r1" "r_want r1 = 0" "r_have r1 = 0" .
    with True Cons.prems(1,4) show ?thesis by simp
  next
    case False
    with total have "Suc (r_have r) < JK02_RECORD_LEN" by (cases bs) auto
    from reasm_byte_fill [OF Cons.prems(2,3) this, of b, folded reasm_held_def] obtain r1 where
      r1: "reasm_byte r b = (r1, None)" "reasm_wf r1" "r_want r1 \<noteq> 0" "reasm_held r1 = reasm_held r @ [b]" .
    with Cons.prems(4) have "valid_frame (reasm_held r1 @ bs)" by simp
    from Cons.IH [OF _ r1(2,3) this] obtain r2 where
      "reasm_run r1 bs = (r2, [reasm_held r1 @ bs])" "reasm_wf r2" "r_want r2 = 0" "r_have r2 = 0" .
    with r1(1,4) Cons.prems(1) show ?thesis by simp
  qed
qed

lemma reasm_run_noise_frame:
  assumes "reasm_wf r" "r_want r = 0" "r_have r = 0" "\<not> sublist JK02_MAGIC n" "valid_frame f"
  obtains r' where "reasm_run r (n @ f) = (r', [f])" "reasm_wf r'" "r_want r' = 0" "r_have r' = 0"
proof -
  obtain r1 where r1: "reasm_run r n = (r1, [])" "reasm_wf r1" "r_want r1 = 0"
    using reasm_run_noise [of r n] assms by auto
  obtain r2 where r2: "reasm_run r1 JK02_MAGIC = (r2, [])" "reasm_wf r2" "r_want r2 \<noteq> 0" "reasm_held r2 = JK02_MAGIC"
    using reasm_run_magic [OF r1(2,3)] .
  have f: "f = JK02_MAGIC @ drop 4 f"
    using assms(5) append_take_drop_id [of 4 f] by (simp add: valid_frame_def)
  with r2(4) assms(5) have "valid_frame (reasm_held r2 @ drop 4 f)" by simp
  from reasm_run_rest [OF r2(2,3) this] obtain r3 where
    r3: "reasm_run r2 (drop 4 f) = (r3, [f])" "reasm_wf r3" "r_want r3 = 0" "r_have r3 = 0"
    using r2(4) f by metis
  have "reasm_run r (n @ JK02_MAGIC @ drop 4 f) = (r3, [f])"
    using r1(1) r2(1) r3(1) by (simp add: reasm_run_append)
  with f r3 that show thesis by metis
qed

lemma reasm_run_complete:
  assumes "reasm_wf r" "r_want r = 0" "r_have r = 0" "\<not> sublist JK02_MAGIC t"
    "list_all (\<lambda>(n, f). \<not> sublist JK02_MAGIC n \<and> valid_frame f) nfs"
  shows "snd (reasm_run r (concat (map (\<lambda>(n, f). n @ f) nfs) @ t)) = map snd nfs"
  using assms
proof (induction nfs arbitrary: r)
  case Nil
  then obtain r' where "reasm_run r t = (r', [])" using reasm_run_noise [of r t] by auto
  then show ?case by simp
next
  case (Cons nf nfs)
  obtain n f where nf: "nf = (n, f)" by fastforce
  with Cons.prems have "\<not> sublist JK02_MAGIC n" "valid_frame f" by auto
  from reasm_run_noise_frame [OF Cons.prems(1,2,3) this] obtain r' where
    "reasm_run r (n @ f) = (r', [f])" "reasm_wf r'" "r_want r' = 0" "r_have r' = 0" .
  moreover from this have "snd (reasm_run r' (concat (map (\<lambda>(n, f). n @ f) nfs) @ t)) = map snd nfs"
    using Cons by simp
  ultimately show ?case
    using nf by (simp add: reasm_run_append [of r "n @ f", simplified] case_prod_beta')
qed

section \<open>What the reassembler promises\<close>

definition sample_frame :: "byte list" where
  "sample_frame = JK02_MAGIC @ 0x02 # replicate 294 0 @ [0x7C]"

lemma sample_frame_valid: "valid_frame sample_frame"
proof -
  have "take 299 sample_frame = JK02_MAGIC @ 0x02 # replicate 294 0" "sample_frame ! 299 = 0x7C"
    by (simp_all add: sample_frame_def nth_append)
  then show ?thesis
    by (simp add: valid_frame_def jk_checksum_ok_def frame_consts)
      (simp add: sample_frame_def sum8_sum_list JK02_MAGIC_def sum_list_replicate)
qed

lemma no_magic_short: "length n < 4 \<Longrightarrow> \<not> sublist JK02_MAGIC n"
  using sublist_length_le by fastforce

text \<open>
  C6. The reassembler delivers every record. Take any stream made of checksum-valid 300-byte
  records with arbitrary bytes before, between and after them in which the start magic does not
  occur: however the notifications cut the stream into chunks, a fresh reassembler fed chunk by
  chunk by the loop of \<^verbatim>\<open>on_notify\<close> hands out exactly these records, in order.
\<close>

theorem reasm_delivers_every_record:
  assumes "concat cs = concat (map (\<lambda>(n, f). n @ f) nfs) @ t"
    and "list_all (\<lambda>(n, f). \<not> sublist JK02_MAGIC n \<and> valid_frame f) nfs" and "\<not> sublist JK02_MAGIC t"
  shows "snd (feed_chunks (jk_reasm_init ver) cs) = map snd nfs"
proof -
  have "r_want (jk_reasm_init ver) = 0" "r_have (jk_reasm_init ver) = 0"
    by (simp_all add: jk_reasm_init_def)
  from reasm_run_complete [OF reasm_wf_init this assms(3,2)] assms(1) show ?thesis
    by (simp add: feed_chunks_run)
qed

theorem reasm_delivers_every_record_witness:
  "snd (feed_chunks (jk_reasm_init JK_FRAME_UNKNOWN)
     [0x55 # take 100 sample_frame, drop 100 sample_frame @ [0xAA, 0x55], sample_frame @ [0x01]])
   = [sample_frame, sample_frame]"
  using reasm_delivers_every_record [of
      "[0x55 # take 100 sample_frame, drop 100 sample_frame @ [0xAA, 0x55], sample_frame @ [0x01]]"
      "[([0x55], sample_frame), ([0xAA, 0x55], sample_frame)]" "[0x01]" JK_FRAME_UNKNOWN]
  by (simp add: sample_frame_valid no_magic_short)

text \<open>
  C7. The reassembler delivers nothing else: from power-up, on every sequence of notifications,
  noise and damaged records included, each record handed out has 300 bytes, begins with the magic,
  carries the right checksum, and is a contiguous piece of the bytes received.
\<close>

theorem reasm_delivers_only_records:
  assumes "feed_chunks (jk_reasm_init ver) cs = (r', fs)" and "f \<in> set fs"
  shows "length f = 300 \<and> starts_with_magic f (length f) \<and> jk_checksum_ok f (length f) \<and> sublist f (concat cs)"
proof -
  have "suffix (reasm_held (jk_reasm_init ver)) []" by (simp add: reasm_held_def jk_reasm_init_def)
  with reasm_run_sound [OF reasm_wf_init, of ver "[]"] assms show ?thesis
    by (fastforce simp: feed_chunks_run valid_frame_def starts_with_magic_def frame_consts)
qed

theorem reasm_delivers_only_records_witness:
  "jk_checksum_ok sample_frame 300 \<and> sublist sample_frame (concat [[0x55], sample_frame])"
proof -
  have "snd (feed_chunks (jk_reasm_init JK_FRAME_UNKNOWN) [[0x55], sample_frame]) = [sample_frame]"
    using reasm_run_complete [OF reasm_wf_init _ _ no_magic_short, of JK_FRAME_UNKNOWN "[]" "[([0x55], sample_frame)]"]
    by (simp add: feed_chunks_run jk_reasm_init_def sample_frame_valid no_magic_short del: reasm_run.simps)
  moreover obtain r' fs where run: "feed_chunks (jk_reasm_init JK_FRAME_UNKNOWN) [[0x55], sample_frame] = (r', fs)"
    by fastforce
  ultimately have "sample_frame \<in> set fs" by simp
  from reasm_delivers_only_records [OF run this] show ?thesis by auto
qed

text \<open>
  C26. The split into notifications is irrelevant in every state: two cuts of the same bytes leave
  the reassembler in the same state and give the same records. In particular the loop of
  \<^verbatim>\<open>on_notify\<close> loses no byte after a record that ends inside a chunk.
\<close>

theorem reasm_chunk_independent:
  assumes "concat cs = concat ds"
  shows "feed_chunks r cs = feed_chunks r ds"
  by (simp add: feed_chunks_run assms)

theorem reasm_chunk_independent_witness:
  "feed_chunks (jk_reasm_init JK_FRAME_UNKNOWN) [sample_frame, [1]] =
   feed_chunks (jk_reasm_init JK_FRAME_UNKNOWN) [take 7 sample_frame, drop 7 sample_frame @ [1]]"
  by (rule reasm_chunk_independent) simp

section \<open>The decoded cells\<close>

definition cell_at :: "byte list \<Rightarrow> nat \<Rightarrow> jk_cell" where
  "cell_at f i = \<lparr>c_n = i + 1, c_mv = le16 f (6 + i * 2),
     c_r_mohm = (if le16 f (80 + i * 2) = 0 then - 1 else uint (le16 f (80 + i * 2)))\<rparr>"

lemma decode_cells_filter:
  "length cells + length is \<le> JK_MAX_CELLS \<Longrightarrow> list_all (\<lambda>i. i < 32) is \<Longrightarrow>
   decode_cells f enabled is cells = cells @ map (cell_at f) (filter (bit enabled) is)"
  by (induction "is" arbitrary: cells) (auto simp: and_exp_eq_0_iff_not_bit cell_at_def Let_def)

text \<open>
  The cells decoded from a cell-info record are exactly those of the enabled-cell bitmask at
  offset 70, in order, with their 1-based number, the voltage at \<open>6 + 2 i\<close> and the wire
  resistance at \<open>80 + 2 i\<close> (zero, a failed measurement, becoming \<open>-1\<close>); the table bound of 32
  never cuts one off.
\<close>

theorem decoded_cells_are_enabled_cells:
  assumes "jk_decode_cell_info ver f = Some ci"
  shows "ci_cells ci = map (cell_at f) (filter (bit (le32 f 70)) [0..<32])"
proof -
  have "list_all (\<lambda>i. i < 32) [0..<32]" by (simp add: list_all_length)
  with assms decode_cells_filter [of "[]" "[0..<32]"] show ?thesis
    by (auto simp: jk_decode_cell_info_def Let_def frame_consts split: if_splits)
qed

lemma sample_frame_nth: "k < 300 \<Longrightarrow> sample_frame ! k =
   (if k < 4 then JK02_MAGIC ! k else if k = 4 then 0x02 else if k < 299 then 0 else 0x7C)"
  by (auto simp: sample_frame_def nth_append nth_Cons' less_Suc_eq)

lemma length_sample_frame [simp]: "length sample_frame = 300"
  by (simp add: sample_frame_def)

definition sample_cells :: "byte list" where
  "sample_cells = sample_frame[70 := 5, 6 := 0x0A, 7 := 0x0D, 84 := 9]"

theorem decoded_cells_are_enabled_cells_witness:
  "map_option ci_cells (jk_decode_cell_info JK_FRAME_JK02_32S sample_cells) =
   Some [\<lparr>c_n = 1, c_mv = 0x0D0A, c_r_mohm = - 1\<rparr>, \<lparr>c_n = 3, c_mv = 0, c_r_mohm = 9\<rparr>]"
proof -
  have "take 4 sample_cells = JK02_MAGIC"
    using take4 [of 0 sample_cells] by (simp add: sample_cells_def sample_frame_nth JK02_MAGIC_def)
  then have "jk_frame_record sample_cells = JK_REC_CELL_INFO"
    by (simp add: jk_frame_record_def starts_with_magic_def)
      (simp add: sample_cells_def sample_frame_nth)
  then obtain ci where ci: "jk_decode_cell_info JK_FRAME_JK02_32S sample_cells = Some ci"
    by (simp add: jk_decode_cell_info_def Let_def frame_consts sample_cells_def)
  have "le32 sample_cells 70 = 5"
    by (simp add: le32_def sample_cells_def sample_frame_nth)
  moreover have "filter (bit (5 :: u32)) [0..<32] = [0, 2]"
    by code_simp
  ultimately show ?thesis
    using decoded_cells_are_enabled_cells [OF ci] ci
    by (simp add: cell_at_def le16_def sample_cells_def sample_frame_nth)
qed

end
