(* ===== verification/Tunnel_Wire.thy ===== *)
theory Tunnel_Wire
  imports Prelude
begin

text \<open>
  The wire format of the tunnel between the nodes: \<^verbatim>\<open>components/common/include/tunnel_proto.h\<close>, the
  validators of \<^verbatim>\<open>tunnel_validate.h\<close>, and the framing and frame reading that \<^verbatim>\<open>tunnel_srv.c\<close> and
  \<^verbatim>\<open>tunnel_cli.c\<close> share. A message is a type byte, a unit byte and a payload.

  The reader works on the bytes that have arrived: \<open>Wait\<close> is a \<^verbatim>\<open>recv\<close> that blocks for more,
  \<open>Drop\<close> the \<^verbatim>\<open>goto drop\<close> of an over-long frame. Reading is shown to invert framing on every
  sequence of messages, independently of how TCP delivers the bytes.
\<close>

section \<open>Definitions\<close>

definition TUNNEL_BMS_ID_LINK :: byte where "TUNNEL_BMS_ID_LINK = 0xFF"

definition TUNNEL_MAX_PAYLOAD :: nat where "TUNNEL_MAX_PAYLOAD = 512"

definition TUNNEL_HDR_LEN :: nat where "TUNNEL_HDR_LEN = 4"

definition TUNNEL_MAX_WRITE_DATA :: nat where "TUNNEL_MAX_WRITE_DATA = 32"

definition TUN_TABLE :: byte where "TUN_TABLE = 0x01"

definition TUN_IDENT :: byte where "TUN_IDENT = 0x02"

definition TUN_READ_CACHE :: byte where "TUN_READ_CACHE = 0x03"

definition TUN_NOTIFY :: byte where "TUN_NOTIFY = 0x04"

definition TUN_WRITE :: byte where "TUN_WRITE = 0x05"

definition TUN_WRITE_RESULT :: byte where "TUN_WRITE_RESULT = 0x06"

definition TUN_LINK :: byte where "TUN_LINK = 0x07"

definition TUN_CLIENT :: byte where "TUN_CLIENT = 0x08"

definition TUN_TABLE_REQ :: byte where "TUN_TABLE_REQ = 0x09"

definition TUN_PING :: byte where "TUN_PING = 0x0A"

definition TUN_RAW :: byte where "TUN_RAW = 0x0B"

lemmas tun_types = TUN_TABLE_def TUN_IDENT_def TUN_READ_CACHE_def TUN_NOTIFY_def TUN_WRITE_def
  TUN_WRITE_RESULT_def TUN_LINK_def TUN_CLIENT_def TUN_TABLE_REQ_def TUN_PING_def TUN_RAW_def

lemmas tun_consts = TUNNEL_BMS_ID_LINK_def TUNNEL_MAX_PAYLOAD_def TUNNEL_HDR_LEN_def TUNNEL_MAX_WRITE_DATA_def

datatype tunnel_link_state = LINK_UNREACHABLE | LINK_REACHABLE_IDLE | LINK_UP

datatype tunnel_write_status = TUN_WR_OK | TUN_WR_TIMEOUT | TUN_WR_LINK_DOWN | TUN_WR_GATT_ERR

text \<open>The enumeration values as wire bytes.\<close>

fun link_byte :: "tunnel_link_state \<Rightarrow> byte" where
  "link_byte LINK_UNREACHABLE = 0"
| "link_byte LINK_REACHABLE_IDLE = 1"
| "link_byte LINK_UP = 2"

fun status_byte :: "tunnel_write_status \<Rightarrow> byte" where
  "status_byte TUN_WR_OK = 0"
| "status_byte TUN_WR_TIMEOUT = 1"
| "status_byte TUN_WR_LINK_DOWN = 2"
| "status_byte TUN_WR_GATT_ERR = 3"

text \<open>\<^verbatim>\<open>sizeof(tunnel_char_desc_t)\<close>, packed: two 16-bit UUIDs and a property byte.\<close>

record tunnel_char_desc =
  cd_svc_uuid :: u16
  cd_chr_uuid :: u16
  cd_props :: byte

definition sizeof_char_desc :: nat where "sizeof_char_desc = 5"

definition desc_bytes :: "tunnel_char_desc \<Rightarrow> byte list" where
  "desc_bytes d = bytes16 (cd_svc_uuid d) @ bytes16 (cd_chr_uuid d) @ [cd_props d]"

text \<open>\<^verbatim>\<open>memcpy(bp.chars, pl + 1, n * sizeof(tunnel_char_desc_t))\<close> read back as descriptors.\<close>

fun descs_of_bytes :: "nat \<Rightarrow> byte list \<Rightarrow> tunnel_char_desc list" where
  "descs_of_bytes 0 p = []"
| "descs_of_bytes (Suc n) p =
     \<lparr>cd_svc_uuid = le16 p 0, cd_chr_uuid = le16 p 2, cd_props = p ! 4\<rparr>
     # descs_of_bytes n (drop sizeof_char_desc p)"

type_synonym tun_msg = "byte \<times> byte \<times> byte list"

text \<open>\<^verbatim>\<open>frame\<close>: the header, the 16-bit length low byte first, the payload.\<close>

definition frame :: "byte \<Rightarrow> byte \<Rightarrow> byte list \<Rightarrow> byte list" where
  "frame type bms_id pl =
     (let len = of_nat (length pl) :: u16 in [type, bms_id, ucast len, ucast (drop_bit 8 len)] @ pl)"

definition tunnel_to_a_valid :: "byte \<Rightarrow> byte \<Rightarrow> byte list \<Rightarrow> nat \<Rightarrow> bool" where
  "tunnel_to_a_valid type bid p units =
     (if length p > TUNNEL_MAX_PAYLOAD then False
      else if type = TUN_PING \<or> type = TUN_TABLE_REQ then bid = TUNNEL_BMS_ID_LINK \<and> length p = 0
      else if type = TUN_CLIENT then unat bid < units \<and> length p = 1 \<and> p ! 0 \<le> 1
      else if type = TUN_WRITE then
        unat bid < units \<and> length p \<ge> 3 \<and> length p \<le> 2 + TUNNEL_MAX_WRITE_DATA \<and> p ! 0 \<le> 1 \<and> p ! 1 \<le> 1
      else False)"

definition tunnel_to_b_valid :: "byte \<Rightarrow> byte \<Rightarrow> byte list \<Rightarrow> nat \<Rightarrow> nat \<Rightarrow> nat \<Rightarrow> bool" where
  "tunnel_to_b_valid type bid p units chars cache_max =
     (if length p > TUNNEL_MAX_PAYLOAD then False
      else if type = TUN_PING then bid = TUNNEL_BMS_ID_LINK \<and> length p = 0
      else if type = TUN_TABLE then
        bid = TUNNEL_BMS_ID_LINK \<and> length p \<ge> 1 \<and> p ! 0 > 0 \<and> unat (p ! 0) \<le> chars \<and>
        length p = 1 + unat (p ! 0) * sizeof_char_desc
      else if unat bid \<ge> units then False
      else if type = TUN_IDENT then length p > 0 \<and> length p < 32
      else if type = TUN_READ_CACHE \<or> type = TUN_NOTIFY \<or> type = TUN_RAW then
        length p \<ge> 1 \<and> length p \<le> cache_max + 1 \<and> unat (p ! 0) < chars
      else if type = TUN_WRITE_RESULT then
        length p = 2 \<and> unat (p ! 0) < chars \<and> p ! 1 \<le> status_byte TUN_WR_GATT_ERR
      else if type = TUN_LINK then length p = 1 \<and> p ! 0 \<le> link_byte LINK_UP
      else False)"

text \<open>
  One turn of the receiving side: \<^verbatim>\<open>read_n\<close> of the header, the length check, \<^verbatim>\<open>read_n\<close> of the payload.
\<close>

datatype recv_result = Wait | Drop | Got byte byte "byte list" "byte list"

definition recv_frame :: "byte list \<Rightarrow> recv_result" where
  "recv_frame s =
     (if length s < TUNNEL_HDR_LEN then Wait
      else let plen = unat (le16 s 2) in
        if plen > TUNNEL_MAX_PAYLOAD then Drop
        else if length (drop TUNNEL_HDR_LEN s) < plen then Wait
        else Got (s ! 0) (s ! 1) (take plen (drop TUNNEL_HDR_LEN s)) (drop (TUNNEL_HDR_LEN + plen) s))"

text \<open>
  All frames of what has arrived: the messages, the bytes of an unfinished frame, and whether the
  connection was dropped.
\<close>

function recv_frames :: "byte list \<Rightarrow> tun_msg list \<times> byte list \<times> bool" where
  "recv_frames s =
     (case recv_frame s of
        Wait \<Rightarrow> ([], s, False)
      | Drop \<Rightarrow> ([], s, True)
      | Got t i p s' \<Rightarrow> (case recv_frames s' of (ms, r, d) \<Rightarrow> ((t, i, p) # ms, r, d)))"
  by pat_completeness auto
termination
  by (relation "measure length") (auto simp: recv_frame_def Let_def TUNNEL_HDR_LEN_def split: if_splits)

declare recv_frames.simps [simp del]

section \<open>Framing and reading\<close>

definition encode :: "tun_msg list \<Rightarrow> byte list" where
  "encode ms = concat (map (\<lambda>(t, i, p). frame t i p) ms)"

definition msg_ok :: "tun_msg \<Rightarrow> bool" where
  "msg_ok m = (length (snd (snd m)) \<le> TUNNEL_MAX_PAYLOAD)"

lemma length_frame: "length (frame t i p) = TUNNEL_HDR_LEN + length p"
  by (simp add: frame_def Let_def TUNNEL_HDR_LEN_def)

lemma frame_len_field:
  assumes "length p \<le> TUNNEL_MAX_PAYLOAD"
  shows "unat (le16 (frame t i p @ s) 2) = length p"
proof -
  have "take 2 (drop 2 (frame t i p @ s)) = bytes16 (of_nat (length p))"
    by (simp add: frame_def Let_def bytes16_def)
  then have "le16 (frame t i p @ s) 2 = of_nat (length p)"
    by (intro le16_at) (simp_all add: length_frame TUNNEL_HDR_LEN_def)
  then show ?thesis using assms
    by (simp add: unat_of_nat TUNNEL_MAX_PAYLOAD_def take_bit_nat_eq_self)
qed

lemma recv_frame_frame:
  assumes "length p \<le> TUNNEL_MAX_PAYLOAD"
  shows "recv_frame (frame t i p @ s) = Got t i p s"
  using frame_len_field [OF assms, of t i s] assms
  by (simp add: recv_frame_def Let_def length_frame) (simp add: frame_def Let_def TUNNEL_HDR_LEN_def)

lemma recv_frames_encode:
  "list_all msg_ok ms \<Longrightarrow> recv_frames (encode ms @ s) =
     (case recv_frames s of (ms', r, d) \<Rightarrow> (ms @ ms', r, d))"
proof (induction ms)
  case (Cons m ms)
  obtain t i p where m: "m = (t, i, p)" by (cases m)
  with Cons.prems have "recv_frame (frame t i p @ encode ms @ s) = Got t i p (encode ms @ s)"
    by (intro recv_frame_frame) (simp add: msg_ok_def)
  with Cons m show ?case
    by (simp add: encode_def recv_frames.simps [of "frame t i p @ _"] split: prod.splits)
qed (simp add: encode_def split: prod.splits)

lemma recv_frames_short: "length s < TUNNEL_HDR_LEN \<Longrightarrow> recv_frames s = ([], s, False)"
  by (simp add: recv_frames.simps recv_frame_def)

text \<open>A strict prefix of a frame is waited for.\<close>

lemma recv_frame_prefix_waits:
  assumes "length p \<le> TUNNEL_MAX_PAYLOAD" "n < length (frame t i p)"
  shows "recv_frame (take n (frame t i p)) = Wait"
proof (cases "n < 4")
  case False
  let ?f = "frame t i p"
  have "take 2 (drop 2 (take n ?f)) = take 2 (drop 2 ?f)"
    using False by (simp add: drop_take min_def)
  then have "le16 (take n ?f) 2 = le16 ?f 2"
    using False assms(2) by (intro le16_cong) (simp_all add: length_frame TUNNEL_HDR_LEN_def)
  then have "unat (le16 (take n ?f) 2) = length p" using frame_len_field [OF assms(1), of t i "[]"] by simp
  with False assms show ?thesis by (simp add: recv_frame_def Let_def length_frame TUNNEL_HDR_LEN_def)
qed (simp add: recv_frame_def TUNNEL_HDR_LEN_def min_less_iff_disj)

text \<open>
  C16. The tunnel delivers messages intact. When a node frames any sequence of messages with payloads
  of at most 512 bytes, the peer's reader recovers exactly these messages in order from the byte
  stream, with nothing left over; and after any prefix of the stream that ends inside the frame of
  a further message, it has delivered exactly the messages completed so far and keeps waiting with
  the unfinished bytes, never dropping the connection.
\<close>

theorem tunnel_stream_roundtrip:
  assumes "list_all msg_ok ms" and "length p \<le> TUNNEL_MAX_PAYLOAD" and "n < length (frame t i p)"
  shows "recv_frames (encode ms) = (ms, [], False) \<and>
    recv_frames (encode ms @ take n (frame t i p)) = (ms, take n (frame t i p), False)"
proof
  have "recv_frames [] = ([], [], False)" by (rule recv_frames_short) (simp add: TUNNEL_HDR_LEN_def)
  with recv_frames_encode [OF assms(1), of "[]"] show "recv_frames (encode ms) = (ms, [], False)" by simp
  have "recv_frames (take n (frame t i p)) = ([], take n (frame t i p), False)"
    using recv_frame_prefix_waits [OF assms(2,3)] by (simp add: recv_frames.simps)
  with recv_frames_encode [OF assms(1)] show
    "recv_frames (encode ms @ take n (frame t i p)) = (ms, take n (frame t i p), False)" by simp
qed

theorem tunnel_stream_roundtrip_witness:
  "recv_frames (encode [(TUN_LINK, 1, [2]), (TUN_PING, 0xFF, [])]) = ([(TUN_LINK, 1, [2]), (TUN_PING, 0xFF, [])], [], False)"
  using tunnel_stream_roundtrip [of "[(TUN_LINK, 1, [2]), (TUN_PING, 0xFF, [])]" "[]" 0 0 0]
  by (simp add: msg_ok_def tun_consts frame_def)

section \<open>A peer and its validator\<close>

lemma le16_append: "Suc k < length m \<Longrightarrow> le16 (m @ s) k = le16 m k"
  by (simp add: le16_def nth_append)

lemma recv_frame_append: "recv_frame m = Got t i p r \<Longrightarrow> recv_frame (m @ s) = Got t i p (r @ s)"
  by (auto simp: recv_frame_def Let_def le16_append nth_append TUNNEL_HDR_LEN_def split: if_splits)

lemma unit_byte: "i < n \<Longrightarrow> n \<le> 255 \<Longrightarrow> unat (of_nat i :: byte) = i"
  by (simp add: unat_of_nat take_bit_nat_eq_self)

text \<open>What reader and validator of the peer make of one queued frame.\<close>

definition accepted_by :: "(byte \<Rightarrow> byte \<Rightarrow> byte list \<Rightarrow> bool) \<Rightarrow> byte list \<Rightarrow> bool" where
  "accepted_by valid m = (case recv_frame m of Got t i p r \<Rightarrow> r = [] \<and> valid t i p | _ \<Rightarrow> False)"

locale peer =
  fixes valid :: "byte \<Rightarrow> byte \<Rightarrow> byte list \<Rightarrow> bool"
  assumes payload_bound: "valid t i p \<Longrightarrow> length p \<le> TUNNEL_MAX_PAYLOAD"
begin

lemma accepted_frame: "valid t i p \<Longrightarrow> accepted_by valid (frame t i p)"
  using recv_frame_frame [of p t i "[]"] payload_bound [of t i p] by (simp add: accepted_by_def)

lemma accepted_stream:
  "list_all (accepted_by valid) ms \<Longrightarrow>
     \<exists>xs. recv_frames (concat ms) = (xs, [], False) \<and> list_all (\<lambda>(t, i, p). valid t i p) xs \<and> length xs = length ms"
proof (induction ms)
  case Nil
  show ?case by (simp add: recv_frames_short TUNNEL_HDR_LEN_def)
next
  case (Cons m ms)
  then obtain xs where xs: "recv_frames (concat ms) = (xs, [], False)" "list_all (\<lambda>(t, i, p). valid t i p) xs" "length xs = length ms"
    by auto
  from Cons.prems obtain t i p where m: "recv_frame m = Got t i p []" "valid t i p"
    by (auto simp: accepted_by_def split: recv_result.splits)
  from recv_frame_append [OF m(1), of "concat ms"] xs m(2) show ?case by (simp add: recv_frames.simps [of "m @ _"])
qed

end

interpretation to_a: peer "\<lambda>t i p. tunnel_to_a_valid t i p n" for n
  by unfold_locales (simp add: tunnel_to_a_valid_def split: if_splits)

interpretation to_b: peer "\<lambda>t i p. tunnel_to_b_valid t i p n k c" for n k c
  by unfold_locales (simp add: tunnel_to_b_valid_def split: if_splits)

section \<open>The blueprint\<close>

lemma length_desc_bytes [simp]: "length (desc_bytes d) = sizeof_char_desc"
  by (simp add: desc_bytes_def sizeof_char_desc_def)

lemma desc_bytes_fields:
  "le16 (desc_bytes d @ s) 0 = cd_svc_uuid d" "le16 (desc_bytes d @ s) 2 = cd_chr_uuid d"
  "(desc_bytes d @ s) ! 4 = cd_props d"
  by (rule le16_at; simp add: desc_bytes_def bytes16_def)+
     (simp add: desc_bytes_def bytes16_def)

lemma length_concat_descs: "length (concat (map desc_bytes ds)) = length ds * sizeof_char_desc"
  by (induction ds) simp_all

lemma descs_of_bytes_desc_bytes: "descs_of_bytes (length ds) (concat (map desc_bytes ds)) = ds"
  by (induction ds) (simp_all add: desc_bytes_fields)

end
