(* ===== verification/State_Cache.thy ===== *)
theory State_Cache
  imports Jk_Frame Tunnel_Wire
begin

text \<open>
  The per-unit state of node A: \<^verbatim>\<open>node_a/main/na_types.h\<close> (runtime state) and
  \<^verbatim>\<open>node_a/main/state_cache.c\<close>. The table \<^verbatim>\<open>s_state\<close> is a list with one entry per unit; every
  operation is one critical section of the mutex, hence one atomic function on the table. The
  lemmas give the contract the other tasks rely on: operations on different units commute,
  timestamps never move back, and an unchanged \<^verbatim>\<open>idle_epoch\<close> proves that no app or link edge
  happened in between, which is what the idle-release fence of the supervisor needs.
\<close>

section \<open>Definitions\<close>

record bms_runtime =
  brt_link :: tunnel_link_state
  brt_app_connected :: bool
  brt_link_held :: bool
  brt_backoff_ms :: u32
  brt_last_seen_us :: time_us
  brt_last_frame_us :: time_us
  brt_app_left_us :: time_us
  brt_meas_in_progress :: bool
  brt_idle_epoch :: u64
  brt_link_up_us :: time_us

record bms_state =
  st_have_cells :: bool
  st_have_settings :: bool
  st_cells :: jk_cell_info
  st_settings :: jk_settings
  st_rt :: bms_runtime

text \<open>The results of \<^verbatim>\<open>memset(..., 0, ...)\<close>.\<close>

definition zero_runtime :: bms_runtime where
  "zero_runtime = \<lparr>brt_link = LINK_UNREACHABLE, brt_app_connected = False, brt_link_held = False,
     brt_backoff_ms = 0, brt_last_seen_us = 0, brt_last_frame_us = 0, brt_app_left_us = 0,
     brt_meas_in_progress = False, brt_idle_epoch = 0, brt_link_up_us = 0\<rparr>"

definition zero_cell_info :: jk_cell_info where
  "zero_cell_info = \<lparr>ci_ver = JK_FRAME_UNKNOWN, ci_cells = [], ci_pack_mv = 0, ci_current_ma = 0,
     ci_power_mw = 0, ci_soc_pct = 0, ci_temp_dc = [], ci_cycle_count = 0, ci_balancing = False,
     ci_charging = False, ci_discharging = False, ci_error_bitmask = 0, ci_wire_warn_bitmask = 0\<rparr>"

definition zero_settings :: jk_settings where
  "zero_settings = \<lparr>se_ver = JK_FRAME_UNKNOWN, se_balance_trigger_v = 0, se_balance_start_v = 0,
     se_cell_count_set = 0, se_balance_current_a = 0, se_balancing_enabled = False, se_raw = []\<rparr>"

definition state_cache_init :: "nat \<Rightarrow> bms_state list" where
  "state_cache_init units = replicate units
     \<lparr>st_have_cells = False, st_have_settings = False, st_cells = zero_cell_info, st_settings = zero_settings,
      st_rt = zero_runtime\<lparr>brt_link := LINK_REACHABLE_IDLE\<rparr>\<rparr>"

definition upd_rt :: "nat \<Rightarrow> (bms_runtime \<Rightarrow> bms_runtime) \<Rightarrow> bms_state list \<Rightarrow> bms_state list" where
  "upd_rt i f = upd_unit i (\<lambda>s. s\<lparr>st_rt := f (st_rt s)\<rparr>)"

definition state_set_cells :: "nat \<Rightarrow> jk_cell_info \<Rightarrow> bms_state list \<Rightarrow> bms_state list" where
  "state_set_cells i ci = upd_unit i (\<lambda>s. s\<lparr>st_cells := ci, st_have_cells := True\<rparr>)"

definition state_set_settings :: "nat \<Rightarrow> jk_settings \<Rightarrow> bms_state list \<Rightarrow> bms_state list" where
  "state_set_settings i se = upd_unit i (\<lambda>s. s\<lparr>st_settings := se, st_have_settings := True\<rparr>)"

definition set_app_connected :: "bool \<Rightarrow> time_us \<Rightarrow> bms_runtime \<Rightarrow> bms_runtime" where
  "set_app_connected conn now_us rt =
     (let rt = (if brt_app_connected rt \<noteq> conn then rt\<lparr>brt_idle_epoch := brt_idle_epoch rt + 1\<rparr> else rt)
      in rt\<lparr>brt_app_connected := conn, brt_app_left_us := (if conn then 0 else now_us)\<rparr>)"

definition state_set_app_connected :: "nat \<Rightarrow> bool \<Rightarrow> time_us \<Rightarrow> bms_state list \<Rightarrow> bms_state list" where
  "state_set_app_connected i conn now_us = upd_rt i (set_app_connected conn now_us)"

definition set_link_state :: "tunnel_link_state \<Rightarrow> bool \<Rightarrow> time_us \<Rightarrow> bms_runtime \<Rightarrow> bms_runtime" where
  "set_link_state link held seen_us rt =
     (let rt = (if brt_link_held rt \<noteq> held then
                  let rt = rt\<lparr>brt_idle_epoch := brt_idle_epoch rt + 1\<rparr>
                  in if held \<and> seen_us > brt_link_up_us rt then rt\<lparr>brt_link_up_us := seen_us\<rparr> else rt
                else rt);
          rt = rt\<lparr>brt_link := link, brt_link_held := held\<rparr>
      in if seen_us > brt_last_seen_us rt then rt\<lparr>brt_last_seen_us := seen_us\<rparr> else rt)"

definition state_set_link_state ::
    "nat \<Rightarrow> tunnel_link_state \<Rightarrow> bool \<Rightarrow> time_us \<Rightarrow> bms_state list \<Rightarrow> bms_state list" where
  "state_set_link_state i link held seen_us = upd_rt i (set_link_state link held seen_us)"

definition note_frame :: "time_us \<Rightarrow> bms_runtime \<Rightarrow> bms_runtime" where
  "note_frame seen_us rt =
     (let rt = (if seen_us > brt_last_seen_us rt then rt\<lparr>brt_last_seen_us := seen_us\<rparr> else rt)
      in if seen_us > brt_last_frame_us rt then rt\<lparr>brt_last_frame_us := seen_us\<rparr> else rt)"

definition state_note_frame :: "nat \<Rightarrow> time_us \<Rightarrow> bms_state list \<Rightarrow> bms_state list" where
  "state_note_frame i seen_us = upd_rt i (note_frame seen_us)"

definition state_get_runtime :: "nat \<Rightarrow> bms_state list \<Rightarrow> bms_runtime" where
  "state_get_runtime i ss = (if i \<ge> length ss then zero_runtime else st_rt (ss ! i))"

text \<open>The conditional updates return whether they applied.\<close>

definition state_promote_unreachable :: "nat \<Rightarrow> bms_state list \<Rightarrow> bool \<times> bms_state list" where
  "state_promote_unreachable i ss =
     (if i \<ge> length ss then (False, ss)
      else let rt = st_rt (ss ! i); changed = (\<not> brt_link_held rt \<and> brt_link rt = LINK_UNREACHABLE)
           in (changed, if changed then upd_rt i (\<lambda>rt. rt\<lparr>brt_link := LINK_REACHABLE_IDLE\<rparr>) ss else ss))"

definition state_mark_idle_if_unheld :: "nat \<Rightarrow> bms_state list \<Rightarrow> bool \<times> bms_state list" where
  "state_mark_idle_if_unheld i ss =
     (if i \<ge> length ss then (False, ss)
      else let allowed = (\<not> brt_link_held (st_rt (ss ! i)))
           in (allowed, if allowed then upd_rt i (\<lambda>rt. rt\<lparr>brt_link := LINK_REACHABLE_IDLE\<rparr>) ss else ss))"

definition clear_app_left_if :: "time_us \<Rightarrow> bms_runtime \<Rightarrow> bms_runtime" where
  "clear_app_left_if expected_us rt =
     (if \<not> brt_app_connected rt \<and> brt_app_left_us rt = expected_us then rt\<lparr>brt_app_left_us := 0\<rparr> else rt)"

definition state_clear_app_left_if :: "nat \<Rightarrow> time_us \<Rightarrow> bms_state list \<Rightarrow> bms_state list" where
  "state_clear_app_left_if i expected_us = upd_rt i (clear_app_left_if expected_us)"

definition state_snapshot :: "nat \<Rightarrow> bms_state list \<Rightarrow> bms_state option" where
  "state_snapshot i ss = (if i \<ge> length ss then None else Some (ss ! i))"

section \<open>The operations as one interface\<close>

text \<open>The critical sections the tasks of node A can execute on a unit.\<close>

datatype sc_op =
    Set_cells jk_cell_info
  | Set_settings jk_settings
  | Set_app_connected bool time_us
  | Set_link_state tunnel_link_state bool time_us
  | Note_frame time_us
  | Promote_unreachable
  | Mark_idle_if_unheld
  | Clear_app_left_if time_us

fun sc_apply :: "sc_op \<Rightarrow> nat \<Rightarrow> bms_state list \<Rightarrow> bms_state list" where
  "sc_apply (Set_cells ci) i = state_set_cells i ci"
| "sc_apply (Set_settings se) i = state_set_settings i se"
| "sc_apply (Set_app_connected c t) i = state_set_app_connected i c t"
| "sc_apply (Set_link_state l h t) i = state_set_link_state i l h t"
| "sc_apply (Note_frame t) i = state_note_frame i t"
| "sc_apply Promote_unreachable i = (\<lambda>ss. snd (state_promote_unreachable i ss))"
| "sc_apply Mark_idle_if_unheld i = (\<lambda>ss. snd (state_mark_idle_if_unheld i ss))"
| "sc_apply (Clear_app_left_if t) i = state_clear_app_left_if i t"

text \<open>What each of them does to the unit's own entry.\<close>

fun sc_unit :: "sc_op \<Rightarrow> bms_state \<Rightarrow> bms_state" where
  "sc_unit (Set_cells ci) s = s\<lparr>st_cells := ci, st_have_cells := True\<rparr>"
| "sc_unit (Set_settings se) s = s\<lparr>st_settings := se, st_have_settings := True\<rparr>"
| "sc_unit (Set_app_connected c t) s = s\<lparr>st_rt := set_app_connected c t (st_rt s)\<rparr>"
| "sc_unit (Set_link_state l h t) s = s\<lparr>st_rt := set_link_state l h t (st_rt s)\<rparr>"
| "sc_unit (Note_frame t) s = s\<lparr>st_rt := note_frame t (st_rt s)\<rparr>"
| "sc_unit Promote_unreachable s =
     (if \<not> brt_link_held (st_rt s) \<and> brt_link (st_rt s) = LINK_UNREACHABLE
      then s\<lparr>st_rt := (st_rt s)\<lparr>brt_link := LINK_REACHABLE_IDLE\<rparr>\<rparr> else s)"
| "sc_unit Mark_idle_if_unheld s =
     (if \<not> brt_link_held (st_rt s) then s\<lparr>st_rt := (st_rt s)\<lparr>brt_link := LINK_REACHABLE_IDLE\<rparr>\<rparr> else s)"
| "sc_unit (Clear_app_left_if t) s = s\<lparr>st_rt := clear_app_left_if t (st_rt s)\<rparr>"

lemma sc_apply_upd_unit: "sc_apply a i ss = upd_unit i (sc_unit a) ss"
proof (cases a)
  case Promote_unreachable
  then show ?thesis
    by (auto simp: state_promote_unreachable_def Let_def upd_rt_def intro: upd_unit_cong upd_unit_id [symmetric])
next
  case Mark_idle_if_unheld
  then show ?thesis
    by (auto simp: state_mark_idle_if_unheld_def Let_def upd_rt_def intro: upd_unit_cong upd_unit_id [symmetric])
qed (simp_all add: state_set_cells_def state_set_settings_def state_set_app_connected_def
      state_set_link_state_def state_note_frame_def state_clear_app_left_if_def upd_rt_def upd_unit_def)

declare sc_apply.simps [simp del]

text \<open>So they satisfy the contract of a unit operation, two at a time.\<close>

interpretation sc: unit_ops "sc_apply a" "sc_apply b" for a b
proof -
  have "sc_apply c = (\<lambda>i. upd_unit i (sc_unit c))" for c
    by (rule ext, rule ext) (rule sc_apply_upd_unit)
  then show "unit_ops (sc_apply a) (sc_apply b)"
    using unit_op_upd_unit [of "sc_unit a"] unit_op_upd_unit [of "sc_unit b"] by (simp only: unit_ops_def)
qed

text \<open>A run: the interleaving of the tasks' critical sections.\<close>

fun sc_run :: "(nat \<times> sc_op) list \<Rightarrow> bms_state list \<Rightarrow> bms_state list" where
  "sc_run [] ss = ss"
| "sc_run ((i, a) # as) ss = sc_run as (sc_apply a i ss)"

lemma length_sc_run [simp]: "length (sc_run as ss) = length ss"
  by (induction as ss rule: sc_run.induct) (simp_all add: sc_apply_upd_unit)

text \<open>What happens to one unit is decided by its own operations alone.\<close>

lemma sc_run_unit:
  "i < length ss \<Longrightarrow> sc_run as ss ! i = fold sc_unit (map snd (filter (\<lambda>x. fst x = i) as)) (ss ! i)"
  by (induction as ss rule: sc_run.induct) (auto simp: sc_apply_upd_unit nth_upd_unit)

section \<open>Edges and the epoch\<close>

abbreviation edges :: "bms_state \<Rightarrow> bool \<times> bool" where
  "edges s \<equiv> (brt_app_connected (st_rt s), brt_link_held (st_rt s))"

abbreviation epoch :: "bms_state \<Rightarrow> u64" where
  "epoch s \<equiv> brt_idle_epoch (st_rt s)"

lemmas rt_defs = set_app_connected_def set_link_state_def note_frame_def clear_app_left_if_def

lemma sc_unit_epoch:
  "epoch (sc_unit a s) = epoch s + (if edges (sc_unit a s) = edges s then 0 else 1)"
  by (cases a) (auto simp: rt_defs Let_def)

lemma fold_sc_unit_epoch:
  "\<exists>k \<le> length as. epoch (fold sc_unit as s) = epoch s + of_nat k \<and>
     (k = 0 \<longrightarrow> (\<forall>n. edges (fold sc_unit (take n as) s) = edges s))"
proof (induction as arbitrary: s)
  case (Cons a as)
  from Cons.IH [of "sc_unit a s"] obtain k where k: "k \<le> length as"
    "epoch (fold sc_unit as (sc_unit a s)) = epoch (sc_unit a s) + of_nat k"
    "k = 0 \<longrightarrow> (\<forall>n. edges (fold sc_unit (take n as) (sc_unit a s)) = edges (sc_unit a s))" by blast
  show ?case
  proof (cases "edges (sc_unit a s) = edges s")
    case True
    have "edges (fold sc_unit (take n (a # as)) s) = edges s" if "k = 0" for n
      using k(3) that True by (cases n) auto
    with k(1,2) True sc_unit_epoch [of a s] show ?thesis by (intro exI [of _ k]) auto
  next
    case False
    with k(1,2) sc_unit_epoch [of a s] show ?thesis by (intro exI [of _ "Suc k"]) auto
  qed
qed simp

section \<open>Properties\<close>

lemma epoch_fence:
  assumes "i < length ss" and "length as < 2 ^ 64" and "epoch (sc_run as ss ! i) = epoch (ss ! i)"
  shows "edges (sc_run (take n as) ss ! i) = edges (ss ! i)"
proof -
  let ?own = "\<lambda>as. map snd (filter (\<lambda>x. fst x = i) as)"
  obtain k where k: "k \<le> length (?own as)" "epoch (fold sc_unit (?own as) (ss ! i)) = epoch (ss ! i) + of_nat k"
    "k = 0 \<longrightarrow> (\<forall>n. edges (fold sc_unit (take n (?own as)) (ss ! i)) = edges (ss ! i))"
    using fold_sc_unit_epoch [of "?own as" "ss ! i"] by blast
  from k(2) assms(1,3) have "(of_nat k :: u64) = 0" by (simp add: sc_run_unit)
  moreover have "k < 2 ^ 64" using k(1) assms(2) length_filter_le [of "\<lambda>x. fst x = i" as]
    by (simp del: length_filter_le)
  ultimately have "k = 0" by (simp add: word_of_nat_eq_0_iff) (metis gr0I nat_dvd_not_less)
  moreover have "?own (take n as) = take (length (?own (take n as))) (?own as)"
    by (metis append_eq_conv_conj append_take_drop_id filter_append map_append)
  ultimately show ?thesis using k(3) assms(1) by (metis sc_run_unit)
qed

text \<open>
  C15. The idle-release fence. Let any fewer than \<open>2 ^ 64\<close> operations of any tasks run on the table, in
  any interleaving. If a unit's \<^verbatim>\<open>idle_epoch\<close> is the same before and after, then at no point in
  between did its app-connected flag or its link-held flag change, not even back and forth.
\<close>

theorem unchanged_epoch_no_edge:
  assumes "i < length ss" and "length as < 2 ^ 64" and "epoch (sc_run as ss ! i) = epoch (ss ! i)"
  shows "edges (sc_run (take n as) ss ! i) = edges (ss ! i)"
  using assms by (rule epoch_fence)

theorem unchanged_epoch_no_edge_witness:
  "edges (sc_run (take 1 [(0, Note_frame 5), (0, Mark_idle_if_unheld)]) (state_cache_init 2) ! 0) = (False, False)"
  using unchanged_epoch_no_edge [of 0 "state_cache_init 2" "[(0, Note_frame 5), (0, Mark_idle_if_unheld)]" 1]
  by (simp add: state_cache_init_def sc_apply_upd_unit upd_unit_def note_frame_def zero_runtime_def)

text \<open>
  Interleaving of different units is irrelevant: two critical sections on different units give
  the same table in either order, and each leaves every other unit as it was.
\<close>

theorem state_ops_commute:
  assumes "i \<noteq> j"
  shows "sc_apply a i (sc_apply b j ss) = sc_apply b j (sc_apply a i ss) \<and> sc_apply a i ss ! j = ss ! j"
  using assms by (simp add: sc.opr_commute sc.a.opr_frame)

theorem state_ops_commute_witness:
  "sc_apply (Note_frame 3) 0 (sc_apply Mark_idle_if_unheld 1 (state_cache_init 4)) =
   sc_apply Mark_idle_if_unheld 1 (sc_apply (Note_frame 3) 0 (state_cache_init 4))"
  using state_ops_commute [of 0 1 "Note_frame 3" Mark_idle_if_unheld "state_cache_init 4"] by simp

definition rt_le :: "bms_state \<Rightarrow> bms_state \<Rightarrow> bool" where
  "rt_le s t \<longleftrightarrow> brt_last_seen_us (st_rt s) \<le> brt_last_seen_us (st_rt t) \<and>
     brt_last_frame_us (st_rt s) \<le> brt_last_frame_us (st_rt t) \<and>
     brt_link_up_us (st_rt s) \<le> brt_link_up_us (st_rt t) \<and>
     (st_have_cells s \<longrightarrow> st_have_cells t) \<and> (st_have_settings s \<longrightarrow> st_have_settings t)"

lemma sc_unit_le: "rt_le s (sc_unit a s)"
  by (cases a) (auto simp: rt_le_def rt_defs Let_def)

lemma fold_sc_unit_le: "rt_le s (fold sc_unit as s)"
proof (induction as arbitrary: s)
  case (Cons a as)
  from sc_unit_le [of s a] Cons [of "sc_unit a s"] show ?case by (auto simp: rt_le_def)
qed (simp add: rt_le_def)

lemma fold_sc_unit_frame_time:
  "list_all (\<lambda>a. \<forall>t. a \<noteq> Note_frame t) as \<Longrightarrow>
   brt_last_frame_us (st_rt (fold sc_unit as s)) = brt_last_frame_us (st_rt s)"
proof (induction as arbitrary: s)
  case (Cons a as)
  then have "brt_last_frame_us (st_rt (sc_unit a s)) = brt_last_frame_us (st_rt s)"
    by (cases a) (auto simp: rt_defs Let_def)
  with Cons show ?case by simp
qed simp

text \<open>
  Time and evidence. Along every run a unit's last-seen, last-frame and link-up times never move
  back, even when a task commits a timestamp it sampled before taking the mutex; the last-frame
  time moves only by \<^verbatim>\<open>state_note_frame\<close>, never by a link event; and telemetry, once present, stays.
\<close>

theorem state_times_monotone:
  assumes "i < length ss"
  shows "rt_le (ss ! i) (sc_run as ss ! i) \<and>
    (list_all (\<lambda>(j, a). j = i \<longrightarrow> (\<forall>t. a \<noteq> Note_frame t)) as \<longrightarrow>
       brt_last_frame_us (st_rt (sc_run as ss ! i)) = brt_last_frame_us (st_rt (ss ! i)))"
proof (intro conjI impI)
  show "rt_le (ss ! i) (sc_run as ss ! i)" using assms by (simp add: sc_run_unit fold_sc_unit_le)
  assume "list_all (\<lambda>(j, a). j = i \<longrightarrow> (\<forall>t. a \<noteq> Note_frame t)) as"
  then have "list_all (\<lambda>a. \<forall>t. a \<noteq> Note_frame t) (map snd (filter (\<lambda>x. fst x = i) as))"
    by (induction as) auto
  from fold_sc_unit_frame_time [OF this] assms show
    "brt_last_frame_us (st_rt (sc_run as ss ! i)) = brt_last_frame_us (st_rt (ss ! i))"
    by (simp add: sc_run_unit)
qed

theorem state_times_monotone_witness:
  "rt_le (state_cache_init 2 ! 1) (sc_run [(1, Note_frame 9), (1, Set_link_state LINK_UP True 4)] (state_cache_init 2) ! 1) \<and>
   brt_last_seen_us (st_rt (sc_run [(1, Note_frame 9), (1, Set_link_state LINK_UP True 4)] (state_cache_init 2) ! 1)) = 9"
proof
  show "rt_le (state_cache_init 2 ! 1) (sc_run [(1, Note_frame 9), (1, Set_link_state LINK_UP True 4)] (state_cache_init 2) ! 1)"
    by (rule state_times_monotone [THEN conjunct1]) (simp add: state_cache_init_def)
  show "brt_last_seen_us (st_rt (sc_run [(1, Note_frame 9), (1, Set_link_state LINK_UP True 4)] (state_cache_init 2) ! 1)) = 9"
    by (simp add: sc_apply_upd_unit upd_unit_def state_cache_init_def rt_defs Let_def zero_runtime_def)
qed

section \<open>Link bookkeeping\<close>

text \<open>Every caller of \<^verbatim>\<open>state_set_link_state\<close> passes \<^verbatim>\<open>LINK_UP\<close> exactly with \<^verbatim>\<open>held\<close>.\<close>

fun sc_consistent :: "sc_op \<Rightarrow> bool" where
  "sc_consistent (Set_link_state l h t) = (h \<longleftrightarrow> l = LINK_UP)"
| "sc_consistent _ = True"

definition held_up :: "bms_state \<Rightarrow> bool" where
  "held_up s \<longleftrightarrow> (brt_link_held (st_rt s) \<longleftrightarrow> brt_link (st_rt s) = LINK_UP)"

lemma sc_unit_held_up: "held_up s \<Longrightarrow> sc_consistent a \<Longrightarrow> held_up (sc_unit a s)"
  by (cases a) (auto simp: held_up_def rt_defs Let_def)

lemma held_up_sc_run:
  "list_all held_up ss \<Longrightarrow> list_all (\<lambda>(i, a). sc_consistent a) as \<Longrightarrow> list_all held_up (sc_run as ss)"
proof (induction as ss rule: sc_run.induct)
  case (2 i a as ss)
  then have "list_all held_up (sc_apply a i ss)"
    unfolding sc_apply_upd_unit by (intro list_all_upd_unit) (simp_all add: sc_unit_held_up)
  with 2 show ?case by simp
qed simp

lemma held_up_init: "list_all held_up (state_cache_init units)"
  by (simp add: state_cache_init_def held_up_def zero_runtime_def list_all_length)

lemma rt_app_set [simp]: "i < length ss \<Longrightarrow>
  brt_app_connected (state_get_runtime i (state_set_app_connected i c t ss)) = c"
  by (simp add: state_get_runtime_def state_set_app_connected_def upd_rt_def upd_unit_same
        set_app_connected_def Let_def)

lemma length_state_ops [simp]:
  "length (state_set_app_connected i c t ss) = length ss"
  "length (state_set_link_state i l h t ss) = length ss"
  "length (snd (state_mark_idle_if_unheld i ss)) = length ss"
  by (simp_all add: state_set_app_connected_def state_set_link_state_def upd_rt_def
        state_mark_idle_if_unheld_def Let_def)

end
