(* ===== verification/Jk_Write.thy ===== *)
theory Jk_Write
  imports Jk_Frame
begin

text \<open>
  Frames sent to a BMS: the command builders at the end of \<^verbatim>\<open>components/jk_proto/jk_proto.c\<close>,
  compiled with \<^verbatim>\<open>JK_ENABLE_WRITES=1\<close> (\<^verbatim>\<open>components/jk_proto/CMakeLists.txt\<close>). The static xorshift state
  of \<^verbatim>\<open>jk_build_read_cmd\<close> is passed explicitly; an error return is \<open>None\<close>. The lemmas show that
  every frame is a well-formed 20-byte command and that a setpoint given in thousandths reaches
  the register exactly, whatever the rounding of the double on the way.
\<close>

section \<open>Definitions\<close>

definition JK_CMD_CELL_INFO :: byte where "JK_CMD_CELL_INFO = 0x96"

definition JK_CMD_DEVICE_INFO :: byte where "JK_CMD_DEVICE_INFO = 0x97"

definition JK_CMD_FRAME_LEN :: nat where "JK_CMD_FRAME_LEN = 20"

definition JK02_CMD_MAGIC :: "byte list" where
  "JK02_CMD_MAGIC = [0xAA, 0x55, 0x90, 0xEB]"

definition xorshift :: "u32 \<Rightarrow> u32" where
  "xorshift s = (let s1 = s XOR push_bit 13 s; s2 = s1 XOR drop_bit 17 s1 in s2 XOR push_bit 5 s2)"

definition xorshift_seed :: u32 where "xorshift_seed = 0x9E3779B9"

text \<open>The loop \<^verbatim>\<open>for (i = 6; i <= 18; i++)\<close>: the state and \<open>n\<close> nonce bytes.\<close>

fun nonce_fill :: "nat \<Rightarrow> u32 \<Rightarrow> u32 \<times> byte list" where
  "nonce_fill 0 s = (s, [])"
| "nonce_fill (Suc n) s =
     (let s' = xorshift s in case nonce_fill n s' of (s'', bs) \<Rightarrow> (s'', ucast s' # bs))"

text \<open>The last byte becomes the sum of the others.\<close>

definition seal_cmd :: "byte list \<Rightarrow> byte list" where
  "seal_cmd out = out[JK_CMD_FRAME_LEN - 1 := sum8 (take (JK_CMD_FRAME_LEN - 1) out)]"

definition jk_build_read_cmd :: "u32 \<Rightarrow> byte \<Rightarrow> nat \<Rightarrow> u32 \<times> byte list option" where
  "jk_build_read_cmd s opcode out_cap =
     (if out_cap < JK_CMD_FRAME_LEN then (s, None)
      else let out = put_bytes 0 JK02_CMD_MAGIC (replicate JK_CMD_FRAME_LEN 0);
               out = out[4 := opcode, 5 := 0];
               (s', out) = (if opcode = JK_CMD_DEVICE_INFO
                            then case nonce_fill 13 s of (s', bs) \<Rightarrow> (s', put_bytes 6 bs out)
                            else (s, out))
           in (s', Some (seal_cmd out)))"

record jk_setting_reg =
  sr_key :: string
  sr_reg :: byte
  sr_scale :: rat

definition JK_SETTING_REGS :: "jk_setting_reg list" where
  "JK_SETTING_REGS =
    [\<lparr>sr_key = ''balance_trigger_voltage'', sr_reg = 0x06, sr_scale = 1000\<rparr>,
     \<lparr>sr_key = ''balance_current'', sr_reg = 0x13, sr_scale = 1000\<rparr>,
     \<lparr>sr_key = ''balancing_enabled'', sr_reg = 0x1F, sr_scale = 1\<rparr>,
     \<lparr>sr_key = ''balance_start_voltage'', sr_reg = 0x22, sr_scale = 1000\<rparr>,
     \<lparr>sr_key = ''cell_count'', sr_reg = 0x1C, sr_scale = 1\<rparr>]"

text \<open>
  \<^verbatim>\<open>(uint32_t)(scaled + 0.5)\<close> for \<open>0 \<le> scaled \<le> 4294967295\<close>: the double sum, truncated.
\<close>

definition reg_value :: "rat \<Rightarrow> u32" where
  "reg_value scaled = word_of_int \<lfloor>fl64 (scaled + 1 / 2)\<rfloor>"

definition jk_build_balance_write ::
    "jk_frame_ver \<Rightarrow> string \<Rightarrow> cdouble \<Rightarrow> nat \<Rightarrow> byte list option" where
  "jk_build_balance_write ver key value out_cap =
     (if \<not> isfinite value \<or> out_cap < JK_CMD_FRAME_LEN then None
      else case find (\<lambda>r. sr_key r = key) JK_SETTING_REGS of
        None \<Rightarrow> None
      | Some r \<Rightarrow>
          (case dmul value (Finite (sr_scale r)) of
             NonFinite \<Rightarrow> None
           | Finite scaled \<Rightarrow>
               if scaled < 0 \<or> scaled > 4294967295 then None
               else let iv = reg_value scaled;
                        out = put_bytes 0 JK02_CMD_MAGIC (replicate JK_CMD_FRAME_LEN 0);
                        out = out[4 := sr_reg r, 5 := 4];
                        out = put_bytes 6 (bytes32 iv) out
                    in Some (seal_cmd out)))"

text \<open>The number of bytes to send: none, whatever the PIN.\<close>

definition jk_build_login :: "string \<Rightarrow> nat" where
  "jk_build_login pin = 0"

section \<open>Every command is well formed\<close>

definition cmd_wf :: "byte list \<Rightarrow> bool" where
  "cmd_wf out = (length out = JK_CMD_FRAME_LEN \<and> take 4 out = JK02_CMD_MAGIC \<and>
     jk_checksum_ok out JK_CMD_FRAME_LEN)"

lemma length_cmd_magic [simp]: "length JK02_CMD_MAGIC = 4"
  by (simp add: JK02_CMD_MAGIC_def)

lemma seal_cmd_wf: "length out = JK_CMD_FRAME_LEN \<Longrightarrow> take 4 out = JK02_CMD_MAGIC \<Longrightarrow> cmd_wf (seal_cmd out)"
  by (simp add: cmd_wf_def seal_cmd_def jk_checksum_ok_def JK_CMD_FRAME_LEN_def)

lemma seal_cmd_nth: "k < 19 \<Longrightarrow> seal_cmd out ! k = out ! k"
  by (simp add: seal_cmd_def JK_CMD_FRAME_LEN_def)

lemma seal_cmd_field: "i + n \<le> 19 \<Longrightarrow> take n (drop i (seal_cmd out)) = take n (drop i out)"
  by (simp add: seal_cmd_def JK_CMD_FRAME_LEN_def drop_update_swap)

lemma length_nonce_fill: "nonce_fill n s = (s', bs) \<Longrightarrow> length bs = n"
  by (induction n arbitrary: s s' bs) (auto simp: Let_def split: prod.splits)

lemma take4_cmd: "take 4 (put_bytes 0 JK02_CMD_MAGIC out) = JK02_CMD_MAGIC"
  by (simp add: put_bytes_def)

lemma take_put_bytes_before: "n \<le> i \<Longrightarrow> i \<le> length out \<Longrightarrow> take n (put_bytes i xs out) = take n out"
  by (simp add: put_bytes_def min_def)

section \<open>A setpoint in thousandths reaches the register exactly\<close>

lemma fl64_error_wide: "\<bar>x\<bar> < 2 ^ 22 \<Longrightarrow> \<bar>fl64 x - x\<bar> \<le> 1 / 2 ^ 32"
  using flr_error_bound [of x 22 "- 1074" 53] by (simp add: power_int_def power_one_over divide_simps)

lemma near_register:
  assumes "\<bar>s - of_int n\<bar> \<le> (1 :: rat)" "0 \<le> n" "n < 4000000"
  shows "\<bar>s\<bar> < 2 ^ 22" and "\<bar>s + 1 / 2\<bar> < 2 ^ 22" and "s \<le> 4294967295"
proof -
  have "(0::rat) \<le> of_int n" "(of_int n :: rat) < 4000000" using assms(2,3) by simp_all
  with assms(1) have "- 1 \<le> s" "s < 4000001" unfolding abs_le_iff by linarith+
  then show "\<bar>s\<bar> < 2 ^ 22" "\<bar>s + 1 / 2\<bar> < 2 ^ 22" "s \<le> 4294967295" by simp_all
qed

lemma fl64_milli:
  assumes "0 \<le> n" "n < 4000000" "r = fl64 (fl64 (of_int n / 1000) * 1000)"
  shows "\<bar>r - of_int n\<bar> \<le> 1 / 2 ^ 30"
proof -
  define x where "x = (of_int n / 1000 :: rat)"
  have x: "0 \<le> x" "x < 4000" using assms by (simp_all add: x_def)
  then have e1: "\<bar>fl64 x - x\<bar> \<le> 1 / 2 ^ 42" by (intro fl64_error) simp
  have n: "of_int n = x * 1000" by (simp add: x_def)
  from e1 have e2: "\<bar>fl64 x * 1000 - of_int n\<bar> \<le> 1000 / 2 ^ 42" unfolding n abs_le_iff by linarith
  from e2 have "\<bar>fl64 x * 1000 - of_int n\<bar> \<le> 1" by simp
  then have "\<bar>fl64 x * 1000\<bar> < 2 ^ 22" using assms(1,2) by (rule near_register)
  then have "\<bar>fl64 (fl64 x * 1000) - fl64 x * 1000\<bar> \<le> 1 / 2 ^ 32" by (rule fl64_error_wide)
  then have "\<bar>r - fl64 x * 1000\<bar> \<le> 1 / 2 ^ 32" by (simp add: assms(3) x_def)
  with e2 have "\<bar>r - of_int n\<bar> \<le> 1000 / 2 ^ 42 + 1 / 2 ^ 32" unfolding abs_le_iff by linarith
  then show ?thesis by simp
qed

lemma reg_value_near:
  assumes "0 \<le> n" "n < 4000000" "\<bar>r - of_int n\<bar> \<le> 1 / 2 ^ 30"
  shows "reg_value r = word_of_int n"
proof -
  from assms(3) have "\<bar>r - of_int n\<bar> \<le> 1" by simp
  then have "\<bar>r + 1 / 2\<bar> < 2 ^ 22" using assms(1,2) by (rule near_register)
  then have "\<bar>fl64 (r + 1 / 2) - (r + 1 / 2)\<bar> \<le> 1 / 2 ^ 32" by (rule fl64_error_wide)
  then have "\<bar>fl64 (r + 1 / 2) - (r + 1 / 2)\<bar> \<le> 1 / 8" by simp
  moreover from assms(3) have "\<bar>r - of_int n\<bar> \<le> 1 / 8" by simp
  ultimately have "of_int n \<le> fl64 (r + 1 / 2)" "fl64 (r + 1 / 2) < of_int n + 1"
    unfolding abs_le_iff by linarith+
  then have "\<lfloor>fl64 (r + 1 / 2)\<rfloor> = n" by linarith
  then show ?thesis by (simp add: reg_value_def)
qed

lemma dround_small: "\<bar>fl64 x\<bar> < 2 ^ 22 \<Longrightarrow> dround x = Finite (fl64 x)"
proof -
  assume "\<bar>fl64 x\<bar> < 2 ^ 22"
  moreover have "(2::rat) ^ 22 \<le> 2 powi 1024" by (simp add: power_int_def)
  ultimately show ?thesis by (simp add: dround_def Let_def)
qed

lemma build_balance_write_cases:
  assumes "jk_build_balance_write ver key value cap = Some out"
  obtains r scaled where "isfinite value" "JK_CMD_FRAME_LEN \<le> cap"
    "find (\<lambda>r. sr_key r = key) JK_SETTING_REGS = Some r"
    "dmul value (Finite (sr_scale r)) = Finite scaled" "0 \<le> scaled" "scaled \<le> 4294967295"
    "out = seal_cmd (put_bytes 6 (bytes32 (reg_value scaled))
       ((put_bytes 0 JK02_CMD_MAGIC (replicate JK_CMD_FRAME_LEN 0))[4 := sr_reg r, 5 := 4]))"
  using assms by (auto simp: jk_build_balance_write_def Let_def split: if_splits option.splits cdouble.splits)

lemma balance_frame_layout:
  assumes "out = seal_cmd (put_bytes 6 (bytes32 iv)
       ((put_bytes 0 JK02_CMD_MAGIC (replicate JK_CMD_FRAME_LEN 0))[4 := reg, 5 := 4]))"
  shows "cmd_wf out" and "out ! 4 = reg" and "out ! 5 = 4" and "le32 out 6 = iv"
    and "take 9 (drop 10 out) = replicate 9 0"
proof -
  let ?o1 = "(put_bytes 0 JK02_CMD_MAGIC (replicate JK_CMD_FRAME_LEN 0))[4 := reg, 5 := 4]"
  let ?o2 = "put_bytes 6 (bytes32 iv) ?o1"
  have len1: "length ?o1 = 20" and len2: "length ?o2 = 20" by (simp_all add: JK_CMD_FRAME_LEN_def)
  have "take 4 ?o2 = JK02_CMD_MAGIC" using len1 by (simp add: take_put_bytes_before take4_cmd)
  with len2 show wf: "cmd_wf out" unfolding assms by (intro seal_cmd_wf) (simp_all add: JK_CMD_FRAME_LEN_def)
  show "out ! 4 = reg" "out ! 5 = 4"
    using len1 by (simp_all add: assms seal_cmd_nth nth_put_bytes)
  have "take 4 (drop 6 out) = bytes32 iv"
    using take_drop_put_bytes_same [of 6 "bytes32 iv" ?o1] len1 by (simp add: assms seal_cmd_field)
  with wf show "le32 out 6 = iv" by (intro le32_at) (simp_all add: cmd_wf_def JK_CMD_FRAME_LEN_def)
  have "take 9 (drop 10 ?o2) = take 9 (drop 10 ?o1)"
    using len1 by (intro take_drop_put_bytes_other) simp_all
  then show "take 9 (drop 10 out) = replicate 9 0"
    by (simp add: assms seal_cmd_field put_bytes_def JK_CMD_FRAME_LEN_def)
qed

lemma milli_write_exact:
  assumes "key \<in> {''balance_trigger_voltage'', ''balance_current'', ''balance_start_voltage''}"
    and "0 \<le> n" and "n < 4000000" and "20 \<le> cap"
  shows "\<exists>out. jk_build_balance_write ver key (Finite (fl64 (of_int n / 1000))) cap = Some out \<and>
    uint (le32 out 6) = n"
proof -
  define s where "s = fl64 (fl64 (of_int n / 1000) * 1000)"
  have s: "\<bar>s - of_int n\<bar> \<le> 1 / 2 ^ 30" using fl64_milli [OF assms(2,3)] s_def by simp
  then have "\<bar>s - of_int n\<bar> \<le> 1" by simp
  note near = near_register [OF this assms(2,3)]
  then have mul: "dmul (Finite (fl64 (of_int n / 1000))) (Finite 1000) = Finite s"
    using dround_small by (simp add: s_def)
  have "0 \<le> s"
  proof (cases "n = 0")
    case False
    with assms(2) have "(1::rat) \<le> of_int n" by simp
    moreover from s have "\<bar>s - of_int n\<bar> \<le> 1" by simp
    ultimately show ?thesis unfolding abs_le_iff by linarith
  qed (simp add: s_def)
  moreover have "s \<le> 4294967295" by (rule near(3))
  moreover have "reg_value s = word_of_int n" by (rule reg_value_near [OF assms(2,3) s])
  moreover have "uint (word_of_int n :: u32) = n" using assms(2,3) by (simp add: uint_word_of_int_eq take_bit_int_eq_self)
  moreover obtain r where "find (\<lambda>r. sr_key r = key) JK_SETTING_REGS = Some r" "sr_scale r = 1000"
    using assms(1) by (auto simp: JK_SETTING_REGS_def)
  ultimately show ?thesis
    using assms(4) mul balance_frame_layout(4) [OF refl, of "reg_value s" "sr_reg r"]
    by (auto simp: jk_build_balance_write_def isfinite_def JK_CMD_FRAME_LEN_def)
qed

section \<open>Properties\<close>

text \<open>
  Every settings write the firmware can build is a well-formed register frame for a register
  of the table: 20 bytes, command magic, the register of the named key, length byte 4, bytes 10 to
  18 zero and a matching checksum. Nothing is built for a key outside the table, a non-finite
  value, or a buffer that is too small.
\<close>

theorem balance_write_frame:
  assumes "jk_build_balance_write ver key value cap = Some out"
  shows "cmd_wf out \<and> out ! 5 = 4 \<and> take 9 (drop 10 out) = replicate 9 0 \<and>
    (\<exists>r \<in> set JK_SETTING_REGS. sr_key r = key \<and> out ! 4 = sr_reg r) \<and> isfinite value \<and> 20 \<le> cap"
proof -
  from assms obtain r scaled where
    fin: "isfinite value" "JK_CMD_FRAME_LEN \<le> cap"
    and reg: "find (\<lambda>r. sr_key r = key) JK_SETTING_REGS = Some r"
    and out: "out = seal_cmd (put_bytes 6 (bytes32 (reg_value scaled))
       ((put_bytes 0 JK02_CMD_MAGIC (replicate JK_CMD_FRAME_LEN 0))[4 := sr_reg r, 5 := 4]))"
    by (rule build_balance_write_cases)
  from reg have "r \<in> set JK_SETTING_REGS" "sr_key r = key" by (auto simp: find_Some_iff)
  with balance_frame_layout [OF out] fin show ?thesis by (auto simp: JK_CMD_FRAME_LEN_def)
qed

text \<open>
  C9. A setpoint given in thousandths is written exactly. For each of the three keys whose unit is
  a thousandth (volts and amps) and each whole number \<open>n\<close> of thousandths below 4,000,000, the double
  nearest to \<open>n / 1000\<close> is accepted and the frame's 32-bit register value is \<open>n\<close>: neither the
  representation error of the decimal, nor the rounding of the product, nor the rounding of the
  sum with 0.5 shifts it by one.
\<close>

theorem balance_write_exact:
  assumes "key \<in> {''balance_trigger_voltage'', ''balance_current'', ''balance_start_voltage''}"
    and "0 \<le> n" and "n < 4000000" and "20 \<le> cap"
  shows "\<exists>out. jk_build_balance_write ver key (Finite (fl64 (of_int n / 1000))) cap = Some out \<and>
    uint (le32 out 6) = n"
  using assms by (rule milli_write_exact)

text \<open>
  Every read command is well formed, whatever the nonce generator's state: 20 bytes, command
  magic, the opcode, a matching checksum; only the device-info command draws on the generator.
\<close>

theorem read_cmd_frame:
  assumes "20 \<le> cap"
  shows "\<exists>out. snd (jk_build_read_cmd s opcode cap) = Some out \<and> cmd_wf out \<and> out ! 4 = opcode \<and> out ! 5 = 0 \<and>
    (opcode \<noteq> JK_CMD_DEVICE_INFO \<longrightarrow> fst (jk_build_read_cmd s opcode cap) = s)"
proof -
  let ?o1 = "(put_bytes 0 JK02_CMD_MAGIC (replicate JK_CMD_FRAME_LEN 0))[4 := opcode, 5 := 0]"
  obtain s' bs where nonce: "nonce_fill 13 s = (s', bs)" by fastforce
  have len: "length ?o1 = 20" "length bs = 13"
    using length_nonce_fill [OF nonce] by (simp_all add: JK_CMD_FRAME_LEN_def)
  let ?o2 = "if opcode = JK_CMD_DEVICE_INFO then put_bytes 6 bs ?o1 else ?o1"
  have "length ?o2 = JK_CMD_FRAME_LEN" "take 4 ?o2 = JK02_CMD_MAGIC"
    using len by (simp_all add: take_put_bytes_before take4_cmd JK_CMD_FRAME_LEN_def)
  then have "cmd_wf (seal_cmd ?o2)" by (rule seal_cmd_wf)
  moreover have "seal_cmd ?o2 ! 4 = opcode" "seal_cmd ?o2 ! 5 = 0"
    using len by (simp_all add: seal_cmd_nth nth_put_bytes)
  moreover have "jk_build_read_cmd s opcode cap = (if opcode = JK_CMD_DEVICE_INFO then s' else s, Some (seal_cmd ?o2))"
    using assms nonce by (simp add: jk_build_read_cmd_def JK_CMD_FRAME_LEN_def Let_def)
  ultimately show ?thesis by simp
qed

theorem read_cmd_frame_witness:
  "\<exists>out. snd (jk_build_read_cmd xorshift_seed JK_CMD_CELL_INFO 20) = Some out \<and> cmd_wf out \<and> out ! 4 = 0x96 \<and>
     fst (jk_build_read_cmd xorshift_seed JK_CMD_CELL_INFO 20) = xorshift_seed"
  using read_cmd_frame [of 20 xorshift_seed JK_CMD_CELL_INFO]
  by (auto simp: JK_CMD_CELL_INFO_def JK_CMD_DEVICE_INFO_def)

theorem balance_write_exact_witness:
  "\<exists>out. jk_build_balance_write JK_FRAME_JK02_32S ''balance_start_voltage'' (Finite (fl64 (3420 / 1000))) 20 = Some out \<and>
     uint (le32 out 6) = 3420"
  using balance_write_exact [of "''balance_start_voltage''" 3420 20 JK_FRAME_JK02_32S] by simp

theorem balance_write_frame_witness:
  "cmd_wf (the (jk_build_balance_write JK_FRAME_JK02_32S ''cell_count'' (Finite 16) 20)) \<and>
   the (jk_build_balance_write JK_FRAME_JK02_32S ''cell_count'' (Finite 16) 20) ! 4 = 0x1C"
proof -
  have "dmul (Finite 16) (Finite 1) = Finite 16"
    using dround_small [of 16] flr_of_int [of 16 5 53 "- 1074"] by simp
  then obtain out where out: "jk_build_balance_write JK_FRAME_JK02_32S ''cell_count'' (Finite 16) 20 = Some out"
    by (simp add: jk_build_balance_write_def isfinite_def JK_CMD_FRAME_LEN_def JK_SETTING_REGS_def)
  from balance_write_frame [OF out] show ?thesis using out by (auto simp: JK_SETTING_REGS_def)
qed

end
