(* ===== verification/Na_Types.thy ===== *)
theory Na_Types
  imports State_Cache Jk_Write
begin

text \<open>
  The messages the tasks of node A exchange (\<^verbatim>\<open>node_a/main/na_types.h\<close>), the acknowledgements
  published over MQTT (\<^verbatim>\<open>mqtt_ack\<close>), the configuration constants (\<^verbatim>\<open>node_a/main/config.h\<close>) and the
  fleet table. A payload array with its length is a byte list. The fleet table comes from
  \<^verbatim>\<open>secret.h\<close>, which each site supplies: it is a parameter wherever it is used.

  FreeRTOS queues are not part of the sources. Where a task sends to a queue, acceptance within
  the send's time limit is decided by a predicate of the environment on the messages accepted
  so far and the new one; accepted messages are appended to a list that records the traffic.
\<close>

section \<open>Requests and responses\<close>

datatype req_source = SRC_APP | SRC_MQTT | SRC_INTERNAL

datatype txn_kind = TXN_POLL | TXN_RAW_WRITE | TXN_BALANCE_WRITE | TXN_CONNECT | TXN_DISCONNECT

definition REQ_PAYLOAD_MAX :: nat where "REQ_PAYLOAD_MAX = TUNNEL_MAX_WRITE_DATA"

record bms_request =
  rq_bms_id :: nat
  rq_cmd_id :: u64
  rq_kind :: txn_kind
  rq_source :: req_source
  rq_opcode :: byte
  rq_idx :: nat
  rq_with_response :: bool
  rq_response_needed :: bool
  rq_timeout_ms :: nat
  rq_payload :: "byte list"
  rq_idle_only :: bool
  rq_idle_epoch :: u64

text \<open>A request with every field not named in an initialiser zero.\<close>

definition zero_request :: bms_request where
  "zero_request = \<lparr>rq_bms_id = 0, rq_cmd_id = 0, rq_kind = TXN_POLL, rq_source = SRC_APP, rq_opcode = 0,
     rq_idx = 0, rq_with_response = False, rq_response_needed = False, rq_timeout_ms = 0, rq_payload = [],
     rq_idle_only = False, rq_idle_epoch = 0\<rparr>"

datatype resp_status = RESP_OK | RESP_TIMEOUT | RESP_LINK_DOWN | RESP_GATT_ERR | RESP_REJECTED | RESP_CONNECT_WAIT

record bms_response =
  rs_bms_id :: nat
  rs_cmd_id :: u64
  rs_status :: resp_status

record notify_item =
  ni_bms_id :: nat
  ni_idx :: nat
  ni_raw :: bool
  ni_data :: "byte list"

section \<open>Acknowledgements\<close>

text \<open>
  A call of \<^verbatim>\<open>mqtt_ack\<close>. The readback detail \<^verbatim>\<open>{"key":value}\<close> is kept as the key and the value that is
  printed with three decimals; a NULL or empty id publishes no id.
\<close>

record ack =
  ak_bms_id :: nat
  ak_cmd :: string
  ak_id :: string
  ak_status :: string
  ak_detail :: "string option"
  ak_readback :: "(string \<times> rat) option"

definition mk_ack :: "nat \<Rightarrow> string \<Rightarrow> string \<Rightarrow> string \<Rightarrow> string option \<Rightarrow> (string \<times> rat) option \<Rightarrow> ack" where
  "mk_ack i cmd cid status detail readback =
     \<lparr>ak_bms_id = i, ak_cmd = cmd, ak_id = cid, ak_status = status, ak_detail = detail, ak_readback = readback\<rparr>"

section \<open>Configuration\<close>

record cfg_bms_target =
  t_name :: "string option"
  t_bms_id :: nat
  t_addr :: "byte list"

definition CFG_LINK_POOL_SIZE :: nat where "CFG_LINK_POOL_SIZE = 4"

definition CFG_IDLE_DISCONNECT_MS :: int where "CFG_IDLE_DISCONNECT_MS = 60000"

definition CFG_APP_LINK_TIMEOUT_MS :: int where "CFG_APP_LINK_TIMEOUT_MS = 10000"

definition CFG_APP_FAST_RETRY_MS :: int where "CFG_APP_FAST_RETRY_MS = 250"

definition CFG_APP_DEVINFO_WAIT_MS :: int where "CFG_APP_DEVINFO_WAIT_MS = 1500"

definition CFG_RECONNECT_CAP_MS :: nat where "CFG_RECONNECT_CAP_MS = 30000"

definition CFG_BALANCE_MIN_INTERVAL_MS :: int where "CFG_BALANCE_MIN_INTERVAL_MS = 3000"

record cfg_range =
  cr_key :: string
  cr_min :: rat
  cr_max :: rat

text \<open>The decimal literals are the doubles nearest to them.\<close>

definition CFG_BALANCE_RANGE :: "cfg_range list" where
  "CFG_BALANCE_RANGE =
    [\<lparr>cr_key = ''balance_trigger_voltage'', cr_min = fl64 (3 / 1000), cr_max = fl64 (100 / 1000)\<rparr>,
     \<lparr>cr_key = ''balance_current'', cr_min = fl64 (100 / 1000), cr_max = fl64 (2000 / 1000)\<rparr>,
     \<lparr>cr_key = ''balancing_enabled'', cr_min = 0, cr_max = 1\<rparr>,
     \<lparr>cr_key = ''balance_start_voltage'', cr_min = fl64 (2900 / 1000), cr_max = fl64 (3500 / 1000)\<rparr>,
     \<lparr>cr_key = ''cell_count'', cr_min = 15, cr_max = 16\<rparr>]"

end
