(* ===== verification/Command_Validation.thy ===== *)
theory Command_Validation
  imports Na_Types
begin

text \<open>
  Shape and type checks of a balance command, \<^verbatim>\<open>node_a/main/command_validation.c\<close>. The JSON library is
  not part of the sources: a parsed document is the part of its tree the code reads, an object's
  members in order with name, type and value, or something that is not an object. The check is
  shown to accept exactly the documents with one setting and at most one well-formed id.
\<close>

section \<open>Definitions\<close>

datatype cjson_value = CJ_Null | CJ_Bool bool | CJ_Number cdouble | CJ_String "string option" | CJ_Array | CJ_Object

record cjson_item =
  cj_string :: "string option"
  cj_value :: cjson_value

datatype cjson = CJSON_Object "cjson_item list" | CJSON_Other

definition command_event_valid :: "bool \<Rightarrow> int \<Rightarrow> int \<Rightarrow> int \<Rightarrow> int \<Rightarrow> bool" where
  "command_event_valid retained offset total_len data_len topic_len \<longleftrightarrow>
     \<not> retained \<and> offset = 0 \<and> total_len = data_len \<and> data_len > 0 \<and> data_len < 192 \<and> topic_len > 0 \<and> topic_len < 64"

text \<open>\<^verbatim>\<open>cJSON_IsString(it) && it->valuestring && strlen(it->valuestring) < 32\<close>\<close>

fun id_value_ok :: "cjson_value \<Rightarrow> bool" where
  "id_value_ok (CJ_String (Some s)) = (length s < 32)"
| "id_value_ok _ = False"

text \<open>The loop over the members.\<close>

fun scan_members :: "cjson_item list \<Rightarrow> bool \<Rightarrow> cjson_item option \<Rightarrow> string + cjson_item option" where
  "scan_members [] have_id setting = Inr setting"
| "scan_members (it # its) have_id setting =
     (case cj_string it of
        None \<Rightarrow> Inl ''bad_json''
      | Some name \<Rightarrow>
          if name = ''id'' then
            if have_id \<or> \<not> id_value_ok (cj_value it) then Inl ''bad_id'' else scan_members its True setting
          else if setting \<noteq> None then Inl ''one_key_per_command''
          else scan_members its have_id (Some it))"

definition c_trunc :: "rat \<Rightarrow> rat" where
  "c_trunc v = (if v \<ge> 0 then of_int \<lfloor>v\<rfloor> else of_int \<lceil>v\<rceil>)"

text \<open>The value of the setting: a boolean for \<^verbatim>\<open>balancing_enabled\<close>, else a finite number.\<close>

definition setting_value :: "bool \<Rightarrow> cjson_value \<Rightarrow> rat option" where
  "setting_value enabled v =
     (case v of
        CJ_Bool b \<Rightarrow> if enabled then Some (if b then 1 else 0) else None
      | CJ_Number (Finite x) \<Rightarrow> Some x
      | _ \<Rightarrow> None)"

definition balance_command_validate :: "cjson \<Rightarrow> string + cjson_item \<times> rat" where
  "balance_command_validate doc =
     (case doc of
        CJSON_Other \<Rightarrow> Inl ''bad_json''
      | CJSON_Object items \<Rightarrow>
          (case scan_members items False None of
             Inl e \<Rightarrow> Inl e
           | Inr None \<Rightarrow> Inl ''one_key_per_command''
           | Inr (Some it) \<Rightarrow>
               let enabled = (cj_string it = Some ''balancing_enabled'') in
               (case setting_value enabled (cj_value it) of
                  None \<Rightarrow> Inl ''bad_value''
                | Some v \<Rightarrow>
                    if enabled \<and> v \<noteq> 0 \<and> v \<noteq> 1 then Inl ''bad_value''
                    else if cj_string it = Some ''cell_count'' \<and> c_trunc v \<noteq> v then Inl ''bad_value''
                    else Inr (it, v))))"

section \<open>What is accepted\<close>

definition is_id :: "cjson_item \<Rightarrow> bool" where
  "is_id it = (cj_string it = Some ''id'')"

lemma scan_members_accepts:
  "scan_members its have_id setting = Inr r \<longleftrightarrow>
     list_all (\<lambda>it. cj_string it \<noteq> None) its \<and>
     list_all (\<lambda>it. id_value_ok (cj_value it)) (filter is_id its) \<and>
     length (filter is_id its) + of_bool have_id \<le> max 1 (of_bool have_id) \<and>
     (case setting of
        None \<Rightarrow> (case r of None \<Rightarrow> filter (\<lambda>it. \<not> is_id it) its = []
                        | Some it \<Rightarrow> filter (\<lambda>it. \<not> is_id it) its = [it])
      | Some s \<Rightarrow> filter (\<lambda>it. \<not> is_id it) its = [] \<and> r = Some s)"
proof (induction its arbitrary: have_id setting)
  case Nil
  then show ?case by (auto split: option.splits)
next
  case (Cons it its)
  show ?case
  proof (cases "cj_string it")
    case None
    then show ?thesis by simp
  next
    case (Some name)
    then show ?thesis using Cons
      by (cases "name = ''id''"; cases have_id; cases setting) (auto simp: is_id_def split: option.splits)
  qed
qed

lemma balance_command_named:
  assumes "balance_command_validate doc = Inr (it, v)"
  shows "cj_string it \<noteq> None"
proof -
  from assms obtain items where "scan_members items False None = Inr (Some it)"
    by (auto simp: balance_command_validate_def Let_def split: cjson.splits sum.splits option.splits if_splits)
  then have "list_all (\<lambda>m. cj_string m \<noteq> None) items" "it \<in> set (filter (\<lambda>m. \<not> is_id m) items)"
    by (auto simp: scan_members_accepts)
  then show ?thesis by (auto simp: list_all_iff)
qed

lemma balance_command_switch:
  "balance_command_validate doc = Inr (it, v) \<Longrightarrow> cj_string it = Some ''balancing_enabled'' \<Longrightarrow> v = 0 \<or> v = 1"
  by (auto simp: balance_command_validate_def Let_def split: cjson.splits sum.splits option.splits if_splits)

text \<open>
  A balance command is accepted exactly when it is an object in which every member has a name,
  there is exactly one member that is not \<^verbatim>\<open>id\<close>, there is at most one \<^verbatim>\<open>id\<close> and it is a string
  shorter than 32 characters, and the one setting has a value: a boolean or the numbers 0 and 1 for
  \<^verbatim>\<open>balancing_enabled\<close>, a whole number for \<^verbatim>\<open>cell_count\<close>, any finite number otherwise. The value handed
  on is that value.
\<close>

theorem balance_command_accepted_iff:
  "balance_command_validate doc = Inr (it, v) \<longleftrightarrow>
     (\<exists>items. doc = CJSON_Object items \<and> list_all (\<lambda>m. cj_string m \<noteq> None) items \<and>
        filter (\<lambda>m. \<not> is_id m) items = [it] \<and>
        length (filter is_id items) \<le> 1 \<and> list_all (\<lambda>m. id_value_ok (cj_value m)) (filter is_id items) \<and>
        (if cj_string it = Some ''balancing_enabled''
         then (cj_value it = CJ_Bool (v = 1) \<or> cj_value it = CJ_Number (Finite v)) \<and> (v = 0 \<or> v = 1)
         else cj_value it = CJ_Number (Finite v) \<and> (cj_string it = Some ''cell_count'' \<longrightarrow> c_trunc v = v)))"
  (is "?lhs = ?rhs")
proof (cases doc)
  case (CJSON_Object items)
  have scan: "scan_members items False None = Inr (Some it') \<longleftrightarrow>
      list_all (\<lambda>m. cj_string m \<noteq> None) items \<and> filter (\<lambda>m. \<not> is_id m) items = [it'] \<and>
      length (filter is_id items) \<le> 1 \<and> list_all (\<lambda>m. id_value_ok (cj_value m)) (filter is_id items)" for it'
    by (auto simp: scan_members_accepts)
  have "?lhs \<longleftrightarrow> scan_members items False None = Inr (Some it) \<and>
      setting_value (cj_string it = Some ''balancing_enabled'') (cj_value it) = Some v \<and>
      \<not> (cj_string it = Some ''balancing_enabled'' \<and> v \<noteq> 0 \<and> v \<noteq> 1) \<and>
      \<not> (cj_string it = Some ''cell_count'' \<and> c_trunc v \<noteq> v)"
    by (auto simp: CJSON_Object balance_command_validate_def Let_def split: sum.splits option.splits if_splits)
  also have "\<dots> \<longleftrightarrow> ?rhs"
    unfolding scan using CJSON_Object
    by (auto simp: setting_value_def split: cjson_value.splits cdouble.splits if_splits)
  finally show ?thesis .
qed (simp add: balance_command_validate_def)

theorem balance_command_accepted_iff_witness:
  "balance_command_validate (CJSON_Object
      [\<lparr>cj_string = Some ''id'', cj_value = CJ_String (Some ''a1'')\<rparr>,
       \<lparr>cj_string = Some ''cell_count'', cj_value = CJ_Number (Finite 16)\<rparr>])
   = Inr (\<lparr>cj_string = Some ''cell_count'', cj_value = CJ_Number (Finite 16)\<rparr>, 16)"
  by (subst balance_command_accepted_iff) (simp add: is_id_def c_trunc_def)

end
