(* ===== verification/Measure.thy ===== *)
theory Measure
  imports Na_Types
begin

text \<open>
  Durable state (\<^verbatim>\<open>node_a/main/nvs_store.c\<close>) and the measurement mode
  (\<^verbatim>\<open>node_a/main/measure.c\<close>, compiled with \<^verbatim>\<open>JK_ENABLE_MEASURE_WRITES=0\<close>). The NVS library is a parameter:
  the model keeps, per key the firmware uses, the blob stored last, which may have been written by
  another firmware (\<open>Stale\<close>, a blob of another size), and the result of \<^verbatim>\<open>nvs_open\<close> is an argument.
  \<^verbatim>\<open>ESP_ERROR_CHECK\<close> on a failing write restarts the device; the functions describe the writes that
  return.
\<close>

section \<open>Durable state\<close>

definition HARVEST_MAX_CHARS :: nat where "HARVEST_MAX_CHARS = 8"

record harvest_entry =
  h_valid :: bool
  h_ver :: jk_frame_ver
  h_name :: string
  h_fw_version :: string
  h_chars :: "tunnel_char_desc list"

record meas_record =
  mr_active :: bool
  mr_bms_id :: nat
  mr_saved :: "byte list"

datatype 'a blob = Exact 'a | Stale

record nvs =
  nv_harvest :: "nat \<Rightarrow> harvest_entry blob option"
  nv_ble_en :: "byte option"
  nv_meas :: "meas_record blob option"

definition nvs_get_harvest :: "bool \<Rightarrow> nat \<Rightarrow> nvs \<Rightarrow> harvest_entry option" where
  "nvs_get_harvest open_ok i n =
     (if \<not> open_ok then None
      else case nv_harvest n i of
        Some (Exact h) \<Rightarrow> if h_valid h then Some h else None
      | _ \<Rightarrow> None)"

definition nvs_put_harvest :: "bool \<Rightarrow> nat \<Rightarrow> harvest_entry \<Rightarrow> nvs \<Rightarrow> nvs" where
  "nvs_put_harvest open_ok i h n = (if \<not> open_ok then n else n\<lparr>nv_harvest := (nv_harvest n)(i := Some (Exact h))\<rparr>)"

definition nvs_clear_harvest_all :: "bool \<Rightarrow> nvs \<Rightarrow> nvs" where
  "nvs_clear_harvest_all open_ok n =
     (if \<not> open_ok then n
      else n\<lparr>nv_harvest := fold (\<lambda>i m. m(i := None)) [0..<8] (nv_harvest n)\<rparr>)"

definition nvs_get_ble_enabled :: "bool \<Rightarrow> nvs \<Rightarrow> bool" where
  "nvs_get_ble_enabled open_ok n =
     (if \<not> open_ok then False else (case nv_ble_en n of None \<Rightarrow> False | Some v \<Rightarrow> v \<noteq> 0))"

definition nvs_put_ble_enabled :: "bool \<Rightarrow> bool \<Rightarrow> nvs \<Rightarrow> nvs" where
  "nvs_put_ble_enabled open_ok on n = (if \<not> open_ok then n else n\<lparr>nv_ble_en := Some (if on then 1 else 0)\<rparr>)"

definition nvs_get_meas :: "bool \<Rightarrow> nvs \<Rightarrow> meas_record option" where
  "nvs_get_meas open_ok n =
     (if \<not> open_ok then None
      else case nv_meas n of
        Some (Exact r) \<Rightarrow> if mr_active r then Some r else None
      | _ \<Rightarrow> None)"

definition nvs_put_meas :: "bool \<Rightarrow> meas_record \<Rightarrow> nvs \<Rightarrow> nvs" where
  "nvs_put_meas open_ok r n = (if \<not> open_ok then n else n\<lparr>nv_meas := Some (Exact r)\<rparr>)"

definition nvs_clear_meas :: "bool \<Rightarrow> nvs \<Rightarrow> nvs" where
  "nvs_clear_meas open_ok n = (if \<not> open_ok then n else n\<lparr>nv_meas := None\<rparr>)"

section \<open>Measurement mode\<close>

record measure =
  me_active :: bool
  me_bms :: nat
  me_start_us :: time_us
  me_workers :: "(nat \<times> string) list"

definition measure_init :: "measure \<Rightarrow> measure" where
  "measure_init m = m\<lparr>me_active := False\<rparr>"

definition measure_active :: "measure \<Rightarrow> nat \<times> bool" where
  "measure_active m = (me_bms m, me_active m)"

text \<open>\<^verbatim>\<open>me_workers\<close> are the one-shot tasks created and not yet run.\<close>

definition measure_start :: "time_us \<Rightarrow> nat \<Rightarrow> string \<Rightarrow> measure \<Rightarrow> measure \<times> ack list" where
  "measure_start now i cid m =
     (if me_active m then (m, [mk_ack i ''measure'' cid ''busy'' None None])
      else (m\<lparr>me_active := True, me_bms := i, me_start_us := now,
              me_workers := me_workers m @ [(i, take 31 cid)]\<rparr>, []))"

definition run_sequence ::
    "bool \<Rightarrow> bms_state list \<Rightarrow> nat \<Rightarrow> string \<Rightarrow> measure \<Rightarrow> nvs \<Rightarrow> measure \<times> nvs \<times> ack list" where
  "run_sequence open_ok ss i cid m n =
     (case state_snapshot i ss of
        Some st \<Rightarrow>
          if \<not> st_have_settings st then
            (m\<lparr>me_active := False\<rparr>, n, [mk_ack i ''measure'' cid ''no_settings_cached'' None None])
          else
            let rec = \<lparr>mr_active = True, mr_bms_id = i, mr_saved = se_raw (st_settings st)\<rparr>;
                n = nvs_put_meas open_ok rec n;
                n = nvs_clear_meas open_ok n
            in (m\<lparr>me_active := False\<rparr>, n, [mk_ack i ''measure'' cid ''write_path_disabled'' None None])
      | None \<Rightarrow>
          (m\<lparr>me_active := False\<rparr>, n, [mk_ack i ''measure'' cid ''no_settings_cached'' None None]))"

text \<open>The worker that runs first among those created.\<close>

fun worker :: "bool \<Rightarrow> bms_state list \<Rightarrow> measure \<Rightarrow> nvs \<Rightarrow> measure \<times> nvs \<times> ack list" where
  "worker open_ok ss m n =
     (case me_workers m of
        [] \<Rightarrow> (m, n, [])
      | (i, cid) # ws \<Rightarrow> run_sequence open_ok ss i cid (m\<lparr>me_workers := ws\<rparr>) n)"

definition measure_check_boot :: "bool \<Rightarrow> nvs \<Rightarrow> nvs \<times> ack list" where
  "measure_check_boot open_ok n =
     (case nvs_get_meas open_ok n of
        None \<Rightarrow> (n, [])
      | Some r \<Rightarrow>
          (nvs_clear_meas open_ok n, [mk_ack (mr_bms_id r) ''measure'' '''' ''measure_restored_after_reboot'' None None]))"

definition measure_force_restore :: "bool \<Rightarrow> nat \<Rightarrow> measure \<Rightarrow> nvs \<Rightarrow> measure \<times> nvs \<times> ack list" where
  "measure_force_restore open_ok i m n =
     (case nvs_get_meas open_ok n of
        Some r \<Rightarrow>
          if mr_bms_id r = i
          then (m\<lparr>me_active := False\<rparr>, nvs_clear_meas open_ok n,
                [mk_ack i ''measure'' '''' ''restore_failed_timeout'' None None])
          else (m\<lparr>me_active := False\<rparr>, n, [])
      | None \<Rightarrow> (m\<lparr>me_active := False\<rparr>, n, []))"

section \<open>At most one measurement at a time\<close>

definition meas_inv :: "measure \<Rightarrow> bool" where
  "meas_inv m \<longleftrightarrow> length (me_workers m) \<le> 1 \<and> (me_workers m \<noteq> [] \<longrightarrow> me_active m)"

lemma measure_start_inv: "meas_inv m \<Longrightarrow> meas_inv (fst (measure_start now i cid m))"
  by (auto simp: meas_inv_def measure_start_def)

lemma run_sequence_fields:
  "fst (run_sequence ok ss i cid m n) = m\<lparr>me_active := False\<rparr>"
  "\<exists>s. snd (snd (run_sequence ok ss i cid m n)) = [mk_ack i ''measure'' cid s None None]"
  "ok \<Longrightarrow> nvs_get_meas ok n = None \<Longrightarrow> nvs_get_meas ok (fst (snd (run_sequence ok ss i cid m n))) = None"
  by (auto simp: run_sequence_def Let_def nvs_get_meas_def nvs_put_meas_def nvs_clear_meas_def split: option.splits)

lemma worker_inv: "meas_inv m \<Longrightarrow> meas_inv (fst (worker ok ss m n))"
proof (cases "me_workers m")
  case (Cons w ws)
  moreover assume "meas_inv m"
  ultimately show ?thesis by (cases w) (auto simp: meas_inv_def run_sequence_fields)
qed simp

text \<open>
  A measurement request always gets exactly one answer and leaves nothing behind. When the flag
  is free, starting one creates one worker; running it publishes exactly one acknowledgement
  for that unit and request id, frees the flag, leaves no worker, and leaves no crash record in durable
  storage, so a later reboot restores nothing. When the flag is taken the request is answered
  \<^verbatim>\<open>busy\<close> and changes nothing.
\<close>

theorem measurement_answered_once:
  assumes "meas_inv m" and "length cid < 32" and "nvs_get_meas True n = None"
  shows "if me_active m
    then measure_start now i cid m = (m, [mk_ack i ''measure'' cid ''busy'' None None])
    else (case measure_start now i cid m of (m1, acks1) \<Rightarrow> acks1 = [] \<and>
       (case worker True ss m1 n of (m2, n2, acks2) \<Rightarrow>
          (\<exists>s. acks2 = [mk_ack i ''measure'' cid s None None]) \<and> \<not> me_active m2 \<and> me_workers m2 = [] \<and>
          measure_check_boot True n2 = (n2, [])))"
proof (cases "me_active m")
  case True
  then show ?thesis by (simp add: measure_start_def)
next
  case False
  with assms(1) have ws: "me_workers m = []" by (auto simp: meas_inv_def)
  let ?m1 = "m\<lparr>me_active := True, me_bms := i, me_start_us := now, me_workers := [(i, cid)]\<rparr>"
  have "measure_start now i cid m = (?m1, [])"
    using False ws assms(2) by (simp add: measure_start_def)
  then show ?thesis
    using False ws assms(3) run_sequence_fields(1,2) [of True ss i cid "?m1\<lparr>me_workers := []\<rparr>" n]
      run_sequence_fields(3) [of True n ss i cid "?m1\<lparr>me_workers := []\<rparr>"]
    by (auto simp: measure_check_boot_def split: prod.splits option.splits)
qed

theorem measurement_answered_once_witness:
  "case measure_start 7 1 ''m1'' \<lparr>me_active = False, me_bms = 0, me_start_us = 0, me_workers = []\<rparr> of (m1, acks1) \<Rightarrow>
     acks1 = [] \<and> me_workers (fst (worker True (state_cache_init 4) m1 \<lparr>nv_harvest = (\<lambda>_. None), nv_ble_en = None, nv_meas = None\<rparr>)) = []"
  using measurement_answered_once [of "\<lparr>me_active = False, me_bms = 0, me_start_us = 0, me_workers = []\<rparr>" "''m1''"
      "\<lparr>nv_harvest = (\<lambda>_. None), nv_ble_en = None, nv_meas = None\<rparr>" 7 1 "state_cache_init 4"]
  by (auto simp: meas_inv_def nvs_get_meas_def split: prod.splits)

end
