(* ===== verification/Arbiter_Model.thy ===== *)
theory Arbiter_Model
  imports Command_Validation Measure
begin

text \<open>
  The arbiter task of node A, \<^verbatim>\<open>node_a/main/arbiter.c\<close>: every transaction with a BMS passes through it.
  The record \<open>arb\<close> holds its static tables (\<^verbatim>\<open>s_pend\<close>, \<^verbatim>\<open>s_rb\<close>, \<^verbatim>\<open>s_last_write_us\<close>), the state cache
  and measurement state it works on, and the traffic it causes: the requests accepted by
  \<^verbatim>\<open>g_q_bms_request\<close>, the messages accepted by \<^verbatim>\<open>g_q_arb_in\<close>, the acknowledgements and the tunnel calls.
  The environment \<open>env\<close> gives the time of a turn (one value for all clock reads of the turn), the
  acceptance of the two queues, the JSON parser and the fleet table.
\<close>

section \<open>State\<close>

datatype arb_mqtt = MQTT_BALANCE | MQTT_MEASURE | MQTT_REFRESH

datatype arb_msg =
    ARB_REQ bms_request
  | ARB_APP_CONN nat bool
  | ARB_MQTT nat arb_mqtt string string
  | ARB_CLEAR nat
  | ARB_SETTINGS nat
  | ARB_APP_DEVREQ nat
  | ARB_DEVINFO nat

fun msg_bms_id :: "arb_msg \<Rightarrow> nat" where
  "msg_bms_id (ARB_REQ r) = rq_bms_id r"
| "msg_bms_id (ARB_APP_CONN i c) = i"
| "msg_bms_id (ARB_MQTT i t j c) = i"
| "msg_bms_id (ARB_CLEAR i) = i"
| "msg_bms_id (ARB_SETTINGS i) = i"
| "msg_bms_id (ARB_APP_DEVREQ i) = i"
| "msg_bms_id (ARB_DEVINFO i) = i"

record rb =
  rb_active :: bool
  rb_which :: nat
  rb_target :: rat
  rb_key :: string
  rb_cid :: string
  rb_deadline_us :: time_us
  rb_next_nudge_us :: time_us
  rb_nudges :: nat

definition PEND_DEPTH :: nat where "PEND_DEPTH = 8"

record pend =
  p_ring :: "bms_request list"
  p_head :: nat
  p_tail :: nat
  p_count :: nat
  p_busy :: bool
  p_active_connect_head :: bool
  p_next_cmd_id :: u64
  p_active_cmd_id :: u64
  p_link_wait_deadline_us :: time_us
  p_connect_after_us :: time_us
  p_backoff_ms :: nat
  p_dispatch_after_us :: time_us
  p_devreq_deadline_us :: time_us
  p_devreq_refreshed :: bool

datatype tun_call = Tun_link nat tunnel_link_state | Tun_write_result nat nat tunnel_write_status

record arb =
  a_state :: "bms_state list"
  a_pend :: "pend list"
  a_rb :: "rb list"
  a_last_write_us :: "time_us list"
  a_bms_q :: "bms_request list"
  a_in_q :: "arb_msg list"
  a_acks :: "ack list"
  a_tun :: "tun_call list"
  a_evt_app_active :: bool
  a_meas :: measure

record env =
  e_now :: time_us
  e_bms_ok :: "bms_request list \<Rightarrow> bms_request \<Rightarrow> bool"
  e_in_ok :: "arb_msg list \<Rightarrow> arb_msg \<Rightarrow> bool"
  e_parse :: "string \<Rightarrow> cjson option"
  e_fleet :: "cfg_bms_target list"

definition units :: "arb \<Rightarrow> nat" where
  "units a = length (a_pend a)"

definition upd_pend :: "nat \<Rightarrow> (pend \<Rightarrow> pend) \<Rightarrow> arb \<Rightarrow> arb" where
  "upd_pend i f a = a\<lparr>a_pend := upd_unit i f (a_pend a)\<rparr>"

definition send_ack :: "ack \<Rightarrow> arb \<Rightarrow> arb" where
  "send_ack k a = a\<lparr>a_acks := a_acks a @ [k]\<rparr>"

definition tun_event :: "tun_call \<Rightarrow> arb \<Rightarrow> arb" where
  "tun_event t a = a\<lparr>a_tun := a_tun a @ [t]\<rparr>"

section \<open>The pending ring\<close>

definition ring_push :: "pend \<Rightarrow> bms_request \<Rightarrow> pend option" where
  "ring_push p r =
     (if p_count p \<ge> PEND_DEPTH then None
      else Some (p\<lparr>p_ring := (p_ring p)[p_tail p := r], p_tail := (p_tail p + 1) mod PEND_DEPTH,
                  p_count := p_count p + 1\<rparr>))"

definition ring_pop :: "pend \<Rightarrow> (bms_request \<times> pend) option" where
  "ring_pop p =
     (if p_count p = 0 then None
      else Some (p_ring p ! p_head p, p\<lparr>p_head := (p_head p + 1) mod PEND_DEPTH, p_count := p_count p - 1\<rparr>))"

text \<open>\<^verbatim>\<open>while (ring_pop(p, &r))\<close>: the requests taken out.\<close>

function flush_ring :: "pend \<Rightarrow> pend \<times> bms_request list" where
  "flush_ring p =
     (case ring_pop p of
        None \<Rightarrow> (p, [])
      | Some (r, p') \<Rightarrow> (case flush_ring p' of (p'', rs) \<Rightarrow> (p'', r # rs)))"
  by pat_completeness auto
termination
  by (relation "measure p_count") (auto simp: ring_pop_def split: if_splits)

declare flush_ring.simps [simp del]

section \<open>Submissions\<close>

definition arb_in_send :: "env \<Rightarrow> arb_msg \<Rightarrow> arb \<Rightarrow> arb" where
  "arb_in_send e m a =
     (if msg_bms_id m \<ge> units a then a
      else if e_in_ok e (a_in_q a) m then a\<lparr>a_in_q := a_in_q a @ [m]\<rparr> else a)"

definition arbiter_submit :: "env \<Rightarrow> bms_request \<Rightarrow> arb \<Rightarrow> arb" where
  "arbiter_submit e req a =
     (if rq_bms_id req \<ge> units a \<or> length (rq_payload req) > REQ_PAYLOAD_MAX then a
      else arb_in_send e (ARB_REQ req) a)"

definition arbiter_app_write :: "env \<Rightarrow> nat \<Rightarrow> nat \<Rightarrow> bool \<Rightarrow> byte list \<Rightarrow> arb \<Rightarrow> arb" where
  "arbiter_app_write e i idx wr d a =
     (if i \<ge> units a \<or> idx > 1 \<or> length d = 0 \<or> length d > REQ_PAYLOAD_MAX then a
      else arbiter_submit e (zero_request\<lparr>rq_bms_id := i, rq_kind := TXN_RAW_WRITE, rq_source := SRC_APP,
             rq_idx := idx, rq_with_response := wr, rq_response_needed := wr, rq_timeout_ms := 3000,
             rq_payload := d\<rparr>) a)"

definition poll_request :: "nat \<Rightarrow> byte \<Rightarrow> bms_request" where
  "poll_request i opcode = zero_request\<lparr>rq_bms_id := i, rq_kind := TXN_POLL, rq_source := SRC_INTERNAL,
     rq_opcode := opcode, rq_response_needed := True, rq_timeout_ms := 3000\<rparr>"

definition bounce_request :: "nat \<Rightarrow> bms_request" where
  "bounce_request i = zero_request\<lparr>rq_bms_id := i, rq_kind := TXN_DISCONNECT, rq_source := SRC_INTERNAL,
     rq_response_needed := True, rq_timeout_ms := 3000\<rparr>"

definition arbiter_poll :: "env \<Rightarrow> nat \<Rightarrow> byte \<Rightarrow> arb \<Rightarrow> arb" where
  "arbiter_poll e i opcode = arbiter_submit e (poll_request i opcode)"

definition arbiter_bounce :: "env \<Rightarrow> nat \<Rightarrow> arb \<Rightarrow> arb" where
  "arbiter_bounce e i = arbiter_submit e (bounce_request i)"

definition arbiter_note_app_devreq :: "env \<Rightarrow> nat \<Rightarrow> arb \<Rightarrow> arb" where
  "arbiter_note_app_devreq e i = arb_in_send e (ARB_APP_DEVREQ i)"

definition arbiter_note_devinfo :: "env \<Rightarrow> nat \<Rightarrow> arb \<Rightarrow> arb" where
  "arbiter_note_devinfo e i = arb_in_send e (ARB_DEVINFO i)"

definition arbiter_set_app_connected :: "env \<Rightarrow> nat \<Rightarrow> bool \<Rightarrow> arb \<Rightarrow> arb" where
  "arbiter_set_app_connected e i conn = arb_in_send e (ARB_APP_CONN i conn)"

definition arbiter_clear_pending :: "env \<Rightarrow> nat \<Rightarrow> arb \<Rightarrow> arb" where
  "arbiter_clear_pending e i = arb_in_send e (ARB_CLEAR i)"

definition arbiter_notify_settings :: "env \<Rightarrow> nat \<Rightarrow> arb \<Rightarrow> arb" where
  "arbiter_notify_settings e i = arb_in_send e (ARB_SETTINGS i)"

text \<open>A NULL argument of \<^verbatim>\<open>submit_mqtt\<close> leaves the zeroed field, the empty string.\<close>

definition submit_mqtt :: "env \<Rightarrow> nat \<Rightarrow> arb_mqtt \<Rightarrow> string option \<Rightarrow> string option \<Rightarrow> arb \<Rightarrow> arb" where
  "submit_mqtt e i t json cid a =
     (if (case json of None \<Rightarrow> False | Some j \<Rightarrow> length j \<ge> 192) \<or> (case cid of None \<Rightarrow> False | Some c \<Rightarrow> length c \<ge> 32)
      then a
      else arb_in_send e (ARB_MQTT i t (case json of None \<Rightarrow> '''' | Some j \<Rightarrow> j) (case cid of None \<Rightarrow> '''' | Some c \<Rightarrow> c)) a)"

definition arbiter_balance_set :: "env \<Rightarrow> nat \<Rightarrow> string option \<Rightarrow> string option \<Rightarrow> arb \<Rightarrow> arb" where
  "arbiter_balance_set e i json cid = submit_mqtt e i MQTT_BALANCE json cid"

definition arbiter_measure :: "env \<Rightarrow> nat \<Rightarrow> string option \<Rightarrow> arb \<Rightarrow> arb" where
  "arbiter_measure e i cid = submit_mqtt e i MQTT_MEASURE None cid"

definition arbiter_refresh :: "env \<Rightarrow> nat \<Rightarrow> string option \<Rightarrow> arb \<Rightarrow> arb" where
  "arbiter_refresh e i cid = submit_mqtt e i MQTT_REFRESH None cid"

section \<open>Dispatch\<close>

definition rt_set_app :: "env \<Rightarrow> nat \<Rightarrow> bool \<Rightarrow> arb \<Rightarrow> arb" where
  "rt_set_app e i app a =
     (let a = a\<lparr>a_state := state_set_app_connected i app (e_now e) (a_state a)\<rparr>
      in if app then a\<lparr>a_evt_app_active := True\<rparr> else a)"

definition rt_app_connected :: "nat \<Rightarrow> arb \<Rightarrow> bool" where
  "rt_app_connected i a = brt_app_connected (state_get_runtime i (a_state a))"

definition rt_link_held :: "nat \<Rightarrow> arb \<Rightarrow> bool" where
  "rt_link_held i a = brt_link_held (state_get_runtime i (a_state a))"

definition UINT64_MAX :: u64 where "UINT64_MAX = - 1"

text \<open>The connect a dispatch inserts for work that needs a link.\<close>

definition auto_connect :: "nat \<Rightarrow> u64 \<Rightarrow> bms_request" where
  "auto_connect i cid = zero_request\<lparr>rq_bms_id := i, rq_kind := TXN_CONNECT, rq_source := SRC_INTERNAL,
     rq_response_needed := True, rq_timeout_ms := 9000, rq_cmd_id := cid\<rparr>"

definition needs_link :: "bms_request \<Rightarrow> bool" where
  "needs_link r = (rq_kind r \<noteq> TXN_CONNECT \<and> rq_kind r \<noteq> TXN_DISCONNECT)"

definition mark_busy :: "bool \<Rightarrow> u64 \<Rightarrow> pend \<Rightarrow> pend" where
  "mark_busy conn_head cid p =
     p\<lparr>p_active_connect_head := conn_head, p_next_cmd_id := cid, p_active_cmd_id := cid, p_busy := True\<rparr>"

text \<open>The unit's bookkeeping once the BLE queue has accepted a copy of the head \<open>r\<close>.\<close>

definition handed :: "bms_request \<Rightarrow> u64 \<Rightarrow> pend \<Rightarrow> pend" where
  "handed r cid p =
     (let p = mark_busy (rq_kind r = TXN_CONNECT) cid p in
      if p_active_connect_head p then p\<lparr>p_ring := (p_ring p)[p_head p := r\<lparr>rq_cmd_id := cid\<rparr>]\<rparr>
      else (case ring_pop p of None \<Rightarrow> p | Some (_, p') \<Rightarrow> p'))"

definition dispatch :: "env \<Rightarrow> nat \<Rightarrow> arb \<Rightarrow> arb" where
  "dispatch e i a =
     (let p = a_pend a ! i in
      if e_now e < p_dispatch_after_us p then a
      else if p_busy p \<or> p_count p = 0 then a
      else if p_next_cmd_id p = UINT64_MAX then a
      else
        let r = p_ring p ! p_head p; cid = p_next_cmd_id p + 1 in
        if needs_link r \<and> \<not> rt_link_held i a then
          if e_now e < p_connect_after_us p then a
          else let c = auto_connect i cid in
            if e_bms_ok e (a_bms_q a) c
            then upd_pend i (mark_busy False cid) (a\<lparr>a_bms_q := a_bms_q a @ [c]\<rparr>)
            else a
        else
          let out = r\<lparr>rq_cmd_id := cid\<rparr> in
          if e_bms_ok e (a_bms_q a) out
          then upd_pend i (handed r cid) (a\<lparr>a_bms_q := a_bms_q a @ [out]\<rparr>)
          else a)"

section \<open>Balance writes\<close>

definition whitelist_lookup :: "string \<Rightarrow> cfg_range option" where
  "whitelist_lookup key = find (\<lambda>r. cr_key r = key) CFG_BALANCE_RANGE"

definition rb_which_of :: "string \<Rightarrow> nat" where
  "rb_which_of key =
     (if key = ''balance_current'' then 1 else if key = ''balancing_enabled'' then 2
      else if key = ''balance_start_voltage'' then 3 else if key = ''cell_count'' then 4 else 0)"

definition balance_request :: "nat \<Rightarrow> byte list \<Rightarrow> bms_request" where
  "balance_request i fr = zero_request\<lparr>rq_bms_id := i, rq_kind := TXN_BALANCE_WRITE, rq_source := SRC_MQTT,
     rq_with_response := True, rq_response_needed := True, rq_timeout_ms := 3000, rq_payload := fr\<rparr>"

definition arm_readback :: "time_us \<Rightarrow> string \<Rightarrow> rat \<Rightarrow> string \<Rightarrow> rb" where
  "arm_readback nw key v cid =
     \<lparr>rb_active = True, rb_which = rb_which_of key, rb_target = v, rb_key = take 27 key, rb_cid = take 31 cid,
      rb_deadline_us = nw + 15000000, rb_next_nudge_us = nw + 5000000, rb_nudges = 0\<rparr>"

definition balance_ack :: "nat \<Rightarrow> string \<Rightarrow> string \<Rightarrow> string option \<Rightarrow> arb \<Rightarrow> arb" where
  "balance_ack i cid status detail = send_ack (mk_ack i ''balance/set'' cid status detail None)"

definition handle_balance_set :: "env \<Rightarrow> nat \<Rightarrow> string \<Rightarrow> string \<Rightarrow> arb \<Rightarrow> arb" where
  "handle_balance_set e i json cid a =
     (case e_parse e json of
        None \<Rightarrow> balance_ack i cid ''bad_json'' None a
      | Some doc \<Rightarrow>
          (case balance_command_validate doc of
             Inl err \<Rightarrow> balance_ack i cid err None a
           | Inr (it, v) \<Rightarrow>
               let key = the (cj_string it) in
               (case whitelist_lookup key of
                  None \<Rightarrow> balance_ack i cid ''rejected_out_of_scope'' (Some key) a
                | Some rg \<Rightarrow>
                    if v < cr_min rg \<or> v > cr_max rg then balance_ack i cid ''out_of_range'' (Some key) a
                    else if rt_app_connected i a then balance_ack i cid ''deferred_app_active'' None a
                    else if a_last_write_us a ! i \<noteq> 0 \<and>
                            e_now e - a_last_write_us a ! i < CFG_BALANCE_MIN_INTERVAL_MS * 1000
                    then balance_ack i cid ''rate_limited'' None a
                    else
                      (case jk_build_balance_write JK_FRAME_JK02_32S key (Finite v) JK_FRAME_MAX of
                         None \<Rightarrow> balance_ack i cid ''write_path_disabled'' (Some key) a
                       | Some fr \<Rightarrow>
                           let a = arbiter_submit e (balance_request i fr) a
                           in a\<lparr>a_last_write_us := (a_last_write_us a)[i := e_now e],
                                a_rb := (a_rb a)[i := arm_readback (e_now e) key v cid]\<rparr>))))"

section \<open>Readback\<close>

definition rb_finish :: "nat \<Rightarrow> string \<Rightarrow> rat \<Rightarrow> arb \<Rightarrow> arb" where
  "rb_finish i status readval a =
     (let rb = a_rb a ! i;
          a = send_ack (mk_ack i ''balance/set'' (rb_cid rb) status (Some (rb_key rb)) (Some (rb_key rb, readval))) a
      in a\<lparr>a_rb := (a_rb a)[i := rb\<lparr>rb_active := False\<rparr>]\<rparr>)"

definition rb_value :: "nat \<Rightarrow> jk_settings \<Rightarrow> rat" where
  "rb_value which se =
     (if which = 1 then se_balance_current_a se
      else if which = 2 then (if se_balancing_enabled se then 1 else 0)
      else if which = 3 then se_balance_start_v se
      else if which = 4 then of_int (uint (se_cell_count_set se))
      else se_balance_trigger_v se)"

text \<open>The comparison in doubles, with the literal \<^verbatim>\<open>0.0005\<close> as the nearest double.\<close>

definition rb_matches :: "rb \<Rightarrow> jk_settings \<Rightarrow> bool" where
  "rb_matches rb se =
     (let tol = (if rb_which rb = 2 then 1 / 2 else fl64 (5 / 10000))
      in \<bar>fl64 (rb_value (rb_which rb) se - rb_target rb)\<bar> \<le> tol)"

definition rb_on_settings :: "nat \<Rightarrow> arb \<Rightarrow> arb" where
  "rb_on_settings i a =
     (let rb = a_rb a ! i in
      if \<not> rb_active rb then a
      else case state_snapshot i (a_state a) of
        None \<Rightarrow> a
      | Some st \<Rightarrow>
          if \<not> st_have_settings st then a
          else if rb_matches rb (st_settings st)
          then rb_finish i ''ok'' (rb_value (rb_which rb) (st_settings st)) a
          else a)"

text \<open>The body of the loop of \<^verbatim>\<open>rb_tick\<close>.\<close>

definition rb_tick_unit :: "env \<Rightarrow> nat \<Rightarrow> arb \<Rightarrow> arb" where
  "rb_tick_unit e i a =
     (let rb = a_rb a ! i in
      if \<not> rb_active rb then a
      else
        let a = (if rb_nudges rb < 3 \<and> e_now e > rb_next_nudge_us rb
                 then arbiter_poll e i JK_CMD_CELL_INFO
                        (a\<lparr>a_rb := (a_rb a)[i := rb\<lparr>rb_nudges := rb_nudges rb + 1,
                                                   rb_next_nudge_us := e_now e + 4000000\<rparr>]\<rparr>)
                 else a);
            rb = a_rb a ! i
        in if e_now e > rb_deadline_us rb
           then (send_ack (mk_ack i ''balance/set'' (rb_cid rb) ''written_unverified'' (Some (rb_key rb)) None) a)
                  \<lparr>a_rb := (a_rb a)[i := rb\<lparr>rb_active := False\<rparr>]\<rparr>
           else a)"

definition rb_tick :: "env \<Rightarrow> arb \<Rightarrow> arb" where
  "rb_tick e a = fold (rb_tick_unit e) [0..<units a] a"

section \<open>Responses\<close>

definition back_off :: "env \<Rightarrow> bool \<Rightarrow> pend \<Rightarrow> pend" where
  "back_off e app p =
     (let p = (if p_backoff_ms p = 0 \<and> app
               then p\<lparr>p_backoff_ms := 1, p_connect_after_us := e_now e + CFG_APP_FAST_RETRY_MS * 1000\<rparr>
               else
                 let b = (if p_backoff_ms p < 2000 then 2000
                          else let d = (p_backoff_ms p * 2) mod 2 ^ 32
                               in if d > CFG_RECONNECT_CAP_MS then CFG_RECONNECT_CAP_MS else d)
                 in p\<lparr>p_backoff_ms := b, p_connect_after_us := e_now e + int b * 1000\<rparr>)
      in p\<lparr>p_dispatch_after_us := e_now e + 100000\<rparr>)"

definition release :: "bms_response \<Rightarrow> pend \<Rightarrow> pend" where
  "release rsp p =
     (let p = (if p_active_connect_head p \<and> rs_status rsp \<noteq> RESP_CONNECT_WAIT \<and> p_count p \<noteq> 0 \<and>
                  rq_cmd_id (p_ring p ! p_head p) = rs_cmd_id rsp
               then (case ring_pop p of None \<Rightarrow> p | Some (_, p') \<Rightarrow> p') else p)
      in p\<lparr>p_active_connect_head := False, p_busy := False, p_active_cmd_id := 0\<rparr>)"

definition on_response :: "env \<Rightarrow> bms_response \<Rightarrow> arb \<Rightarrow> arb" where
  "on_response e rsp a =
     (let i = rs_bms_id rsp in
      if i \<ge> units a then a
      else
        let p = a_pend a ! i in
        if \<not> p_busy p \<or> rs_cmd_id rsp \<noteq> p_active_cmd_id p then a
        else
          let app = rt_app_connected i a;
              a = upd_pend i (\<lambda>p.
                let p = release rsp p in
                (case rs_status rsp of
                   RESP_CONNECT_WAIT \<Rightarrow> p\<lparr>p_dispatch_after_us := e_now e + 100000\<rparr>
                 | RESP_OK \<Rightarrow> p\<lparr>p_backoff_ms := 0\<rparr>
                 | RESP_TIMEOUT \<Rightarrow> back_off e app p
                 | RESP_LINK_DOWN \<Rightarrow> back_off e app p
                 | RESP_GATT_ERR \<Rightarrow> back_off e app p
                 | RESP_REJECTED \<Rightarrow> p)) a
          in dispatch e i a)"

section \<open>App sessions and guards\<close>

definition app_connect_request :: "nat \<Rightarrow> bms_request" where
  "app_connect_request i = zero_request\<lparr>rq_bms_id := i, rq_kind := TXN_CONNECT, rq_source := SRC_APP,
     rq_response_needed := True, rq_timeout_ms := 9000\<rparr>"

definition on_app_conn :: "env \<Rightarrow> nat \<Rightarrow> bool \<Rightarrow> arb \<Rightarrow> arb" where
  "on_app_conn e i conn a =
     (if \<not> conn \<and> \<not> rt_app_connected i a then a
      else
        let a = rt_set_app e i conn a;
            a = upd_pend i (\<lambda>p. p\<lparr>p_devreq_deadline_us := 0, p_devreq_refreshed := False\<rparr>) a
        in if conn then
             arbiter_submit e (app_connect_request i)
               (upd_pend i (\<lambda>p. p\<lparr>p_link_wait_deadline_us := e_now e + CFG_APP_LINK_TIMEOUT_MS * 1000\<rparr>) a)
           else
             arbiter_poll e i JK_CMD_DEVICE_INFO (upd_pend i (\<lambda>p. p\<lparr>p_link_wait_deadline_us := 0\<rparr>) a))"

definition on_app_devreq :: "env \<Rightarrow> nat \<Rightarrow> arb \<Rightarrow> arb" where
  "on_app_devreq e i a =
     (let p = a_pend a ! i in
      if p_devreq_refreshed p \<or> p_devreq_deadline_us p \<noteq> 0 then a
      else if \<not> rt_app_connected i a \<or> \<not> rt_link_held i a then a
      else upd_pend i (\<lambda>p. p\<lparr>p_devreq_deadline_us := e_now e + CFG_APP_DEVINFO_WAIT_MS * 1000\<rparr>) a)"

text \<open>\<^verbatim>\<open>if (!ring_push(p, &d) || !ring_push(p, &q))\<close>: the second push only after the first.\<close>

definition push_two :: "bms_request \<Rightarrow> bms_request \<Rightarrow> pend \<Rightarrow> pend" where
  "push_two d q p =
     (case ring_push p d of
        None \<Rightarrow> p
      | Some p1 \<Rightarrow> (case ring_push p1 q of None \<Rightarrow> p1 | Some p2 \<Rightarrow> p2))"

definition check_devreq :: "env \<Rightarrow> nat \<Rightarrow> arb \<Rightarrow> arb" where
  "check_devreq e i a =
     (let p = a_pend a ! i in
      if p_devreq_deadline_us p = 0 \<or> e_now e \<le> p_devreq_deadline_us p then a
      else
        let a = upd_pend i (\<lambda>p. p\<lparr>p_devreq_deadline_us := 0\<rparr>) a in
        if \<not> rt_app_connected i a \<or> \<not> rt_link_held i a then a
        else
          dispatch e i
            (upd_pend i (\<lambda>p. push_two (bounce_request i) (poll_request i JK_CMD_DEVICE_INFO)
                                      (p\<lparr>p_devreq_refreshed := True\<rparr>)) a))"

definition link_guard :: "env \<Rightarrow> nat \<Rightarrow> arb \<Rightarrow> arb" where
  "link_guard e i a =
     (let p = a_pend a ! i in
      if p_link_wait_deadline_us p \<noteq> 0 \<and> e_now e > p_link_wait_deadline_us p \<and> \<not> rt_link_held i a then
        case flush_ring (p\<lparr>p_link_wait_deadline_us := 0\<rparr>) of
          (p', rs) \<Rightarrow>
            let a = upd_pend i (\<lambda>_. p') a;
                a = fold (\<lambda>r. tun_event (Tun_write_result i (rq_idx r) TUN_WR_LINK_DOWN))
                      (filter (\<lambda>r. rq_source r = SRC_APP) rs) a
            in (case state_mark_idle_if_unheld i (a_state a) of
                  (allowed, ss) \<Rightarrow>
                    let a = a\<lparr>a_state := ss\<rparr>
                    in if allowed then tun_event (Tun_link i LINK_REACHABLE_IDLE) a else a)
      else a)"

definition check_link_guards :: "env \<Rightarrow> arb \<Rightarrow> arb" where
  "check_link_guards e a = fold (\<lambda>i a. link_guard e i (check_devreq e i a)) [0..<units a] a"

section \<open>The task\<close>

datatype arb_event = Ev_msg arb_msg | Ev_rsp bms_response | Ev_timeout

fun handle_msg :: "env \<Rightarrow> arb_msg \<Rightarrow> arb \<Rightarrow> arb" where
  "handle_msg e (ARB_REQ r) a =
     (case ring_push (a_pend a ! rq_bms_id r) r of
        None \<Rightarrow> a
      | Some p \<Rightarrow> dispatch e (rq_bms_id r) (upd_pend (rq_bms_id r) (\<lambda>_. p) a))"
| "handle_msg e (ARB_APP_CONN i c) a = on_app_conn e i c a"
| "handle_msg e (ARB_CLEAR i) a = upd_pend i (\<lambda>p. p\<lparr>p_head := 0, p_tail := 0, p_count := 0\<rparr>) a"
| "handle_msg e (ARB_SETTINGS i) a = rb_on_settings i a"
| "handle_msg e (ARB_APP_DEVREQ i) a = on_app_devreq e i a"
| "handle_msg e (ARB_DEVINFO i) a = upd_pend i (\<lambda>p. p\<lparr>p_devreq_deadline_us := 0\<rparr>) a"
| "handle_msg e (ARB_MQTT i MQTT_BALANCE json cid) a = handle_balance_set e i json cid a"
| "handle_msg e (ARB_MQTT i MQTT_MEASURE json cid) a =
     (if rt_app_connected i a then send_ack (mk_ack i ''measure'' cid ''deferred_app_active'' None None) a
      else case measure_start (e_now e) i cid (a_meas a) of
        (m, acks) \<Rightarrow> fold send_ack acks (a\<lparr>a_meas := m\<rparr>))"
| "handle_msg e (ARB_MQTT i MQTT_REFRESH json cid) a =
     (let a = arbiter_poll e i JK_CMD_CELL_INFO a
      in if rt_app_connected i a
         then send_ack (mk_ack i ''refresh'' cid ''deferred_app_active'' (Some ''settings'') None) a else a)"

fun handle_event :: "env \<Rightarrow> arb_event \<Rightarrow> arb \<Rightarrow> arb" where
  "handle_event e (Ev_msg m) a = handle_msg e m a"
| "handle_event e (Ev_rsp rsp) a = on_response e rsp a"
| "handle_event e Ev_timeout a = a"

definition unparked :: "cfg_bms_target list \<Rightarrow> nat \<Rightarrow> bool" where
  "unparked fleet i = list_ex (\<lambda>t. t_bms_id t = i \<and> t_name t \<noteq> None) fleet"

definition retry_dispatch :: "env \<Rightarrow> arb \<Rightarrow> arb" where
  "retry_dispatch e a = fold (\<lambda>i a. if unparked (e_fleet e) i then dispatch e i a else a) [0..<units a] a"

text \<open>One turn of the loop of \<^verbatim>\<open>arbiter_task\<close>.\<close>

definition arbiter_step :: "env \<Rightarrow> arb_event \<Rightarrow> arb \<Rightarrow> arb" where
  "arbiter_step e ev a = retry_dispatch e (rb_tick e (check_link_guards e (handle_event e ev a)))"

definition zero_pend :: pend where
  "zero_pend = \<lparr>p_ring = replicate PEND_DEPTH zero_request, p_head = 0, p_tail = 0, p_count = 0, p_busy = False,
     p_active_connect_head = False, p_next_cmd_id = 0, p_active_cmd_id = 0, p_link_wait_deadline_us = 0,
     p_connect_after_us = 0, p_backoff_ms = 0, p_dispatch_after_us = 0, p_devreq_deadline_us = 0,
     p_devreq_refreshed = False\<rparr>"

definition zero_rb :: rb where
  "zero_rb = \<lparr>rb_active = False, rb_which = 0, rb_target = 0, rb_key = '''', rb_cid = '''', rb_deadline_us = 0,
     rb_next_nudge_us = 0, rb_nudges = 0\<rparr>"

definition arbiter_start :: "nat \<Rightarrow> measure \<Rightarrow> arb" where
  "arbiter_start n m = \<lparr>a_state = state_cache_init n, a_pend = replicate n zero_pend, a_rb = replicate n zero_rb,
     a_last_write_us = replicate n 0, a_bms_q = [], a_in_q = [], a_acks = [], a_tun = [],
     a_evt_app_active = False, a_meas = m\<rparr>"

end
