(* ===== verification/Arbiter_Ring.thy ===== *)
theory Arbiter_Ring
  imports Arbiter_Model "HOL-Library.Sublist"
begin

text \<open>
  Two building blocks of the arbiter's correctness: the pending ring refines a bounded FIFO, and a
  settings write built from a value inside the configured range carries a register value inside
  the safe envelope, through every rounding on the way.
\<close>

section \<open>The ring is a bounded FIFO\<close>

text \<open>The interface of a queue of bounded size, with its contents as a list.\<close>

locale bounded_fifo =
  fixes inv :: "'q \<Rightarrow> bool" and contents :: "'q \<Rightarrow> 'a list" and cap :: nat
    and push :: "'q \<Rightarrow> 'a \<Rightarrow> 'q option" and pop :: "'q \<Rightarrow> ('a \<times> 'q) option"
  assumes bounded: "inv q \<Longrightarrow> length (contents q) \<le> cap"
    and push_full: "inv q \<Longrightarrow> length (contents q) = cap \<Longrightarrow> push q x = None"
    and push_room: "inv q \<Longrightarrow> length (contents q) < cap \<Longrightarrow>
      \<exists>q'. push q x = Some q' \<and> inv q' \<and> contents q' = contents q @ [x]"
    and pop_none: "inv q \<Longrightarrow> contents q = [] \<Longrightarrow> pop q = None"
    and pop_some: "inv q \<Longrightarrow> contents q = x # xs \<Longrightarrow> \<exists>q'. pop q = Some (x, q') \<and> inv q' \<and> contents q' = xs"
begin

lemma push_SomeD: "inv q \<Longrightarrow> push q x = Some q' \<Longrightarrow> inv q' \<and> contents q' = contents q @ [x]"
  using bounded [of q] push_full [of q x] push_room [of q x] by (cases "length (contents q) = cap") auto

lemma push_iff_room: "inv q \<Longrightarrow> (\<exists>q'. push q x = Some q') \<longleftrightarrow> length (contents q) < cap"
  using bounded [of q] push_full [of q x] push_room [of q x] by (cases "length (contents q) = cap") auto

lemma pop_SomeD: "inv q \<Longrightarrow> pop q = Some (x, q') \<Longrightarrow> inv q' \<and> contents q = x # contents q'"
  using pop_none [of q] pop_some [of q] by (cases "contents q") auto

lemma pop_None_iff: "inv q \<Longrightarrow> pop q = None \<longleftrightarrow> contents q = []"
  using pop_none [of q] pop_some [of q] by (cases "contents q") auto

text \<open>What goes in comes out, in order, behind what was there.\<close>

lemma push_pop_order:
  assumes "inv q" "contents q = y # ys" "push q x = Some q'"
  shows "\<exists>q''. pop q' = Some (y, q'') \<and> contents q'' = ys @ [x]"
  using pop_some [of q' y "ys @ [x]"] push_SomeD [OF assms(1,3)] assms(2) by auto

end

definition ring_inv :: "pend \<Rightarrow> bool" where
  "ring_inv p \<longleftrightarrow> length (p_ring p) = PEND_DEPTH \<and> p_head p < PEND_DEPTH \<and> p_count p \<le> PEND_DEPTH \<and>
     p_tail p = (p_head p + p_count p) mod PEND_DEPTH"

definition ring_list :: "pend \<Rightarrow> bms_request list" where
  "ring_list p = map (\<lambda>k. p_ring p ! ((p_head p + k) mod PEND_DEPTH)) [0..<p_count p]"

lemma length_ring_list [simp]: "length (ring_list p) = p_count p"
  by (simp add: ring_list_def)

lemma ring_slot_inj:
  assumes "k < n" "n < PEND_DEPTH"
  shows "(h + k) mod PEND_DEPTH \<noteq> (h + n) mod PEND_DEPTH"
proof
  assume "(h + k) mod PEND_DEPTH = (h + n) mod PEND_DEPTH"
  then have "PEND_DEPTH dvd (n - k)"
    using assms by (metis add_diff_cancel_left le_add1 less_imp_le_nat mod_eq_dvd_iff_nat nat_add_left_cancel_le)
  then have "PEND_DEPTH \<le> n - k" using assms(1) by (intro dvd_imp_le) simp_all
  with assms show False by simp
qed

lemma ring_push_list:
  assumes "ring_inv p" "p_count p < PEND_DEPTH"
  shows "\<exists>p'. ring_push p r = Some p' \<and> ring_inv p' \<and> ring_list p' = ring_list p @ [r]"
proof -
  let ?p' = "p\<lparr>p_ring := (p_ring p)[p_tail p := r], p_tail := (p_tail p + 1) mod PEND_DEPTH, p_count := p_count p + 1\<rparr>"
  from assms have inv: "length (p_ring p) = PEND_DEPTH" "p_tail p = (p_head p + p_count p) mod PEND_DEPTH"
    "p_tail p < PEND_DEPTH" by (auto simp: ring_inv_def PEND_DEPTH_def)
  have "p_tail p \<noteq> (p_head p + k) mod PEND_DEPTH" if "k < p_count p" for k
    using ring_slot_inj [OF that assms(2), of "p_head p"] inv(2) by simp
  then have "map (\<lambda>k. (p_ring p)[p_tail p := r] ! ((p_head p + k) mod PEND_DEPTH)) [0..<p_count p] = ring_list p"
    by (auto simp: ring_list_def)
  then have "ring_list ?p' = ring_list p @ [r]"
    using inv by (simp add: ring_list_def)
  moreover have "ring_inv ?p'" using assms inv by (auto simp: ring_inv_def mod_simps)
  ultimately show ?thesis using assms(2) by (auto simp: ring_push_def)
qed

lemma ring_pop_list:
  assumes "ring_inv p" "ring_list p = r # rs"
  shows "\<exists>p'. ring_pop p = Some (r, p') \<and> ring_inv p' \<and> ring_list p' = rs"
proof -
  let ?p' = "p\<lparr>p_head := (p_head p + 1) mod PEND_DEPTH, p_count := p_count p - 1\<rparr>"
  have n: "p_count p = Suc (length rs)" using arg_cong [OF assms(2), of length] by simp
  have hd: "p_ring p ! p_head p = r" and tl: "map (\<lambda>k. p_ring p ! ((p_head p + Suc k) mod PEND_DEPTH)) [0..<length rs] = rs"
    using assms by (simp_all add: ring_list_def n ring_inv_def map_upt_Suc del: upt_Suc)
  have "ring_list ?p' = rs" using tl by (simp add: ring_list_def n mod_simps)
  moreover have "ring_inv ?p'" using assms(1) n by (auto simp: ring_inv_def mod_simps PEND_DEPTH_def)
  ultimately show ?thesis using n hd by (simp add: ring_pop_def)
qed

interpretation ring: bounded_fifo ring_inv ring_list PEND_DEPTH ring_push ring_pop
proof
  fix q x xs
  show "ring_inv q \<Longrightarrow> length (ring_list q) \<le> PEND_DEPTH" by (simp add: ring_inv_def)
  show "ring_inv q \<Longrightarrow> length (ring_list q) = PEND_DEPTH \<Longrightarrow> ring_push q x = None" by (simp add: ring_push_def)
  show "ring_inv q \<Longrightarrow> length (ring_list q) < PEND_DEPTH \<Longrightarrow>
      \<exists>q'. ring_push q x = Some q' \<and> ring_inv q' \<and> ring_list q' = ring_list q @ [x]"
    by (simp add: ring_push_list)
  show "ring_inv q \<Longrightarrow> ring_list q = [] \<Longrightarrow> ring_pop q = None"
    by (auto simp: ring_pop_def dest: arg_cong [of _ _ length])
  show "ring_inv q \<Longrightarrow> ring_list q = x # xs \<Longrightarrow> \<exists>q'. ring_pop q = Some (x, q') \<and> ring_inv q' \<and> ring_list q' = xs"
    by (rule ring_pop_list)
qed

lemma flush_ring_list:
  "ring_inv p \<Longrightarrow> \<exists>p'. flush_ring p = (p', ring_list p) \<and> ring_inv p' \<and> ring_list p' = []"
proof (induction p rule: flush_ring.induct)
  case (1 p)
  show ?case
  proof (cases "ring_pop p")
    case None
    with 1(2) have "ring_list p = []" by (simp add: ring.pop_None_iff)
    with None 1(2) show ?thesis by (simp add: flush_ring.simps [of p])
  next
    case (Some rp)
    obtain r p1 where rp: "rp = (r, p1)" by fastforce
    with Some 1(2) have "ring_inv p1" "ring_list p = r # ring_list p1" using ring.pop_SomeD by auto
    with 1(1) [OF Some rp [symmetric]] Some rp show ?thesis by (auto simp: flush_ring.simps [of p])
  qed
qed

lemma ring_head: "ring_inv p \<Longrightarrow> p_count p \<noteq> 0 \<Longrightarrow> ring_list p = p_ring p ! p_head p # tl (ring_list p)"
proof -
  assume "ring_inv p" "p_count p \<noteq> 0"
  then obtain r rs where "ring_list p = r # rs" by (cases "ring_list p") (auto dest: arg_cong [of _ _ length])
  with \<open>ring_inv p\<close> ring_pop_list show ?thesis by (fastforce simp: ring_pop_def split: if_splits)
qed

lemma ring_update_head:
  assumes "ring_inv p" "p_count p \<noteq> 0"
  shows "ring_inv (p\<lparr>p_ring := (p_ring p)[p_head p := r]\<rparr>) \<and>
    ring_list (p\<lparr>p_ring := (p_ring p)[p_head p := r]\<rparr>) = r # tl (ring_list p)"
proof -
  obtain n where n: "p_count p = Suc n" using assms(2) by (cases "p_count p") auto
  have "p_head p \<noteq> Suc (p_head p + k) mod PEND_DEPTH" if "k < n" for k
    using ring_slot_inj [of 0 "Suc k" "p_head p"] that n assms(1) by (auto simp: ring_inv_def)
  then show ?thesis using assms(1) n
    by (auto simp: ring_inv_def ring_list_def map_upt_Suc simp del: upt_Suc)
qed

section \<open>The safe envelope\<close>

text \<open>Register, least and greatest value a settings write may carry.\<close>

definition envelope :: "(byte \<times> int \<times> int) list" where
  "envelope = [(0x06, 3, 100), (0x13, 100, 2000), (0x1F, 0, 1), (0x22, 2900, 3500), (0x1C, 15, 16)]"

definition safe_write :: "byte list \<Rightarrow> bool" where
  "safe_write f \<longleftrightarrow> cmd_wf f \<and> (\<exists>(reg, lo, hi) \<in> set envelope. f ! 4 = reg \<and> lo \<le> uint (le32 f 6) \<and> uint (le32 f 6) \<le> hi)"

lemma uint_of_small: "0 \<le> k \<Longrightarrow> k < 4000 \<Longrightarrow> uint (word_of_int k :: u32) = k"
  by (simp add: uint_word_of_int_eq take_bit_int_eq_self)

text \<open>A product within a sixteenth of the range is rounded into the range.\<close>

lemma reg_value_between:
  assumes "of_int lo - 1 / 16 \<le> x" "x \<le> of_int hi + 1 / 16" "0 \<le> lo" "lo < 4000" "hi < 4000"
  shows "dround x = Finite (fl64 x)" and "lo \<le> uint (reg_value (fl64 x))" and "uint (reg_value (fl64 x)) \<le> hi"
proof -
  have r: "(0 :: rat) \<le> of_int lo" "(of_int hi :: rat) < 4000" using assms(3,5) by simp_all
  with assms(1,2) have "\<bar>x\<bar> < 4096" by (simp add: abs_less_iff)
  then have "\<bar>fl64 x - x\<bar> \<le> 1 / 2 ^ 42" by (rule fl64_error)
  then have "\<bar>fl64 x - x\<bar> \<le> 1 / 16" by simp
  with assms(1,2) have y: "of_int lo - 1 / 8 \<le> fl64 x" "fl64 x \<le> of_int hi + 1 / 8"
    unfolding abs_le_iff by linarith+
  with r have small: "\<bar>fl64 x\<bar> < 2 ^ 22" by (simp add: abs_less_iff)
  then show "dround x = Finite (fl64 x)" by (rule dround_small)
  from y r have "\<bar>fl64 x + 1 / 2\<bar> < 4096" by (simp add: abs_less_iff)
  then have "\<bar>fl64 (fl64 x + 1 / 2) - (fl64 x + 1 / 2)\<bar> \<le> 1 / 2 ^ 42" by (rule fl64_error)
  then have "\<bar>fl64 (fl64 x + 1 / 2) - (fl64 x + 1 / 2)\<bar> \<le> 1 / 16" by simp
  with y have "of_int lo \<le> fl64 (fl64 x + 1 / 2)" "fl64 (fl64 x + 1 / 2) < of_int hi + 1"
    unfolding abs_le_iff by linarith+
  then have k: "lo \<le> \<lfloor>fl64 (fl64 x + 1 / 2)\<rfloor>" "\<lfloor>fl64 (fl64 x + 1 / 2)\<rfloor> \<le> hi" by linarith+
  then have "uint (reg_value (fl64 x)) = \<lfloor>fl64 (fl64 x + 1 / 2)\<rfloor>"
    unfolding reg_value_def using assms(3,5) by (intro uint_of_small) linarith+
  with k show "lo \<le> uint (reg_value (fl64 x))" "uint (reg_value (fl64 x)) \<le> hi" by simp_all
qed

text \<open>A setpoint between two of the table's decimals, in thousandths.\<close>

lemma milli_between:
  assumes "fl64 (of_int lo / 1000) \<le> v" "v \<le> fl64 (of_int hi / 1000)" "0 \<le> lo" "lo < 4000" "0 \<le> hi" "hi < 4000"
  shows "of_int lo - 1 / 16 \<le> v * 1000" and "v * 1000 \<le> of_int hi + 1 / 16"
proof -
  have "\<bar>fl64 (of_int n / 1000) - of_int n / 1000\<bar> \<le> 1 / 16000" if "0 \<le> n" "n < 4000" for n
  proof -
    have "\<bar>of_int n / 1000 :: rat\<bar> < 4096" using that by simp
    from fl64_error [OF this] show ?thesis by simp
  qed
  from this [of lo] this [of hi] assms show "of_int lo - 1 / 16 \<le> v * 1000" "v * 1000 \<le> of_int hi + 1 / 16"
    unfolding abs_le_iff by linarith+
qed

lemma whitelist_register:
  assumes "whitelist_lookup key = Some rg" "find (\<lambda>r. sr_key r = key) JK_SETTING_REGS = Some r"
  obtains lo hi where "(sr_reg r, lo, hi) \<in> set envelope" "0 \<le> lo" "lo < 4000" "0 \<le> hi" "hi < 4000"
    "(sr_scale r = 1000 \<and> cr_min rg = fl64 (of_int lo / 1000) \<and> cr_max rg = fl64 (of_int hi / 1000)) \<or>
     (sr_scale r = 1 \<and> cr_min rg = of_int lo \<and> cr_max rg = of_int hi)"
proof -
  consider "key = ''balance_trigger_voltage''" | "key = ''balance_current''" | "key = ''balancing_enabled''"
    | "key = ''balance_start_voltage''" | "key = ''cell_count''"
    using assms(1) by (auto simp: whitelist_lookup_def CFG_BALANCE_RANGE_def split: if_splits)
  then show thesis
  proof cases
    case 1
    with assms show thesis
      by (intro that [of 3 100]) (auto simp: whitelist_lookup_def CFG_BALANCE_RANGE_def JK_SETTING_REGS_def envelope_def)
  next
    case 2
    with assms show thesis
      by (intro that [of 100 2000]) (auto simp: whitelist_lookup_def CFG_BALANCE_RANGE_def JK_SETTING_REGS_def envelope_def)
  next
    case 3
    with assms show thesis
      by (intro that [of 0 1]) (auto simp: whitelist_lookup_def CFG_BALANCE_RANGE_def JK_SETTING_REGS_def envelope_def)
  next
    case 4
    with assms show thesis
      by (intro that [of 2900 3500]) (auto simp: whitelist_lookup_def CFG_BALANCE_RANGE_def JK_SETTING_REGS_def envelope_def)
  next
    case 5
    with assms show thesis
      by (intro that [of 15 16]) (auto simp: whitelist_lookup_def CFG_BALANCE_RANGE_def JK_SETTING_REGS_def envelope_def)
  qed
qed

lemma build_in_range_safe:
  assumes "whitelist_lookup key = Some rg" "cr_min rg \<le> v" "v \<le> cr_max rg"
    and "jk_build_balance_write ver key (Finite v) cap = Some f"
  shows "safe_write f"
proof -
  from assms(4) obtain r scaled where r: "find (\<lambda>r. sr_key r = key) JK_SETTING_REGS = Some r"
    and mul: "dmul (Finite v) (Finite (sr_scale r)) = Finite scaled"
    and f: "f = seal_cmd (put_bytes 6 (bytes32 (reg_value scaled))
       ((put_bytes 0 JK02_CMD_MAGIC (replicate JK_CMD_FRAME_LEN 0))[4 := sr_reg r, 5 := 4]))"
    by (rule build_balance_write_cases)
  obtain lo hi where env: "(sr_reg r, lo, hi) \<in> set envelope"
    and lim: "0 \<le> lo" "lo < 4000" "0 \<le> hi" "hi < 4000"
    and sc: "(sr_scale r = 1000 \<and> cr_min rg = fl64 (of_int lo / 1000) \<and> cr_max rg = fl64 (of_int hi / 1000)) \<or>
     (sr_scale r = 1 \<and> cr_min rg = of_int lo \<and> cr_max rg = of_int hi)"
    by (rule whitelist_register [OF assms(1) r])
  have b: "of_int lo - 1 / 16 \<le> v * sr_scale r" "v * sr_scale r \<le> of_int hi + 1 / 16"
    using sc assms(2,3) milli_between [of lo v hi] lim by auto
  from reg_value_between [OF b lim(1,2,4)] mul have "lo \<le> uint (reg_value scaled)" "uint (reg_value scaled) \<le> hi"
    by simp_all
  with env balance_frame_layout [OF f] show ?thesis unfolding safe_write_def by (auto intro!: bexI [OF _ env])
qed

text \<open>The table's frame for a setpoint, spelled out.\<close>

lemma build_in_range_frame:
  assumes "whitelist_lookup key = Some rg" "cr_min rg \<le> v" "v \<le> cr_max rg"
  shows "\<exists>r \<in> set JK_SETTING_REGS. \<exists>f. sr_key r = key \<and>
    jk_build_balance_write ver key (Finite v) JK_FRAME_MAX = Some f \<and>
    cmd_wf f \<and> f ! 4 = sr_reg r \<and> f ! 5 = 4 \<and> le32 f 6 = word_of_int \<lfloor>fl64 (fl64 (v * sr_scale r) + 1 / 2)\<rfloor> \<and>
    take 9 (drop 10 f) = replicate 9 0"
proof -
  have "key \<in> {''balance_trigger_voltage'', ''balance_current'', ''balancing_enabled'', ''balance_start_voltage'', ''cell_count''}"
    using assms(1) by (auto simp: whitelist_lookup_def CFG_BALANCE_RANGE_def split: if_splits)
  then obtain r where r: "find (\<lambda>r. sr_key r = key) JK_SETTING_REGS = Some r"
    by (auto simp: JK_SETTING_REGS_def)
  then have mem: "r \<in> set JK_SETTING_REGS" "sr_key r = key" by (auto simp: find_Some_iff)
  obtain lo hi where lim: "0 \<le> lo" "lo < 4000" "0 \<le> hi" "hi < 4000"
    and sc: "(sr_scale r = 1000 \<and> cr_min rg = fl64 (of_int lo / 1000) \<and> cr_max rg = fl64 (of_int hi / 1000)) \<or>
     (sr_scale r = 1 \<and> cr_min rg = of_int lo \<and> cr_max rg = of_int hi)"
    by (rule whitelist_register [OF assms(1) r])
  have b: "of_int lo - 1 / 16 \<le> v * sr_scale r" "v * sr_scale r \<le> of_int hi + 1 / 16"
    using sc assms(2,3) milli_between [of lo v hi] lim by auto
  have "0 \<le> cr_min rg" using sc lim(1) by (auto intro!: flr_nonneg)
  with assms(2) have "0 \<le> v" by simp
  with sc have pos: "0 \<le> v * sr_scale r" by auto
  from reg_value_between(1) [OF b lim(1,2,4)] have mul: "dmul (Finite v) (Finite (sr_scale r)) = Finite (fl64 (v * sr_scale r))"
    by simp
  have "(of_int hi :: rat) < 4000" using lim(4) by simp
  then have "\<bar>v * sr_scale r\<bar> < 4096" using b(2) pos by (simp add: abs_less_iff)
  from fl64_error [OF this] have "\<bar>fl64 (v * sr_scale r) - v * sr_scale r\<bar> \<le> 1" by simp
  with b(2) \<open>of_int hi < 4000\<close> have small: "\<not> 4294967295 < fl64 (v * sr_scale r)" unfolding abs_le_iff by linarith
  have pos': "\<not> fl64 (v * sr_scale r) < 0" using flr_nonneg [OF pos] by (simp add: not_less)
  define f where "f = seal_cmd (put_bytes 6 (bytes32 (reg_value (fl64 (v * sr_scale r))))
       ((put_bytes 0 JK02_CMD_MAGIC (replicate JK_CMD_FRAME_LEN 0))[4 := sr_reg r, 5 := 4]))"
  have "jk_build_balance_write ver key (Finite v) JK_FRAME_MAX = Some f"
    using r mul small pos' by (simp add: jk_build_balance_write_def f_def isfinite_def JK_FRAME_MAX_def JK_CMD_FRAME_LEN_def Let_def)
  with mem balance_frame_layout [OF f_def] show ?thesis
    unfolding reg_value_def by blast
qed

lemma whitelist_key_length: "whitelist_lookup key = Some rg \<Longrightarrow> length key \<le> 27"
proof -
  assume "whitelist_lookup key = Some rg"
  then have "key \<in> cr_key ` set CFG_BALANCE_RANGE" by (auto simp: whitelist_lookup_def find_Some_iff)
  then have "list_all (\<lambda>r. length (cr_key r) \<le> 27) CFG_BALANCE_RANGE \<Longrightarrow> length key \<le> 27" by (auto simp: list_all_iff)
  then show ?thesis by (simp add: CFG_BALANCE_RANGE_def)
qed

end
