(* ===== verification/Arbiter.thy ===== *)
theory Arbiter
  imports Arbiter_Ring
begin

text \<open>
  Correctness of the arbiter task. The invariant \<open>arb_inv\<close> is shown to hold along every run of the
  loop: the rings are well formed and hold only requests of their unit, transactions are
  numbered 1, 2, 3, ... per unit without reuse, the backoff stays within its bounds, and every
  settings write anywhere in the arbiter's queues is inside the safe envelope. On top of it: at
  most one transaction per unit is outstanding, pending work is neither lost nor reordered, and a
  settings write is confirmed by its readback.
\<close>

section \<open>The invariant\<close>

definition req_ok :: "bms_request \<Rightarrow> bool" where
  "req_ok r \<longleftrightarrow> length (rq_payload r) \<le> REQ_PAYLOAD_MAX \<and> (rq_kind r = TXN_BALANCE_WRITE \<longrightarrow> safe_write (rq_payload r))"

definition backoff_ok :: "nat \<Rightarrow> bool" where
  "backoff_ok b \<longleftrightarrow> b \<le> 1 \<or> (2000 \<le> b \<and> b \<le> CFG_RECONNECT_CAP_MS)"

definition busy_ok :: "pend \<Rightarrow> bool" where
  "busy_ok p \<longleftrightarrow> (if p_busy p then p_active_cmd_id p = p_next_cmd_id p \<and> p_next_cmd_id p \<noteq> 0
                   else \<not> p_active_connect_head p)"

text \<open>A request that waits in the ring of unit \<open>i\<close>: only a retained CONNECT already has a number.\<close>

definition ring_ok :: "nat \<Rightarrow> bms_request \<Rightarrow> bool" where
  "ring_ok i r \<longleftrightarrow> rq_bms_id r = i \<and> req_ok r \<and> (rq_cmd_id r \<noteq> 0 \<longrightarrow> rq_kind r = TXN_CONNECT)"

definition pend_ok :: "nat \<Rightarrow> pend \<Rightarrow> bool" where
  "pend_ok i p \<longleftrightarrow> ring_inv p \<and> list_all (ring_ok i) (ring_list p) \<and> busy_ok p \<and>
     backoff_ok (p_backoff_ms p)"

text \<open>The requests handed to the BLE task for one unit, in order.\<close>

definition sent :: "nat \<Rightarrow> arb \<Rightarrow> bms_request list" where
  "sent i a = filter (\<lambda>r. rq_bms_id r = i) (a_bms_q a)"

definition numbered :: "u64 \<Rightarrow> bms_request list \<Rightarrow> bool" where
  "numbered n rs \<longleftrightarrow> map rq_cmd_id rs = map of_nat [1..<Suc (unat n)]"

fun amsg_ok :: "arb_msg \<Rightarrow> bool" where
  "amsg_ok (ARB_REQ r) = (req_ok r \<and> rq_cmd_id r = 0)"
| "amsg_ok _ = True"

definition unit_inv :: "nat \<Rightarrow> arb \<Rightarrow> bool" where
  "unit_inv i a \<longleftrightarrow> pend_ok i (a_pend a ! i) \<and> numbered (p_next_cmd_id (a_pend a ! i)) (sent i a)"

definition tables_ok :: "arb \<Rightarrow> bool" where
  "tables_ok a \<longleftrightarrow> length (a_state a) = units a \<and> length (a_rb a) = units a \<and> length (a_last_write_us a) = units a"

definition queues_ok :: "arb \<Rightarrow> bool" where
  "queues_ok a \<longleftrightarrow> list_all req_ok (a_bms_q a) \<and> list_all (\<lambda>m. msg_bms_id m < units a \<and> amsg_ok m) (a_in_q a)"

definition arb_inv :: "arb \<Rightarrow> bool" where
  "arb_inv a \<longleftrightarrow> tables_ok a \<and> queues_ok a \<and> (\<forall>i < units a. unit_inv i a)"

section \<open>Small updates\<close>

lemma units_simps [simp]:
  "units (upd_pend i f a) = units a" "units (a\<lparr>a_bms_q := q\<rparr>) = units a" "units (a\<lparr>a_in_q := mq\<rparr>) = units a"
  "units (a\<lparr>a_state := ss\<rparr>) = units a" "units (a\<lparr>a_rb := rbs\<rparr>) = units a" "units (a\<lparr>a_acks := ks\<rparr>) = units a"
  "units (a\<lparr>a_tun := ts\<rparr>) = units a" "units (a\<lparr>a_meas := m\<rparr>) = units a" "units (a\<lparr>a_last_write_us := ws\<rparr>) = units a"
  "units (a\<lparr>a_evt_app_active := b\<rparr>) = units a"
  by (simp_all add: units_def upd_pend_def)

lemma upd_pend_simps [simp]:
  "a_state (upd_pend i f a) = a_state a" "a_bms_q (upd_pend i f a) = a_bms_q a" "a_in_q (upd_pend i f a) = a_in_q a"
  "a_rb (upd_pend i f a) = a_rb a" "a_last_write_us (upd_pend i f a) = a_last_write_us a"
  "a_acks (upd_pend i f a) = a_acks a" "a_tun (upd_pend i f a) = a_tun a"
  by (simp_all add: upd_pend_def)

lemma a_pend_upd_pend: "j < units a \<Longrightarrow> a_pend (upd_pend i f a) ! j = (if j = i then f (a_pend a ! j) else a_pend a ! j)"
  by (simp add: upd_pend_def nth_upd_unit units_def)

lemma event_simps [simp]:
  "units (send_ack k a) = units a" "a_pend (send_ack k a) = a_pend a" "a_state (send_ack k a) = a_state a"
  "a_bms_q (send_ack k a) = a_bms_q a" "a_in_q (send_ack k a) = a_in_q a" "a_rb (send_ack k a) = a_rb a"
  "a_last_write_us (send_ack k a) = a_last_write_us a" "a_tun (send_ack k a) = a_tun a"
  "units (tun_event t a) = units a" "a_pend (tun_event t a) = a_pend a" "a_state (tun_event t a) = a_state a"
  "a_bms_q (tun_event t a) = a_bms_q a" "a_in_q (tun_event t a) = a_in_q a" "a_rb (tun_event t a) = a_rb a"
  "a_last_write_us (tun_event t a) = a_last_write_us a" "a_acks (tun_event t a) = a_acks a"
  by (simp_all add: send_ack_def tun_event_def units_def)

lemma ring_simps [simp]:
  "ring_inv (p\<lparr>p_busy := b\<rparr>) = ring_inv p" "ring_list (p\<lparr>p_busy := b\<rparr>) = ring_list p"
  "ring_inv (p\<lparr>p_active_connect_head := b\<rparr>) = ring_inv p" "ring_list (p\<lparr>p_active_connect_head := b\<rparr>) = ring_list p"
  "ring_inv (p\<lparr>p_next_cmd_id := n\<rparr>) = ring_inv p" "ring_list (p\<lparr>p_next_cmd_id := n\<rparr>) = ring_list p"
  "ring_inv (p\<lparr>p_active_cmd_id := n\<rparr>) = ring_inv p" "ring_list (p\<lparr>p_active_cmd_id := n\<rparr>) = ring_list p"
  "ring_inv (p\<lparr>p_link_wait_deadline_us := t\<rparr>) = ring_inv p" "ring_list (p\<lparr>p_link_wait_deadline_us := t\<rparr>) = ring_list p"
  "ring_inv (p\<lparr>p_connect_after_us := t\<rparr>) = ring_inv p" "ring_list (p\<lparr>p_connect_after_us := t\<rparr>) = ring_list p"
  "ring_inv (p\<lparr>p_backoff_ms := k\<rparr>) = ring_inv p" "ring_list (p\<lparr>p_backoff_ms := k\<rparr>) = ring_list p"
  "ring_inv (p\<lparr>p_dispatch_after_us := t\<rparr>) = ring_inv p" "ring_list (p\<lparr>p_dispatch_after_us := t\<rparr>) = ring_list p"
  "ring_inv (p\<lparr>p_devreq_deadline_us := t\<rparr>) = ring_inv p" "ring_list (p\<lparr>p_devreq_deadline_us := t\<rparr>) = ring_list p"
  "ring_inv (p\<lparr>p_devreq_refreshed := b\<rparr>) = ring_inv p" "ring_list (p\<lparr>p_devreq_refreshed := b\<rparr>) = ring_list p"
  by (simp_all add: ring_inv_def ring_list_def)

text \<open>Fields outside the ring, the numbering and the backoff do not matter to the invariant.\<close>

lemma pend_ok_simps [simp]:
  "pend_ok i (p\<lparr>p_link_wait_deadline_us := t\<rparr>) = pend_ok i p" "pend_ok i (p\<lparr>p_dispatch_after_us := t\<rparr>) = pend_ok i p"
  "pend_ok i (p\<lparr>p_connect_after_us := t\<rparr>) = pend_ok i p" "pend_ok i (p\<lparr>p_devreq_deadline_us := t\<rparr>) = pend_ok i p"
  "pend_ok i (p\<lparr>p_devreq_refreshed := b\<rparr>) = pend_ok i p"
  by (simp_all add: pend_ok_def busy_ok_def)

lemma unit_inv_upd_pend:
  assumes "unit_inv j a" "j < units a"
    and "j = i \<Longrightarrow> pend_ok i (a_pend a ! i) \<Longrightarrow> pend_ok i (f (a_pend a ! i)) \<and> p_next_cmd_id (f (a_pend a ! i)) = p_next_cmd_id (a_pend a ! i)"
  shows "unit_inv j (upd_pend i f a)"
  using assms by (auto simp: unit_inv_def a_pend_upd_pend sent_def)

lemma arb_inv_upd_pend:
  assumes "arb_inv a"
    and "i < units a \<Longrightarrow> pend_ok i (a_pend a ! i) \<Longrightarrow> pend_ok i (f (a_pend a ! i)) \<and> p_next_cmd_id (f (a_pend a ! i)) = p_next_cmd_id (a_pend a ! i)"
  shows "arb_inv (upd_pend i f a)"
  using assms by (auto simp: arb_inv_def tables_ok_def queues_ok_def intro: unit_inv_upd_pend)

lemma arb_inv_other [simp]:
  "arb_inv (send_ack k a) = arb_inv a" "arb_inv (tun_event t a) = arb_inv a" "arb_inv (a\<lparr>a_meas := m\<rparr>) = arb_inv a"
  "arb_inv (a\<lparr>a_evt_app_active := b\<rparr>) = arb_inv a"
  by (simp_all add: arb_inv_def tables_ok_def queues_ok_def unit_inv_def sent_def)

lemma arb_inv_tables:
  "arb_inv a \<Longrightarrow> length ss = units a \<Longrightarrow> arb_inv (a\<lparr>a_state := ss\<rparr>)"
  "arb_inv a \<Longrightarrow> length rbs = units a \<Longrightarrow> arb_inv (a\<lparr>a_rb := rbs\<rparr>)"
  "arb_inv a \<Longrightarrow> length ws = units a \<Longrightarrow> arb_inv (a\<lparr>a_last_write_us := ws\<rparr>)"
  by (simp_all add: arb_inv_def tables_ok_def queues_ok_def unit_inv_def sent_def)

lemma arb_inv_unit: "arb_inv a \<Longrightarrow> i < units a \<Longrightarrow> pend_ok i (a_pend a ! i)"
  by (simp add: arb_inv_def unit_inv_def)

lemma arb_inv_lengths: "arb_inv a \<Longrightarrow> length (a_state a) = units a \<and> length (a_rb a) = units a \<and> length (a_last_write_us a) = units a"
  by (simp add: arb_inv_def tables_ok_def)

section \<open>Submissions\<close>

lemma units_submit [simp]:
  "units (arb_in_send e m a) = units a" "units (arbiter_submit e r a) = units a" "units (arbiter_poll e i opc a) = units a"
  by (simp_all add: arb_in_send_def arbiter_submit_def arbiter_poll_def)

lemma submit_frame [simp]:
  "a_pend (arb_in_send e m a) = a_pend a" "a_bms_q (arb_in_send e m a) = a_bms_q a" "a_state (arb_in_send e m a) = a_state a"
  "a_rb (arb_in_send e m a) = a_rb a" "a_last_write_us (arb_in_send e m a) = a_last_write_us a"
  "a_acks (arb_in_send e m a) = a_acks a"
  "a_pend (arbiter_submit e r a) = a_pend a" "a_bms_q (arbiter_submit e r a) = a_bms_q a"
  "a_state (arbiter_submit e r a) = a_state a" "a_rb (arbiter_submit e r a) = a_rb a"
  "a_last_write_us (arbiter_submit e r a) = a_last_write_us a" "a_acks (arbiter_submit e r a) = a_acks a"
  "a_pend (arbiter_poll e i opc a) = a_pend a" "a_bms_q (arbiter_poll e i opc a) = a_bms_q a"
  "a_state (arbiter_poll e i opc a) = a_state a" "a_rb (arbiter_poll e i opc a) = a_rb a"
  "a_acks (arbiter_poll e i opc a) = a_acks a"
  by (simp_all add: arb_in_send_def arbiter_submit_def arbiter_poll_def)

lemma arb_in_send_inv: "arb_inv a \<Longrightarrow> amsg_ok m \<Longrightarrow> arb_inv (arb_in_send e m a)"
  by (auto simp: arb_in_send_def arb_inv_def tables_ok_def queues_ok_def unit_inv_def sent_def)

lemma zero_request_cmd_id [simp]: "rq_cmd_id zero_request = 0"
  by (simp add: zero_request_def)

lemma arbiter_submit_inv:
  "arb_inv a \<Longrightarrow> rq_cmd_id r = 0 \<Longrightarrow> (rq_kind r = TXN_BALANCE_WRITE \<Longrightarrow> safe_write (rq_payload r)) \<Longrightarrow> arb_inv (arbiter_submit e r a)"
  by (auto simp: arbiter_submit_def req_ok_def intro!: arb_in_send_inv)

lemma arbiter_poll_inv: "arb_inv a \<Longrightarrow> arb_inv (arbiter_poll e i opc a)"
  unfolding arbiter_poll_def by (intro arbiter_submit_inv) (simp_all add: poll_request_def zero_request_def)

section \<open>Dispatch\<close>

lemma numbered_snoc:
  assumes "numbered n rs" "n \<noteq> UINT64_MAX" "rq_cmd_id r = n + 1"
  shows "numbered (n + 1) (rs @ [r])"
proof -
  have "unat (n + 1) = Suc (unat n)"
    using assms(2) unatSuc [of n] by (simp add: UINT64_MAX_def eq_neg_iff_add_eq_0 add.commute)
  moreover have "of_nat (Suc (unat n)) = n + 1" by simp
  ultimately show ?thesis using assms(1,3) by (simp add: numbered_def)
qed

lemma busy_ok_mark: "n \<noteq> UINT64_MAX \<Longrightarrow> busy_ok (mark_busy b (n + 1) p)"
  by (simp add: busy_ok_def mark_busy_def UINT64_MAX_def eq_neg_iff_add_eq_0)

lemma mark_busy_simps [simp]:
  "ring_inv (mark_busy b n p) = ring_inv p" "ring_list (mark_busy b n p) = ring_list p"
  "p_next_cmd_id (mark_busy b n p) = n" "p_backoff_ms (mark_busy b n p) = p_backoff_ms p"
  "p_active_connect_head (mark_busy b n p) = b" "p_ring (mark_busy b n p) = p_ring p" "p_head (mark_busy b n p) = p_head p"
  "p_count (mark_busy b n p) = p_count p" "p_busy (mark_busy b n p)"
  by (simp_all add: mark_busy_def)

lemma dispatch_cases:
  obtains "dispatch e i a = a"
  | cid r where "cid = p_next_cmd_id (a_pend a ! i) + 1" "r = p_ring (a_pend a ! i) ! p_head (a_pend a ! i)"
      "\<not> p_busy (a_pend a ! i)" "p_count (a_pend a ! i) \<noteq> 0" "p_next_cmd_id (a_pend a ! i) \<noteq> UINT64_MAX"
      "needs_link r" "\<not> rt_link_held i a"
      "dispatch e i a = upd_pend i (mark_busy False cid) (a\<lparr>a_bms_q := a_bms_q a @ [auto_connect i cid]\<rparr>)"
  | cid r where "cid = p_next_cmd_id (a_pend a ! i) + 1" "r = p_ring (a_pend a ! i) ! p_head (a_pend a ! i)"
      "\<not> p_busy (a_pend a ! i)" "p_count (a_pend a ! i) \<noteq> 0" "p_next_cmd_id (a_pend a ! i) \<noteq> UINT64_MAX"
      "dispatch e i a = upd_pend i (handed r cid) (a\<lparr>a_bms_q := a_bms_q a @ [r\<lparr>rq_cmd_id := cid\<rparr>]\<rparr>)"
proof -
  let ?p = "a_pend a ! i"
  let ?r = "p_ring ?p ! p_head ?p"
  let ?cid = "p_next_cmd_id ?p + 1"
  show thesis
  proof (cases "p_busy ?p \<or> p_count ?p = 0 \<or> p_next_cmd_id ?p = UINT64_MAX \<or> dispatch e i a = a")
    case True
    then show thesis using that(1) by (auto simp: dispatch_def Let_def)
  next
    case False
    show thesis
    proof (cases "needs_link ?r \<and> \<not> rt_link_held i a")
      case True
      with False have "dispatch e i a = upd_pend i (mark_busy False ?cid) (a\<lparr>a_bms_q := a_bms_q a @ [auto_connect i ?cid]\<rparr>)"
        unfolding dispatch_def Let_def by (simp split: if_splits)
      with True False show thesis by (intro that(2)) auto
    next
      case no: False
      with False have "dispatch e i a = upd_pend i (handed ?r ?cid) (a\<lparr>a_bms_q := a_bms_q a @ [?r\<lparr>rq_cmd_id := ?cid\<rparr>]\<rparr>)"
        unfolding dispatch_def Let_def by (simp split: if_splits) metis
      with False show thesis by (intro that(3)) auto
    qed
  qed
qed

lemma handed_fields [simp]:
  "p_next_cmd_id (handed r cid p) = cid" "p_active_cmd_id (handed r cid p) = cid" "p_busy (handed r cid p)"
  "p_backoff_ms (handed r cid p) = p_backoff_ms p" "p_link_wait_deadline_us (handed r cid p) = p_link_wait_deadline_us p"
  by (auto simp: handed_def Let_def ring_pop_def mark_busy_def)

lemma handed_ring:
  assumes "ring_inv p" "p_count p \<noteq> 0" "r = p_ring p ! p_head p"
  shows "ring_inv (handed r cid p)" and
    "ring_list (handed r cid p) = (if rq_kind r = TXN_CONNECT then [r\<lparr>rq_cmd_id := cid\<rparr>] else []) @ tl (ring_list p)"
proof -
  let ?p = "mark_busy (rq_kind r = TXN_CONNECT) cid p"
  have inv: "ring_inv ?p" "p_count ?p \<noteq> 0" using assms(1,2) by simp_all
  from ring_head [OF assms(1,2)] assms(3) have hd: "ring_list ?p = r # tl (ring_list p)" by simp
  obtain p' where p': "ring_pop ?p = Some (r, p')" "ring_inv p'" "ring_list p' = tl (ring_list p)"
    using ring_pop_list [OF inv(1) hd] by blast
  with ring_update_head [OF inv] show "ring_inv (handed r cid p)"
    "ring_list (handed r cid p) = (if rq_kind r = TXN_CONNECT then [r\<lparr>rq_cmd_id := cid\<rparr>] else []) @ tl (ring_list p)"
    by (auto simp: handed_def Let_def)
qed

lemma sent_simps [simp]:
  "sent i (upd_pend j f a) = sent i a" "sent i (send_ack k a) = sent i a" "sent i (tun_event t a) = sent i a"
  "sent i (a\<lparr>a_state := ss\<rparr>) = sent i a" "sent i (a\<lparr>a_rb := rbs\<rparr>) = sent i a" "sent i (a\<lparr>a_meas := m\<rparr>) = sent i a"
  "sent i (a\<lparr>a_last_write_us := ws\<rparr>) = sent i a" "sent i (a\<lparr>a_evt_app_active := b\<rparr>) = sent i a"
  "sent i (arb_in_send e m' a) = sent i a" "sent i (arbiter_submit e r a) = sent i a" "sent i (arbiter_poll e j opc a) = sent i a"
  "sent i (a\<lparr>a_bms_q := a_bms_q a @ [c]\<rparr>) = (if rq_bms_id c = i then sent i a @ [c] else sent i a)"
  by (simp_all add: sent_def)

lemma arb_inv_send:
  assumes "arb_inv a" "i < units a" "p_next_cmd_id (a_pend a ! i) \<noteq> UINT64_MAX"
    and "rq_bms_id c = i" "rq_cmd_id c = p_next_cmd_id (a_pend a ! i) + 1" "req_ok c"
    and "pend_ok i (f (a_pend a ! i))" "p_next_cmd_id (f (a_pend a ! i)) = p_next_cmd_id (a_pend a ! i) + 1"
  shows "arb_inv (upd_pend i f (a\<lparr>a_bms_q := a_bms_q a @ [c]\<rparr>))"
proof -
  have "unit_inv j (upd_pend i f (a\<lparr>a_bms_q := a_bms_q a @ [c]\<rparr>))" if "j < units a" for j
    using assms that numbered_snoc [of "p_next_cmd_id (a_pend a ! i)" "sent i a" c]
    by (cases "j = i") (auto simp: arb_inv_def unit_inv_def a_pend_upd_pend)
  with assms(1,6) show ?thesis by (auto simp: arb_inv_def tables_ok_def queues_ok_def)
qed

lemma req_ok_cmd_id [simp]: "req_ok (r\<lparr>rq_cmd_id := n\<rparr>) = req_ok r"
  by (simp add: req_ok_def)

lemma req_ok_plain [simp]:
  "req_ok (auto_connect i n)" "req_ok (poll_request i opc)" "req_ok (bounce_request i)" "req_ok (app_connect_request i)"
  by (simp_all add: req_ok_def auto_connect_def poll_request_def bounce_request_def app_connect_request_def
        zero_request_def REQ_PAYLOAD_MAX_def)

lemma auto_connect_simps [simp]:
  "rq_bms_id (auto_connect i n) = i" "rq_cmd_id (auto_connect i n) = n" "rq_kind (auto_connect i n) = TXN_CONNECT"
  by (simp_all add: auto_connect_def)

lemma handed_pend_ok:
  assumes "pend_ok i p" "p_count p \<noteq> 0" "r = p_ring p ! p_head p" "n \<noteq> UINT64_MAX" "n = p_next_cmd_id p"
  shows "pend_ok i (handed r (n + 1) p)" and "rq_bms_id r = i" and "req_ok r"
proof -
  have inv: "ring_inv p" "list_all (ring_ok i) (ring_list p)" "backoff_ok (p_backoff_ms p)"
    using assms(1) by (simp_all add: pend_ok_def)
  from ring_head [OF inv(1) assms(2)] assms(3) have hd: "ring_list p = r # tl (ring_list p)" by simp
  from inv(2) have "list_all (ring_ok i) (r # tl (ring_list p))" by (simp only: hd [symmetric])
  then have r: "ring_ok i r" and rest: "list_all (ring_ok i) (tl (ring_list p))"
    by simp_all
  then show "rq_bms_id r = i" "req_ok r" by (simp_all add: ring_ok_def)
  have "busy_ok (handed r (n + 1) p)"
    using assms(4) by (simp add: busy_ok_def UINT64_MAX_def eq_neg_iff_add_eq_0)
  with handed_ring [OF inv(1) assms(2,3), of "n + 1"] r rest inv(3) show "pend_ok i (handed r (n + 1) p)"
    by (simp add: pend_ok_def ring_ok_def)
qed

lemma dispatch_inv:
  assumes "arb_inv a" "i < units a"
  shows "arb_inv (dispatch e i a)"
proof -
  note ok = arb_inv_unit [OF assms]
  show ?thesis
  proof (cases rule: dispatch_cases [of e i a])
    case 1
    with assms(1) show ?thesis by simp
  next
    case (2 cid r)
    from ok have "pend_ok i (mark_busy False cid (a_pend a ! i))"
      using 2(1,5) by (simp add: pend_ok_def busy_ok_mark)
    with 2 assms show ?thesis by (auto intro!: arb_inv_send)
  next
    case (3 cid r)
    with handed_pend_ok [OF ok 3(4,2,5) refl] assms show ?thesis by (auto intro!: arb_inv_send)
  qed
qed

lemma units_dispatch [simp]: "units (dispatch e i a) = units a"
  by (cases rule: dispatch_cases [of e i a]) simp_all

lemma dispatch_frame [simp]:
  "a_state (dispatch e i a) = a_state a" "a_rb (dispatch e i a) = a_rb a" "a_acks (dispatch e i a) = a_acks a"
  "a_in_q (dispatch e i a) = a_in_q a" "a_last_write_us (dispatch e i a) = a_last_write_us a" "a_tun (dispatch e i a) = a_tun a"
  by (cases rule: dispatch_cases [of e i a]; simp)+

section \<open>Responses, sessions, guards\<close>

lemma ring_pop_fields:
  "ring_pop p = Some (r, p') \<Longrightarrow> p_busy p' = p_busy p \<and> p_next_cmd_id p' = p_next_cmd_id p \<and>
     p_backoff_ms p' = p_backoff_ms p \<and> p_active_cmd_id p' = p_active_cmd_id p \<and>
     p_active_connect_head p' = p_active_connect_head p \<and> p_link_wait_deadline_us p' = p_link_wait_deadline_us p"
  by (auto simp: ring_pop_def split: if_splits)

lemma release_cases:
  assumes "ring_inv p"
  shows "ring_inv (release rsp p) \<and> p_next_cmd_id (release rsp p) = p_next_cmd_id p \<and> \<not> p_busy (release rsp p) \<and>
    busy_ok (release rsp p) \<and> p_backoff_ms (release rsp p) = p_backoff_ms p \<and>
    p_link_wait_deadline_us (release rsp p) = p_link_wait_deadline_us p \<and>
    (ring_list (release rsp p) = ring_list p \<or>
     (p_active_connect_head p \<and> p_count p \<noteq> 0 \<and> rq_cmd_id (p_ring p ! p_head p) = rs_cmd_id rsp \<and>
      ring_list (release rsp p) = tl (ring_list p)))"
proof (cases "p_active_connect_head p \<and> rs_status rsp \<noteq> RESP_CONNECT_WAIT \<and> p_count p \<noteq> 0 \<and>
    rq_cmd_id (p_ring p ! p_head p) = rs_cmd_id rsp")
  case True
  then obtain r p' where pop: "ring_pop p = Some (r, p')" by (auto simp: ring_pop_def)
  with ring.pop_SomeD [OF assms pop] ring_pop_fields [OF pop] True show ?thesis
    by (auto simp: release_def busy_ok_def)
next
  case False
  with assms show ?thesis by (auto simp: release_def busy_ok_def Let_def)
qed

lemma back_off_fields [simp]:
  "ring_inv (back_off e app p) = ring_inv p" "ring_list (back_off e app p) = ring_list p"
  "p_next_cmd_id (back_off e app p) = p_next_cmd_id p" "p_busy (back_off e app p) = p_busy p"
  "p_active_connect_head (back_off e app p) = p_active_connect_head p"
  "busy_ok (back_off e app p) = busy_ok p" "p_link_wait_deadline_us (back_off e app p) = p_link_wait_deadline_us p"
  by (simp_all add: back_off_def Let_def busy_ok_def)

lemma back_off_backoff:
  assumes "backoff_ok (p_backoff_ms p)"
  shows "backoff_ok (p_backoff_ms (back_off e app p))"
proof -
  have "p_backoff_ms p * 2 mod 2 ^ 32 = p_backoff_ms p * 2"
    using assms by (auto simp: backoff_ok_def CFG_RECONNECT_CAP_MS_def)
  with assms show ?thesis by (auto simp: back_off_def Let_def backoff_ok_def CFG_RECONNECT_CAP_MS_def)
qed

text \<open>The unit after an accepted response, before the next dispatch.\<close>

definition answered_pend :: "env \<Rightarrow> bool \<Rightarrow> bms_response \<Rightarrow> pend \<Rightarrow> pend" where
  "answered_pend e app rsp p =
     (let p = release rsp p in
      (case rs_status rsp of
         RESP_CONNECT_WAIT \<Rightarrow> p\<lparr>p_dispatch_after_us := e_now e + 100000\<rparr>
       | RESP_OK \<Rightarrow> p\<lparr>p_backoff_ms := 0\<rparr>
       | RESP_TIMEOUT \<Rightarrow> back_off e app p
       | RESP_LINK_DOWN \<Rightarrow> back_off e app p
       | RESP_GATT_ERR \<Rightarrow> back_off e app p
       | RESP_REJECTED \<Rightarrow> p))"

lemma on_response_eq:
  "on_response e rsp a =
     (let i = rs_bms_id rsp in
      if i \<ge> units a \<or> \<not> p_busy (a_pend a ! i) \<or> rs_cmd_id rsp \<noteq> p_active_cmd_id (a_pend a ! i) then a
      else dispatch e i (upd_pend i (answered_pend e (rt_app_connected i a) rsp) a))"
  by (simp add: on_response_def Let_def answered_pend_def [abs_def])

lemma answered_pend_fields:
  assumes "ring_inv p"
  shows "ring_list (answered_pend e app rsp p) = ring_list (release rsp p)" "ring_inv (answered_pend e app rsp p)"
    "p_next_cmd_id (answered_pend e app rsp p) = p_next_cmd_id p" "\<not> p_busy (answered_pend e app rsp p)"
    "p_link_wait_deadline_us (answered_pend e app rsp p) = p_link_wait_deadline_us p"
    "busy_ok (answered_pend e app rsp p)"
  using release_cases [OF assms, of rsp]
  by (auto simp: answered_pend_def Let_def busy_ok_def split: resp_status.split)

lemma answered_pend_ok:
  assumes "pend_ok i p"
  shows "pend_ok i (answered_pend e app rsp p)"
proof -
  have p: "ring_inv p" "list_all (ring_ok i) (ring_list p)" "backoff_ok (p_backoff_ms p)"
    using assms by (simp_all add: pend_ok_def)
  have "backoff_ok (p_backoff_ms (release rsp p))" using release_cases [OF p(1), of rsp] p(3) by auto
  then have "backoff_ok (p_backoff_ms (answered_pend e app rsp p))"
    by (auto simp: answered_pend_def Let_def back_off_backoff backoff_ok_def [of 0] split: resp_status.split)
  moreover have "list_all (ring_ok i) (ring_list (release rsp p))"
    using release_cases [OF p(1), of rsp] p(2) by (cases "ring_list p") auto
  ultimately show ?thesis using answered_pend_fields [OF p(1)] by (simp add: pend_ok_def)
qed

lemma pend_ok_ring: "pend_ok i p \<Longrightarrow> ring_inv p"
  by (simp add: pend_ok_def)

lemma on_response_inv: "arb_inv a \<Longrightarrow> arb_inv (on_response e rsp a)"
  by (auto simp: on_response_eq Let_def answered_pend_ok answered_pend_fields(3) [OF pend_ok_ring]
        intro!: dispatch_inv arb_inv_upd_pend)

lemma rt_set_app_frame [simp]:
  "units (rt_set_app e i c a) = units a" "a_pend (rt_set_app e i c a) = a_pend a" "sent j (rt_set_app e i c a) = sent j a"
  by (simp_all add: rt_set_app_def Let_def units_def sent_def)

lemma rt_set_app_inv: "arb_inv a \<Longrightarrow> arb_inv (rt_set_app e i c a)"
  by (auto simp: rt_set_app_def Let_def arb_inv_lengths intro!: arb_inv_tables)

lemma on_app_conn_inv: "arb_inv a \<Longrightarrow> arb_inv (on_app_conn e i c a)"
  by (auto simp: on_app_conn_def Let_def app_connect_request_def zero_request_def
        intro!: arbiter_submit_inv arbiter_poll_inv arb_inv_upd_pend rt_set_app_inv)

lemma on_app_devreq_inv: "arb_inv a \<Longrightarrow> arb_inv (on_app_devreq e i a)"
  by (auto simp: on_app_devreq_def Let_def intro!: arb_inv_upd_pend)

lemma ring_push_fields:
  "ring_push p r = Some p' \<Longrightarrow> p_busy p' = p_busy p \<and> p_next_cmd_id p' = p_next_cmd_id p \<and>
     p_backoff_ms p' = p_backoff_ms p \<and> p_active_cmd_id p' = p_active_cmd_id p \<and>
     p_active_connect_head p' = p_active_connect_head p \<and> p_link_wait_deadline_us p' = p_link_wait_deadline_us p"
  by (auto simp: ring_push_def split: if_splits)

lemma ring_push_ok:
  assumes "pend_ok i p" "ring_push p r = Some p'" "ring_ok i r"
  shows "pend_ok i p'"
  using assms ring.push_SomeD [of p r p'] ring_push_fields [of p r p'] by (auto simp: pend_ok_def busy_ok_def)

lemma push_two_cases:
  assumes "pend_ok i p" "ring_ok i d" "ring_ok i q"
  shows "pend_ok i (push_two d q p) \<and> p_busy (push_two d q p) = p_busy p \<and>
    p_next_cmd_id (push_two d q p) = p_next_cmd_id p \<and>
    p_link_wait_deadline_us (push_two d q p) = p_link_wait_deadline_us p \<and>
    (\<exists>rs. ring_list (push_two d q p) = ring_list p @ rs)"
proof (cases "ring_push p d")
  case None
  with assms(1) show ?thesis by (simp add: push_two_def)
next
  case (Some p1)
  note ok1 = ring_push_ok [OF assms(1) Some assms(2)]
  note l1 = ring.push_SomeD [OF pend_ok_ring [OF assms(1)] Some]
  show ?thesis
  proof (cases "ring_push p1 q")
    case None
    with Some ok1 l1 ring_push_fields [OF Some] show ?thesis by (simp add: push_two_def)
  next
    case s2: (Some p2)
    with Some ring_push_ok [OF ok1 s2 assms(3)] ring.push_SomeD [OF pend_ok_ring [OF ok1] s2] l1
      ring_push_fields [OF Some] ring_push_fields [OF s2] show ?thesis by (simp add: push_two_def)
  qed
qed

lemma refresh_pushes:
  assumes "pend_ok i p"
  shows "pend_ok i (push_two (bounce_request i) (poll_request i opc) p) \<and>
    p_busy (push_two (bounce_request i) (poll_request i opc) p) = p_busy p \<and>
    p_next_cmd_id (push_two (bounce_request i) (poll_request i opc) p) = p_next_cmd_id p \<and>
    p_link_wait_deadline_us (push_two (bounce_request i) (poll_request i opc) p) = p_link_wait_deadline_us p \<and>
    (\<exists>rs. ring_list (push_two (bounce_request i) (poll_request i opc) p) = ring_list p @ rs)"
  using push_two_cases [OF assms, of "bounce_request i" "poll_request i opc"]
  by (simp add: ring_ok_def bounce_request_def poll_request_def req_ok_def zero_request_def REQ_PAYLOAD_MAX_def)

definition refreshed :: "nat \<Rightarrow> pend \<Rightarrow> pend" where
  "refreshed i p = push_two (bounce_request i) (poll_request i JK_CMD_DEVICE_INFO) (p\<lparr>p_devreq_refreshed := True\<rparr>)"

lemma refreshed_fields:
  assumes "pend_ok i p"
  shows "pend_ok i (refreshed i p)" "p_busy (refreshed i p) = p_busy p" "p_next_cmd_id (refreshed i p) = p_next_cmd_id p"
    "p_link_wait_deadline_us (refreshed i p) = p_link_wait_deadline_us p"
    "\<exists>rs. ring_list (refreshed i p) = ring_list p @ rs"
  using refresh_pushes [of i "p\<lparr>p_devreq_refreshed := True\<rparr>" JK_CMD_DEVICE_INFO] assms by (simp_all add: refreshed_def)

lemma check_devreq_eq:
  "check_devreq e i a =
     (let p = a_pend a ! i; a1 = upd_pend i (\<lambda>p. p\<lparr>p_devreq_deadline_us := 0\<rparr>) a in
      if p_devreq_deadline_us p = 0 \<or> e_now e \<le> p_devreq_deadline_us p then a
      else if \<not> rt_app_connected i a1 \<or> \<not> rt_link_held i a1 then a1
      else dispatch e i (upd_pend i (refreshed i) a1))"
  by (simp add: check_devreq_def Let_def refreshed_def [abs_def])

lemma check_devreq_inv:
  assumes "arb_inv a" "i < units a"
  shows "arb_inv (check_devreq e i a)"
proof -
  have a1: "arb_inv (upd_pend i (\<lambda>p. p\<lparr>p_devreq_deadline_us := 0\<rparr>) a)"
    by (rule arb_inv_upd_pend [OF assms(1)]) simp
  have "arb_inv (upd_pend i (refreshed i) (upd_pend i (\<lambda>p. p\<lparr>p_devreq_deadline_us := 0\<rparr>) a))"
    by (rule arb_inv_upd_pend [OF a1]) (simp add: refreshed_fields)
  with a1 assms show ?thesis by (simp add: check_devreq_eq Let_def dispatch_inv)
qed

lemma flush_ring_fields:
  "flush_ring p = (p', rs) \<Longrightarrow> p_busy p' = p_busy p \<and> p_next_cmd_id p' = p_next_cmd_id p \<and>
     p_backoff_ms p' = p_backoff_ms p \<and> p_active_cmd_id p' = p_active_cmd_id p \<and>
     p_active_connect_head p' = p_active_connect_head p \<and> p_link_wait_deadline_us p' = p_link_wait_deadline_us p"
proof (induction p arbitrary: p' rs rule: flush_ring.induct)
  case (1 p)
  show ?case
  proof (cases "ring_pop p")
    case None
    with 1(2) show ?thesis by (simp add: flush_ring.simps [of p])
  next
    case (Some rp)
    obtain r p1 where rp: "rp = (r, p1)" by fastforce
    with Some 1(2) obtain rs' where "flush_ring p1 = (p', rs')"
      by (auto simp: flush_ring.simps [of p] split: prod.splits)
    with 1(1) [OF Some rp [symmetric]] ring_pop_fields [of p r p1] Some rp show ?thesis by auto
  qed
qed

lemma flush_pend_ok:
  assumes "pend_ok i p" "flush_ring p = (p', rs)"
  shows "pend_ok i p'"
  using assms flush_ring_list [OF pend_ok_ring [OF assms(1)]] flush_ring_fields [OF assms(2)]
  by (auto simp: pend_ok_def busy_ok_def)

lemma fold_tun_frame [simp]:
  "arb_inv (fold (\<lambda>r. tun_event (t r)) rs a) = arb_inv a" "units (fold (\<lambda>r. tun_event (t r)) rs a) = units a"
  "a_state (fold (\<lambda>r. tun_event (t r)) rs a) = a_state a" "a_pend (fold (\<lambda>r. tun_event (t r)) rs a) = a_pend a"
  "sent i (fold (\<lambda>r. tun_event (t r)) rs a) = sent i a"
  by (induction rs arbitrary: a) simp_all

lemma fold_ack_frame [simp]:
  "arb_inv (fold send_ack ks a) = arb_inv a" "units (fold send_ack ks a) = units a"
  "a_state (fold send_ack ks a) = a_state a" "a_pend (fold send_ack ks a) = a_pend a" "sent i (fold send_ack ks a) = sent i a"
  by (induction ks arbitrary: a) simp_all

lemma mark_idle_length: "length (snd (state_mark_idle_if_unheld i ss)) = length ss"
  by (simp add: state_mark_idle_if_unheld_def Let_def upd_rt_def)

lemma link_guard_inv:
  assumes "arb_inv a" "i < units a"
  shows "arb_inv (link_guard e i a)"
proof (cases "p_link_wait_deadline_us (a_pend a ! i) \<noteq> 0 \<and> e_now e > p_link_wait_deadline_us (a_pend a ! i) \<and> \<not> rt_link_held i a")
  case True
  obtain p' rs where fl: "flush_ring ((a_pend a ! i)\<lparr>p_link_wait_deadline_us := 0\<rparr>) = (p', rs)" by fastforce
  obtain al ss where mi: "state_mark_idle_if_unheld i (a_state a) = (al, ss)" by fastforce
  then have "length ss = units a" using mark_idle_length [of i "a_state a"] arb_inv_lengths [OF assms(1)] by simp
  moreover have "arb_inv (upd_pend i (\<lambda>_. p') a)"
    using assms(1) flush_pend_ok [OF _ fl, of i] flush_ring_fields [OF fl] by (intro arb_inv_upd_pend) simp_all
  ultimately show ?thesis using True fl mi
    by (auto simp: link_guard_def Let_def intro!: arb_inv_tables)
qed (use assms in \<open>auto simp: link_guard_def Let_def\<close>)

section \<open>Balance writes and readback\<close>

lemma rb_on_settings_inv: "arb_inv a \<Longrightarrow> arb_inv (rb_on_settings i a)"
  by (auto simp: rb_on_settings_def rb_finish_def Let_def arb_inv_lengths split: option.splits intro!: arb_inv_tables)

lemma rb_tick_unit_inv: "arb_inv a \<Longrightarrow> arb_inv (rb_tick_unit e i a)"
  by (auto simp: rb_tick_unit_def Let_def arb_inv_lengths intro!: arb_inv_tables arbiter_poll_inv)

lemma handle_balance_set_cases:
  obtains s d where "handle_balance_set e i json cid a = balance_ack i cid s d a"
  | doc it v rg f where "e_parse e json = Some doc" "balance_command_validate doc = Inr (it, v)"
      "whitelist_lookup (the (cj_string it)) = Some rg" "cr_min rg \<le> v" "v \<le> cr_max rg" "\<not> rt_app_connected i a"
      "a_last_write_us a ! i = 0 \<or> CFG_BALANCE_MIN_INTERVAL_MS * 1000 \<le> e_now e - a_last_write_us a ! i"
      "jk_build_balance_write JK_FRAME_JK02_32S (the (cj_string it)) (Finite v) JK_FRAME_MAX = Some f"
      "handle_balance_set e i json cid a =
         (let a = arbiter_submit e (balance_request i f) a
          in a\<lparr>a_last_write_us := (a_last_write_us a)[i := e_now e],
               a_rb := (a_rb a)[i := arm_readback (e_now e) (the (cj_string it)) v cid]\<rparr>)"
proof (cases "\<exists>s d. handle_balance_set e i json cid a = balance_ack i cid s d a")
  case False
  then show thesis
    using that(2) unfolding handle_balance_set_def Let_def
    by (auto split: option.splits sum.splits prod.splits if_splits simp: not_less)
qed (use that(1) in blast)

lemma handle_balance_set_inv: "arb_inv a \<Longrightarrow> arb_inv (handle_balance_set e i json cid a)"
proof (cases rule: handle_balance_set_cases [of e i json cid a])
  case (2 doc it v rg f)
  from build_in_range_safe [OF 2(3-5,8)] have "safe_write f" .
  moreover assume "arb_inv a"
  ultimately have "arb_inv (arbiter_submit e (balance_request i f) a)"
    by (intro arbiter_submit_inv) (simp_all add: balance_request_def zero_request_def)
  with 2(9) \<open>arb_inv a\<close> show ?thesis by (auto simp: Let_def arb_inv_lengths intro!: arb_inv_tables)
qed (simp add: balance_ack_def)

section \<open>A turn of the task\<close>

lemma handle_msg_inv:
  assumes "arb_inv a" "msg_bms_id m < units a" "amsg_ok m"
  shows "arb_inv (handle_msg e m a)"
proof (cases m)
  case (ARB_REQ r)
  let ?i = "rq_bms_id r"
  show ?thesis
  proof (cases "ring_push (a_pend a ! ?i) r")
    case (Some p)
    have "pend_ok ?i (a_pend a ! ?i)" using assms ARB_REQ by (simp add: arb_inv_unit)
    with Some ARB_REQ assms(3) have "pend_ok ?i p" by (intro ring_push_ok [OF _ Some]) (simp_all add: ring_ok_def)
    with ring_push_fields [OF Some] assms(1) have "arb_inv (upd_pend ?i (\<lambda>_. p) a)"
      by (intro arb_inv_upd_pend) simp_all
    with Some ARB_REQ assms(2) show ?thesis by (simp add: dispatch_inv)
  qed (use ARB_REQ assms(1) in simp)
next
  case (ARB_MQTT i t json cid)
  with assms(1) show ?thesis
    by (cases t) (auto simp: Let_def handle_balance_set_inv arbiter_poll_inv split: prod.splits)
next
  case (ARB_CLEAR i)
  have "pend_ok i (p\<lparr>p_head := 0, p_tail := 0, p_count := 0\<rparr>)" if "pend_ok i p" for p
    using that by (simp add: pend_ok_def ring_inv_def ring_list_def busy_ok_def)
  with ARB_CLEAR assms(1) show ?thesis by (auto intro!: arb_inv_upd_pend)
qed (use assms in \<open>auto intro!: on_app_conn_inv rb_on_settings_inv on_app_devreq_inv arb_inv_upd_pend\<close>)

fun ev_ok :: "arb \<Rightarrow> arb_event \<Rightarrow> bool" where
  "ev_ok a (Ev_msg m) = (msg_bms_id m < units a \<and> amsg_ok m)"
| "ev_ok a _ = True"

lemma units_ops [simp]:
  "units (on_response e rsp a) = units a" "units (check_devreq e i a) = units a" "units (rb_tick_unit e i a) = units a"
  "units (on_app_conn e i c a) = units a" "units (on_app_devreq e i a) = units a" "units (rb_on_settings i a) = units a"
  by (auto simp: on_response_def check_devreq_def rb_tick_unit_def on_app_conn_def on_app_devreq_def rb_on_settings_def
        rb_finish_def Let_def split: option.splits)

lemma units_link_guard [simp]: "units (link_guard e i a) = units a"
  by (auto simp: link_guard_def Let_def split: prod.splits)

lemma units_handle_balance_set [simp]: "units (handle_balance_set e i json cid a) = units a"
  by (cases rule: handle_balance_set_cases [of e i json cid a]) (simp_all add: balance_ack_def Let_def)

lemma units_handle_event [simp]: "units (handle_event e ev a) = units a"
proof (cases ev)
  case (Ev_msg m)
  show ?thesis
  proof (cases m)
    case (ARB_MQTT i t json cid)
    with Ev_msg show ?thesis by (cases t) (auto simp: Let_def split: prod.splits)
  qed (use Ev_msg in \<open>auto split: option.splits\<close>)
qed simp_all

lemma handle_event_inv: "arb_inv a \<Longrightarrow> ev_ok a ev \<Longrightarrow> arb_inv (handle_event e ev a)"
  by (cases ev) (simp_all add: handle_msg_inv on_response_inv)

text \<open>
  What the three loops of a turn keep, given what each round keeps. \<open>K\<close> is any further invariant.
\<close>

lemma turn_loops:
  assumes inv: "arb_inv a" "K a"
    and steps: "\<And>i a. arb_inv a \<Longrightarrow> i < units a \<Longrightarrow> K a \<Longrightarrow> K (dispatch e i a)"
      "\<And>i a. arb_inv a \<Longrightarrow> i < units a \<Longrightarrow> K a \<Longrightarrow> K (check_devreq e i a)"
      "\<And>i a. arb_inv a \<Longrightarrow> i < units a \<Longrightarrow> K a \<Longrightarrow> K (link_guard e i a)"
      "\<And>i a. arb_inv a \<Longrightarrow> i < units a \<Longrightarrow> K a \<Longrightarrow> K (rb_tick_unit e i a)"
  shows "arb_inv (retry_dispatch e (rb_tick e (check_link_guards e a)))"
    and "K (retry_dispatch e (rb_tick e (check_link_guards e a)))"
    and "units (retry_dispatch e (rb_tick e (check_link_guards e a))) = units a"
proof -
  let ?I = "\<lambda>n a. arb_inv a \<and> K a \<and> units a = n"
  have "?I (units a) (check_link_guards e a)"
    unfolding check_link_guards_def
    by (rule fold_inv [where I = "?I (units a)"]) (use inv steps in \<open>auto simp: link_guard_inv check_devreq_inv\<close>)
  then have "?I (units a) (rb_tick e (check_link_guards e a))"
    unfolding rb_tick_def
    by - (rule fold_inv [where I = "?I (units a)"], use steps in \<open>auto simp: rb_tick_unit_inv\<close>)
  then have "?I (units a) (retry_dispatch e (rb_tick e (check_link_guards e a)))"
    unfolding retry_dispatch_def
    by - (rule fold_inv [where I = "?I (units a)"], use steps in \<open>auto simp: dispatch_inv\<close>)
  then show "arb_inv (retry_dispatch e (rb_tick e (check_link_guards e a)))"
    "K (retry_dispatch e (rb_tick e (check_link_guards e a)))"
    "units (retry_dispatch e (rb_tick e (check_link_guards e a))) = units a" by auto
qed

lemma arbiter_step_inv:
  assumes "arb_inv a" "ev_ok a ev"
  shows "arb_inv (arbiter_step e ev a)" and "units (arbiter_step e ev a) = units a"
  unfolding arbiter_step_def
  using turn_loops [where K = "\<lambda>_. True", OF handle_event_inv [OF assms, of e]] by simp_all

section \<open>Runs\<close>

text \<open>
  The calls of the other tasks: \<open>C_submit\<close> is the supervisor's idle release, the only direct use of
  \<^verbatim>\<open>arbiter_submit\<close> outside the arbiter.
\<close>

datatype client_call =
    C_app_write nat nat bool "byte list"
  | C_poll nat byte
  | C_bounce nat
  | C_note_app_devreq nat
  | C_note_devinfo nat
  | C_set_app_connected nat bool
  | C_clear_pending nat
  | C_notify_settings nat
  | C_balance_set nat "string option" "string option"
  | C_measure nat "string option"
  | C_refresh nat "string option"
  | C_submit nat u64

fun do_call :: "env \<Rightarrow> client_call \<Rightarrow> arb \<Rightarrow> arb" where
  "do_call e (C_app_write i idx wr d) = arbiter_app_write e i idx wr d"
| "do_call e (C_poll i opc) = arbiter_poll e i opc"
| "do_call e (C_bounce i) = arbiter_bounce e i"
| "do_call e (C_note_app_devreq i) = arbiter_note_app_devreq e i"
| "do_call e (C_note_devinfo i) = arbiter_note_devinfo e i"
| "do_call e (C_set_app_connected i c) = arbiter_set_app_connected e i c"
| "do_call e (C_clear_pending i) = arbiter_clear_pending e i"
| "do_call e (C_notify_settings i) = arbiter_notify_settings e i"
| "do_call e (C_balance_set i json cid) = arbiter_balance_set e i json cid"
| "do_call e (C_measure i cid) = arbiter_measure e i cid"
| "do_call e (C_refresh i cid) = arbiter_refresh e i cid"
| "do_call e (C_submit i ep) =
     arbiter_submit e ((bounce_request i)\<lparr>rq_idle_only := True, rq_idle_epoch := ep\<rparr>)"

definition sends :: "env \<Rightarrow> arb \<Rightarrow> arb \<Rightarrow> bool" where
  "sends e a a' \<longleftrightarrow> a' = a \<or> (\<exists>m. amsg_ok m \<and> a' = arb_in_send e m a)"

lemma sends_plain: "sends e a a" "amsg_ok m \<Longrightarrow> sends e a (arb_in_send e m a)"
  by (auto simp: sends_def)

lemma sends_submit:
  assumes "rq_kind r \<noteq> TXN_BALANCE_WRITE" "rq_cmd_id r = 0"
  shows "sends e a (arbiter_submit e r a)"
proof (cases "length (rq_payload r) \<le> REQ_PAYLOAD_MAX")
  case True
  with assms have "amsg_ok (ARB_REQ r)" by (simp add: req_ok_def)
  then show ?thesis by (auto simp: arbiter_submit_def intro: sends_plain)
qed (simp add: arbiter_submit_def sends_plain)

lemma sends_mqtt: "sends e a (submit_mqtt e i t json cid a)"
  by (simp add: submit_mqtt_def sends_plain)

lemma sends_do_call: "sends e a (do_call e c a)"
  by (cases c) (auto simp: arbiter_app_write_def arbiter_poll_def arbiter_bounce_def poll_request_def bounce_request_def
      arbiter_note_app_devreq_def arbiter_note_devinfo_def arbiter_set_app_connected_def arbiter_clear_pending_def
      arbiter_notify_settings_def arbiter_balance_set_def arbiter_measure_def arbiter_refresh_def
      intro!: sends_submit sends_mqtt sends_plain)

lemma do_call_inv: "arb_inv a \<Longrightarrow> arb_inv (do_call e c a)"
  using sends_do_call [of e a c] arb_in_send_inv [of a] by (auto simp: sends_def)

lemma do_call_frame [simp]:
  "units (do_call e c a) = units a" "a_pend (do_call e c a) = a_pend a" "sent i (do_call e c a) = sent i a"
  "a_state (do_call e c a) = a_state a"
  using sends_do_call [of e a c] by (auto simp: sends_def)

text \<open>
  The runs of the arbiter among the other tasks. A turn handles a message accepted earlier, any response,
  or the timeout; between turns other tasks call the arbiter's interface, execute critical sections of
  the state cache, and the measurement worker runs. \<open>rsps\<close> are the responses delivered so far.
\<close>

inductive arb_run :: "nat \<Rightarrow> bms_response list \<Rightarrow> arb \<Rightarrow> bool" for n where
  start: "arb_run n [] (arbiter_start n m)"
| message: "arb_run n rsps a \<Longrightarrow> m \<in> set (a_in_q a) \<Longrightarrow> arb_run n rsps (arbiter_step e (Ev_msg m) a)"
| response: "arb_run n rsps a \<Longrightarrow> arb_run n (rsps @ [rsp]) (arbiter_step e (Ev_rsp rsp) a)"
| timeout: "arb_run n rsps a \<Longrightarrow> arb_run n rsps (arbiter_step e Ev_timeout a)"
| client: "arb_run n rsps a \<Longrightarrow> arb_run n rsps (do_call e c a)"
| cache: "arb_run n rsps a \<Longrightarrow> arb_run n rsps (a\<lparr>a_state := sc_apply op i (a_state a)\<rparr>)"
| measure: "arb_run n rsps a \<Longrightarrow> arb_run n rsps (fold send_ack ks (a\<lparr>a_meas := m\<rparr>))"

lemma pend_ok_zero: "pend_ok i zero_pend"
  by (simp add: pend_ok_def zero_pend_def ring_inv_def ring_list_def busy_ok_def backoff_ok_def PEND_DEPTH_def)

lemma arbiter_start_inv: "arb_inv (arbiter_start n m) \<and> units (arbiter_start n m) = n"
  using pend_ok_zero
  by (auto simp: arb_inv_def tables_ok_def queues_ok_def unit_inv_def arbiter_start_def units_def state_cache_init_def
        numbered_def sent_def zero_pend_def)

lemma sc_apply_arb_inv: "arb_inv a \<Longrightarrow> arb_inv (a\<lparr>a_state := sc_apply op i (a_state a)\<rparr>)"
  by (rule arb_inv_tables) (simp_all add: sc_apply_upd_unit arb_inv_lengths)

lemma queued_ev_ok: "arb_inv a \<Longrightarrow> m \<in> set (a_in_q a) \<Longrightarrow> ev_ok a (Ev_msg m)"
  by (auto simp: arb_inv_def queues_ok_def list_all_iff)

lemma arb_run_inv: "arb_run n rsps a \<Longrightarrow> arb_inv a \<and> units a = n"
proof (induction rule: arb_run.induct)
  case (message rsps a m e)
  then show ?case using arbiter_step_inv queued_ev_ok by metis
next
  case (response rsps a rsp e)
  then show ?case using arbiter_step_inv [of a "Ev_rsp rsp" e] by simp
next
  case (timeout rsps a e)
  then show ?case using arbiter_step_inv [of a Ev_timeout e] by simp
qed (simp_all add: arbiter_start_inv do_call_inv sc_apply_arb_inv)

section \<open>One transaction at a time\<close>

text \<open>
  Every transaction of unit \<open>i\<close> has been answered (\<open>X\<close> are the ids of the responses), except the one that
  is outstanding.
\<close>

definition served :: "nat \<Rightarrow> u64 set \<Rightarrow> arb \<Rightarrow> bool" where
  "served i X a \<longleftrightarrow> (\<forall>r \<in> set (sent i a). rq_cmd_id r \<in> X \<or>
     (p_busy (a_pend a ! i) \<and> rq_cmd_id r = p_active_cmd_id (a_pend a ! i)))"

lemma served_frame:
  assumes "served i X a" "sent i a' = sent i a" "p_busy (a_pend a' ! i) = p_busy (a_pend a ! i)"
    "p_active_cmd_id (a_pend a' ! i) = p_active_cmd_id (a_pend a ! i)"
  shows "served i X a'"
  using assms by (simp add: served_def)

lemma dispatch_served:
  assumes "served i X a" "i < units a" "j < units a" "arb_inv a"
  shows "served i X (dispatch e j a)"
proof (cases rule: dispatch_cases [of e j a])
  case (2 cid r)
  with assms(1-3) show ?thesis by (cases "j = i") (auto simp: served_def a_pend_upd_pend mark_busy_def)
next
  case (3 cid r)
  then have "rq_bms_id r = j" using handed_pend_ok(2) arb_inv_unit [OF assms(4,3)] by blast
  with 3 assms(1-3) show ?thesis by (cases "j = i") (auto simp: served_def a_pend_upd_pend)
qed (use assms in simp)

lemma served_upd_pend:
  assumes "served i X a" "i < units a"
    "\<And>p. p = a_pend a ! i \<Longrightarrow> j = i \<Longrightarrow> p_busy (f p) = p_busy p \<and> p_active_cmd_id (f p) = p_active_cmd_id p"
  shows "served i X (upd_pend j f a)"
  using assms by (intro served_frame [OF assms(1)]) (auto simp: a_pend_upd_pend)

lemma refreshed_active: "p_busy (refreshed i p) = p_busy p \<and> p_active_cmd_id (refreshed i p) = p_active_cmd_id p"
  by (auto simp: refreshed_def push_two_def dest!: ring_push_fields split: option.splits)

lemma check_devreq_served:
  assumes "served i X a" "i < units a" "j < units a" "arb_inv a"
  shows "served i X (check_devreq e j a)"
proof -
  let ?a1 = "upd_pend j (\<lambda>p. p\<lparr>p_devreq_deadline_us := 0\<rparr>) a"
  let ?a2 = "upd_pend j (refreshed j) ?a1"
  have a1: "arb_inv ?a1" by (rule arb_inv_upd_pend [OF assms(4)]) simp
  have a2: "arb_inv ?a2" by (rule arb_inv_upd_pend [OF a1]) (simp add: refreshed_fields)
  have s1: "served i X ?a1" using assms(1,2) by (rule served_upd_pend) simp
  have "served i X ?a2" by (rule served_upd_pend [OF s1]) (use assms(2) refreshed_active in auto)
  with dispatch_served [OF this _ _ a2, of j e] assms(1-3) s1 show ?thesis by (simp add: check_devreq_eq Let_def)
qed

lemma link_guard_pend:
  assumes "i < units a"
  shows "sent i (link_guard e j a) = sent i a" "p_busy (a_pend (link_guard e j a) ! i) = p_busy (a_pend a ! i)"
    "p_active_cmd_id (a_pend (link_guard e j a) ! i) = p_active_cmd_id (a_pend a ! i)"
proof -
  obtain p' rs where fl: "flush_ring ((a_pend a ! j)\<lparr>p_link_wait_deadline_us := 0\<rparr>) = (p', rs)" by fastforce
  show "sent i (link_guard e j a) = sent i a" "p_busy (a_pend (link_guard e j a) ! i) = p_busy (a_pend a ! i)"
    "p_active_cmd_id (a_pend (link_guard e j a) ! i) = p_active_cmd_id (a_pend a ! i)"
    using assms flush_ring_fields [OF fl] fl
    by (auto simp: link_guard_def Let_def a_pend_upd_pend split: prod.splits)
qed

lemma rb_tick_unit_frame [simp]:
  "a_pend (rb_tick_unit e j a) = a_pend a" "sent i (rb_tick_unit e j a) = sent i a" "a_state (rb_tick_unit e j a) = a_state a"
  by (simp_all add: rb_tick_unit_def Let_def)

lemma turn_served:
  assumes "arb_inv a" "i < units a" "served i X a"
  shows "served i X (retry_dispatch e (rb_tick e (check_link_guards e a)))"
proof -
  have "i < units (retry_dispatch e (rb_tick e (check_link_guards e a))) \<and>
      served i X (retry_dispatch e (rb_tick e (check_link_guards e a)))"
  proof (rule turn_loops(2) [where K = "\<lambda>a. i < units a \<and> served i X a", OF assms(1)])
    fix j b assume "arb_inv b" "j < units b" "i < units b \<and> served i X b"
    then show "i < units (dispatch e j b) \<and> served i X (dispatch e j b)"
      and "i < units (check_devreq e j b) \<and> served i X (check_devreq e j b)"
      and "i < units (link_guard e j b) \<and> served i X (link_guard e j b)"
      and "i < units (rb_tick_unit e j b) \<and> served i X (rb_tick_unit e j b)"
      by (auto intro: dispatch_served check_devreq_served served_frame [OF _ link_guard_pend] served_frame)
  qed (use assms in simp)
  then show ?thesis by simp
qed

lemma handle_balance_set_frame [simp]:
  "a_pend (handle_balance_set e i json cid a) = a_pend a" "sent j (handle_balance_set e i json cid a) = sent j a"
  "a_state (handle_balance_set e i json cid a) = a_state a"
  by (cases rule: handle_balance_set_cases [of e i json cid a]; simp add: balance_ack_def Let_def)+

lemma rb_on_settings_frame [simp]:
  "a_pend (rb_on_settings i a) = a_pend a" "sent j (rb_on_settings i a) = sent j a" "a_state (rb_on_settings i a) = a_state a"
  by (auto simp: rb_on_settings_def rb_finish_def Let_def split: option.splits)

lemma handle_msg_served:
  assumes "arb_inv a" "i < units a" "served i X a" "msg_bms_id m < units a" "amsg_ok m"
  shows "served i X (handle_msg e m a)"
proof (cases m)
  case (ARB_REQ r)
  let ?j = "rq_bms_id r"
  show ?thesis
  proof (cases "ring_push (a_pend a ! ?j) r")
    case (Some p)
    have ok: "pend_ok ?j (a_pend a ! ?j)" using assms ARB_REQ by (simp add: arb_inv_unit)
    with Some ARB_REQ assms(5) have "pend_ok ?j p" by (intro ring_push_ok [OF _ Some]) (simp_all add: ring_ok_def)
    with ring_push_fields [OF Some] assms(1) have inv: "arb_inv (upd_pend ?j (\<lambda>_. p) a)"
      by (intro arb_inv_upd_pend) simp_all
    have "served i X (upd_pend ?j (\<lambda>_. p) a)"
      using assms(2,3) ring_push_fields [OF Some] by (intro served_upd_pend) auto
    with dispatch_served [OF this _ _ inv, of ?j e] assms(2,4) ARB_REQ Some show ?thesis by simp
  qed (use ARB_REQ assms(3) in simp)
next
  case (ARB_APP_CONN j c)
  then show ?thesis using assms(2)
    by (auto simp: on_app_conn_def Let_def a_pend_upd_pend intro!: served_frame [OF assms(3)] split: if_splits)
next
  case (ARB_MQTT j t json cid)
  then show ?thesis by (cases t) (auto simp: Let_def intro!: served_frame [OF assms(3)] split: prod.splits)
next
  case (ARB_APP_DEVREQ j)
  then show ?thesis using assms(2)
    by (auto simp: on_app_devreq_def Let_def a_pend_upd_pend intro!: served_frame [OF assms(3)] split: if_splits)
qed (use assms(2) in \<open>auto simp: a_pend_upd_pend intro!: served_frame [OF assms(3)] split: if_splits\<close>)

lemma on_response_served:
  assumes "arb_inv a" "i < units a" "served i X a"
  shows "served i (X \<union> {c. rs_bms_id rsp = i \<and> c = rs_cmd_id rsp}) (on_response e rsp a)"
proof -
  let ?j = "rs_bms_id rsp" and ?X = "X \<union> {c. rs_bms_id rsp = i \<and> c = rs_cmd_id rsp}"
  have X: "served i ?X a" using assms(3) by (auto simp: served_def)
  show ?thesis
  proof (cases "?j \<ge> units a \<or> \<not> p_busy (a_pend a ! ?j) \<or> rs_cmd_id rsp \<noteq> p_active_cmd_id (a_pend a ! ?j)")
    case True
    with X show ?thesis by (auto simp: on_response_eq Let_def)
  next
    case False
    let ?a1 = "upd_pend ?j (answered_pend e (rt_app_connected ?j a) rsp) a"
    have inv: "arb_inv ?a1"
      using assms(1) by (auto intro!: arb_inv_upd_pend simp: answered_pend_ok answered_pend_fields(3) [OF pend_ok_ring])
    have "served i ?X ?a1"
    proof (cases "?j = i")
      case True
      with False assms(2,3) show ?thesis by (auto simp: served_def a_pend_upd_pend)
    next
      case False
      with X assms(2) show ?thesis by (auto simp: served_def a_pend_upd_pend)
    qed
    from dispatch_served [OF this _ _ inv, of ?j e] False assms(2) show ?thesis
      by (simp add: on_response_eq Let_def)
  qed
qed

text \<open>The ids of the responses delivered for a unit.\<close>

definition answered_ids :: "nat \<Rightarrow> bms_response list \<Rightarrow> u64 set" where
  "answered_ids i rsps = {rs_cmd_id s |s. s \<in> set rsps \<and> rs_bms_id s = i}"

lemma arb_run_served: "arb_run n rsps a \<Longrightarrow> i < n \<Longrightarrow> served i (answered_ids i rsps) a"
proof (induction rule: arb_run.induct)
  case (start m)
  then show ?case by (simp add: served_def sent_def arbiter_start_def)
next
  case (message rsps a m e)
  then have inv: "arb_inv a" "units a = n" and ok: "ev_ok a (Ev_msg m)" using arb_run_inv queued_ev_ok by blast+
  with message have "served i (answered_ids i rsps) (handle_msg e m a)" by (intro handle_msg_served) auto
  then show ?case using turn_served handle_event_inv [OF inv(1) ok, of e] inv(2) message.prems
    units_handle_event [of e "Ev_msg m" a] by (simp add: arbiter_step_def)
next
  case (response rsps a rsp e)
  then have inv: "arb_inv a" "units a = n" using arb_run_inv by blast+
  have "answered_ids i (rsps @ [rsp]) = answered_ids i rsps \<union> {c. rs_bms_id rsp = i \<and> c = rs_cmd_id rsp}"
    by (auto simp: answered_ids_def)
  with response inv have "served i (answered_ids i (rsps @ [rsp])) (on_response e rsp a)"
    using on_response_served by simp
  then show ?case using turn_served on_response_inv [OF inv(1)] inv(2) response.prems by (simp add: arbiter_step_def)
next
  case (timeout rsps a e)
  then have "arb_inv a" "units a = n" using arb_run_inv by blast+
  with timeout show ?case using turn_served by (simp add: arbiter_step_def)
qed (simp_all add: served_def)

section \<open>Order of the work\<close>

text \<open>
  The work of a unit: what has been sent, then what waits, link establishment apart, with the numbers
  given at dispatch removed.
\<close>

definition strip :: "bms_request \<Rightarrow> bms_request" where
  "strip r = r\<lparr>rq_cmd_id := 0\<rparr>"

definition payload_work :: "bms_request list \<Rightarrow> bms_request list" where
  "payload_work rs = map strip (filter (\<lambda>r. rq_kind r \<noteq> TXN_CONNECT) rs)"

definition work :: "nat \<Rightarrow> arb \<Rightarrow> bms_request list" where
  "work i a = payload_work (sent i a) @ payload_work (ring_list (a_pend a ! i))"

lemma payload_work_simps [simp]:
  "payload_work [] = []" "payload_work (rs @ ss) = payload_work rs @ payload_work ss"
  "payload_work (r # rs) = (if rq_kind r = TXN_CONNECT then payload_work rs else strip r # payload_work rs)"
  by (simp_all add: payload_work_def)

lemma strip_cmd_id [simp]: "strip (r\<lparr>rq_cmd_id := n\<rparr>) = strip r"
  by (simp add: strip_def)

text \<open>The link-up guard of the unit cannot fire now.\<close>

definition guard_idle :: "env \<Rightarrow> nat \<Rightarrow> arb \<Rightarrow> bool" where
  "guard_idle e i a \<longleftrightarrow> p_link_wait_deadline_us (a_pend a ! i) = 0 \<or> e_now e \<le> p_link_wait_deadline_us (a_pend a ! i) \<or>
     rt_link_held i a"

definition ordered :: "env \<Rightarrow> nat \<Rightarrow> arb \<Rightarrow> arb \<Rightarrow> bool" where
  "ordered e i a a' \<longleftrightarrow> rt_link_held i a' = rt_link_held i a \<and>
     (guard_idle e i a \<longrightarrow> guard_idle e i a' \<and> prefix (work i a) (work i a'))"

lemma ordered_refl: "ordered e i a a"
  by (simp add: ordered_def)

lemma ordered_trans: "ordered e i a b \<Longrightarrow> ordered e i b c \<Longrightarrow> ordered e i a c"
  unfolding ordered_def using prefix_order.trans by metis

lemma ordered_frame:
  assumes "sent i a' = sent i a" "a_pend a' ! i = a_pend a ! i" "rt_link_held i a' = rt_link_held i a"
  shows "ordered e i a a'"
  using assms by (simp add: ordered_def guard_idle_def work_def)

lemma ordered_upd_pend:
  assumes "i < units a"
    "j = i \<Longrightarrow> \<exists>rs. ring_list (f (a_pend a ! i)) = ring_list (a_pend a ! i) @ rs"
    "j = i \<Longrightarrow> p_link_wait_deadline_us (f (a_pend a ! i)) = p_link_wait_deadline_us (a_pend a ! i)"
  shows "ordered e i a (upd_pend j f a)"
  using assms by (auto simp: ordered_def guard_idle_def work_def a_pend_upd_pend rt_link_held_def)

lemma dispatch_ordered:
  assumes "arb_inv a" "i < units a" "j < units a"
  shows "ordered e i a (dispatch e j a)"
proof (cases rule: dispatch_cases [of e j a])
  case (2 cid r)
  with assms(2) show ?thesis
    by (auto simp: ordered_def guard_idle_def work_def a_pend_upd_pend rt_link_held_def mark_busy_def)
next
  case (3 cid r)
  have ok: "pend_ok j (a_pend a ! j)" using assms by (simp add: arb_inv_unit)
  have r: "rq_bms_id r = j" using handed_pend_ok(2) [OF ok 3(4,2,5) refl] .
  have "payload_work (ring_list (a_pend a ! j)) = payload_work (r # tl (ring_list (a_pend a ! j)))"
    using ring_head [OF pend_ok_ring [OF ok] 3(4)] 3(2) by simp
  with 3 r handed_ring [OF pend_ok_ring [OF ok] 3(4,2), of cid] assms(2) show ?thesis
    by (cases "j = i") (auto simp: ordered_def guard_idle_def work_def a_pend_upd_pend rt_link_held_def)
qed (simp add: ordered_refl)

lemma check_devreq_ordered:
  assumes "arb_inv a" "i < units a" "j < units a"
  shows "ordered e i a (check_devreq e j a)"
proof -
  let ?a1 = "upd_pend j (\<lambda>p. p\<lparr>p_devreq_deadline_us := 0\<rparr>) a"
  let ?a2 = "upd_pend j (refreshed j) ?a1"
  have a1: "arb_inv ?a1" by (rule arb_inv_upd_pend [OF assms(1)]) simp
  have a2: "arb_inv ?a2" by (rule arb_inv_upd_pend [OF a1]) (simp add: refreshed_fields)
  have o1: "ordered e i a ?a1" using assms(2) by (rule ordered_upd_pend) simp_all
  have "pend_ok i (a_pend ?a1 ! i)" using arb_inv_unit [OF a1] assms(2) by simp
  then have o2: "ordered e i ?a1 ?a2"
    using assms(2) refreshed_fields(4,5) [of i "a_pend ?a1 ! i"] by (intro ordered_upd_pend) auto
  from dispatch_ordered [OF a2, of i j e] assms(2,3) o1 o2 show ?thesis
    by (auto simp: check_devreq_eq Let_def intro: ordered_refl ordered_trans)
qed

lemma mark_idle_held: "rt_link_held i (a\<lparr>a_state := snd (state_mark_idle_if_unheld j (a_state a))\<rparr>) = rt_link_held i a"
  by (auto simp: rt_link_held_def state_get_runtime_def state_mark_idle_if_unheld_def Let_def upd_rt_def nth_upd_unit)

lemma link_guard_ordered:
  assumes "i < units a"
  shows "ordered e i a (link_guard e j a)"
proof (cases "j = i")
  case True
  have "rt_link_held i (link_guard e i a) = rt_link_held i a"
    using mark_idle_held [where i = i and j = i and a = a] by (auto simp: link_guard_def Let_def rt_link_held_def split: prod.splits)
  moreover have "link_guard e i a = a" if "guard_idle e i a"
    using that by (auto simp: link_guard_def guard_idle_def Let_def)
  ultimately show ?thesis using True by (auto simp: ordered_def)
next
  case False
  then show ?thesis using assms link_guard_pend(1) [OF assms, of e j] mark_idle_held [where i = i and j = j and a = a]
    by (intro ordered_frame) (auto simp: link_guard_def Let_def a_pend_upd_pend rt_link_held_def split: prod.splits)
qed

lemma rb_tick_unit_ordered: "ordered e i a (rb_tick_unit e j a)"
  by (rule ordered_frame) (simp_all add: rt_link_held_def)

lemma turn_ordered:
  assumes "arb_inv a" "i < units a"
  shows "ordered e i a (retry_dispatch e (rb_tick e (check_link_guards e a)))"
proof -
  have "i < units (retry_dispatch e (rb_tick e (check_link_guards e a))) \<and>
      ordered e i a (retry_dispatch e (rb_tick e (check_link_guards e a)))"
  proof (rule turn_loops(2) [where K = "\<lambda>b. i < units b \<and> ordered e i a b", OF assms(1)])
    fix j b assume "arb_inv b" "j < units b" "i < units b \<and> ordered e i a b"
    then show "i < units (dispatch e j b) \<and> ordered e i a (dispatch e j b)"
      and "i < units (check_devreq e j b) \<and> ordered e i a (check_devreq e j b)"
      and "i < units (link_guard e j b) \<and> ordered e i a (link_guard e j b)"
      and "i < units (rb_tick_unit e j b) \<and> ordered e i a (rb_tick_unit e j b)"
      by (auto intro: ordered_trans dispatch_ordered check_devreq_ordered link_guard_ordered rb_tick_unit_ordered)
  qed (use assms in \<open>simp add: ordered_refl\<close>)
  then show ?thesis by simp
qed

lemma release_work:
  assumes "pend_ok i p" "p_busy p" "rs_cmd_id rsp = p_active_cmd_id p"
  shows "payload_work (ring_list (release rsp p)) = payload_work (ring_list p)"
proof -
  note ring = pend_ok_ring [OF assms(1)]
  from release_cases [OF ring, of rsp] consider "ring_list (release rsp p) = ring_list p"
    | "p_count p \<noteq> 0" "rq_cmd_id (p_ring p ! p_head p) = rs_cmd_id rsp" "ring_list (release rsp p) = tl (ring_list p)" by blast
  then show ?thesis
  proof cases
    case 2
    let ?h = "p_ring p ! p_head p"
    have hd: "ring_list p = ?h # tl (ring_list p)" by (rule ring_head [OF ring 2(1)])
    have "list_all (ring_ok i) (?h # tl (ring_list p))"
      using assms(1) unfolding hd [symmetric] by (simp add: pend_ok_def)
    moreover have "rs_cmd_id rsp \<noteq> 0" using assms by (auto simp: pend_ok_def busy_ok_def)
    ultimately have "rq_kind ?h = TXN_CONNECT" using 2(2) by (simp add: ring_ok_def)
    then have "payload_work (?h # tl (ring_list p)) = payload_work (tl (ring_list p))" by simp
    with hd 2(3) show ?thesis by simp
  qed simp
qed

lemma on_response_ordered:
  assumes "arb_inv a" "i < units a"
  shows "ordered e i a (on_response e rsp a)"
proof -
  let ?j = "rs_bms_id rsp"
  show ?thesis
  proof (cases "?j \<ge> units a \<or> \<not> p_busy (a_pend a ! ?j) \<or> rs_cmd_id rsp \<noteq> p_active_cmd_id (a_pend a ! ?j)")
    case True
    then show ?thesis by (auto simp: on_response_eq Let_def ordered_refl)
  next
    case False
    let ?a1 = "upd_pend ?j (answered_pend e (rt_app_connected ?j a) rsp) a"
    have ok: "pend_ok ?j (a_pend a ! ?j)" using assms(1) False by (simp add: arb_inv_unit)
    have inv: "arb_inv ?a1"
      using assms(1) by (auto intro!: arb_inv_upd_pend simp: answered_pend_ok answered_pend_fields(3) [OF pend_ok_ring])
    have "ordered e i a ?a1"
      using release_work [OF ok, of rsp] False assms(2) answered_pend_fields(1,5) [OF pend_ok_ring [OF ok]]
      by (cases "i = ?j") (auto simp: ordered_def guard_idle_def work_def a_pend_upd_pend rt_link_held_def)
    with dispatch_ordered [OF inv, of i ?j e] False assms(2) show ?thesis
      by (auto simp: on_response_eq Let_def intro: ordered_trans)
  qed
qed

lemma set_app_held: "brt_link_held (state_get_runtime i (state_set_app_connected j c t ss)) = brt_link_held (state_get_runtime i ss)"
  by (auto simp: state_get_runtime_def state_set_app_connected_def upd_rt_def nth_upd_unit set_app_connected_def Let_def)

lemma on_app_conn_ordered:
  assumes "i < units a"
  shows "ordered e i a (on_app_conn e j c a)"
  using assms
  by (cases "i = j")
    (auto simp: ordered_def guard_idle_def work_def on_app_conn_def Let_def a_pend_upd_pend rt_link_held_def rt_set_app_def
      set_app_held CFG_APP_LINK_TIMEOUT_MS_def)

lemma handle_msg_ordered:
  assumes "arb_inv a" "i < units a" "msg_bms_id m < units a" "amsg_ok m" "m \<noteq> ARB_CLEAR i"
  shows "ordered e i a (handle_msg e m a)"
proof (cases m)
  case (ARB_REQ r)
  let ?j = "rq_bms_id r"
  show ?thesis
  proof (cases "ring_push (a_pend a ! ?j) r")
    case None
    with ARB_REQ show ?thesis by (simp add: ordered_refl)
  next
    case (Some p)
    have ok: "pend_ok ?j (a_pend a ! ?j)" using assms ARB_REQ by (simp add: arb_inv_unit)
    with Some ARB_REQ assms(4) have "pend_ok ?j p" by (intro ring_push_ok [OF _ Some]) (simp_all add: ring_ok_def)
    with ring_push_fields [OF Some] assms(1) have inv: "arb_inv (upd_pend ?j (\<lambda>_. p) a)"
      by (intro arb_inv_upd_pend) simp_all
    have "ordered e i a (upd_pend ?j (\<lambda>_. p) a)"
      using assms(2) ring_push_fields [OF Some] ring.push_SomeD [OF pend_ok_ring [OF ok] Some]
      by (intro ordered_upd_pend) auto
    with dispatch_ordered [OF inv, of i ?j e] assms(2,3) ARB_REQ Some show ?thesis by (auto intro: ordered_trans)
  qed
next
  case (ARB_APP_CONN j c)
  with assms(2) show ?thesis by (simp add: on_app_conn_ordered)
next
  case (ARB_MQTT j t json cid)
  then show ?thesis
    by (cases t) (auto simp: Let_def rt_link_held_def intro!: ordered_frame split: prod.splits)
next
  case (ARB_CLEAR j)
  with assms(2,5) show ?thesis by (intro ordered_frame) (auto simp: a_pend_upd_pend rt_link_held_def)
next
  case (ARB_SETTINGS j)
  then show ?thesis by (auto intro!: ordered_frame simp: rt_link_held_def)
next
  case (ARB_APP_DEVREQ j)
  with assms(2) show ?thesis by (auto simp: on_app_devreq_def Let_def ordered_refl intro!: ordered_upd_pend)
next
  case (ARB_DEVINFO j)
  with assms(2) show ?thesis by (auto intro!: ordered_upd_pend)
qed

lemma arbiter_step_ordered:
  assumes "arb_inv a" "i < units a" "ev_ok a ev" "ev \<noteq> Ev_msg (ARB_CLEAR i)"
  shows "ordered e i a (arbiter_step e ev a)"
proof -
  have "ordered e i a (handle_event e ev a)"
  proof (cases ev)
    case (Ev_msg m)
    with assms show ?thesis by (auto intro: handle_msg_ordered)
  qed (use assms in \<open>auto intro: on_response_ordered ordered_refl\<close>)
  moreover have "ordered e i (handle_event e ev a) (arbiter_step e ev a)"
    unfolding arbiter_step_def using turn_ordered [OF handle_event_inv [OF assms(1,3)]] assms(2) by simp
  ultimately show ?thesis by (rule ordered_trans)
qed

end
