(* ===== verification/Arbiter_Spec.thy ===== *)
theory Arbiter_Spec
  imports Arbiter
begin

text \<open>
  The properties of the arbiter, over every run \<open>arb_run\<close> of its task among the other tasks of node A.
\<close>

section \<open>Sample runs\<close>

definition sample_env :: "cjson \<Rightarrow> env" where
  "sample_env doc = \<lparr>e_now = 5, e_bms_ok = (\<lambda>_ _. True), e_in_ok = (\<lambda>_ _. True), e_parse = (\<lambda>_. Some doc), e_fleet = []\<rparr>"

definition sample_meas :: measure where
  "sample_meas = \<lparr>me_active = False, me_bms = 0, me_start_us = 0, me_workers = []\<rparr>"

definition sample_doc :: cjson where
  "sample_doc = CJSON_Object [\<lparr>cj_string = Some ''cell_count'', cj_value = CJ_Number (Finite 16)\<rparr>]"

text \<open>A poll is submitted, handled (a connect is sent), answered, and the connect is tried again.\<close>

definition run_poll0 :: arb where
  "run_poll0 = do_call (sample_env sample_doc) (C_poll 0 0x96) (arbiter_start 1 sample_meas)"

definition run_poll1 :: arb where
  "run_poll1 = arbiter_step (sample_env sample_doc) (Ev_msg (ARB_REQ (poll_request 0 0x96))) run_poll0"

definition run_poll2 :: arb where
  "run_poll2 = arbiter_step (sample_env sample_doc) (Ev_rsp \<lparr>rs_bms_id = 0, rs_cmd_id = 1, rs_status = RESP_OK\<rparr>) run_poll1"

lemma run_poll0_q: "a_in_q run_poll0 = [ARB_REQ (poll_request 0 0x96)]"
  by code_simp

lemma run_poll1_eval: "a_bms_q run_poll1 = [auto_connect 0 1]"
  by code_simp

lemma run_poll2_eval: "a_bms_q run_poll2 = [auto_connect 0 1, auto_connect 0 2]"
  by code_simp

text \<open>With the link up, a balance command is accepted and its write is sent.\<close>

definition run_write0 :: arb where
  "run_write0 = (let a = arbiter_start 1 sample_meas;
     a = a\<lparr>a_state := sc_apply (Set_link_state LINK_UP True 1) 0 (a_state a)\<rparr>
     in do_call (sample_env sample_doc) (C_balance_set 0 (Some ''x'') None) a)"

definition run_write1 :: arb where
  "run_write1 = arbiter_step (sample_env sample_doc) (Ev_msg (ARB_MQTT 0 MQTT_BALANCE ''x'' '''')) run_write0"

definition sample_write :: "byte list" where
  "sample_write = [0xAA, 0x55, 0x90, 0xEB, 0x1C, 4, 16, 0, 0, 0, 0, 0, 0, 0, 0, 0, 0, 0, 0, 0xAA]"

definition run_write2 :: arb where
  "run_write2 = arbiter_step (sample_env sample_doc) (Ev_msg (ARB_REQ (balance_request 0 sample_write))) run_write1"

lemma run_write0_q: "a_in_q run_write0 = [ARB_MQTT 0 MQTT_BALANCE ''x'' '''']"
  by code_simp

lemma run_write1_q: "a_in_q run_write1 = [ARB_MQTT 0 MQTT_BALANCE ''x'' '''', ARB_REQ (balance_request 0 sample_write)]"
  by code_simp

section \<open>Safety of settings writes\<close>

lemma run_write1_run: "arb_run 1 [] run_write1"
proof -
  have "arb_run 1 [] run_write0"
    unfolding run_write0_def Let_def by (intro arb_run.client arb_run.cache arb_run.start)
  then show ?thesis
    unfolding run_write1_def by (rule arb_run.message) (simp add: run_write0_q)
qed

text \<open>
  C1. No unsafe settings write. In every state the arbiter can reach, each settings write it has
  submitted to itself or handed to the BLE task is a well-formed register frame whose register
  and value lie in the envelope: trigger 3 to 100 mV, current 100 to 2000 mA, balancer 0 or 1, start
  voltage 2900 to 3500 mV, cell count 15 or 16, whatever JSON arrives, in whatever order messages,
  responses and timeouts interleave.
\<close>

theorem only_safe_settings_writes:
  assumes "arb_run n rsps a" and "r \<in> set (a_bms_q a) \<or> ARB_REQ r \<in> set (a_in_q a)" and "rq_kind r = TXN_BALANCE_WRITE"
  shows "safe_write (rq_payload r)"
proof -
  from arb_run_inv [OF assms(1)] have "queues_ok a" by (simp add: arb_inv_def)
  with assms(2) have "req_ok r" by (auto simp: queues_ok_def list_all_iff)
  with assms(3) show ?thesis by (simp add: req_ok_def)
qed

theorem only_safe_settings_writes_witness: "safe_write sample_write"
  using only_safe_settings_writes [OF run_write1_run, of "balance_request 0 sample_write"]
  by (simp add: run_write1_q balance_request_def)

section \<open>Serialisation\<close>

lemma run_poll2_run: "arb_run 1 [\<lparr>rs_bms_id = 0, rs_cmd_id = 1, rs_status = RESP_OK\<rparr>] run_poll2"
proof -
  have "arb_run 1 [] run_poll0" unfolding run_poll0_def by (intro arb_run.client arb_run.start)
  then have "arb_run 1 [] run_poll1"
    unfolding run_poll1_def by (rule arb_run.message) (simp add: run_poll0_q)
  from arb_run.response [OF this] show ?thesis unfolding run_poll2_def by simp
qed

lemma numbered_nth: "numbered n rs \<Longrightarrow> k < length rs \<Longrightarrow> rq_cmd_id (rs ! k) = of_nat (Suc k)"
proof -
  assume n: "numbered n rs" and k: "k < length rs"
  then have "length rs = unat n" by (metis numbered_def diff_Suc_1 length_map length_upt)
  with n k have "map rq_cmd_id rs ! k = of_nat (Suc k)" by (simp add: numbered_def del: upt_Suc)
  with k show ?thesis by simp
qed

lemma numbered_length: "numbered n rs \<Longrightarrow> length rs = unat n"
  by (metis numbered_def diff_Suc_1 length_map length_upt)

lemma unat_bound: "unat (w :: u64) < 2 ^ 64"
  by (rule order_less_le_trans [OF unsigned_less]) simp

text \<open>
  C2. One transaction at a time. In every reachable state the transactions handed to the BLE task for
  a unit carry the numbers 1, 2, 3, ... without gap or reuse, and each of them except possibly the last
  has been answered by a response carrying exactly its number: the arbiter never starts a
  transaction on a unit while an earlier one is unanswered, and late or foreign responses cannot make it.
\<close>

theorem one_transaction_at_a_time:
  assumes "arb_run n rsps a" and "i < n"
  shows "map rq_cmd_id (sent i a) = map of_nat [1..<Suc (length (sent i a))] \<and> distinct (map rq_cmd_id (sent i a)) \<and>
    (\<forall>r \<in> set (butlast (sent i a)). rq_cmd_id r \<in> answered_ids i rsps)"
proof -
  let ?p = "a_pend a ! i"
  from arb_run_inv [OF assms(1)] assms(2) have inv: "pend_ok i ?p" and num: "numbered (p_next_cmd_id ?p) (sent i a)"
    by (auto simp: arb_inv_def unit_inv_def)
  have len: "length (sent i a) = unat (p_next_cmd_id ?p)" by (rule numbered_length [OF num])
  have ids: "map rq_cmd_id (sent i a) = map of_nat [1..<Suc (length (sent i a))]" using num by (simp add: numbered_def len)
  have inj: "inj_on (of_nat :: nat \<Rightarrow> u64) {1..<Suc (length (sent i a))}"
    using unat_bound [of "p_next_cmd_id ?p"] by (auto simp: inj_on_def len word_of_nat_eq_iff take_bit_nat_eq_self)
  then have dist: "distinct (map rq_cmd_id (sent i a))"
    unfolding ids by (simp add: distinct_map del: upt_Suc)
  have "rq_cmd_id r \<in> answered_ids i rsps" if r: "r \<in> set (butlast (sent i a))" for r
  proof (rule ccontr)
    assume "rq_cmd_id r \<notin> answered_ids i rsps"
    with arb_run_served [OF assms] r have "rq_cmd_id r = p_active_cmd_id ?p" "p_busy ?p"
      unfolding served_def by (auto dest: in_set_butlastD)
    then have next_id: "rq_cmd_id r = p_next_cmd_id ?p" using inv by (auto simp: pend_ok_def busy_ok_def)
    obtain k where k: "k < length (butlast (sent i a))" "r = butlast (sent i a) ! k"
      using r by (auto simp: in_set_conv_nth)
    then have "rq_cmd_id r = of_nat (Suc k)" using numbered_nth [OF num, of k] by (simp add: nth_butlast)
    moreover have "unat (of_nat (Suc k) :: u64) = Suc k"
      using k(1) len unat_bound [of "p_next_cmd_id ?p"] by (simp add: unat_of_nat take_bit_nat_eq_self del: of_nat_Suc)
    ultimately have "unat (p_next_cmd_id ?p) = Suc k" using next_id by metis
    with k(1) len show False by simp
  qed
  with ids dist show ?thesis by blast
qed

theorem one_transaction_at_a_time_witness:
  "map rq_cmd_id (sent 0 run_poll2) = [1, 2] \<and> 1 \<in> answered_ids 0 [\<lparr>rs_bms_id = 0, rs_cmd_id = 1, rs_status = RESP_OK\<rparr>]"
  using one_transaction_at_a_time [OF run_poll2_run, of 0] by (simp add: sent_def run_poll2_eval)

section \<open>Order\<close>

text \<open>
  C3. Pending work is neither lost nor reordered. Take any reachable state and any turn of the task on
  it that does not flush the unit (the turn does not handle the supervisor's clear message for it,
  and the unit's link-up guard has not expired): the sequence of the unit's transactions, those sent
  followed by those still waiting, is only extended at its end, also when the BLE queue is full,
  when a connect is inserted first, when a connect is retried, or when other units' work is served.
\<close>

theorem pending_work_kept_in_order:
  assumes "arb_run n rsps a" and "i < n" and "guard_idle e i a"
    and "ev \<noteq> Ev_msg (ARB_CLEAR i)" and "\<And>m. ev = Ev_msg m \<Longrightarrow> m \<in> set (a_in_q a)"
  shows "prefix (work i a) (work i (arbiter_step e ev a))"
proof -
  from arb_run_inv [OF assms(1)] assms(2) have inv: "arb_inv a" "i < units a" by auto
  have "ev_ok a ev" using assms(5) queued_ev_ok [OF inv(1)] by (cases ev) auto
  from arbiter_step_ordered [OF inv this assms(4)] assms(3) show ?thesis by (simp add: ordered_def)
qed

theorem pending_work_kept_in_order_witness:
  "prefix (work 0 run_poll0) (work 0 (arbiter_step (sample_env sample_doc) (Ev_msg (ARB_REQ (poll_request 0 0x96))) run_poll0))"
proof (rule pending_work_kept_in_order)
  show "arb_run 1 [] run_poll0" unfolding run_poll0_def by (intro arb_run.client arb_run.start)
  show "guard_idle (sample_env sample_doc) 0 run_poll0"
    by (simp add: guard_idle_def run_poll0_def arbiter_start_def zero_pend_def)
qed (simp_all add: run_poll0_q)

section \<open>The pending ring\<close>

text \<open>
  C25. The pending ring of a unit implements a FIFO of capacity 8: a push appends at the end and is
  refused exactly when eight requests wait, a pop takes the oldest and fails exactly when none waits,
  across every wrap-around of the indices.
\<close>

theorem pending_ring_is_fifo:
  assumes "ring_inv p"
  shows "(case ring_push p r of None \<Rightarrow> length (ring_list p) = PEND_DEPTH
          | Some p' \<Rightarrow> length (ring_list p) < PEND_DEPTH \<and> ring_inv p' \<and> ring_list p' = ring_list p @ [r]) \<and>
    (case ring_pop p of None \<Rightarrow> ring_list p = []
     | Some (x, p') \<Rightarrow> ring_inv p' \<and> ring_list p = x # ring_list p')"
proof
  show "case ring_push p r of None \<Rightarrow> length (ring_list p) = PEND_DEPTH
      | Some p' \<Rightarrow> length (ring_list p) < PEND_DEPTH \<and> ring_inv p' \<and> ring_list p' = ring_list p @ [r]"
    using ring.push_SomeD [OF assms, of r] ring.push_iff_room [OF assms, of r] ring.bounded [OF assms]
    by (auto split: option.split)
  show "case ring_pop p of None \<Rightarrow> ring_list p = [] | Some (x, p') \<Rightarrow> ring_inv p' \<and> ring_list p = x # ring_list p'"
    using ring.pop_SomeD [OF assms] ring.pop_None_iff [OF assms] by (auto split: option.split prod.split)
qed

theorem pending_ring_is_fifo_witness:
  "case ring_push zero_pend zero_request of None \<Rightarrow> False | Some p' \<Rightarrow> ring_list p' = [zero_request]"
  using pending_ring_is_fifo [of zero_pend zero_request] pend_ok_zero [of 0]
  by (auto simp: pend_ok_def zero_pend_def ring_list_def ring_push_def PEND_DEPTH_def)

section \<open>Backoff\<close>

text \<open>
  The reconnect ladder. From a healthy unit, the failure after \<open>k\<close> earlier ones makes the arbiter
  wait \<open>2000 * 2 ^ k\<close> milliseconds before the next connect, capped at 30 seconds for ever; with a phone
  waiting the first failure waits 250 ms and the ladder starts with the second. The 32-bit
  doubling never wraps.
\<close>

theorem reconnect_ladder:
  assumes "p_backoff_ms p = 0"
  shows "p_backoff_ms ((back_off e False ^^ Suc k) p) = min 30000 (2000 * 2 ^ k) \<and>
    p_connect_after_us ((back_off e False ^^ Suc k) p) = e_now e + int (min 30000 (2000 * 2 ^ k)) * 1000 \<and>
    p_connect_after_us (back_off e True p) = e_now e + 250000 \<and>
    p_backoff_ms ((back_off e True ^^ Suc (Suc k)) p) = min 30000 (2000 * 2 ^ k)"
proof -
  have step: "p_backoff_ms (back_off e app q) = min 30000 (b * 2) \<and>
      p_connect_after_us (back_off e app q) = e_now e + int (min 30000 (b * 2)) * 1000"
    if "p_backoff_ms q = b" "2000 \<le> b" "b \<le> 30000" for app q b
    using that by (auto simp: back_off_def Let_def CFG_RECONNECT_CAP_MS_def min_def)
  have ladder: "p_backoff_ms ((back_off e app ^^ Suc k) q) = min 30000 (2000 * 2 ^ k) \<and>
      p_connect_after_us ((back_off e app ^^ Suc k) q) = e_now e + int (min 30000 (2000 * 2 ^ k)) * 1000"
    if "p_backoff_ms (back_off e app q) = 2000" "p_connect_after_us (back_off e app q) = e_now e + 2000000" for app q k
  proof (induction k)
    case (Suc k)
    have "2000 \<le> min 30000 (2000 * 2 ^ k :: nat)" by simp
    moreover have "min 30000 (min 30000 (2000 * 2 ^ k) * 2) = min 30000 (2000 * 2 ^ Suc k :: nat)" by (simp add: min_def)
    ultimately show ?case using step [of "(back_off e app ^^ Suc k) q" "min 30000 (2000 * 2 ^ k)" app] Suc by simp
  qed (use that in simp)
  let ?q = "back_off e True p"
  have q: "p_backoff_ms ?q = 1" "p_connect_after_us ?q = e_now e + 250000"
    using assms by (simp_all add: back_off_def Let_def CFG_APP_FAST_RETRY_MS_def)
  have "p_backoff_ms ((back_off e True ^^ Suc k) ?q) = min 30000 (2000 * 2 ^ k)"
    using ladder [of True ?q k] q(1) by (simp add: back_off_def [of _ _ ?q] Let_def)
  moreover have "(back_off e True ^^ Suc (Suc k)) p = (back_off e True ^^ Suc k) ?q" by (simp only: funpow_Suc_right o_apply)
  ultimately show ?thesis using ladder [of False p k] assms q
    by (simp add: back_off_def [of _ _ p] Let_def)
qed

theorem reconnect_ladder_witness:
  "p_backoff_ms ((back_off (sample_env sample_doc) False ^^ Suc 4) zero_pend) = 30000"
  using reconnect_ladder [where p = zero_pend and e = "sample_env sample_doc" and k = 4] by (simp add: zero_pend_def)

section \<open>Balance commands\<close>

text \<open>What a command must be to be taken, and when its unit is free for a write.\<close>

definition admitted :: "env \<Rightarrow> string \<Rightarrow> string \<Rightarrow> rat \<Rightarrow> bool" where
  "admitted e json key v \<longleftrightarrow> (\<exists>doc it rg. e_parse e json = Some doc \<and> balance_command_validate doc = Inr (it, v) \<and>
     cj_string it = Some key \<and> whitelist_lookup key = Some rg \<and> cr_min rg \<le> v \<and> v \<le> cr_max rg)"

definition write_allowed :: "env \<Rightarrow> nat \<Rightarrow> arb \<Rightarrow> bool" where
  "write_allowed e i a \<longleftrightarrow> \<not> rt_app_connected i a \<and>
     (a_last_write_us a ! i = 0 \<or> 3000000 \<le> e_now e - a_last_write_us a ! i)"

definition setpoint_table :: "(string \<times> byte \<times> rat) list" where
  "setpoint_table =
    [(''balance_trigger_voltage'', 0x06, 1000), (''balance_current'', 0x13, 1000), (''balancing_enabled'', 0x1F, 1),
     (''balance_start_voltage'', 0x22, 1000), (''cell_count'', 0x1C, 1)]"

text \<open>The frame: magic, register, length byte 4, the scaled and rounded value, zeros, checksum.\<close>

definition setpoint_frame :: "string \<Rightarrow> rat \<Rightarrow> byte list \<Rightarrow> bool" where
  "setpoint_frame key v f \<longleftrightarrow> cmd_wf f \<and> f ! 5 = 4 \<and> take 9 (drop 10 f) = replicate 9 0 \<and>
     (\<exists>(name, reg, scale) \<in> set setpoint_table.
       name = key \<and> f ! 4 = reg \<and> le32 f 6 = word_of_int \<lfloor>fl64 (fl64 (v * scale) + 1 / 2)\<rfloor>)"

lemma setpoint_built:
  assumes "admitted e json key v"
  shows "\<exists>f. jk_build_balance_write JK_FRAME_JK02_32S key (Finite v) JK_FRAME_MAX = Some f \<and> setpoint_frame key v f \<and>
    length f \<le> REQ_PAYLOAD_MAX \<and> length key \<le> 27"
proof -
  from assms obtain rg where w: "whitelist_lookup key = Some rg" "cr_min rg \<le> v" "v \<le> cr_max rg"
    unfolding admitted_def by blast
  have "length key \<le> 27" by (rule whitelist_key_length [OF w(1)])
  from build_in_range_frame [OF w] obtain r f where r: "r \<in> set JK_SETTING_REGS" "sr_key r = key"
    and f: "jk_build_balance_write JK_FRAME_JK02_32S key (Finite v) JK_FRAME_MAX = Some f" "cmd_wf f" "f ! 4 = sr_reg r"
      "f ! 5 = 4" "le32 f 6 = word_of_int \<lfloor>fl64 (fl64 (v * sr_scale r) + 1 / 2)\<rfloor>" "take 9 (drop 10 f) = replicate 9 0"
    by blast
  have tab: "set setpoint_table = (\<lambda>r. (sr_key r, sr_reg r, sr_scale r)) ` set JK_SETTING_REGS"
    by (simp add: JK_SETTING_REGS_def setpoint_table_def)
  have "(sr_key r, sr_reg r, sr_scale r) \<in> set setpoint_table" unfolding tab using r(1) by (rule imageI)
  then have "setpoint_frame key v f" unfolding setpoint_frame_def r(2)
    using f(2,4,6) f(3,5) by - (intro conjI, assumption+, erule bexI [rotated], simp only: prod.case)
  moreover from f(2) have "length f \<le> REQ_PAYLOAD_MAX"
    by (simp add: cmd_wf_def JK_CMD_FRAME_LEN_def REQ_PAYLOAD_MAX_def TUNNEL_MAX_WRITE_DATA_def)
  ultimately show ?thesis using f(1) \<open>length key \<le> 27\<close> by blast
qed

lemma balance_accepted:
  assumes "i < units a" "admitted e json key v" "write_allowed e i a"
    and "jk_build_balance_write JK_FRAME_JK02_32S key (Finite v) JK_FRAME_MAX = Some f"
  shows "handle_balance_set e i json cid a =
    (let a = arbiter_submit e (balance_request i f) a
     in a\<lparr>a_last_write_us := (a_last_write_us a)[i := e_now e], a_rb := (a_rb a)[i := arm_readback (e_now e) key v cid]\<rparr>)"
  using assms by (auto simp: handle_balance_set_def admitted_def write_allowed_def CFG_BALANCE_MIN_INTERVAL_MS_def)

lemma balance_refused:
  assumes "\<not> (write_allowed e i a \<and> (\<exists>key v. admitted e json key v))"
  shows "\<exists>s d. handle_balance_set e i json cid a = balance_ack i cid s d a"
proof (cases rule: handle_balance_set_cases [of e i json cid a])
  case (2 doc it v rg f)
  from balance_command_named [OF 2(2)] obtain key where "cj_string it = Some key" by blast
  with 2(1-5) have "admitted e json key v" unfolding admitted_def by auto
  moreover have "write_allowed e i a" using 2(6,7) by (auto simp: write_allowed_def CFG_BALANCE_MIN_INTERVAL_MS_def)
  ultimately show ?thesis using assms by blast
qed blast

lemma balance_submit:
  assumes "i < units a" "length f \<le> REQ_PAYLOAD_MAX"
  shows "arbiter_submit e (balance_request i f) a =
    a\<lparr>a_in_q := if e_in_ok e (a_in_q a) (ARB_REQ (balance_request i f)) then a_in_q a @ [ARB_REQ (balance_request i f)] else a_in_q a\<rparr>"
  using assms by (simp add: arbiter_submit_def arb_in_send_def balance_request_def zero_request_def)

lemma balance_request_fields:
  "balance_request i f = \<lparr>rq_bms_id = i, rq_cmd_id = 0, rq_kind = TXN_BALANCE_WRITE, rq_source = SRC_MQTT,
     rq_opcode = 0, rq_idx = 0, rq_with_response = True, rq_response_needed = True, rq_timeout_ms = 3000,
     rq_payload = f, rq_idle_only = False, rq_idle_epoch = 0\<rparr>"
  by (simp add: balance_request_def zero_request_def)



section \<open>Readback\<close>

lemma fl32_milli_error:
  assumes "0 \<le> m" "m < 4000000"
  shows "\<bar>milli_f32 (word_of_int m) - of_int m / 1000\<bar> \<le> 1 / 2 ^ 13"
proof -
  have u: "uint (word_of_int m :: u32) = m" using assms by (simp add: uint_word_of_int_eq take_bit_int_eq_self)
  have "fl32 (of_int m) = (of_int m :: rat)" using flr_of_int [of m 22 24 "- 149"] assms by simp
  then have "milli_f32 (word_of_int m) = fl32 (of_int m / 1000)" by (simp add: milli_f32_def u)
  moreover have "\<bar>of_int m / 1000 :: rat\<bar> < 4096" using assms by simp
  ultimately show ?thesis using fl32_error by simp
qed

lemma readback_compare:
  assumes "0 \<le> m" "m < 4000000" "0 \<le> n" "n < 4000000"
  shows "\<bar>fl64 (milli_f32 (word_of_int m) - fl64 (of_int n / 1000))\<bar> \<le> fl64 (5 / 10000) \<longleftrightarrow> m = n"
proof -
  define g where "g = milli_f32 (word_of_int m)"
  define v where "v = fl64 (of_int n / 1000)"
  define d where "d = (of_int m / 1000 - of_int n / 1000 :: rat)"
  have r: "(0::rat) \<le> of_int m" "(of_int m :: rat) < 4000000" "(0::rat) \<le> of_int n" "(of_int n :: rat) < 4000000"
    using assms by simp_all
  have "\<bar>g - of_int m / 1000\<bar> \<le> 1 / 8000" using fl32_milli_error [OF assms(1,2)] g_def by simp
  moreover have "\<bar>v - of_int n / 1000\<bar> \<le> 1 / 2 ^ 42" using fl64_error [of "of_int n / 1000"] r v_def by simp
  then have "\<bar>v - of_int n / 1000\<bar> \<le> 1 / 100000" by simp
  ultimately have gv: "\<bar>(g - v) - d\<bar> \<le> 14 / 100000" unfolding d_def abs_le_iff by linarith
  moreover from r have "\<bar>d\<bar> \<le> 4000" unfolding d_def by (simp add: abs_le_iff)
  ultimately have "\<bar>g - v\<bar> < 4096" unfolding abs_le_iff abs_less_iff by linarith
  then have "\<bar>fl64 (g - v) - (g - v)\<bar> \<le> 1 / 2 ^ 42" by (rule fl64_error)
  then have "\<bar>fl64 (g - v) - (g - v)\<bar> \<le> 1 / 100000" by simp
  with gv have near: "\<bar>fl64 (g - v) - d\<bar> \<le> 15 / 100000" unfolding abs_le_iff by linarith
  have "\<bar>fl64 (5 / 10000) - 5 / 10000 :: rat\<bar> \<le> 1 / 2 ^ 42" by (rule fl64_error) simp
  then have tol: "\<bar>fl64 (5 / 10000) - 5 / 10000 :: rat\<bar> \<le> 1 / 100000" by simp
  have "\<bar>fl64 (g - v)\<bar> \<le> fl64 (5 / 10000) \<longleftrightarrow> m = n"
  proof (cases "m = n")
    case True
    then have "d = 0" by (simp add: d_def)
    with near tol True show ?thesis unfolding abs_le_iff by auto
  next
    case False
    then have "1 / 1000 \<le> \<bar>d\<bar>"
      by (cases "m < n") (auto simp: d_def divide_simps abs_if simp flip: of_int_diff)
    then have "1 / 1000 \<le> d \<or> d \<le> - (1 / 1000)" unfolding abs_if by (auto split: if_splits)
    with near tol have "\<not> \<bar>fl64 (g - v)\<bar> \<le> fl64 (5 / 10000)" unfolding abs_le_iff by linarith
    with False show ?thesis by simp
  qed
  then show ?thesis by (simp add: g_def v_def)
qed

lemma fl32_rel_error: "1 \<le> x \<Longrightarrow> x - x / 2 ^ 23 \<le> fl32 x"
proof -
  assume x: "1 \<le> x"
  have "\<bar>fl32 x - x\<bar> \<le> \<bar>x\<bar> / 2 ^ 24 + 1 / 2 ^ 149"
    using flr_rel_error [of 24 "- 149" x] by (simp add: power_int_def power_one_over divide_simps)
  then have "x - x / 2 ^ 24 - 1 / 2 ^ 149 \<le> fl32 x" using x by (simp add: abs_le_iff)
  moreover have "(1::rat) / 2 ^ 149 \<le> 1 / 2 ^ 24" by simp
  ultimately show ?thesis using x by simp
qed

lemma milli_f32_large:
  assumes "4000000 \<le> uint w"
  shows "4000 - 48 / 100000 \<le> milli_f32 w"
proof -
  define m where "m = (of_int (uint w) :: rat)"
  have "of_int 4000000 \<le> m" unfolding m_def using assms by (simp only: of_int_le_iff)
  then have m: "4000000 \<le> m" by simp
  have g: "4000000 \<le> fl32 m"
  proof (cases "uint w < 2 ^ 24")
    case True
    then have "fl32 m = m" using flr_of_int [of "uint w" 24 24 "- 149"] by (simp add: m_def)
    with m show ?thesis by simp
  next
    case False
    then have "of_int (2 ^ 24) \<le> m" unfolding m_def by (simp only: of_int_le_iff not_less)
    then have "16777216 \<le> m" by simp
    moreover from m have "m - m / 2 ^ 23 \<le> fl32 m" by (intro fl32_rel_error) simp
    ultimately show ?thesis by simp
  qed
  define y where "y = fl32 m / 1000"
  have y: "4000 \<le> y" using g by (simp add: y_def)
  then have "y - y / 2 ^ 23 \<le> fl32 y" by (intro fl32_rel_error) simp
  with y have "4000 - 4000 / 2 ^ 23 \<le> fl32 y" by simp
  then show ?thesis by (simp add: milli_f32_def m_def y_def)
qed

lemma fl64_large:
  assumes "51 / 100000 \<le> d"
  shows "509 / 1000000 \<le> fl64 d"
proof -
  have "\<bar>fl64 d - d\<bar> \<le> \<bar>d\<bar> / 2 ^ 53 + 1 / 2 ^ 1074"
    using flr_rel_error [of 53 "- 1074" d] by (simp add: power_int_def power_one_over divide_simps)
  moreover have "\<bar>d\<bar> = d" using assms by simp
  ultimately have "d - d / 2 ^ 53 - 1 / 2 ^ 1074 \<le> fl64 d" unfolding abs_le_iff by simp
  moreover have "(1::rat) / 2 ^ 1074 \<le> 1 / 10000000" by simp
  moreover have "d / 2 ^ 53 \<le> d / 10000" using assms by simp
  ultimately show ?thesis using assms by simp
qed

lemma readback_compare_any:
  assumes "0 \<le> n" "n < 4000000"
  shows "\<bar>fl64 (milli_f32 w - fl64 (of_int n / 1000))\<bar> \<le> fl64 (5 / 10000) \<longleftrightarrow> uint w = n"
proof (cases "uint w < 4000000")
  case True
  with readback_compare [OF _ True assms] show ?thesis by simp
next
  case False
  define v where "v = fl64 (of_int n / 1000)"
  have "(of_int n :: rat) \<le> of_int 3999999" using assms(2) by (simp only: of_int_le_iff)
  then have n: "(of_int n :: rat) \<le> 3999999" by simp
  have "\<bar>v - of_int n / 1000\<bar> \<le> 1 / 2 ^ 42" using fl64_error [of "of_int n / 1000"] n assms(1) v_def by simp
  then have "\<bar>v - of_int n / 1000\<bar> \<le> 1 / 10000000" by simp
  with n have "v \<le> 4000 - 999 / 1000000" unfolding abs_le_iff by linarith
  moreover from False have "4000 - 48 / 100000 \<le> milli_f32 w" by (intro milli_f32_large) simp
  ultimately have "51 / 100000 \<le> milli_f32 w - v" by linarith
  then have "509 / 1000000 \<le> fl64 (milli_f32 w - v)" by (rule fl64_large)
  moreover have "\<bar>fl64 (5 / 10000) - 5 / 10000 :: rat\<bar> \<le> 1 / 2 ^ 42" by (rule fl64_error) simp
  then have "\<bar>fl64 (5 / 10000) - 5 / 10000 :: rat\<bar> \<le> 1 / 1000000" by simp
  ultimately have "\<not> \<bar>fl64 (milli_f32 w - v)\<bar> \<le> fl64 (5 / 10000)" unfolding abs_le_iff by linarith
  with False assms(2) show ?thesis by (simp add: v_def)
qed

text \<open>The field of the settings record a readback looks at.\<close>

definition key_offset :: "string \<Rightarrow> nat" where
  "key_offset key = (if key = ''balance_trigger_voltage'' then 26 else if key = ''balance_current'' then 78 else 138)"

text \<open>
  C8. Write and readback agree on whole thousandths. Let a setpoint of \<open>n < 4,000,000\<close> thousandths be written
  with one of the three keys in volts or amps. The frame that is built carries the register value \<open>n\<close>. When
  the unit later sends a settings record, its decoding confirms the armed readback exactly if the record's
  field for that key holds \<open>n\<close>: through a \<^verbatim>\<open>float\<close> decode, a \<^verbatim>\<open>double\<close> target and a \<^verbatim>\<open>double\<close> tolerance, every
  other 32-bit value is told apart, and the written value never is missed. Setpoints between two
  thousandths, which the firmware also accepts, are outside: see \<open>half_step_unconfirmed\<close> below.
\<close>

theorem write_confirmed_by_readback:
  assumes "key \<in> {''balance_trigger_voltage'', ''balance_current'', ''balance_start_voltage''}"
    and "0 \<le> n" and "n < 4000000"
    and "length f = 300" and "jk_frame_record f = JK_REC_SETTINGS"
  shows "\<exists>out se. jk_build_balance_write JK_FRAME_JK02_32S key (Finite (fl64 (of_int n / 1000))) JK_FRAME_MAX = Some out \<and>
    jk_decode_settings JK_FRAME_JK02_32S f = Some se \<and>
    (rb_matches (arm_readback now key (fl64 (of_int n / 1000)) cid) se \<longleftrightarrow> le32 f (key_offset key) = le32 out 6)"
proof -
  obtain out where out: "jk_build_balance_write JK_FRAME_JK02_32S key (Finite (fl64 (of_int n / 1000))) JK_FRAME_MAX = Some out"
      "uint (le32 out 6) = n"
    using milli_write_exact [OF assms(1-3), of JK_FRAME_MAX JK_FRAME_JK02_32S] by (auto simp: JK_FRAME_MAX_def)
  obtain se where se: "jk_decode_settings JK_FRAME_JK02_32S f = Some se" using assms(4,5)
    by (simp add: jk_decode_settings_def JK02_RECORD_LEN_def)
  then have fields: "se_balance_trigger_v se = milli_f32 (le32 f 26)" "se_balance_current_a se = milli_f32 (le32 f 78)"
      "se_balance_start_v se = milli_f32 (le32 f 138)"
    by (auto simp: jk_decode_settings_def split: if_splits)
  from assms(1) consider "key = ''balance_trigger_voltage''" | "key = ''balance_current''" | "key = ''balance_start_voltage''"
    by blast
  then have "rb_value (rb_which_of key) se = milli_f32 (le32 f (key_offset key)) \<and> rb_which_of key \<noteq> 2"
    using fields by cases (simp_all add: rb_value_def rb_which_of_def key_offset_def)
  then have "rb_matches (arm_readback now key (fl64 (of_int n / 1000)) cid) se \<longleftrightarrow> uint (le32 f (key_offset key)) = n"
    using readback_compare_any [OF assms(2,3)] by (simp add: rb_matches_def arm_readback_def)
  also have "uint (le32 f (key_offset key)) = n \<longleftrightarrow> le32 f (key_offset key) = le32 out 6"
    using out(2) by (auto simp: word_uint_eq_iff)
  finally show ?thesis using out(1) se by blast
qed

definition sample_settings :: "byte list" where
  "sample_settings = [0x55, 0xAA, 0xEB, 0x90, 1] @ replicate 73 0 @ [0x58, 2] @ replicate 220 0"

lemma sample_settings_eval:
  "length sample_settings = 300" "jk_frame_record sample_settings = JK_REC_SETTINGS"
  "uint (le32 sample_settings (key_offset ''balance_current'')) = 600"
  by code_simp+

theorem write_confirmed_by_readback_witness:
  "\<exists>out se. jk_build_balance_write JK_FRAME_JK02_32S ''balance_current'' (Finite (fl64 (of_int 600 / 1000))) JK_FRAME_MAX = Some out \<and>
    jk_decode_settings JK_FRAME_JK02_32S sample_settings = Some se \<and>
    (rb_matches (arm_readback 0 ''balance_current'' (fl64 (of_int 600 / 1000)) '''') se \<longleftrightarrow>
      le32 sample_settings (key_offset ''balance_current'') = le32 out 6)"
  by (rule write_confirmed_by_readback) (simp_all add: sample_settings_eval)

text \<open>
  Between two thousandths the readback is wrong in both directions: 0.0125 V is accepted and written as
  13 mV; a record with 13 mV leaves the readback open, one with 12 mV confirms it.
\<close>

definition half_step :: rb where
  "half_step = arm_readback 0 ''balance_trigger_voltage'' (fl64 (125 / 10000)) ''c1''"

lemma half_step_unconfirmed:
  "map_option (\<lambda>out. le32 out 6)
      (jk_build_balance_write JK_FRAME_JK02_32S ''balance_trigger_voltage'' (Finite (fl64 (125 / 10000))) JK_FRAME_MAX) = Some 13"
  "\<not> rb_matches half_step (se\<lparr>se_balance_trigger_v := milli_f32 13\<rparr>)"
  "rb_matches half_step (se\<lparr>se_balance_trigger_v := milli_f32 12\<rparr>)"
proof -
  show "map_option (\<lambda>out. le32 out 6)
      (jk_build_balance_write JK_FRAME_JK02_32S ''balance_trigger_voltage'' (Finite (fl64 (125 / 10000))) JK_FRAME_MAX) = Some 13"
    by code_simp
  have "rb_which half_step = 0" "rb_target half_step = fl64 (125 / 10000)" by (simp_all add: half_step_def arm_readback_def rb_which_of_def)
  then have m: "rb_matches half_step (se\<lparr>se_balance_trigger_v := g\<rparr>) \<longleftrightarrow> \<bar>fl64 (g - fl64 (125 / 10000))\<bar> \<le> fl64 (5 / 10000)" for g
    by (simp only: rb_matches_def rb_value_def Let_def) simp
  show "\<not> rb_matches half_step (se\<lparr>se_balance_trigger_v := milli_f32 13\<rparr>)" unfolding m by code_simp
  show "rb_matches half_step (se\<lparr>se_balance_trigger_v := milli_f32 12\<rparr>)" unfolding m by code_simp
qed

section \<open>What becomes of a readback\<close>

definition overdue :: "env \<Rightarrow> arb \<Rightarrow> nat \<Rightarrow> bool" where
  "overdue e a i \<longleftrightarrow> rb_active (a_rb a ! i) \<and> rb_deadline_us (a_rb a ! i) < e_now e"

definition unverified_ack :: "arb \<Rightarrow> nat \<Rightarrow> ack" where
  "unverified_ack a i = mk_ack i ''balance/set'' (rb_cid (a_rb a ! i)) ''written_unverified'' (Some (rb_key (a_rb a ! i))) None"

lemma submit_acks [simp]:
  "a_acks (arb_in_send e m a) = a_acks a" "a_acks (arbiter_submit e r a) = a_acks a" "a_acks (arbiter_poll e i opc a) = a_acks a"
  "a_rb (arb_in_send e m a) = a_rb a" "a_rb (arbiter_submit e r a) = a_rb a" "a_rb (arbiter_poll e i opc a) = a_rb a"
  by (simp_all add: arb_in_send_def arbiter_submit_def arbiter_poll_def)

definition same_write :: "rb \<Rightarrow> rb \<Rightarrow> bool" where
  "same_write r r' \<longleftrightarrow> rb_which r' = rb_which r \<and> rb_target r' = rb_target r \<and> rb_key r' = rb_key r \<and>
     rb_cid r' = rb_cid r \<and> rb_deadline_us r' = rb_deadline_us r"

lemma rb_tick_unit_acks:
  assumes "i < length (a_rb a)"
  shows "a_acks (rb_tick_unit e i a) = a_acks a @ (if overdue e a i then [unverified_ack a i] else []) \<and>
    (\<forall>j. j \<noteq> i \<longrightarrow> a_rb (rb_tick_unit e i a) ! j = a_rb a ! j) \<and>
    (rb_active (a_rb (rb_tick_unit e i a) ! i) \<longleftrightarrow> rb_active (a_rb a ! i) \<and> \<not> overdue e a i) \<and>
    same_write (a_rb a ! i) (a_rb (rb_tick_unit e i a) ! i) \<and>
    length (a_rb (rb_tick_unit e i a)) = length (a_rb a)"
  using assms by (auto simp: rb_tick_unit_def Let_def overdue_def unverified_ack_def send_ack_def same_write_def)

lemma rb_tick_loop:
  assumes "m \<le> length (a_rb a)"
  shows "a_acks (fold (rb_tick_unit e) [0..<m] a) = a_acks a @ map (unverified_ack a) (filter (overdue e a) [0..<m]) \<and>
    (\<forall>j\<ge>m. a_rb (fold (rb_tick_unit e) [0..<m] a) ! j = a_rb a ! j) \<and>
    (\<forall>j<m. rb_active (a_rb (fold (rb_tick_unit e) [0..<m] a) ! j) \<longleftrightarrow> rb_active (a_rb a ! j) \<and> \<not> overdue e a j) \<and>
    (\<forall>j<m. same_write (a_rb a ! j) (a_rb (fold (rb_tick_unit e) [0..<m] a) ! j)) \<and>
    length (a_rb (fold (rb_tick_unit e) [0..<m] a)) = length (a_rb a)"
  using assms
proof (induction m)
  case (Suc m)
  let ?b = "fold (rb_tick_unit e) [0..<m] a"
  from Suc have IH: "a_acks ?b = a_acks a @ map (unverified_ack a) (filter (overdue e a) [0..<m])"
    "\<forall>j\<ge>m. a_rb ?b ! j = a_rb a ! j" "\<forall>j<m. rb_active (a_rb ?b ! j) \<longleftrightarrow> rb_active (a_rb a ! j) \<and> \<not> overdue e a j"
    "\<forall>j<m. same_write (a_rb a ! j) (a_rb ?b ! j)" "length (a_rb ?b) = length (a_rb a)" by simp_all
  then have same: "overdue e ?b m = overdue e a m" "unverified_ack ?b m = unverified_ack a m"
    by (simp_all add: overdue_def unverified_ack_def)
  from rb_tick_unit_acks [of m ?b e] Suc.prems IH same show ?case
    by (auto simp: less_Suc_eq)
qed simp

lemma frame_acks [simp]:
  "a_acks (dispatch e i a) = a_acks a" "a_rb (dispatch e i a) = a_rb a"
  "a_acks (check_devreq e i a) = a_acks a" "a_rb (check_devreq e i a) = a_rb a"
  by (simp_all add: dispatch_def check_devreq_def Let_def upd_pend_def)

lemma fold_tun_acks [simp]:
  "a_acks (fold (\<lambda>r. tun_event (t r)) rs a) = a_acks a" "a_rb (fold (\<lambda>r. tun_event (t r)) rs a) = a_rb a"
  by (induction rs arbitrary: a) (simp_all add: tun_event_def)

lemma link_guard_acks [simp]: "a_acks (link_guard e i a) = a_acks a" "a_rb (link_guard e i a) = a_rb a"
  by (simp_all add: link_guard_def Let_def upd_pend_def tun_event_def split: prod.split)

definition same_acks :: "arb \<Rightarrow> arb \<Rightarrow> bool" where
  "same_acks a b \<longleftrightarrow> a_acks b = a_acks a \<and> a_rb b = a_rb a \<and> units b = units a"

lemma turn_acks:
  "same_acks a (retry_dispatch e a)" "same_acks a (check_link_guards e a)"
  unfolding retry_dispatch_def check_link_guards_def
  by (rule fold_inv [where I = "same_acks a"]; simp add: same_acks_def)+

text \<open>What an event may do to the readback of a unit: nothing, confirm it, or arm it anew.\<close>

definition confirmed_by :: "arb_event \<Rightarrow> nat \<Rightarrow> arb \<Rightarrow> arb \<Rightarrow> bool" where
  "confirmed_by ev i a b \<longleftrightarrow> ev = Ev_msg (ARB_SETTINGS i) \<and> rb_active (a_rb a ! i) \<and>
     (\<exists>st. state_snapshot i (a_state a) = Some st \<and> st_have_settings st \<and> rb_matches (a_rb a ! i) (st_settings st) \<and>
       a_acks b = a_acks a @ [mk_ack i ''balance/set'' (rb_cid (a_rb a ! i)) ''ok'' (Some (rb_key (a_rb a ! i)))
         (Some (rb_key (a_rb a ! i), rb_value (rb_which (a_rb a ! i)) (st_settings st)))]) \<and>
     a_rb b ! i = (a_rb a ! i)\<lparr>rb_active := False\<rparr>"

definition armed_by :: "env \<Rightarrow> arb_event \<Rightarrow> nat \<Rightarrow> arb \<Rightarrow> arb \<Rightarrow> bool" where
  "armed_by e ev i a b \<longleftrightarrow> (\<exists>json cid key v. ev = Ev_msg (ARB_MQTT i MQTT_BALANCE json cid) \<and>
     admitted e json key v \<and> write_allowed e i a \<and> a_acks b = a_acks a \<and> a_rb b ! i = arm_readback (e_now e) key v cid)"

lemma dispatch_rb [simp]: "a_rb (upd_pend i f a) = a_rb a" "a_acks (upd_pend i f a) = a_acks a"
  "a_rb (tun_event t a) = a_rb a" "a_acks (tun_event t a) = a_acks a"
  by (simp_all add: upd_pend_def tun_event_def)

lemma fold_send_ack_rb [simp]: "a_rb (fold send_ack ks a) = a_rb a"
  by (induction ks arbitrary: a) (simp_all add: send_ack_def)

lemma on_response_rb: "a_rb (on_response e rsp a) = a_rb a"
  by (auto simp: on_response_def Let_def split: option.splits)

lemma balance_event:
  assumes "arb_inv a" "i < units a"
  shows "a_rb (handle_balance_set e j json cid a) ! i = a_rb a ! i \<or>
    armed_by e (Ev_msg (ARB_MQTT j MQTT_BALANCE json cid)) i a (handle_balance_set e j json cid a)"
proof (cases "j = i \<and> write_allowed e i a \<and> (\<exists>key v. admitted e json key v)")
  case True
  then obtain key v where kv: "admitted e json key v" "write_allowed e i a" by blast
  from setpoint_built [OF kv(1)] obtain f
    where "jk_build_balance_write JK_FRAME_JK02_32S key (Finite v) JK_FRAME_MAX = Some f" by blast
  from balance_accepted [OF assms(2) kv this, of cid] assms True kv show ?thesis
    by (auto simp: armed_by_def Let_def arb_inv_lengths)
next
  case False
  show ?thesis
  proof (cases "j = i")
    case True
    with False balance_refused [of e i a json cid] show ?thesis by (auto simp: balance_ack_def send_ack_def)
  next
    case neq: False
    show ?thesis
      by (cases rule: handle_balance_set_cases [of e j json cid a]) (use neq in \<open>auto simp: balance_ack_def send_ack_def Let_def\<close>)
  qed
qed

lemma settings_event:
  assumes "arb_inv a" "i < units a"
  shows "a_rb (rb_on_settings j a) ! i = a_rb a ! i \<or> confirmed_by (Ev_msg (ARB_SETTINGS j)) i a (rb_on_settings j a)"
proof (cases "j = i")
  case True
  with assms show ?thesis
    by (auto simp: rb_on_settings_def rb_finish_def confirmed_by_def send_ack_def Let_def arb_inv_lengths split: option.splits)
next
  case False
  then have "a_rb (rb_on_settings j a) ! i = a_rb a ! i"
    by (auto simp: rb_on_settings_def rb_finish_def send_ack_def Let_def split: option.splits)
  then show ?thesis ..
qed

lemma event_readback:
  assumes "arb_inv a" "i < units a"
  shows "a_rb (handle_event e ev a) ! i = a_rb a ! i \<or> confirmed_by ev i a (handle_event e ev a) \<or>
    armed_by e ev i a (handle_event e ev a)"
proof (cases ev)
  case (Ev_msg m)
  show ?thesis
  proof (cases m)
    case (ARB_MQTT j t json cid)
    then show ?thesis using Ev_msg balance_event [OF assms, of e j json cid]
      by (cases t) (auto simp: send_ack_def Let_def split: prod.splits)
  next
    case (ARB_SETTINGS j)
    with Ev_msg settings_event [OF assms, of j] show ?thesis
      by (simp only: handle_event.simps handle_msg.simps) blast
  qed (use Ev_msg in \<open>auto simp: on_app_conn_def on_app_devreq_def rt_set_app_def Let_def split: option.splits\<close>)
qed (simp_all add: on_response_rb)

text \<open>
  C12. What becomes of an armed readback in a turn of the task. The turn's event leaves it as it is, confirms
  it (its own settings notice, a matching record: one acknowledgement \<^verbatim>\<open>ok\<close>, readback closed), or arms it
  anew for a later command that is admitted three seconds after the first. Then the turn closes
  exactly the readbacks whose deadline has passed: each of them, once and in unit order, is acknowledged
  as written but not verified under its own command id and key, and is then inactive; all others stay
  armed for the same write. So no readback outlives its deadline by more than a turn. A command whose
  readback is armed anew by a later one never is acknowledged.
\<close>

theorem readback_closed_by_deadline:
  assumes "arb_run n rsps a" and "\<And>m. ev = Ev_msg m \<Longrightarrow> m \<in> set (a_in_q a)"
  shows "let b = handle_event e ev a; c = arbiter_step e ev a in
    (\<forall>i<n. a_rb b ! i = a_rb a ! i \<or> confirmed_by ev i a b \<or> armed_by e ev i a b) \<and>
    a_acks c = a_acks b @ map (unverified_ack b) (filter (overdue e b) [0..<n]) \<and>
    (\<forall>i<n. same_write (a_rb b ! i) (a_rb c ! i) \<and> (rb_active (a_rb c ! i) \<longleftrightarrow> rb_active (a_rb b ! i) \<and> \<not> overdue e b i))"
proof -
  define b where "b = handle_event e ev a"
  define c where "c = arbiter_step e ev a"
  from arb_run_inv [OF assms(1)] have inv: "arb_inv a" "units a = n" by auto
  have "ev_ok a ev" using assms(2) queued_ev_ok [OF inv(1)] by (cases ev) auto
  then have "arb_inv b" "units b = n" using handle_event_inv [OF inv(1)] inv(2) by (simp_all add: b_def)
  then have len: "length (a_rb b) = n" by (simp add: arb_inv_lengths)
  let ?g = "check_link_guards e b"
  have g: "a_acks ?g = a_acks b" "a_rb ?g = a_rb b" "units ?g = n"
    using turn_acks(2) [of b e] \<open>units b = n\<close> by (simp_all add: same_acks_def)
  then have same: "overdue e ?g = overdue e b" "unverified_ack ?g = unverified_ack b"
    by (simp_all add: fun_eq_iff overdue_def unverified_ack_def)
  have "a_acks c = a_acks (rb_tick e ?g)" "a_rb c = a_rb (rb_tick e ?g)"
    using turn_acks(1) [of "rb_tick e ?g" e] by (simp_all add: same_acks_def c_def b_def arbiter_step_def)
  with rb_tick_loop [of n ?g e] g same len
  have "a_acks c = a_acks b @ map (unverified_ack b) (filter (overdue e b) [0..<n]) \<and>
      (\<forall>i<n. same_write (a_rb b ! i) (a_rb c ! i) \<and> (rb_active (a_rb c ! i) \<longleftrightarrow> rb_active (a_rb b ! i) \<and> \<not> overdue e b i))"
    by (simp add: rb_tick_def)
  moreover have "\<forall>i<n. a_rb b ! i = a_rb a ! i \<or> confirmed_by ev i a b \<or> armed_by e ev i a b"
    using event_readback [OF inv(1), of _ e ev] inv(2) by (simp only: b_def) blast
  ultimately show ?thesis unfolding Let_def b_def [symmetric] c_def [symmetric] by blast
qed

text \<open>The write of \<open>run_write1\<close> with no settings record by its deadline.\<close>

definition late_env :: env where
  "late_env = (sample_env sample_doc)\<lparr>e_now := 15000006\<rparr>"

theorem readback_closed_by_deadline_witness:
  "a_acks (arbiter_step late_env Ev_timeout run_write1) = a_acks run_write1 @ [unverified_ack run_write1 0] \<and>
    \<not> rb_active (a_rb (arbiter_step late_env Ev_timeout run_write1) ! 0)"
proof -
  have "overdue late_env run_write1 0" by code_simp
  then show ?thesis using readback_closed_by_deadline [OF run_write1_run, of Ev_timeout late_env] by (simp add: Let_def)
qed

section \<open>The link-up guard\<close>

lemma fold_tun_events: "a_tun (fold (\<lambda>r. tun_event (t r)) rs a) = a_tun a @ map t rs"
  by (induction rs arbitrary: a) (simp_all add: tun_event_def)

lemma link_guard_fires:
  assumes "arb_inv a" "i < units a"
    and "p_link_wait_deadline_us (a_pend a ! i) \<noteq> 0" "p_link_wait_deadline_us (a_pend a ! i) < e_now e" "\<not> rt_link_held i a"
  shows "ring_list (a_pend (link_guard e i a) ! i) = [] \<and> p_link_wait_deadline_us (a_pend (link_guard e i a) ! i) = 0 \<and>
    a_tun (link_guard e i a) = a_tun a @
      map (\<lambda>r. Tun_write_result i (rq_idx r) TUN_WR_LINK_DOWN) (filter (\<lambda>r. rq_source r = SRC_APP) (ring_list (a_pend a ! i))) @
      (if fst (state_mark_idle_if_unheld i (a_state a)) then [Tun_link i LINK_REACHABLE_IDLE] else [])"
proof -
  define p where "p = a_pend a ! i"
  have "ring_inv (p\<lparr>p_link_wait_deadline_us := 0\<rparr>)" using arb_inv_unit [OF assms(1,2)] pend_ok_ring p_def by simp
  from flush_ring_list [OF this] obtain p' where fl: "flush_ring (p\<lparr>p_link_wait_deadline_us := 0\<rparr>) = (p', ring_list p)" "ring_list p' = []"
    by (auto simp: ring_list_def)
  from flush_ring_fields [OF fl(1)] have dl: "p_link_wait_deadline_us p' = 0" by simp
  obtain al ss where mi: "state_mark_idle_if_unheld i (a_state a) = (al, ss)" by fastforce
  have "a_pend (link_guard e i a) = a_pend (upd_pend i (\<lambda>_. p') a)"
    "a_tun (link_guard e i a) = a_tun a @
      map (\<lambda>r. Tun_write_result i (rq_idx r) TUN_WR_LINK_DOWN) (filter (\<lambda>r. rq_source r = SRC_APP) (ring_list p)) @
      (if al then [Tun_link i LINK_REACHABLE_IDLE] else [])"
    using assms(3-5) fl mi
    by (simp_all add: link_guard_def Let_def p_def [symmetric] fold_tun_events tun_event_def upd_pend_def)
  with mi fl dl a_pend_upd_pend [OF assms(2), of i "\<lambda>_. p'"] show ?thesis by (simp add: p_def)
qed

text \<open>
  The link-up guard. If a unit's guard is armed and expired while the link is not held, the guard disarms
  itself, empties the unit's pending ring, reports a link-down result for exactly the phone's
  requests among them, oldest first and each with its own characteristic, and reports the unit idle-reachable unless the
  state cache objects; in every other case it does nothing.
\<close>

theorem link_guard_reports:
  assumes "arb_run n rsps a" and "i < n"
  shows "let p = a_pend a ! i; b = link_guard e i a in
    (if p_link_wait_deadline_us p \<noteq> 0 \<and> p_link_wait_deadline_us p < e_now e \<and> \<not> rt_link_held i a
     then ring_list (a_pend b ! i) = [] \<and> p_link_wait_deadline_us (a_pend b ! i) = 0 \<and>
       a_tun b = a_tun a @ map (\<lambda>r. Tun_write_result i (rq_idx r) TUN_WR_LINK_DOWN) (filter (\<lambda>r. rq_source r = SRC_APP) (ring_list p)) @
         (if fst (state_mark_idle_if_unheld i (a_state a)) then [Tun_link i LINK_REACHABLE_IDLE] else [])
     else b = a)"
  using link_guard_fires [of a i e] arb_run_inv [OF assms(1)] assms(2)
  by (auto simp: Let_def link_guard_def [of e i a])

text \<open>A phone connects and writes; the link does not come up within ten seconds.\<close>

definition at_time :: "time_us \<Rightarrow> env" where
  "at_time t = (sample_env sample_doc)\<lparr>e_now := t\<rparr>"

definition phone_write :: bms_request where
  "phone_write = zero_request\<lparr>rq_kind := TXN_RAW_WRITE, rq_source := SRC_APP, rq_with_response := True,
     rq_response_needed := True, rq_timeout_ms := 3000, rq_payload := [1]\<rparr>"

definition run_guard0 :: arb where
  "run_guard0 = do_call (at_time 1) (C_app_write 0 0 True [1])
     (do_call (at_time 1) (C_set_app_connected 0 True) (arbiter_start 1 sample_meas))"

definition run_guard1 :: arb where
  "run_guard1 = arbiter_step (at_time 2) (Ev_msg (ARB_APP_CONN 0 True)) run_guard0"

definition run_guard2 :: arb where
  "run_guard2 = arbiter_step (at_time 3) (Ev_msg (ARB_REQ phone_write)) run_guard1"

lemma run_guard0_q: "a_in_q run_guard0 = [ARB_APP_CONN 0 True, ARB_REQ phone_write]"
  by code_simp

lemma run_guard1_q: "a_in_q run_guard1 = [ARB_APP_CONN 0 True, ARB_REQ phone_write, ARB_REQ (app_connect_request 0)]"
  by code_simp

lemma run_guard1_run: "arb_run 1 [] run_guard1"
proof -
  have "arb_run 1 [] run_guard0" unfolding run_guard0_def by (intro arb_run.client arb_run.start)
  then show ?thesis unfolding run_guard1_def by (rule arb_run.message) (simp add: run_guard0_q)
qed

lemma run_guard2_run: "arb_run 1 [] run_guard2"
  unfolding run_guard2_def by (rule arb_run.message [OF run_guard1_run]) (simp add: run_guard1_q)

lemma run_guard2_armed: "p_link_wait_deadline_us (a_pend run_guard2 ! 0) = 10000002"
  by code_simp

lemma run_guard2_waiting: "ring_list (a_pend run_guard2 ! 0) = [phone_write]"
  by code_simp

lemma run_guard2_down: "rt_link_held 0 run_guard2 = False"
  by code_simp

lemmas run_guard2_eval = run_guard2_armed run_guard2_waiting run_guard2_down

theorem link_guard_reports_witness:
  "prefix (a_tun run_guard2 @ [Tun_write_result 0 (rq_idx phone_write) TUN_WR_LINK_DOWN]) (a_tun (link_guard (at_time 10000003) 0 run_guard2))"
  using link_guard_reports [OF run_guard2_run, of 0 "at_time 10000003"]
  by (simp add: Let_def run_guard2_eval at_time_def phone_write_def)

text \<open>
  The arrival of the link does not disarm the guard. Here the link comes up a second after the phone,
  serves it for a minute and drops: what the phone has written since is refused at the arbiter's next
  turn, before a reconnect is tried, although the phone has been connected all the time.
\<close>

theorem stale_guard_refuses_write:
  "let a = run_guard2\<lparr>a_state := sc_apply (Set_link_state LINK_UP True 1000000) 0 (a_state run_guard2)\<rparr>;
       a = a\<lparr>a_state := sc_apply (Set_link_state LINK_REACHABLE_IDLE False 60000000) 0 (a_state a)\<rparr>
   in arb_run 1 [] a \<and> Tun_write_result 0 (rq_idx phone_write) TUN_WR_LINK_DOWN \<in> set (a_tun (link_guard (at_time 60000001) 0 a))"
proof -
  define a where "a = run_guard2\<lparr>a_state := sc_apply (Set_link_state LINK_REACHABLE_IDLE False 60000000) 0
    (sc_apply (Set_link_state LINK_UP True 1000000) 0 (a_state run_guard2))\<rparr>"
  have run: "arb_run 1 [] a"
    using arb_run.cache [OF arb_run.cache [OF run_guard2_run], of "Set_link_state LINK_REACHABLE_IDLE False 60000000" 0
        "Set_link_state LINK_UP True 1000000" 0] by (simp add: a_def)
  then have inv: "arb_inv a" "0 < units a" using arb_run_inv by auto
  then have "length (a_state run_guard2) > 0" using arb_inv_lengths [OF inv(1)] by (simp add: a_def sc_apply_upd_unit)
  then have "\<not> rt_link_held 0 a"
    by (simp add: a_def rt_link_held_def state_get_runtime_def state_set_link_state_def upd_rt_def upd_unit_def set_link_state_def Let_def sc_apply.simps)
  with link_guard_fires [OF inv, of "at_time 60000001"] run show ?thesis
    by (simp add: a_def run_guard2_eval at_time_def phone_write_def)
qed

end
