(* ===== verification/Decoder.thy ===== *)
theory Decoder
  imports Arbiter_Spec
begin

text \<open>
  The decoder task of node A, \<^verbatim>\<open>node_a/main/decoder.c\<close>: records from the queue are decoded into the state cache and
  announced to MQTT and the arbiter; the first cell record of a session triggers the opener commands with the clock.

  The state joins the arbiter's side (with the state cache), the flag \<^verbatim>\<open>s_stream_armed\<close> per unit and the publications
  in order. The wall clock \<^verbatim>\<open>time(NULL)\<close> is an argument.
\<close>

section \<open>Definitions\<close>

datatype dec_pub = Pub_cells nat | Pub_summary nat | Pub_faults nat | Pub_settings nat

record dec =
  dc_arb :: arb
  dc_armed :: "bool list"
  dc_pub :: "dec_pub list"

definition decoder_session_reset :: "nat \<Rightarrow> dec \<Rightarrow> dec" where
  "decoder_session_reset i d = d\<lparr>dc_armed := upd_unit i (\<lambda>_. False) (dc_armed d)\<rparr>"

text \<open>One command of the trilogy: header, register, the clock behind \<^verbatim>\<open>0x6C\<close>, padding, checksum.\<close>

definition opener_frame :: "byte \<Rightarrow> byte \<Rightarrow> u32 \<Rightarrow> byte list" where
  "opener_frame c0 c1 jk =
     (let f = [0xAA, 0x55, 0x90, 0xEB, c0, c1] @ (if c0 = 0x6C then bytes32 jk else replicate 4 0) @ replicate 9 0
      in f @ [sum8 f])"

definition opener_cmds :: "(byte \<times> byte) list" where
  "opener_cmds = [(0x97, 0x00), (0x96, 0x00), (0x6C, 0x04)]"

definition opener_trilogy :: "int \<Rightarrow> byte list list" where
  "opener_trilogy now = map (\<lambda>(c0, c1). opener_frame c0 c1 (word_of_int (now - 1577797125))) opener_cmds"

definition decoder_send_opener :: "env \<Rightarrow> int \<Rightarrow> nat \<Rightarrow> dec \<Rightarrow> dec" where
  "decoder_send_opener e now i d =
     (if i \<ge> length (dc_armed d) \<or> dc_armed d ! i then d
      else if now \<le> 1700000000 then d
      else let jk = word_of_int (now - 1577797125) in
        d\<lparr>dc_armed := upd_unit i (\<lambda>_. True) (dc_armed d),
          dc_arb := fold (\<lambda>(c0, c1). arbiter_app_write e i 1 False (opener_frame c0 c1 jk)) opener_cmds (dc_arb d)\<rparr>)"

definition dec_publish :: "dec_pub list \<Rightarrow> dec \<Rightarrow> dec" where
  "dec_publish ps d = d\<lparr>dc_pub := dc_pub d @ ps\<rparr>"

definition on_arb :: "(arb \<Rightarrow> arb) \<Rightarrow> dec \<Rightarrow> dec" where
  "on_arb f d = d\<lparr>dc_arb := f (dc_arb d)\<rparr>"

definition set_state :: "(bms_state list \<Rightarrow> bms_state list) \<Rightarrow> arb \<Rightarrow> arb" where
  "set_state f a = a\<lparr>a_state := f (a_state a)\<rparr>"

text \<open>One item of the queue.\<close>

definition decode_item :: "env \<Rightarrow> int \<Rightarrow> notify_item \<Rightarrow> dec \<Rightarrow> dec" where
  "decode_item e now it d =
     (let i = ni_bms_id it in
      case jk_frame_record (ni_data it) of
        JK_REC_CELL_INFO \<Rightarrow>
          (case jk_decode_cell_info JK_FRAME_JK02_32S (ni_data it) of
             None \<Rightarrow> d
           | Some ci \<Rightarrow> dec_publish [Pub_cells i, Pub_summary i, Pub_faults i]
                          (on_arb (set_state (state_set_cells i ci)) (decoder_send_opener e now i d)))
      | JK_REC_SETTINGS \<Rightarrow>
          (case jk_decode_settings JK_FRAME_JK02_32S (ni_data it) of
             None \<Rightarrow> d
           | Some se \<Rightarrow> on_arb (arbiter_notify_settings e i)
                          (dec_publish [Pub_settings i] (on_arb (set_state (state_set_settings i se)) d)))
      | JK_REC_DEVICE_INFO \<Rightarrow>
          (let d1 = on_arb (arbiter_note_devinfo e i) d in
           case state_snapshot i (a_state (dc_arb d1)) of
             Some st \<Rightarrow> if \<not> st_have_cells st then on_arb (arbiter_poll e i JK_CMD_CELL_INFO) d1 else d1
           | None \<Rightarrow> d1)
      | JK_REC_NONE \<Rightarrow> d)"

section \<open>What the operations leave alone\<close>

lemma arb_in_send_simps [simp]:
  "a_state (arb_in_send e m a) = a_state a" "units (arb_in_send e m a) = units a"
  by (simp_all add: arb_in_send_def units_def)

lemma submit_simps [simp]:
  "a_state (arbiter_submit e r a) = a_state a" "units (arbiter_submit e r a) = units a"
  "a_state (arbiter_app_write e i x w p a) = a_state a" "units (arbiter_app_write e i x w p a) = units a"
  "a_state (arbiter_poll e i op a) = a_state a" "units (arbiter_poll e i op a) = units a"
  by (simp_all add: arbiter_submit_def arbiter_app_write_def arbiter_poll_def)

lemma set_state_simps [simp]: "a_in_q (set_state f a) = a_in_q a" "units (set_state f a) = units a" "a_state (set_state f a) = f (a_state a)"
  by (simp_all add: set_state_def units_def)

lemma opener_fold_simps [simp]:
  "a_state (fold (\<lambda>(c0, c1). arbiter_app_write e i x w (g c0 c1)) cs a) = a_state a"
  "units (fold (\<lambda>(c0, c1). arbiter_app_write e i x w (g c0 c1)) cs a) = units a"
  by (induction cs arbitrary: a) auto

section \<open>The opener\<close>

lemma length_opener [simp]: "length (opener_frame c0 c1 jk) = 20"
  by (simp add: opener_frame_def Let_def)

lemma opener_checksum: "sum8 (take 19 (opener_frame c0 c1 jk)) = opener_frame c0 c1 jk ! 19"
  by (simp add: opener_frame_def Let_def nth_append)

text \<open>A message that sets the clock of unit \<open>i\<close>.\<close>

fun sets_clock :: "nat \<Rightarrow> arb_msg \<Rightarrow> bool" where
  "sets_clock i (ARB_REQ r) \<longleftrightarrow> rq_bms_id r = i \<and> rq_kind r = TXN_RAW_WRITE \<and> length (rq_payload r) > 4 \<and> rq_payload r ! 4 = 0x6C"
| "sets_clock i _ \<longleftrightarrow> False"

definition clock_sets :: "nat \<Rightarrow> dec \<Rightarrow> nat" where
  "clock_sets i d = length (filter (sets_clock i) (a_in_q (dc_arb d)))"

datatype dec_op = Item env int notify_item | Opener env int nat | Reset nat

fun dec_step :: "dec_op \<Rightarrow> dec \<Rightarrow> dec" where
  "dec_step (Item e now it) d = decode_item e now it d"
| "dec_step (Opener e now i) d = decoder_send_opener e now i d"
| "dec_step (Reset i) d = decoder_session_reset i d"

fun synced_clock :: "dec_op \<Rightarrow> bool" where
  "synced_clock (Item e now it) \<longleftrightarrow> now > 1700000000"
| "synced_clock (Opener e now i) \<longleftrightarrow> now > 1700000000"
| "synced_clock (Reset i) \<longleftrightarrow> True"

lemma in_send_q: "a_in_q (arb_in_send e m a) = a_in_q a \<or> a_in_q (arb_in_send e m a) = a_in_q a @ [m]"
  by (simp add: arb_in_send_def)

text \<open>The request an app write becomes.\<close>

definition app_request :: "nat \<Rightarrow> nat \<Rightarrow> bool \<Rightarrow> byte list \<Rightarrow> bms_request" where
  "app_request i idx wr p = zero_request\<lparr>rq_bms_id := i, rq_kind := TXN_RAW_WRITE, rq_source := SRC_APP, rq_idx := idx,
     rq_with_response := wr, rq_response_needed := wr, rq_timeout_ms := 3000, rq_payload := p\<rparr>"

lemma app_request_simps [simp]:
  "rq_bms_id (app_request i idx wr p) = i" "rq_payload (app_request i idx wr p) = p" "rq_kind (app_request i idx wr p) = TXN_RAW_WRITE"
  by (simp_all add: app_request_def)

lemma app_write_eq:
  "arbiter_app_write e i idx wr p a =
     (if i \<ge> units a \<or> idx > 1 \<or> p = [] \<or> length p > REQ_PAYLOAD_MAX then a else arb_in_send e (ARB_REQ (app_request i idx wr p)) a)"
  by (simp add: arbiter_app_write_def arbiter_submit_def app_request_def)

lemma app_write_q:
  "a_in_q (arbiter_app_write e i x w p a) = a_in_q a \<or>
   a_in_q (arbiter_app_write e i x w p a) = a_in_q a @ [ARB_REQ (app_request i x w p)]"
  using in_send_q [of e "ARB_REQ (app_request i x w p)" a] by (simp add: app_write_eq)

lemma poll_q: "a_in_q (arbiter_poll e i op a) = a_in_q a \<or> a_in_q (arbiter_poll e i op a) = a_in_q a @ [ARB_REQ (poll_request i op)]"
  using in_send_q [of e "ARB_REQ (poll_request i op)" a] by (simp add: arbiter_poll_def arbiter_submit_def poll_request_def)

lemma opener_reg: "opener_frame c0 c1 jk ! 4 = c0"
  by (simp add: opener_frame_def Let_def)

lemma filter_app_write:
  "length (filter (sets_clock j) (a_in_q (arbiter_app_write e i x w (opener_frame c0 c1 jk) a))) \<le>
   length (filter (sets_clock j) (a_in_q a)) + (if j = i \<and> c0 = 0x6C then 1 else 0)"
  using app_write_q [of e i x w "opener_frame c0 c1 jk" a] by (elim disjE) (simp_all add: opener_reg)

lemma send_opener_clock:
  "clock_sets j (decoder_send_opener e now i d) \<le> clock_sets j d +
     (if j = i \<and> i < length (dc_armed d) \<and> \<not> dc_armed d ! i \<and> now > 1700000000 then 1 else 0)"
proof (cases "i \<ge> length (dc_armed d) \<or> dc_armed d ! i \<or> now \<le> 1700000000")
  case False
  let ?jk = "word_of_int (now - 1577797125) :: u32"
  let ?w = "\<lambda>c0 c1. arbiter_app_write e i 1 False (opener_frame c0 c1 ?jk)"
  have "length (filter (sets_clock j) (a_in_q (?w 0x6C 0x04 (?w 0x96 0 (?w 0x97 0 (dc_arb d)))))) \<le>
      length (filter (sets_clock j) (a_in_q (dc_arb d))) + (if j = i then 1 else 0)"
    using filter_app_write [of j e i 1 False "0x6C" "0x04" ?jk "?w 0x96 0 (?w 0x97 0 (dc_arb d))"]
      filter_app_write [of j e i 1 False "0x96" 0 ?jk "?w 0x97 0 (dc_arb d)"] filter_app_write [of j e i 1 False "0x97" 0 ?jk "dc_arb d"]
    by (simp split: if_splits)
  with False show ?thesis by (simp add: decoder_send_opener_def opener_cmds_def Let_def clock_sets_def)
qed (auto simp: decoder_send_opener_def)


text \<open>What bounds the clock messages: those queued, plus one if the session has not sent its own.\<close>

definition clock_budget :: "nat \<Rightarrow> dec \<Rightarrow> nat" where
  "clock_budget i d = clock_sets i d + (if i < length (dc_armed d) \<and> \<not> dc_armed d ! i then 1 else 0)"

lemma send_opener_budget: "clock_budget j (decoder_send_opener e now i d) \<le> clock_budget j d"
proof -
  have "dc_armed (decoder_send_opener e now i d) =
      (if i < length (dc_armed d) \<and> \<not> dc_armed d ! i \<and> now > 1700000000 then (dc_armed d)[i := True] else dc_armed d)"
    by (auto simp: decoder_send_opener_def Let_def upd_unit_def)
  with send_opener_clock [of j e now i d] show ?thesis by (auto simp: clock_budget_def split: if_splits)
qed

lemma on_arb_clock:
  assumes "a_in_q (f (dc_arb d)) = a_in_q (dc_arb d) \<or> (\<exists>m. a_in_q (f (dc_arb d)) = a_in_q (dc_arb d) @ [m] \<and> \<not> sets_clock j m)"
  shows "clock_budget j (on_arb f d) = clock_budget j d"
  using assms by (auto simp: clock_budget_def clock_sets_def on_arb_def)

lemma publish_clock [simp]: "clock_budget j (dec_publish ps d) = clock_budget j d"
  by (simp add: clock_budget_def clock_sets_def dec_publish_def)

lemma poll_sets_no_clock [simp]: "\<not> sets_clock j (ARB_REQ (poll_request i op))"
  by (simp add: poll_request_def zero_request_def)

lemma decode_budget: "clock_budget j (decode_item e now it d) \<le> clock_budget j d"
proof -
  have s: "clock_budget j (on_arb (set_state f) d') = clock_budget j d'" for f d'
    by (rule on_arb_clock) simp
  have n: "clock_budget j (on_arb (arbiter_notify_settings e i) d') = clock_budget j d'" for i d'
    using in_send_q [of e "ARB_SETTINGS i" "dc_arb d'"] by (intro on_arb_clock) (auto simp: arbiter_notify_settings_def)
  have v: "clock_budget j (on_arb (arbiter_note_devinfo e i) d') = clock_budget j d'" for i d'
    using in_send_q [of e "ARB_DEVINFO i" "dc_arb d'"] by (intro on_arb_clock) (auto simp: arbiter_note_devinfo_def)
  have p: "clock_budget j (on_arb (arbiter_poll e i op) d') = clock_budget j d'" for i op d'
    using poll_q [of e i op "dc_arb d'"] by (intro on_arb_clock) (use poll_sets_no_clock in blast)
  show ?thesis
    using send_opener_budget [of j e now "ni_bms_id it" d]
    by (simp add: decode_item_def Let_def s n v p split: jk_record.split option.split)
qed

text \<open>The trilogy, in order, when the trigger fires and the arbiter's queue takes the three messages.\<close>

lemma trilogy_sent:
  assumes "i < length (dc_armed d)" "\<not> dc_armed d ! i" "i < units (dc_arb d)" "1700000000 < now"
    and room: "\<And>q m. e_in_ok e q m"
  shows "a_in_q (dc_arb (decoder_send_opener e now i d)) = a_in_q (dc_arb d) @
    map (\<lambda>f. ARB_REQ (app_request i 1 False f)) (opener_trilogy now)"
proof -
  have w: "a_in_q (arbiter_app_write e i 1 False (opener_frame c0 c1 jk) a) = a_in_q a @ [ARB_REQ (app_request i 1 False (opener_frame c0 c1 jk))]"
    if "i < units a" for c0 c1 jk a
    using that room length_opener [of c0 c1 jk]
    by (auto simp: app_write_eq arb_in_send_def REQ_PAYLOAD_MAX_def TUNNEL_MAX_WRITE_DATA_def simp del: length_opener)
  show ?thesis
    using assms by (simp add: decoder_send_opener_def Let_def opener_cmds_def opener_trilogy_def w [unfolded One_nat_def])
qed

lemma clock_budget_run:
  assumes "Reset i \<notin> set ops"
  shows "clock_budget i (fold dec_step ops d) \<le> clock_budget i d"
  using assms
proof (induction ops arbitrary: d)
  case (Cons p ops)
  have "clock_budget i (fold dec_step ops (dec_step p d)) \<le> clock_budget i (dec_step p d)" using Cons by simp
  also have "\<dots> \<le> clock_budget i d"
    using Cons.prems decode_budget send_opener_budget
    by (cases p) (auto simp: decoder_session_reset_def clock_budget_def clock_sets_def)
  finally show ?case by simp
qed simp

text \<open>
  C22. A module's clock is set at most once per session: over any sequence of decoded records and opener triggers
  without a session reset of the unit, at most one \<^verbatim>\<open>0x6C\<close> frame of the unit enters the arbiter's queue, and none when
  the session has sent its own already. The trigger that fires queues exactly the three frames, in the order
  97, 96, 6C, all of them command-channel writes without response, each with the module's checksum, and only once
  the wall clock is known.
\<close>

theorem opener_once_per_session:
  assumes "Reset i \<notin> set ops"
  shows "clock_sets i (fold dec_step ops d) \<le> clock_sets i d + (if i < length (dc_armed d) \<and> \<not> dc_armed d ! i then 1 else 0) \<and>
    (i < length (dc_armed d) \<and> \<not> dc_armed d ! i \<and> i < units (dc_arb d) \<and> 1700000000 < now \<and> (\<forall>q m. e_in_ok e q m) \<longrightarrow>
      a_in_q (dc_arb (decoder_send_opener e now i d)) =
        a_in_q (dc_arb d) @ map (\<lambda>f. ARB_REQ (app_request i 1 False f)) (opener_trilogy now)) \<and>
    (now \<le> 1700000000 \<longrightarrow> decoder_send_opener e now i d = d) \<and>
    list_all (\<lambda>f. length f = 20 \<and> sum8 (take 19 f) = f ! 19) (opener_trilogy now)"
proof (intro conjI impI)
  show "clock_sets i (fold dec_step ops d) \<le> clock_sets i d + (if i < length (dc_armed d) \<and> \<not> dc_armed d ! i then 1 else 0)"
    using clock_budget_run [OF assms, of d] by (simp add: clock_budget_def)
  show "list_all (\<lambda>f. length f = 20 \<and> sum8 (take 19 f) = f ! 19) (opener_trilogy now)"
    by (auto simp: opener_trilogy_def opener_checksum list_all_iff)
qed (use trilogy_sent in blast, simp add: decoder_send_opener_def)

definition sample_dec :: dec where
  "sample_dec = \<lparr>dc_arb = arbiter_start 1 sample_meas, dc_armed = [False], dc_pub = []\<rparr>"

text \<open>Two triggers, one trilogy.\<close>

theorem opener_once_per_session_witness:
  "a_in_q (dc_arb (decoder_send_opener (sample_env sample_doc) 1800000000 0 sample_dec)) =
     map (\<lambda>f. ARB_REQ (app_request 0 1 False f)) (opener_trilogy 1800000000) \<and>
   clock_sets 0 (fold dec_step [Opener (sample_env sample_doc) 1800000000 0, Opener (sample_env sample_doc) 1800000001 0] sample_dec) \<le> 1"
proof -
  have *: "Reset 0 \<notin> set [Opener (sample_env sample_doc) 1800000000 0, Opener (sample_env sample_doc) 1800000001 0]" by simp
  have "clock_sets 0 sample_dec = 0" "units (dc_arb sample_dec) = 1" "a_in_q (dc_arb sample_dec) = []"
    by (simp_all add: sample_dec_def clock_sets_def arbiter_start_def units_def)
  with opener_once_per_session [OF *, of sample_dec 1800000000 "sample_env sample_doc"] show ?thesis
    by (simp add: sample_dec_def sample_env_def)
qed

end
