(* ===== verification/Ble_Model.thy ===== *)
theory Ble_Model
  imports Measure
begin

text \<open>
  The BLE task of node A, \<^verbatim>\<open>node_a/main/ble_owner.c\<close>: the pool of central links, the discovery state
  machine of a link, the execution of transactions, the timeout sweep and the notification path. Each function
  that takes \<^verbatim>\<open>s_mtx_link_pool\<close> is one critical section and one definition on the record \<open>bo\<close>, which holds the
  task's static variables, the state cache it updates, and the traffic it causes: the responses it issued
  and those its queue accepted, the items put into the two notification queues, the calls into NimBLE and the
  publications. A \<^verbatim>\<open>link_t *\<close> is an index into the pool. The environment \<open>benv\<close> gives the time of a section,
  the acceptance of the queues, the result code of each call into NimBLE (as a function of the calls made
  before), the fleet table, and the WiFi and storage conditions.
\<close>

section \<open>State\<close>

definition JK_SVC_UUID :: u16 where "JK_SVC_UUID = 0xFFE0"

definition JK_CHR_UUID :: u16 where "JK_CHR_UUID = 0xFFE1"

definition JK_CHR2_UUID :: u16 where "JK_CHR2_UUID = 0xFFE2"

definition CFG_WIFI_QUIESCE_MS :: int where "CFG_WIFI_QUIESCE_MS = 10000"

text \<open>Result codes and property bits of the NimBLE interface that the code tests for.\<close>

definition BLE_HS_EDONE :: int where "BLE_HS_EDONE = 14"

definition BLE_HS_ENOTCONN :: int where "BLE_HS_ENOTCONN = 7"

definition CHR_PROP_WRITE_NO_RSP :: byte where "CHR_PROP_WRITE_NO_RSP = 0x04"

definition CHR_PROP_WRITE :: byte where "CHR_PROP_WRITE = 0x08"

definition CHR_PROP_NOTIFY :: byte where "CHR_PROP_NOTIFY = 0x10"

datatype dsc_phase = DSC_NONE | DSC_FFE1 | DSC_FFE2 | DSC_DONE

record link =
  l_in_use :: bool
  l_bms_id :: nat
  l_conn_handle :: u16
  l_val_handle :: u16
  l_ffe2_handle :: u16
  l_cccd_handle :: u16
  l_ffe2_cccd_handle :: u16
  l_service_end :: u16
  l_ffe1_end :: u16
  l_ffe2_end :: u16
  l_last_chr_value :: u16
  l_descriptor_phase :: dsc_phase
  l_ffe1_props :: byte
  l_ffe2_props :: byte
  l_reasm :: jk_reasm
  l_table :: harvest_entry
  l_table_ready :: bool
  l_discovery_pending :: bool
  l_subscription_pending :: bool
  l_discovery_failed :: bool
  l_service_seen :: bool
  l_discovery_cookie :: u32
  l_terminate_retry_us :: time_us
  l_txn_active :: bool
  l_txn :: bms_request
  l_txn_deadline_us :: time_us
  l_want_record :: "jk_record option"
  l_poll_record_seen :: bool
  l_write_cookie :: u32
  l_write_handle :: u16
  l_timeout_strikes :: byte
  l_renegotiate_at_us :: time_us

text \<open>
  A zeroed slot. The field \<^verbatim>\<open>want_record\<close> is a byte whose zero is no enumerator of \<^verbatim>\<open>jk_record_t\<close>: \<open>None\<close>.
\<close>

definition zero_harvest :: harvest_entry where
  "zero_harvest = \<lparr>h_valid = False, h_ver = JK_FRAME_UNKNOWN, h_name = '''', h_fw_version = '''', h_chars = []\<rparr>"

definition zero_link :: link where
  "zero_link = \<lparr>l_in_use = False, l_bms_id = 0, l_conn_handle = 0, l_val_handle = 0, l_ffe2_handle = 0, l_cccd_handle = 0,
     l_ffe2_cccd_handle = 0, l_service_end = 0, l_ffe1_end = 0, l_ffe2_end = 0, l_last_chr_value = 0,
     l_descriptor_phase = DSC_NONE, l_ffe1_props = 0, l_ffe2_props = 0, l_reasm = jk_reasm_init JK_FRAME_UNKNOWN,
     l_table = zero_harvest, l_table_ready = False, l_discovery_pending = False, l_subscription_pending = False,
     l_discovery_failed = False, l_service_seen = False, l_discovery_cookie = 0, l_terminate_retry_us = 0,
     l_txn_active = False, l_txn = zero_request, l_txn_deadline_us = 0, l_want_record = None,
     l_poll_record_seen = False, l_write_cookie = 0, l_write_handle = 0, l_timeout_strikes = 0, l_renegotiate_at_us = 0\<rparr>"

datatype write_cb = No_cb | Subscribe_cb u32 | Write_cb u32

datatype ble_call =
    Gap_terminate u16
  | Gap_connect nat "byte list"
  | Gap_disc
  | Gap_update_params u16
  | Gattc_exchange_mtu u16
  | Gattc_disc_svc_by_uuid u16 u16 u32
  | Gattc_disc_all_chrs u16 u16 u16 u32
  | Gattc_disc_all_dscs u16 u16 u16 u32
  | Gattc_write_flat u16 u16 "byte list" write_cb
  | Gattc_write_no_rsp_flat u16 u16 "byte list"

record scan_rec =
  sr_type :: byte
  sr_addr :: "byte list"
  sr_rssi :: int
  sr_name :: string

datatype ble_pub =
    Pub_llevent string nat int
  | Pub_raw nat "byte list"
  | Pub_scan "scan_rec list"
  | Pub_ka nat "(nat \<times> int) list"

record bo =
  bo_links :: "link list"
  bo_discovery_cookie :: u32
  bo_write_cookie :: u32
  bo_conn_inflight :: "nat option"
  bo_scan :: "scan_rec list"
  bo_scan_req :: bool
  bo_scan_active :: bool
  bo_ble_enabled :: bool
  bo_conn_events :: u32
  bo_disc_events :: u32
  bo_rawcap_until_us :: time_us
  bo_nonce :: u32
  bo_state :: "bms_state list"
  bo_evt_up :: "bool list"
  bo_nvs :: nvs
  bo_issued :: "bms_response list"
  bo_rsp_q :: "bms_response list"
  bo_notify_q :: "notify_item list"
  bo_decode_q :: "notify_item list"
  bo_calls :: "ble_call list"
  bo_devinfo :: "nat list"
  bo_pub :: "ble_pub list"

record benv =
  be_now :: time_us
  be_rsp_ok :: "bms_response list \<Rightarrow> bms_response \<Rightarrow> bool"
  be_notify_ok :: "notify_item list \<Rightarrow> notify_item \<Rightarrow> bool"
  be_decode_ok :: "notify_item list \<Rightarrow> notify_item \<Rightarrow> bool"
  be_rc :: "ble_call list \<Rightarrow> ble_call \<Rightarrow> int"
  be_fleet :: "cfg_bms_target list"
  be_wifi_down_ms :: int
  be_nvs_ok :: bool
  be_rssi :: "u16 \<Rightarrow> int option"

abbreviation lnk :: "bo \<Rightarrow> nat \<Rightarrow> link" where
  "lnk s k \<equiv> bo_links s ! k"

definition upd_link :: "nat \<Rightarrow> (link \<Rightarrow> link) \<Rightarrow> bo \<Rightarrow> bo" where
  "upd_link k f s = s\<lparr>bo_links := upd_unit k f (bo_links s)\<rparr>"

definition ble :: "benv \<Rightarrow> ble_call \<Rightarrow> bo \<Rightarrow> int \<times> bo" where
  "ble e c s = (be_rc e (bo_calls s) c, s\<lparr>bo_calls := bo_calls s @ [c]\<rparr>)"

definition ble_publish :: "ble_pub \<Rightarrow> bo \<Rightarrow> bo" where
  "ble_publish p s = s\<lparr>bo_pub := bo_pub s @ [p]\<rparr>"

section \<open>The pool\<close>

definition name_for :: "cfg_bms_target list \<Rightarrow> nat \<Rightarrow> string option" where
  "name_for fleet i = (case find (\<lambda>t. t_bms_id t = i) fleet of None \<Rightarrow> None | Some t \<Rightarrow> t_name t)"

definition addr_for :: "cfg_bms_target list \<Rightarrow> nat \<Rightarrow> byte list option" where
  "addr_for fleet i =
     (case find (\<lambda>t. t_bms_id t = i) fleet of
        None \<Rightarrow> None
      | Some t \<Rightarrow> if t_addr t \<noteq> replicate 6 0 then Some (t_addr t) else None)"

definition link_by_conn :: "u16 \<Rightarrow> bo \<Rightarrow> nat option" where
  "link_by_conn ch s = find_index (\<lambda>l. l_in_use l \<and> l_conn_handle l = ch \<and>
     (l_discovery_pending l \<or> l_discovery_failed l \<or> l_table_ready l)) (bo_links s)"

definition link_by_bms :: "nat \<Rightarrow> bo \<Rightarrow> nat option" where
  "link_by_bms i s = find_index (\<lambda>l. l_in_use l \<and> l_bms_id l = i) (bo_links s)"

definition link_alloc :: "nat \<Rightarrow> bo \<Rightarrow> nat option \<times> bo" where
  "link_alloc i s =
     (case find_index (\<lambda>l. \<not> l_in_use l) (bo_links s) of
        None \<Rightarrow> (None, s)
      | Some k \<Rightarrow> (Some k, upd_link k (\<lambda>_. zero_link\<lparr>l_in_use := True, l_bms_id := i,
                              l_reasm := jk_reasm_init JK_FRAME_JK02_32S\<rparr>) s))"

definition respond :: "benv \<Rightarrow> nat \<Rightarrow> u64 \<Rightarrow> resp_status \<Rightarrow> bo \<Rightarrow> bo" where
  "respond e i cid st s =
     (let r = \<lparr>rs_bms_id = i, rs_cmd_id = cid, rs_status = st\<rparr>;
          s = s\<lparr>bo_issued := bo_issued s @ [r]\<rparr>
      in if be_rsp_ok e (bo_rsp_q s) r then s\<lparr>bo_rsp_q := bo_rsp_q s @ [r]\<rparr> else s)"

text \<open>\<^verbatim>\<open>l->txn_active = false; respond(l->bms_id, l->txn.cmd_id, st, ...)\<close>\<close>

definition answer :: "benv \<Rightarrow> nat \<Rightarrow> resp_status \<Rightarrow> bo \<Rightarrow> bo" where
  "answer e k st s =
     respond e (l_bms_id (lnk s k)) (rq_cmd_id (l_txn (lnk s k))) st (upd_link k (\<lambda>l. l\<lparr>l_txn_active := False\<rparr>) s)"

definition own_set_link_state :: "benv \<Rightarrow> nat \<Rightarrow> tunnel_link_state \<Rightarrow> bool \<Rightarrow> bo \<Rightarrow> bo" where
  "own_set_link_state e i st hld s =
     (let s = s\<lparr>bo_state := state_set_link_state i st hld (if hld then be_now e else 0) (bo_state s)\<rparr>
      in if i < length (bo_evt_up s) then s\<lparr>bo_evt_up := (bo_evt_up s)[i := hld]\<rparr> else s)"

section \<open>Notifications\<close>

definition complete_poll_if_ready :: "benv \<Rightarrow> nat \<Rightarrow> bo \<Rightarrow> bo" where
  "complete_poll_if_ready e k s =
     (let l = lnk s k in
      if l_txn_active l \<and> rq_kind (l_txn l) = TXN_POLL \<and> l_poll_record_seen l \<and> l_write_cookie l = 0
      then answer e k RESP_OK s else s)"

definition send_notify :: "benv \<Rightarrow> notify_item \<Rightarrow> bo \<Rightarrow> bo" where
  "send_notify e it s = (if be_notify_ok e (bo_notify_q s) it then s\<lparr>bo_notify_q := bo_notify_q s @ [it]\<rparr> else s)"

definition send_decode :: "benv \<Rightarrow> notify_item \<Rightarrow> bo \<Rightarrow> bo" where
  "send_decode e it s = (if be_decode_ok e (bo_decode_q s) it then s\<lparr>bo_decode_q := bo_decode_q s @ [it]\<rparr> else s)"

definition on_complete_frame :: "benv \<Rightarrow> nat \<Rightarrow> byte list \<Rightarrow> bo \<Rightarrow> bo" where
  "on_complete_frame e k fr s =
     (let s = upd_link k (\<lambda>l. l\<lparr>l_timeout_strikes := 0\<rparr>) s;
          it = \<lparr>ni_bms_id = l_bms_id (lnk s k), ni_idx = 0, ni_raw = False, ni_data = fr\<rparr>;
          s = send_decode e it (send_notify e it s);
          s = s\<lparr>bo_state := state_note_frame (l_bms_id (lnk s k)) (be_now e) (bo_state s)\<rparr>;
          l = lnk s k
      in if l_txn_active l \<and> rq_kind (l_txn l) = TXN_POLL \<and> Some (jk_frame_record fr) = l_want_record l
         then complete_poll_if_ready e k (upd_link k (\<lambda>l. l\<lparr>l_poll_record_seen := True\<rparr>) s)
         else s)"

definition devinfo_header :: "byte list" where
  "devinfo_header = [0x55, 0xAA, 0xEB, 0x90, 0x03]"

fun chunk_has_devinfo_header :: "byte list \<Rightarrow> bool" where
  "chunk_has_devinfo_header [] = False"
| "chunk_has_devinfo_header (b # bs) = (take 5 (b # bs) = devinfo_header \<or> chunk_has_devinfo_header bs)"

text \<open>
  The loop over the chunk completes records with \<^verbatim>\<open>jk_reasm_push\<close> and handles each before it goes on;
  \<^verbatim>\<open>on_complete_frame\<close> does not touch the reassembler.
\<close>

definition on_notify :: "benv \<Rightarrow> nat \<Rightarrow> byte list \<Rightarrow> bo \<Rightarrow> bool \<times> bo" where
  "on_notify e k data s =
     (let i = l_bms_id (lnk s k);
          fwd = (brt_app_connected (state_get_runtime i (bo_state s)) \<and> length data \<le> JK_FRAME_MAX);
          s = (if fwd then send_notify e \<lparr>ni_bms_id = i, ni_idx = 0, ni_raw = True, ni_data = data\<rparr> s else s)
      in case notify_frames (l_reasm (lnk s k)) data of
           (r, fs) \<Rightarrow>
             (fwd \<and> chunk_has_devinfo_header data,
              fold (on_complete_frame e k) fs (upd_link k (\<lambda>l. l\<lparr>l_reasm := r\<rparr>) s)))"

definition ffe1_needs_write_cmd :: "link \<Rightarrow> bool" where
  "ffe1_needs_write_cmd l =
     (l_ffe1_props l AND CHR_PROP_WRITE = 0 \<and> l_ffe1_props l AND CHR_PROP_WRITE_NO_RSP \<noteq> 0)"

definition ffe2_needs_write_req :: "link \<Rightarrow> bool" where
  "ffe2_needs_write_req l =
     (l_ffe2_props l AND CHR_PROP_WRITE_NO_RSP = 0 \<and> l_ffe2_props l AND CHR_PROP_WRITE \<noteq> 0)"

section \<open>Discovery\<close>

text \<open>
  The callbacks receive the connection handle, the error record (its status, or nothing for a NULL
  pointer), the attribute found, and the generation token they were registered with.
\<close>

record gatt_svc =
  sv_uuid :: u16
  sv_start :: u16
  sv_end :: u16

record gatt_chr =
  ch_uuid :: u16
  ch_def :: u16
  ch_val :: u16
  ch_props :: byte

record gatt_dsc =
  ds_uuid :: u16
  ds_handle :: u16

definition discovery_link :: "u16 \<Rightarrow> u32 \<Rightarrow> bo \<Rightarrow> nat option" where
  "discovery_link ch cookie s =
     (if cookie = 0 then None
      else find_index (\<lambda>l. l_in_use l \<and> l_discovery_pending l \<and> l_conn_handle l = ch \<and> l_discovery_cookie l = cookie)
             (bo_links s))"

definition discovery_terminate :: "benv \<Rightarrow> nat \<Rightarrow> bo \<Rightarrow> bo" where
  "discovery_terminate e k s =
     (let s = upd_link k (\<lambda>l. l\<lparr>l_terminate_retry_us := be_now e + 1000000\<rparr>) s
      in snd (ble e (Gap_terminate (l_conn_handle (lnk s k))) s))"

definition mark_failed :: "link \<Rightarrow> link" where
  "mark_failed l = l\<lparr>l_discovery_pending := False, l_subscription_pending := False, l_discovery_failed := True,
     l_table_ready := False, l_table := (l_table l)\<lparr>h_valid := False\<rparr>, l_val_handle := 0, l_ffe2_handle := 0,
     l_cccd_handle := 0, l_ffe2_cccd_handle := 0\<rparr>"

definition discovery_fail :: "benv \<Rightarrow> nat \<Rightarrow> resp_status \<Rightarrow> bo \<Rightarrow> bo" where
  "discovery_fail e k st s =
     (if \<not> l_discovery_pending (lnk s k) then s
      else
        let s = upd_link k mark_failed s;
            s = own_set_link_state e (l_bms_id (lnk s k)) LINK_REACHABLE_IDLE False s;
            s = (if l_txn_active (lnk s k) \<and> rq_kind (l_txn (lnk s k)) = TXN_CONNECT then answer e k st s else s)
        in discovery_terminate e k s)"

definition on_subscribe_done :: "benv \<Rightarrow> u16 \<Rightarrow> int option \<Rightarrow> u16 option \<Rightarrow> u32 \<Rightarrow> bo \<Rightarrow> bo" where
  "on_subscribe_done e ch err attr cookie s =
     (case discovery_link ch cookie s of
        None \<Rightarrow> s
      | Some k \<Rightarrow>
          if \<not> l_subscription_pending (lnk s k) then s
          else if err \<noteq> Some 0 \<or> attr \<noteq> Some (l_cccd_handle (lnk s k)) then discovery_fail e k RESP_GATT_ERR s
          else
            let s = upd_link k (\<lambda>l. l\<lparr>l_subscription_pending := False, l_discovery_pending := False,
                      l_table := (l_table l)\<lparr>h_valid := True\<rparr>, l_table_ready := True\<rparr>) s;
                s = own_set_link_state e (l_bms_id (lnk s k)) LINK_UP True s
            in if l_txn_active (lnk s k) \<and> rq_kind (l_txn (lnk s k)) = TXN_CONNECT then answer e k RESP_OK s else s)"

definition subscription_start :: "benv \<Rightarrow> nat \<Rightarrow> bo \<Rightarrow> bo" where
  "subscription_start e k s =
     (let s = upd_link k (\<lambda>l. l\<lparr>l_descriptor_phase := DSC_DONE, l_subscription_pending := True\<rparr>) s;
          l = lnk s k
      in case ble e (Gattc_write_flat (l_conn_handle l) (l_cccd_handle l) [0x01, 0x00] (Subscribe_cb (l_discovery_cookie l))) s of
           (rc, s) \<Rightarrow>
             if rc \<noteq> 0 then discovery_fail e k RESP_GATT_ERR s
             else if l_ffe2_cccd_handle l \<noteq> 0
             then snd (ble e (Gattc_write_flat (l_conn_handle l) (l_ffe2_cccd_handle l) [0x01, 0x00] No_cb) s)
             else s)"

definition secondary_descriptors_or_subscribe :: "benv \<Rightarrow> nat \<Rightarrow> bo \<Rightarrow> bo" where
  "secondary_descriptors_or_subscribe e k s =
     (let l = lnk s k in
      if l_ffe2_handle l \<noteq> 0 \<and> l_ffe2_props l AND CHR_PROP_NOTIFY \<noteq> 0 \<and> l_ffe2_end l > l_ffe2_handle l then
        let s = upd_link k (\<lambda>l. l\<lparr>l_descriptor_phase := DSC_FFE2\<rparr>) s in
        case ble e (Gattc_disc_all_dscs (l_conn_handle l) (l_ffe2_handle l) (l_ffe2_end l) (l_discovery_cookie l)) s of
          (rc, s) \<Rightarrow>
            if rc = 0 then s
            else if rc = BLE_HS_ENOTCONN then discovery_fail e k RESP_GATT_ERR s
            else subscription_start e k s
      else subscription_start e k s)"

definition set_cccd :: "bool \<Rightarrow> u16 \<Rightarrow> link \<Rightarrow> link" where
  "set_cccd prim h l = (if prim then l\<lparr>l_cccd_handle := h\<rparr> else l\<lparr>l_ffe2_cccd_handle := h\<rparr>)"

text \<open>The part of \<^verbatim>\<open>on_dsc_disc\<close> from the CCCD check on, for a result without error.\<close>

definition dsc_found :: "benv \<Rightarrow> nat \<Rightarrow> bool \<Rightarrow> int \<Rightarrow> gatt_dsc option \<Rightarrow> bo \<Rightarrow> bo" where
  "dsc_found e k prim status dsc s =
     (let l = lnk s k;
          val = (if prim then l_val_handle l else l_ffe2_handle l);
          fin = (if prim then l_ffe1_end l else l_ffe2_end l);
          cccd = (if prim then l_cccd_handle l else l_ffe2_cccd_handle l);
          hit = (case dsc of None \<Rightarrow> None | Some d \<Rightarrow> if ds_uuid d = 0x2902 then Some (ds_handle d) else None)
      in if (case hit of None \<Rightarrow> False | Some h \<Rightarrow> h \<le> val \<or> h > fin \<or> (cccd \<noteq> 0 \<and> cccd \<noteq> h))
         then discovery_fail e k RESP_GATT_ERR s
         else
           let s = (case hit of None \<Rightarrow> s | Some h \<Rightarrow> upd_link k (set_cccd prim h) s);
               cccd = (case hit of None \<Rightarrow> cccd | Some h \<Rightarrow> h)
           in if status = BLE_HS_EDONE then
                (if prim \<and> cccd = 0 then discovery_fail e k RESP_GATT_ERR s
                 else if prim then secondary_descriptors_or_subscribe e k s
                 else subscription_start e k s)
              else s)"

definition on_dsc_disc :: "benv \<Rightarrow> u16 \<Rightarrow> int option \<Rightarrow> u16 \<Rightarrow> gatt_dsc option \<Rightarrow> u32 \<Rightarrow> bo \<Rightarrow> bo" where
  "on_dsc_disc e ch err chr_val_handle dsc cookie s =
     (case discovery_link ch cookie s of
        None \<Rightarrow> s
      | Some k \<Rightarrow>
          let l = lnk s k in
          if l_descriptor_phase l \<noteq> DSC_FFE1 \<and> l_descriptor_phase l \<noteq> DSC_FFE2 then s
          else
            let prim = (l_descriptor_phase l = DSC_FFE1) in
            if chr_val_handle \<noteq> (if prim then l_val_handle l else l_ffe2_handle l) then s
            else (case err of
                None \<Rightarrow> discovery_fail e k RESP_GATT_ERR s
              | Some status \<Rightarrow>
                  if status \<noteq> 0 \<and> status \<noteq> BLE_HS_EDONE then
                    (if prim \<or> status = BLE_HS_ENOTCONN then discovery_fail e k RESP_GATT_ERR s
                     else subscription_start e k (upd_link k (set_cccd prim 0) s))
                  else dsc_found e k prim status dsc s))"

text \<open>
  What one declaration does to the link: it closes the ranges of the characteristics before it and, when it
  is FFE2 or FFE1, opens its own up to the end of the service.
\<close>

definition note_chr :: "gatt_chr \<Rightarrow> link \<Rightarrow> link" where
  "note_chr c l =
     (let l = l\<lparr>l_last_chr_value := ch_val c\<rparr>;
          l = (if l_val_handle l \<noteq> 0 \<and> ch_def c > l_val_handle l \<and> ch_def c \<le> l_ffe1_end l
               then l\<lparr>l_ffe1_end := ch_def c - 1\<rparr> else l);
          l = (if l_ffe2_handle l \<noteq> 0 \<and> ch_def c > l_ffe2_handle l \<and> ch_def c \<le> l_ffe2_end l
               then l\<lparr>l_ffe2_end := ch_def c - 1\<rparr> else l);
          l = (if ch_uuid c = JK_CHR2_UUID
               then l\<lparr>l_ffe2_handle := ch_val c, l_ffe2_props := ch_props c, l_ffe2_end := l_service_end l\<rparr> else l)
      in if ch_uuid c = JK_CHR_UUID
         then l\<lparr>l_val_handle := ch_val c, l_ffe1_props := ch_props c, l_ffe1_end := l_service_end l,
                l_table := (l_table l)\<lparr>h_chars := [\<lparr>cd_svc_uuid = JK_SVC_UUID, cd_chr_uuid = JK_CHR_UUID,
                                                  cd_props = ch_props c\<rparr>]\<rparr>\<rparr>
         else l)"

definition chr_bad :: "gatt_chr \<Rightarrow> link \<Rightarrow> bool" where
  "chr_bad c l = (ch_def c \<le> l_last_chr_value l \<or> ch_val c \<le> ch_def c \<or> ch_val c > l_service_end l)"

definition on_chr_disc :: "benv \<Rightarrow> u16 \<Rightarrow> int option \<Rightarrow> gatt_chr option \<Rightarrow> u32 \<Rightarrow> bo \<Rightarrow> bo" where
  "on_chr_disc e ch err chr cookie s =
     (case discovery_link ch cookie s of
        None \<Rightarrow> s
      | Some k \<Rightarrow>
          if l_descriptor_phase (lnk s k) \<noteq> DSC_NONE then s
          else if err \<noteq> Some 0 \<and> err \<noteq> Some BLE_HS_EDONE then discovery_fail e k RESP_GATT_ERR s
          else if (case chr of None \<Rightarrow> False | Some c \<Rightarrow> chr_bad c (lnk s k)) then discovery_fail e k RESP_GATT_ERR s
          else
            let s = (case chr of None \<Rightarrow> s | Some c \<Rightarrow> upd_link k (note_chr c) s);
                l = lnk s k
            in if err = Some BLE_HS_EDONE then
                 (if l_val_handle l = 0 \<or> l_ffe1_end l \<le> l_val_handle l then discovery_fail e k RESP_GATT_ERR s
                  else
                    let s = upd_link k (\<lambda>l. l\<lparr>l_descriptor_phase := DSC_FFE1\<rparr>) s in
                    case ble e (Gattc_disc_all_dscs ch (l_val_handle l) (l_ffe1_end l) cookie) s of
                      (rc, s) \<Rightarrow> if rc \<noteq> 0 then discovery_fail e k RESP_GATT_ERR s else s)
               else s)"

definition on_svc_disc :: "benv \<Rightarrow> u16 \<Rightarrow> int option \<Rightarrow> gatt_svc option \<Rightarrow> u32 \<Rightarrow> bo \<Rightarrow> bo" where
  "on_svc_disc e ch err svc cookie s =
     (case discovery_link ch cookie s of
        None \<Rightarrow> s
      | Some k \<Rightarrow>
          if err \<noteq> Some 0 \<and> err \<noteq> Some BLE_HS_EDONE then discovery_fail e k RESP_GATT_ERR s
          else
            let jk = (case svc of None \<Rightarrow> None | Some v \<Rightarrow> if sv_uuid v = JK_SVC_UUID then Some v else None) in
            if jk \<noteq> None \<and> l_service_seen (lnk s k) then s
            else if (case jk of None \<Rightarrow> False | Some v \<Rightarrow> sv_start v = 0 \<or> sv_end v \<le> sv_start v)
            then discovery_fail e k RESP_GATT_ERR s
            else
              let s = (case jk of
                         None \<Rightarrow> s
                       | Some v \<Rightarrow>
                           (case ble e (Gattc_disc_all_chrs ch (sv_start v) (sv_end v) cookie)
                                   (upd_link k (\<lambda>l. l\<lparr>l_service_seen := True, l_service_end := sv_end v\<rparr>) s) of
                              (rc, s) \<Rightarrow> if rc \<noteq> 0 then discovery_fail e k RESP_GATT_ERR s else s))
              in if err = Some BLE_HS_EDONE \<and> \<not> l_service_seen (lnk s k) then discovery_fail e k RESP_GATT_ERR s else s)"

definition next_cookie :: "u32 \<Rightarrow> u32" where
  "next_cookie c = (if c + 1 = 0 then 1 else c + 1)"

definition discovery_start :: "benv \<Rightarrow> nat \<Rightarrow> bo \<Rightarrow> bo" where
  "discovery_start e k s =
     (let cookie = next_cookie (bo_discovery_cookie s);
          s = upd_link k (\<lambda>l. l\<lparr>l_discovery_pending := True, l_subscription_pending := False, l_discovery_failed := False,
                l_descriptor_phase := DSC_NONE, l_last_chr_value := 0, l_cccd_handle := 0, l_ffe2_cccd_handle := 0,
                l_service_seen := False, l_table_ready := False, l_discovery_cookie := cookie\<rparr>)
                (s\<lparr>bo_discovery_cookie := cookie\<rparr>);
          ch = l_conn_handle (lnk s k);
          s = snd (ble e (Gattc_exchange_mtu ch) s)
      in case ble e (Gattc_disc_svc_by_uuid ch JK_SVC_UUID cookie) s of
           (rc, s) \<Rightarrow> if rc \<noteq> 0 then discovery_fail e k RESP_GATT_ERR s else s)"

section \<open>Connection events\<close>

definition gap_connect :: "benv \<Rightarrow> nat \<Rightarrow> int \<Rightarrow> u16 \<Rightarrow> bo \<Rightarrow> bo" where
  "gap_connect e k status ch s =
     (let expected = (bo_conn_inflight s = Some k \<and> l_in_use (lnk s k) \<and> l_conn_handle (lnk s k) = 0);
          s = s\<lparr>bo_conn_inflight := None\<rparr>
      in if status = 0 then
           (if \<not> expected then snd (ble e (Gap_terminate ch) s)
            else
              let i = l_bms_id (lnk s k);
                  s = discovery_start e k (upd_link k (\<lambda>l. l\<lparr>l_conn_handle := ch\<rparr>) (s\<lparr>bo_conn_events := bo_conn_events s + 1\<rparr>))
              in if i \<noteq> 0xFF then ble_publish (Pub_llevent ''connect'' i 0) s else s)
         else if expected then
           let s = own_set_link_state e (l_bms_id (lnk s k)) LINK_UNREACHABLE False s;
               s = (if l_txn_active (lnk s k) then answer e k RESP_LINK_DOWN s else s)
           in upd_link k (\<lambda>l. l\<lparr>l_in_use := False\<rparr>) s
         else s)"

definition gap_disconnect :: "benv \<Rightarrow> u16 \<Rightarrow> int \<Rightarrow> bo \<Rightarrow> bo" where
  "gap_disconnect e ch reason s =
     (let s = s\<lparr>bo_disc_events := bo_disc_events s + 1\<rparr> in
      case link_by_conn ch s of
        None \<Rightarrow> ble_publish (Pub_llevent ''disconnect'' 0xFF reason) s
      | Some k \<Rightarrow>
          let i = l_bms_id (lnk s k);
              s = own_set_link_state e i LINK_REACHABLE_IDLE False s;
              s = (if l_txn_active (lnk s k) then answer e k RESP_LINK_DOWN s else s);
              s = upd_link k (\<lambda>l. l\<lparr>l_in_use := False, l_discovery_pending := False, l_subscription_pending := False\<rparr>) s
          in ble_publish (Pub_llevent ''disconnect'' i reason) s)"

text \<open>\<open>flat\<close> is the buffer's content, or nothing when \<^verbatim>\<open>ble_hs_mbuf_to_flat\<close> fails.\<close>

definition gap_notify_rx :: "benv \<Rightarrow> u16 \<Rightarrow> byte list option \<Rightarrow> bo \<Rightarrow> bo" where
  "gap_notify_rx e ch flat s =
     (case flat of
        None \<Rightarrow> s
      | Some om \<Rightarrow>
          let tmp = take 256 om in
          case link_by_conn ch s of
            None \<Rightarrow> s
          | Some k \<Rightarrow>
              let i = l_bms_id (lnk s k); cap = (be_now e < bo_rawcap_until_us s) in
              case on_notify e k tmp s of
                (devinfo, s) \<Rightarrow>
                  let s = (if devinfo \<and> i \<noteq> 0xFF then s\<lparr>bo_devinfo := bo_devinfo s @ [i]\<rparr> else s)
                  in if cap \<and> i \<noteq> 0xFF then ble_publish (Pub_raw i tmp) s else s)"

definition on_gatt_write_done :: "benv \<Rightarrow> u16 \<Rightarrow> int option \<Rightarrow> u16 option \<Rightarrow> u32 \<Rightarrow> bo \<Rightarrow> bo" where
  "on_gatt_write_done e ch err attr cookie s =
     (case link_by_conn ch s of
        None \<Rightarrow> s
      | Some k \<Rightarrow>
          if cookie \<noteq> 0 \<and> cookie = l_write_cookie (lnk s k) then
            let ok = (err = Some 0 \<and> attr = Some (l_write_handle (lnk s k)));
                s = upd_link k (\<lambda>l. l\<lparr>l_write_cookie := 0\<rparr>) s
            in if \<not> l_txn_active (lnk s k) then s
               else if \<not> ok \<or> rq_kind (l_txn (lnk s k)) \<noteq> TXN_POLL
               then answer e k (if ok then RESP_OK else RESP_GATT_ERR) s
               else complete_poll_if_ready e k s
          else s)"

section \<open>Transactions\<close>

definition start_connect :: "benv \<Rightarrow> nat \<Rightarrow> bo \<Rightarrow> bo" where
  "start_connect e k s =
     (let i = l_bms_id (lnk s k); free = upd_link k (\<lambda>l. l\<lparr>l_in_use := False\<rparr>) in
      if name_for (be_fleet e) i = None \<or> addr_for (be_fleet e) i = None \<or> \<not> bo_ble_enabled s \<or>
         be_wifi_down_ms e > CFG_WIFI_QUIESCE_MS
      then free (answer e k RESP_LINK_DOWN s)
      else if bo_conn_inflight s \<noteq> None \<or> bo_scan_active s then free (answer e k RESP_CONNECT_WAIT s)
      else
        case ble e (Gap_connect k (the (addr_for (be_fleet e) i))) (s\<lparr>bo_conn_inflight := Some k\<rparr>) of
          (rc, s) \<Rightarrow> if rc \<noteq> 0 then free (answer e k RESP_LINK_DOWN (s\<lparr>bo_conn_inflight := None\<rparr>)) else s)"

definition submit_write :: "benv \<Rightarrow> nat \<Rightarrow> bms_request \<Rightarrow> u16 \<Rightarrow> bool \<Rightarrow> byte list \<Rightarrow> jk_record \<Rightarrow> bo \<Rightarrow> bo" where
  "submit_write e k req handle write_request data expected s =
     (if write_request \<and> bo_write_cookie s = - 1 then respond e (rq_bms_id req) (rq_cmd_id req) RESP_REJECTED s
      else
        let cookie = (if write_request then bo_write_cookie s + 1 else 0);
            active = (write_request \<or> rq_kind req = TXN_POLL);
            s = (if write_request then s\<lparr>bo_write_cookie := cookie\<rparr> else s);
            s = upd_link k (\<lambda>l. l\<lparr>l_txn := req, l_txn_active := active, l_txn_deadline_us := be_now e + rq_timeout_ms req * 1000,
                  l_want_record := Some expected, l_poll_record_seen := False, l_write_handle := handle, l_write_cookie := cookie\<rparr>) s;
            ch = l_conn_handle (lnk s k)
        in case ble e (if write_request then Gattc_write_flat ch handle data (Write_cb cookie)
                       else Gattc_write_no_rsp_flat ch handle data) s of
             (rc, s) \<Rightarrow>
               if rc \<noteq> 0 then
                 respond e (rq_bms_id req) (rq_cmd_id req) RESP_GATT_ERR
                   (upd_link k (\<lambda>l. l\<lparr>l_txn_active := False, l_write_cookie := 0\<rparr>) s)
               else if \<not> active then respond e (rq_bms_id req) (rq_cmd_id req) RESP_OK s
               else s)"

definition reply :: "benv \<Rightarrow> bms_request \<Rightarrow> resp_status \<Rightarrow> bo \<Rightarrow> bo" where
  "reply e req st = respond e (rq_bms_id req) (rq_cmd_id req) st"

text \<open>The fence of an idle release, and the gate of a busy link.\<close>

definition idle_revoked :: "bms_request \<Rightarrow> bo \<Rightarrow> bool" where
  "idle_revoked req s =
     (let rt = state_get_runtime (rq_bms_id req) (bo_state s)
      in rq_idle_only req \<and>
         (rq_kind req \<noteq> TXN_DISCONNECT \<or> rq_source req \<noteq> SRC_INTERNAL \<or> \<not> brt_link_held rt \<or> brt_app_connected rt \<or>
          brt_idle_epoch rt \<noteq> rq_idle_epoch req))"

definition exec_connect :: "benv \<Rightarrow> bms_request \<Rightarrow> nat option \<Rightarrow> bo \<Rightarrow> bo" where
  "exec_connect e req lo s =
     (case lo of
        Some k \<Rightarrow>
          let l = lnk s k in
          if l_discovery_pending l \<or> l_discovery_failed l then reply e req RESP_LINK_DOWN s
          else if l_table_ready l then reply e req RESP_OK s
          else if bo_conn_inflight s = Some k then reply e req RESP_LINK_DOWN s
          else start_connect e k (upd_link k (\<lambda>l. l\<lparr>l_txn_active := True, l_txn := req,
                 l_txn_deadline_us := be_now e + rq_timeout_ms req * 1000\<rparr>) s)
      | None \<Rightarrow>
          (case link_alloc (rq_bms_id req) s of
             (None, s) \<Rightarrow> reply e req RESP_LINK_DOWN s
           | (Some k, s) \<Rightarrow>
               start_connect e k (upd_link k (\<lambda>l. l\<lparr>l_txn_active := True, l_txn := req,
                 l_txn_deadline_us := be_now e + rq_timeout_ms req * 1000\<rparr>) s)))"

definition poll_expects :: "byte \<Rightarrow> jk_record" where
  "poll_expects opc =
     (if opc = JK_CMD_DEVICE_INFO then JK_REC_DEVICE_INFO else if opc = JK_CMD_CELL_INFO then JK_REC_CELL_INFO else JK_REC_NONE)"

definition exec_ready :: "benv \<Rightarrow> bms_request \<Rightarrow> nat \<Rightarrow> bo \<Rightarrow> bo" where
  "exec_ready e req k s =
     (let l = lnk s k in
      case rq_kind req of
        TXN_DISCONNECT \<Rightarrow> reply e req RESP_OK (snd (ble e (Gap_terminate (l_conn_handle l)) s))
      | TXN_POLL \<Rightarrow>
          if poll_expects (rq_opcode req) = JK_REC_NONE then reply e req RESP_REJECTED s
          else (case jk_build_read_cmd (bo_nonce s) (rq_opcode req) JK_CMD_FRAME_LEN of
                  (nonce, cmd) \<Rightarrow>
                    submit_write e k req (l_val_handle l) (\<not> ffe1_needs_write_cmd l) (the cmd) (poll_expects (rq_opcode req))
                      (s\<lparr>bo_nonce := nonce\<rparr>))
      | TXN_RAW_WRITE \<Rightarrow>
          let ffe2 = (rq_idx req = 1 \<and> l_ffe2_handle l \<noteq> 0)
          in submit_write e k req (if ffe2 then l_ffe2_handle l else l_val_handle l)
               (if ffe2 then ffe2_needs_write_req l else \<not> ffe1_needs_write_cmd l) (rq_payload req) JK_REC_NONE s
      | TXN_BALANCE_WRITE \<Rightarrow>
          if l_val_handle l = 0 then reply e req RESP_GATT_ERR s
          else submit_write e k req (l_val_handle l) (\<not> ffe1_needs_write_cmd l) (rq_payload req) JK_REC_NONE s
      | TXN_CONNECT \<Rightarrow> s)"

definition exec_request :: "benv \<Rightarrow> bms_request \<Rightarrow> bo \<Rightarrow> bo" where
  "exec_request e req s =
     (let lo = link_by_bms (rq_bms_id req) s in
      if idle_revoked req s then reply e req RESP_REJECTED s
      else if (case lo of None \<Rightarrow> False | Some k \<Rightarrow> l_table_ready (lnk s k) \<and>
                (l_txn_active (lnk s k) \<or> (l_write_cookie (lnk s k) \<noteq> 0 \<and> rq_kind req \<noteq> TXN_DISCONNECT)))
      then reply e req RESP_REJECTED s
      else if rq_kind req = TXN_CONNECT then exec_connect e req lo s
      else (case lo of
              None \<Rightarrow> reply e req RESP_LINK_DOWN s
            | Some k \<Rightarrow>
                if \<not> l_table_ready (lnk s k) \<or> l_val_handle (lnk s k) = 0 then reply e req RESP_LINK_DOWN s
                else exec_ready e req k s))"

text \<open>The body of the loop of \<^verbatim>\<open>sweep_timeouts\<close>.\<close>

definition sweep_link :: "benv \<Rightarrow> nat \<Rightarrow> bo \<Rightarrow> bo" where
  "sweep_link e k s =
     (let l = lnk s k in
      if l_in_use l \<and> l_discovery_failed l \<and> be_now e \<ge> l_terminate_retry_us l then discovery_terminate e k s
      else if l_in_use l \<and> l_txn_active l \<and> be_now e > l_txn_deadline_us l then
        (if l_discovery_pending l \<and> rq_kind (l_txn l) = TXN_CONNECT then discovery_fail e k RESP_TIMEOUT s
         else upd_link k (\<lambda>l. l\<lparr>l_timeout_strikes := l_timeout_strikes l + 1\<rparr>) (answer e k RESP_TIMEOUT s))
      else s)"

definition sweep_timeouts :: "benv \<Rightarrow> bo \<Rightarrow> bo" where
  "sweep_timeouts e s = fold (sweep_link e) [0..<CFG_LINK_POOL_SIZE] s"

section \<open>Diagnostics and the master switch\<close>

definition SCAN_DUMP_MAX :: nat where "SCAN_DUMP_MAX = 24"

definition ble_owner_scan_dump :: "bo \<Rightarrow> bo" where
  "ble_owner_scan_dump s = s\<lparr>bo_scan_req := True\<rparr>"

definition ble_owner_set_ble :: "benv \<Rightarrow> bool \<Rightarrow> bo \<Rightarrow> bo" where
  "ble_owner_set_ble e on s =
     (let s = s\<lparr>bo_ble_enabled := on, bo_nvs := nvs_put_ble_enabled (be_nvs_ok e) on (bo_nvs s)\<rparr>
      in if on then s
         else fold (\<lambda>k s. if l_in_use (lnk s k) \<and> l_conn_handle (lnk s k) \<noteq> 0
                          then snd (ble e (Gap_terminate (l_conn_handle (lnk s k))) s) else s)
                [0..<CFG_LINK_POOL_SIZE] s)"

definition ble_owner_keepalive_read :: "benv \<Rightarrow> bo \<Rightarrow> bo" where
  "ble_owner_keepalive_read e s =
     (let live = filter (\<lambda>l. l_in_use l \<and> l_conn_handle l \<noteq> 0 \<and> l_val_handle l \<noteq> 0) (bo_links s)
      in ble_publish (Pub_ka (length live)
           (List.map_filter (\<lambda>l. map_option (Pair (l_bms_id l)) (be_rssi e (l_conn_handle l))) live)) s)"

definition ble_owner_rawcap :: "benv \<Rightarrow> int \<Rightarrow> bo \<Rightarrow> bo" where
  "ble_owner_rawcap e seconds s =
     (let seconds = (if seconds < 1 then 20 else seconds);
          seconds = (if seconds > 120 then 120 else seconds)
      in s\<lparr>bo_rawcap_until_us := be_now e + seconds * 1000000\<rparr>)"

definition ble_owner_copy_table :: "nat \<Rightarrow> bo \<Rightarrow> harvest_entry option" where
  "ble_owner_copy_table i s =
     (case link_by_bms i s of
        None \<Rightarrow> None
      | Some k \<Rightarrow> if l_table_ready (lnk s k) then Some (l_table (lnk s k)) else None)"

text \<open>
  An advertisement of the dump scan. The name is what the NimBLE parser found, nothing when it failed;
  a C string ends at its first zero character.
\<close>

definition c_str :: "nat \<Rightarrow> string \<Rightarrow> string" where
  "c_str n cs = takeWhile (\<lambda>c. c \<noteq> CHR 0x00) (take n cs)"

definition scan_dump_disc :: "byte \<Rightarrow> byte list \<Rightarrow> int \<Rightarrow> string option \<Rightarrow> bo \<Rightarrow> bo" where
  "scan_dump_disc typ addr rssi name s =
     (let nm = (case name of None \<Rightarrow> '''' | Some n \<Rightarrow> c_str 31 n) in
      case find_index (\<lambda>r. sr_type r = typ \<and> sr_addr r = addr) (bo_scan s) of
        Some j \<Rightarrow>
          s\<lparr>bo_scan := upd_unit j (\<lambda>r.
              let r = (if nm \<noteq> '''' \<and> sr_name r = '''' then r\<lparr>sr_name := nm\<rparr> else r)
              in if rssi > sr_rssi r then r\<lparr>sr_rssi := rssi\<rparr> else r) (bo_scan s)\<rparr>
      | None \<Rightarrow>
          if length (bo_scan s) < SCAN_DUMP_MAX
          then s\<lparr>bo_scan := bo_scan s @ [\<lparr>sr_type = typ, sr_addr = addr, sr_rssi = rssi, sr_name = nm\<rparr>]\<rparr>
          else s)"

definition scan_dump_complete :: "bo \<Rightarrow> bo" where
  "scan_dump_complete s = (ble_publish (Pub_scan (bo_scan s)) s)\<lparr>bo_scan_active := False\<rparr>"

definition do_scan_dump :: "benv \<Rightarrow> bo \<Rightarrow> bo" where
  "do_scan_dump e s =
     (if bo_conn_inflight s \<noteq> None then s
      else
        case ble e Gap_disc (s\<lparr>bo_scan := [], bo_scan_active := True\<rparr>) of
          (rc, s) \<Rightarrow> if rc \<noteq> 0 then s\<lparr>bo_scan_active := False\<rparr> else s)"

section \<open>The task\<close>

definition renegotiate_link :: "benv \<Rightarrow> nat \<Rightarrow> bo \<Rightarrow> bo" where
  "renegotiate_link e k s =
     (let l = lnk s k in
      if l_in_use l \<and> l_conn_handle l \<noteq> 0 \<and> l_renegotiate_at_us l \<noteq> 0 \<and> be_now e > l_renegotiate_at_us l
      then snd (ble e (Gap_update_params (l_conn_handle l)) (upd_link k (\<lambda>l. l\<lparr>l_renegotiate_at_us := 0\<rparr>) s))
      else s)"

definition renegotiate :: "benv \<Rightarrow> bo \<Rightarrow> bo" where
  "renegotiate e s = fold (renegotiate_link e) [0..<CFG_LINK_POOL_SIZE] s"

definition serve_scan_req :: "benv \<Rightarrow> bo \<Rightarrow> bo" where
  "serve_scan_req e s =
     (if bo_scan_req s \<and> \<not> bo_scan_active s then do_scan_dump e (s\<lparr>bo_scan_req := False\<rparr>) else s)"

text \<open>
  One turn of \<^verbatim>\<open>ble_owner_task\<close>; the request is what the queue yields within its timeout. The GATT walk, which
  has a state of its own, is added in \<open>Ble_Diag\<close>.
\<close>

definition ble_owner_turn :: "benv \<Rightarrow> bms_request option \<Rightarrow> bo \<Rightarrow> bo" where
  "ble_owner_turn e ro s =
     (let s = renegotiate e (serve_scan_req e s);
          s = (case ro of None \<Rightarrow> s | Some req \<Rightarrow> exec_request e req s)
      in sweep_timeouts e s)"

definition ble_owner_start :: "nat \<Rightarrow> nvs \<Rightarrow> bo" where
  "ble_owner_start n nv = \<lparr>bo_links = replicate CFG_LINK_POOL_SIZE zero_link, bo_discovery_cookie = 0, bo_write_cookie = 0,
     bo_conn_inflight = None, bo_scan = [], bo_scan_req = False, bo_scan_active = False, bo_ble_enabled = False,
     bo_conn_events = 0, bo_disc_events = 0, bo_rawcap_until_us = 0, bo_nonce = xorshift_seed,
     bo_state = state_cache_init n, bo_evt_up = replicate n False, bo_nvs = nv, bo_issued = [], bo_rsp_q = [],
     bo_notify_q = [], bo_decode_q = [], bo_calls = [], bo_devinfo = [], bo_pub = []\<rparr>"

end
