(* ===== verification/Tunnel_Srv.thy ===== *)
theory Tunnel_Srv
  imports Decoder Ble_Model
begin

text \<open>
  The tunnel task of node A, \<^verbatim>\<open>node_a/main/tunnel_srv.c\<close>: the bounded queue of outgoing frames, the announcement of the
  blueprint, the names and the link states, the dispatch of the messages from node B, and the socket loop.

  The state joins the decoder's side with the durable state, the two queues the task drains and the app writes published
  for diagnosis. A pass of the socket loop is described as in the tunnel client of node B. It is proved that whatever
  the task sends is accepted by node B's validator.
\<close>

section \<open>Definitions\<close>

record na =
  na_dec :: dec
  na_nvs :: nvs
  na_out :: "byte list list"
  na_notify :: "notify_item list"
  na_up :: bool
  na_appwrite :: "(nat \<times> byte list) list"

text \<open>Per operation: the arbiter's environment, the results of \<^verbatim>\<open>nvs_open\<close>, and the radio switch.\<close>

record senv =
  se_arb :: env
  se_open :: "nat \<Rightarrow> bool"
  se_ble_on :: bool

definition na_arb :: "na \<Rightarrow> arb" where
  "na_arb s = dc_arb (na_dec s)"

definition na_units :: "na \<Rightarrow> nat" where
  "na_units s = units (na_arb s)"

definition on_na_arb :: "(arb \<Rightarrow> arb) \<Rightarrow> na \<Rightarrow> na" where
  "on_na_arb f s = s\<lparr>na_dec := on_arb f (na_dec s)\<rparr>"

definition SRV_OUT_DEPTH :: nat where "SRV_OUT_DEPTH = 24"

definition srv_enqueue :: "byte \<Rightarrow> byte \<Rightarrow> byte list \<Rightarrow> na \<Rightarrow> na" where
  "srv_enqueue type bid pl s =
     (if length pl > TUNNEL_MAX_PAYLOAD then s
      else if length (na_out s) < SRV_OUT_DEPTH then s\<lparr>na_out := na_out s @ [frame type bid pl]\<rparr>
      else s)"

definition tunnel_send_link :: "nat \<Rightarrow> tunnel_link_state \<Rightarrow> na \<Rightarrow> na" where
  "tunnel_send_link i st = srv_enqueue TUN_LINK (of_nat i) [link_byte st]"

definition tunnel_send_write_result :: "nat \<Rightarrow> nat \<Rightarrow> tunnel_write_status \<Rightarrow> na \<Rightarrow> na" where
  "tunnel_send_write_result i idx st = srv_enqueue TUN_WRITE_RESULT (of_nat i) [of_nat idx, status_byte st]"

definition tunnel_send_read_cache :: "nat \<Rightarrow> nat \<Rightarrow> byte list \<Rightarrow> na \<Rightarrow> na" where
  "tunnel_send_read_cache i idx d = srv_enqueue TUN_READ_CACHE (of_nat i) (of_nat idx # take (TUNNEL_MAX_PAYLOAD - 1) d)"

text \<open>The calls the arbiter makes.\<close>

fun srv_tun_call :: "tun_call \<Rightarrow> na \<Rightarrow> na" where
  "srv_tun_call (Tun_link i st) s = tunnel_send_link i st s"
| "srv_tun_call (Tun_write_result i idx st) s = tunnel_send_write_result i idx st s"

text \<open>A character string as the bytes of the C array.\<close>

definition name_bytes :: "string \<Rightarrow> byte list" where
  "name_bytes = map (\<lambda>c. of_nat (of_char c))"

definition srv_parked :: "senv \<Rightarrow> nat \<Rightarrow> bool" where
  "srv_parked e i \<longleftrightarrow> name_for (e_fleet (se_arb e)) i = None"

text \<open>The link state told to node B: a parked unit, or any with the radio off, is unreachable.\<close>

definition link_eff :: "senv \<Rightarrow> nat \<Rightarrow> na \<Rightarrow> tunnel_link_state" where
  "link_eff e i s =
     (if srv_parked e i \<or> \<not> se_ble_on e then LINK_UNREACHABLE else brt_link (state_get_runtime i (a_state (na_arb s))))"

definition refresh_ident :: "senv \<Rightarrow> nat \<Rightarrow> na \<Rightarrow> na" where
  "refresh_ident e i s =
     (case nvs_get_harvest (se_open e i) i (na_nvs s) of
        Some h \<Rightarrow> if \<not> srv_parked e i \<and> h_name h \<noteq> '''' then srv_enqueue TUN_IDENT (of_nat i) (name_bytes (h_name h)) s else s
      | None \<Rightarrow> s)"

definition refresh_unit :: "senv \<Rightarrow> nat \<Rightarrow> na \<Rightarrow> na" where
  "refresh_unit e i s = tunnel_send_link i (link_eff e i s) (refresh_ident e i s)"

definition tunnel_srv_refresh :: "senv \<Rightarrow> na \<Rightarrow> na" where
  "tunnel_srv_refresh e s = fold (refresh_unit e) [0 ..< na_units s] s"

definition table_payload :: "harvest_entry \<Rightarrow> byte list" where
  "table_payload h = of_nat (length (h_chars h)) # concat (map desc_bytes (h_chars h))"

definition announce_table :: "senv \<Rightarrow> na \<Rightarrow> na" where
  "announce_table e s =
     (case List.map_filter (\<lambda>i. nvs_get_harvest (se_open e i) i (na_nvs s)) [0 ..< na_units s] of
        [] \<Rightarrow> s
      | h # _ \<Rightarrow> srv_enqueue TUN_TABLE TUNNEL_BMS_ID_LINK (table_payload h) s)"

definition tunnel_srv_announce :: "senv \<Rightarrow> na \<Rightarrow> na" where
  "tunnel_srv_announce e s = tunnel_srv_refresh e (announce_table e s)"

text \<open>The phone's device-info request.\<close>

definition is_devreq :: "byte list \<Rightarrow> bool" where
  "is_devreq d \<longleftrightarrow> length d \<ge> 5 \<and> take 4 d = [0xAA, 0x55, 0x90, 0xEB] \<and> d ! 4 = 0x97"

definition srv_on_write :: "senv \<Rightarrow> nat \<Rightarrow> byte list \<Rightarrow> na \<Rightarrow> na" where
  "srv_on_write e i pl s =
     (if length pl \<ge> 2 then
        let d = drop 2 pl;
            s1 = s\<lparr>na_appwrite := na_appwrite s @ [(i, d)]\<rparr>;
            s2 = (if is_devreq d then on_na_arb (arbiter_note_app_devreq (se_arb e) i) s1 else s1)
        in on_na_arb (arbiter_app_write (se_arb e) i (unat (pl ! 0)) (pl ! 1 \<noteq> 0) d) s2
      else s)"

definition srv_on_frame :: "senv \<Rightarrow> byte \<Rightarrow> byte \<Rightarrow> byte list \<Rightarrow> na \<Rightarrow> na" where
  "srv_on_frame e type bid pl s =
     (if \<not> tunnel_to_a_valid type bid pl (na_units s) then s
      else if type = TUN_TABLE_REQ then tunnel_srv_announce e s
      else if type = TUN_WRITE then srv_on_write e (unat bid) pl s
      else if type = TUN_CLIENT then
        (if length pl \<ge> 1 then on_na_arb (arbiter_set_app_connected (se_arb e) (unat bid) (pl ! 0 \<noteq> 0)) s else s)
      else s)"

section \<open>The socket loop\<close>

definition notify_frame :: "notify_item \<Rightarrow> byte list" where
  "notify_frame it =
     frame (if ni_raw it then TUN_RAW else TUN_NOTIFY) (of_nat (ni_bms_id it)) (of_nat (ni_idx it) # ni_data it)"

definition SRV_PING_US :: int where "SRV_PING_US = 5000 * 1000"

definition SRV_DEAD_US :: int where "SRV_DEAD_US = 15000 * 1000"

record sturn =
  st_env :: senv
  st_send_ok :: "byte list \<Rightarrow> bool"
  st_rx :: "byte list option"

record sconn =
  sc_na :: na
  sc_last_ping :: time_us
  sc_last_rx :: time_us
  sc_wire :: "byte list list"

text \<open>Take from a queue and send while there is something: the frames sent, whether all sends succeeded, the rest.\<close>

fun srv_drain :: "(byte list \<Rightarrow> bool) \<Rightarrow> byte list list \<Rightarrow> byte list list \<times> bool \<times> nat" where
  "srv_drain ok [] = ([], True, 0)"
| "srv_drain ok (m # q) = (if \<not> ok m then ([], False, 1) else (case srv_drain ok q of (ms, b, k) \<Rightarrow> (m # ms, b, Suc k)))"

definition srv_serve_begin :: "senv \<Rightarrow> na \<Rightarrow> sconn" where
  "srv_serve_begin e s = \<lparr>sc_na = s\<lparr>na_up := True\<rparr>, sc_last_ping = e_now (se_arb e), sc_last_rx = e_now (se_arb e), sc_wire = []\<rparr>"

definition srv_drop :: "sconn \<Rightarrow> bool \<times> sconn" where
  "srv_drop c = (True, c\<lparr>sc_na := (sc_na c)\<lparr>na_up := False\<rparr>\<rparr>)"

definition srv_send_notify :: "sturn \<Rightarrow> sconn \<Rightarrow> bool \<times> sconn" where
  "srv_send_notify t c =
     (case srv_drain (st_send_ok t) (map notify_frame (na_notify (sc_na c))) of
        (ms, ok, k) \<Rightarrow> (ok, c\<lparr>sc_na := (sc_na c)\<lparr>na_notify := drop k (na_notify (sc_na c))\<rparr>, sc_wire := sc_wire c @ ms\<rparr>))"

definition srv_send_out :: "sturn \<Rightarrow> sconn \<Rightarrow> bool \<times> sconn" where
  "srv_send_out t c =
     (case srv_drain (st_send_ok t) (na_out (sc_na c)) of
        (ms, ok, k) \<Rightarrow> (ok, c\<lparr>sc_na := (sc_na c)\<lparr>na_out := drop k (na_out (sc_na c))\<rparr>, sc_wire := sc_wire c @ ms\<rparr>))"

definition srv_receive :: "sturn \<Rightarrow> sconn \<Rightarrow> bool \<times> sconn" where
  "srv_receive t c =
     (case st_rx t of
        None \<Rightarrow> (True, c)
      | Some bs \<Rightarrow>
          (case recv_frame bs of
             Got ty bid pl _ \<Rightarrow> (True, c\<lparr>sc_na := srv_on_frame (st_env t) ty bid pl (sc_na c), sc_last_rx := e_now (se_arb (st_env t))\<rparr>)
           | _ \<Rightarrow> (False, c)))"

definition srv_keepalive :: "sturn \<Rightarrow> sconn \<Rightarrow> bool \<times> sconn" where
  "srv_keepalive t c =
     (let now = e_now (se_arb (st_env t)); ping = frame TUN_PING TUNNEL_BMS_ID_LINK [] in
      if now - sc_last_ping c > SRV_PING_US \<and> \<not> st_send_ok t ping then (False, c)
      else let c1 = (if now - sc_last_ping c > SRV_PING_US then c\<lparr>sc_wire := sc_wire c @ [ping], sc_last_ping := now\<rparr> else c)
        in (\<not> now - sc_last_rx c1 > SRV_DEAD_US, c1))"

text \<open>A step that fails jumps to the end of the session.\<close>

definition srv_then :: "(sconn \<Rightarrow> bool \<times> sconn) \<Rightarrow> bool \<times> sconn \<Rightarrow> bool \<times> sconn" where
  "srv_then f r = (if fst r then f (snd r) else r)"

definition srv_turn :: "sturn \<Rightarrow> sconn \<Rightarrow> bool \<times> sconn" where
  "srv_turn t c =
     (case srv_then (srv_keepalive t) (srv_then (srv_receive t) (srv_then (srv_send_out t) (srv_send_notify t c))) of
        (ok, c1) \<Rightarrow> if ok then (False, c1) else srv_drop c1)"

text \<open>Between two passes the other tasks of the node run.\<close>

fun srv_serve :: "(sturn \<times> (na \<Rightarrow> na)) list \<Rightarrow> sconn \<Rightarrow> sconn" where
  "srv_serve [] c = c"
| "srv_serve ((t, other) # ts) c =
     (case srv_turn t (c\<lparr>sc_na := other (sc_na c)\<rparr>) of (True, c1) \<Rightarrow> c1 | (False, c1) \<Rightarrow> srv_serve ts c1)"


text \<open>\<^verbatim>\<open>tunnel_task\<close>: one session after another; what is queued meanwhile waits for the next one.\<close>

definition tunnel_srv_task :: "(senv \<times> (sturn \<times> (na \<Rightarrow> na)) list) list \<Rightarrow> na \<Rightarrow> na" where
  "tunnel_srv_task = fold (\<lambda>(e, ts) s. sc_na (srv_serve ts (srv_serve_begin e s)))"

definition tunnel_srv_start :: "na \<Rightarrow> na" where
  "tunnel_srv_start s = s\<lparr>na_out := [], na_up := False\<rparr>"

section \<open>Everything sent is accepted by node B\<close>

definition frame_for_b :: "nat \<Rightarrow> byte list \<Rightarrow> bool" where
  "frame_for_b n = accepted_by (\<lambda>t i p. tunnel_to_b_valid t i p n 8 320)"

definition harvest_ok :: "harvest_entry \<Rightarrow> bool" where
  "harvest_ok h \<longleftrightarrow> 1 \<le> length (h_chars h) \<and> length (h_chars h) \<le> HARVEST_MAX_CHARS \<and> length (h_name h) < 32"

definition nvs_ok :: "nvs \<Rightarrow> bool" where
  "nvs_ok v \<longleftrightarrow> (\<forall>i h. nv_harvest v i = Some (Exact h) \<longrightarrow> harvest_ok h)"

definition item_ok :: "nat \<Rightarrow> notify_item \<Rightarrow> bool" where
  "item_ok n it \<longleftrightarrow> ni_bms_id it < n \<and> ni_idx it \<le> 1 \<and> length (ni_data it) \<le> JK_FRAME_MAX"

definition na_ok :: "nat \<Rightarrow> na \<Rightarrow> bool" where
  "na_ok n s \<longleftrightarrow> na_units s = n \<and> length (na_out s) \<le> SRV_OUT_DEPTH \<and> list_all (frame_for_b n) (na_out s) \<and>
     list_all (item_ok n) (na_notify s) \<and> nvs_ok (na_nvs s)"

lemma frame_for_bI: "tunnel_to_b_valid t i p n 8 320 \<Longrightarrow> frame_for_b n (frame t i p)"
  unfolding frame_for_b_def by (rule to_b.accepted_frame)

lemma unit_not_link: "i < n \<Longrightarrow> n \<le> 255 \<Longrightarrow> \<not> n \<le> unat (of_nat i :: byte)"
  by (simp add: unit_byte)

lemma link_valid: "i < n \<Longrightarrow> n \<le> 255 \<Longrightarrow> tunnel_to_b_valid TUN_LINK (of_nat i) [link_byte st] n 8 320"
  by (cases st) (simp_all add: tunnel_to_b_valid_def tun_types tun_consts unit_byte)

lemma result_valid:
  "i < n \<Longrightarrow> n \<le> 255 \<Longrightarrow> idx \<le> 1 \<Longrightarrow> tunnel_to_b_valid TUN_WRITE_RESULT (of_nat i) [of_nat idx, status_byte st] n 8 320"
  by (cases st) (simp_all add: tunnel_to_b_valid_def tun_types tun_consts unit_byte unit_byte [of idx 2])

lemma name_valid:
  "i < n \<Longrightarrow> n \<le> 255 \<Longrightarrow> h_name h \<noteq> '''' \<Longrightarrow> harvest_ok h \<Longrightarrow> tunnel_to_b_valid TUN_IDENT (of_nat i) (name_bytes (h_name h)) n 8 320"
  by (simp add: tunnel_to_b_valid_def tun_types tun_consts unit_byte harvest_ok_def name_bytes_def)

lemma table_valid: "harvest_ok h \<Longrightarrow> tunnel_to_b_valid TUN_TABLE TUNNEL_BMS_ID_LINK (table_payload h) n 8 320"
proof -
  assume h: "harvest_ok h"
  then have "unat (of_nat (length (h_chars h)) :: byte) = length (h_chars h)"
    by (intro unit_byte [of _ 9]) (auto simp: harvest_ok_def HARVEST_MAX_CHARS_def)
  with h show ?thesis
    by (auto simp: tunnel_to_b_valid_def tun_types tun_consts table_payload_def length_concat_descs harvest_ok_def HARVEST_MAX_CHARS_def
        sizeof_char_desc_def word_less_nat_alt)
qed

lemma notify_valid:
  assumes "item_ok n it" "n \<le> 255"
  shows "frame_for_b n (notify_frame it)"
  unfolding notify_frame_def
  by (rule frame_for_bI) (use assms in \<open>auto simp: tunnel_to_b_valid_def tun_types tun_consts item_ok_def JK_FRAME_MAX_def unit_byte
      unit_byte [of "ni_idx it" 2]\<close>)

section \<open>Every operation keeps the queues well formed\<close>

lemma enqueue_ok: "na_ok n s \<Longrightarrow> tunnel_to_b_valid t i p n 8 320 \<Longrightarrow> na_ok n (srv_enqueue t i p s)"
  using frame_for_bI [of t i p n] by (auto simp: na_ok_def srv_enqueue_def na_units_def na_arb_def)

lemma enqueue_simps [simp]:
  "na_dec (srv_enqueue t i p s) = na_dec s" "na_nvs (srv_enqueue t i p s) = na_nvs s" "na_notify (srv_enqueue t i p s) = na_notify s"
  "na_up (srv_enqueue t i p s) = na_up s" "na_appwrite (srv_enqueue t i p s) = na_appwrite s"
  by (simp_all add: srv_enqueue_def)

lemma arb_of_enqueue [simp]: "na_arb (srv_enqueue t i p s) = na_arb s" "na_units (srv_enqueue t i p s) = na_units s"
  by (simp_all add: na_arb_def na_units_def)

lemma send_link_ok: "na_ok n s \<Longrightarrow> i < n \<Longrightarrow> n \<le> 255 \<Longrightarrow> na_ok n (tunnel_send_link i st s)"
  unfolding tunnel_send_link_def by (rule enqueue_ok) (auto intro: link_valid)

lemma send_result_ok: "na_ok n s \<Longrightarrow> i < n \<Longrightarrow> n \<le> 255 \<Longrightarrow> idx \<le> 1 \<Longrightarrow> na_ok n (tunnel_send_write_result i idx st s)"
  unfolding tunnel_send_write_result_def by (rule enqueue_ok) (auto intro: result_valid)

lemma harvest_stored: "nvs_get_harvest b i v = Some h \<Longrightarrow> nvs_ok v \<Longrightarrow> harvest_ok h"
  by (auto simp: nvs_get_harvest_def nvs_ok_def split: if_splits option.splits blob.splits)

lemma na_ok_nvs: "na_ok n s \<Longrightarrow> nvs_ok (na_nvs s)"
  by (simp add: na_ok_def)

lemma refresh_ident_ok: "na_ok n s \<Longrightarrow> i < n \<Longrightarrow> n \<le> 255 \<Longrightarrow> na_ok n (refresh_ident e i s)"
  unfolding refresh_ident_def
  by (auto intro!: enqueue_ok name_valid dest: harvest_stored na_ok_nvs split: option.split)

lemma refresh_unit_ok: "na_ok n s \<Longrightarrow> i < n \<Longrightarrow> n \<le> 255 \<Longrightarrow> na_ok n (refresh_unit e i s)"
  unfolding refresh_unit_def by (intro send_link_ok refresh_ident_ok)

lemma fold_na_ok:
  assumes "na_ok n s" and "\<And>i s. i \<in> set is \<Longrightarrow> na_ok n s \<Longrightarrow> na_ok n (f i s)"
  shows "na_ok n (fold f is s)"
  using assms by (induction "is" arbitrary: s) auto

lemma na_ok_units: "na_ok n s \<Longrightarrow> na_units s = n"
  by (simp add: na_ok_def)

lemma refresh_ok: "na_ok n s \<Longrightarrow> n \<le> 255 \<Longrightarrow> na_ok n (tunnel_srv_refresh e s)"
  unfolding tunnel_srv_refresh_def by (rule fold_na_ok) (auto intro!: refresh_unit_ok simp: na_ok_units)

lemma map_filter_hd:
  assumes "List.map_filter f xs = y # ys" obtains x where "x \<in> set xs" "f x = Some y"
proof -
  have "y \<in> set (List.map_filter f xs)" using assms by simp
  then show thesis using that by (auto simp: List.map_filter_def)
qed

lemma announce_table_ok:
  assumes "na_ok n s"
  shows "na_ok n (announce_table e s)"
proof (cases "List.map_filter (\<lambda>i. nvs_get_harvest (se_open e i) i (na_nvs s)) [0 ..< na_units s]")
  case (Cons h hs)
  then obtain i where "nvs_get_harvest (se_open e i) i (na_nvs s) = Some h" by (rule map_filter_hd)
  then have "harvest_ok h" using na_ok_nvs [OF assms] by (rule harvest_stored)
  with Cons assms show ?thesis by (auto simp: announce_table_def intro!: enqueue_ok table_valid)
qed (simp add: announce_table_def assms)

lemma announce_ok: "na_ok n s \<Longrightarrow> n \<le> 255 \<Longrightarrow> na_ok n (tunnel_srv_announce e s)"
  unfolding tunnel_srv_announce_def by (intro refresh_ok announce_table_ok)

lemma on_na_arb_ok: "na_ok n s \<Longrightarrow> units (f (na_arb s)) = units (na_arb s) \<Longrightarrow> na_ok n (on_na_arb f s)"
  by (simp add: na_ok_def on_na_arb_def na_units_def na_arb_def on_arb_def)

lemma note_units [simp]:
  "units (arbiter_note_app_devreq e i a) = units a" "units (arbiter_set_app_connected e i c a) = units a"
  by (simp_all add: arbiter_note_app_devreq_def arbiter_set_app_connected_def)

lemma on_write_ok: "na_ok n s \<Longrightarrow> na_ok n (srv_on_write e i p s)"
proof -
  assume ok: "na_ok n s"
  have ok1: "na_ok n (s\<lparr>na_appwrite := w\<rparr>)" for w using ok by (simp add: na_ok_def na_units_def na_arb_def)
  show ?thesis by (auto simp: srv_on_write_def Let_def intro!: on_na_arb_ok ok1 ok)
qed

lemma on_frame_ok: "na_ok n s \<Longrightarrow> n \<le> 255 \<Longrightarrow> na_ok n (srv_on_frame e t b p s)"
  by (auto simp: srv_on_frame_def intro!: announce_ok on_write_ok on_na_arb_ok)


section \<open>The session\<close>

definition sconn_ok :: "nat \<Rightarrow> sconn \<Rightarrow> bool" where
  "sconn_ok n c \<longleftrightarrow> na_ok n (sc_na c) \<and> list_all (frame_for_b n) (sc_wire c)"

lemma srv_drain_all: "list_all P q \<Longrightarrow> srv_drain ok q = (ms, b, k) \<Longrightarrow> list_all P ms"
  by (induction q arbitrary: ms b k) (auto split: if_splits prod.splits)

lemma list_all_drop: "list_all P xs \<Longrightarrow> list_all P (drop k xs)"
  by (auto simp: list_all_iff dest: in_set_dropD)

lemma na_ok_notify: "na_ok n s \<Longrightarrow> na_ok n (s\<lparr>na_notify := drop k (na_notify s)\<rparr>)"
  by (simp add: na_ok_def na_units_def na_arb_def list_all_drop)

lemma na_ok_out: "na_ok n s \<Longrightarrow> na_ok n (s\<lparr>na_out := drop k (na_out s)\<rparr>)"
  by (auto simp: na_ok_def na_units_def na_arb_def list_all_drop)

lemma na_ok_up [simp]: "na_ok n (s\<lparr>na_up := b\<rparr>) = na_ok n s"
  by (simp add: na_ok_def na_units_def na_arb_def)

lemma send_notify_ok: "sconn_ok n c \<Longrightarrow> n \<le> 255 \<Longrightarrow> sconn_ok n (snd (srv_send_notify t c))"
proof -
  assume c: "sconn_ok n c" and n: "n \<le> 255"
  then have "list_all (frame_for_b n) (map notify_frame (na_notify (sc_na c)))"
    by (auto simp: sconn_ok_def na_ok_def list_all_iff intro: notify_valid)
  then show ?thesis using c srv_drain_all
    by (fastforce simp: srv_send_notify_def sconn_ok_def na_ok_notify split: prod.split)
qed

lemma send_out_ok: "sconn_ok n c \<Longrightarrow> sconn_ok n (snd (srv_send_out t c))"
proof -
  assume c: "sconn_ok n c"
  then have "list_all (frame_for_b n) (na_out (sc_na c))" by (simp add: sconn_ok_def na_ok_def)
  then show ?thesis using c srv_drain_all
    by (fastforce simp: srv_send_out_def sconn_ok_def na_ok_out split: prod.split)
qed

lemma receive_ok: "sconn_ok n c \<Longrightarrow> n \<le> 255 \<Longrightarrow> sconn_ok n (snd (srv_receive t c))"
  by (auto simp: srv_receive_def sconn_ok_def on_frame_ok split: option.split recv_result.split)

lemma ping_for_b: "frame_for_b n (frame TUN_PING TUNNEL_BMS_ID_LINK [])"
  by (rule frame_for_bI) (simp add: tunnel_to_b_valid_def tun_types tun_consts)

lemma srv_keepalive_ok: "sconn_ok n c \<Longrightarrow> sconn_ok n (snd (srv_keepalive t c))"
  by (auto simp: srv_keepalive_def sconn_ok_def Let_def ping_for_b)

lemma srv_then_ok: "sconn_ok n (snd r) \<Longrightarrow> (\<And>c. sconn_ok n c \<Longrightarrow> sconn_ok n (snd (f c))) \<Longrightarrow> sconn_ok n (snd (srv_then f r))"
  by (simp add: srv_then_def)

lemma turn_ok:
  assumes "sconn_ok n c" "n \<le> 255"
  shows "sconn_ok n (snd (srv_turn t c))"
proof -
  have "sconn_ok n (snd (srv_then (srv_keepalive t) (srv_then (srv_receive t) (srv_then (srv_send_out t) (srv_send_notify t c)))))"
    using assms by (intro srv_then_ok srv_keepalive_ok receive_ok send_out_ok send_notify_ok)
  then show ?thesis by (auto simp: srv_turn_def srv_drop_def sconn_ok_def split: prod.split)
qed

lemma serve_ok:
  assumes "sconn_ok n c" "n \<le> 255" "\<And>t f s. (t, f) \<in> set ts \<Longrightarrow> na_ok n s \<Longrightarrow> na_ok n (f s)"
  shows "sconn_ok n (srv_serve ts c)"
  using assms
proof (induction ts c rule: srv_serve.induct)
  case (2 t f ts c)
  let ?c = "c\<lparr>sc_na := f (sc_na c)\<rparr>"
  have "sconn_ok n ?c" using 2(2,4) by (auto simp: sconn_ok_def)
  then have "sconn_ok n (snd (srv_turn t ?c))" using 2(3) by (rule turn_ok)
  moreover obtain d c' where r: "srv_turn t ?c = (d, c')" by fastforce
  ultimately have c': "sconn_ok n c'" by simp
  show ?case
  proof (cases d)
    case False
    then have "sconn_ok n (srv_serve ts c')" using 2(2-) r c' by (intro "2.IH" [of d c']) auto
    then show ?thesis using r False by simp
  qed (use r c' in simp)
qed simp

lemma tunnel_srv_task_ok:
  assumes "na_ok n s" "n \<le> 255" "\<And>e ts t f s. (e, ts) \<in> set ss \<Longrightarrow> (t, f) \<in> set ts \<Longrightarrow> na_ok n s \<Longrightarrow> na_ok n (f s)"
  shows "na_ok n (tunnel_srv_task ss s)"
  using assms
proof (induction ss arbitrary: s)
  case (Cons x ss)
  obtain e ts where x: "x = (e, ts)" by (cases x)
  have "sconn_ok n (srv_serve_begin e s)" using Cons.prems(1) by (simp add: srv_serve_begin_def sconn_ok_def)
  then have "sconn_ok n (srv_serve ts (srv_serve_begin e s))"
    using Cons.prems(2) by (rule serve_ok) (use Cons.prems(3) [of e ts] x in auto)
  then have "na_ok n (sc_na (srv_serve ts (srv_serve_begin e s)))" by (simp add: sconn_ok_def)
  then have "na_ok n (tunnel_srv_task ss (sc_na (srv_serve ts (srv_serve_begin e s))))"
    using Cons.prems(2) by (rule Cons.IH) (metis Cons.prems(3) list.set_intros(2))
  then show ?case by (simp add: tunnel_srv_task_def x)
qed (simp add: tunnel_srv_task_def)

definition sample_na :: na where
  "sample_na = \<lparr>na_dec = sample_dec,
     na_nvs = \<lparr>nv_harvest = [0 \<mapsto> Exact \<lparr>h_valid = True, h_ver = JK_FRAME_JK02_32S, h_name = ''BMS 0'', h_fw_version = '''',
       h_chars = [\<lparr>cd_svc_uuid = 0xFFE0, cd_chr_uuid = 0xFFE1, cd_props = 0x1C\<rparr>]\<rparr>], nv_ble_en = None, nv_meas = None\<rparr>,
     na_out = [], na_notify = [], na_up = False, na_appwrite = []\<rparr>"

definition sample_senv :: senv where
  "sample_senv = \<lparr>se_arb = (sample_env sample_doc)\<lparr>e_fleet := [\<lparr>t_name = Some ''BMS 0'', t_bms_id = 0, t_addr = []\<rparr>]\<rparr>,
     se_open = (\<lambda>_. True), se_ble_on = True\<rparr>"

definition sample_sturn :: sturn where
  "sample_sturn = \<lparr>st_env = sample_senv, st_send_ok = (\<lambda>_. True), st_rx = Some (frame TUN_TABLE_REQ TUNNEL_BMS_ID_LINK [])\<rparr>"

lemma sample_na_ok: "na_ok 1 sample_na"
  by (simp add: na_ok_def sample_na_def na_units_def na_arb_def sample_dec_def arbiter_start_def units_def nvs_ok_def harvest_ok_def
      HARVEST_MAX_CHARS_def)

text \<open>
  C10. Node B accepts everything node A says. From well-formed tables and queues, whatever a session of the tunnel
  task does (queued announcements, link changes, write results, notifications, keep-alives, over any inputs and
  send failures, with any interleaved work of the other tasks that keeps the queues well formed), the bytes on
  the wire split into complete frames, each of which node B's validator accepts; and the queue keeps its bound.
\<close>

theorem node_b_accepts_everything:
  assumes "na_ok n s" and "n \<le> 255"
    and others: "\<And>t f s. (t, f) \<in> set ts \<Longrightarrow> na_ok n s \<Longrightarrow> na_ok n (f s)"
  shows "(case recv_frames (concat (sc_wire (srv_serve ts (srv_serve_begin e s)))) of
      (ms, r, dropped) \<Rightarrow> r = [] \<and> \<not> dropped \<and> list_all (\<lambda>(t, i, p). tunnel_to_b_valid t i p n 8 320) ms) \<and>
    length (na_out (sc_na (srv_serve ts (srv_serve_begin e s)))) \<le> 24"
proof -
  have "sconn_ok n (srv_serve_begin e s)" using assms(1) by (simp add: srv_serve_begin_def sconn_ok_def)
  then have "sconn_ok n (srv_serve ts (srv_serve_begin e s))" using assms(2) others by (rule serve_ok)
  then have "list_all (frame_for_b n) (sc_wire (srv_serve ts (srv_serve_begin e s)))"
      "length (na_out (sc_na (srv_serve ts (srv_serve_begin e s)))) \<le> 24"
    by (simp_all add: sconn_ok_def na_ok_def SRV_OUT_DEPTH_def)
  then show ?thesis
    using to_b.accepted_stream [of n 8 320 "sc_wire (srv_serve ts (srv_serve_begin e s))"] by (auto simp: frame_for_b_def)
qed

theorem node_b_accepts_everything_witness:
  "length (na_out (sc_na (srv_serve [(sample_sturn, \<lambda>s. s), (sample_sturn, tunnel_send_link 0 LINK_UP)]
     (srv_serve_begin sample_senv sample_na)))) \<le> 24"
proof -
  have others: "na_ok 1 (f s)" if "(t, f) \<in> set [(sample_sturn, \<lambda>s. s), (sample_sturn, tunnel_send_link 0 LINK_UP)]" "na_ok 1 s" for t f s
    using that by (auto intro: send_link_ok)
  show ?thesis
    by (rule conjunct2 [OF node_b_accepts_everything [OF sample_na_ok, where ts = "[(sample_sturn, \<lambda>s. s), (sample_sturn, tunnel_send_link 0 LINK_UP)]"]])
      (simp, rule others)
qed

section \<open>What an announcement says\<close>

definition unit_frames :: "senv \<Rightarrow> na \<Rightarrow> nat \<Rightarrow> byte list list" where
  "unit_frames e s i =
     (case nvs_get_harvest (se_open e i) i (na_nvs s) of
        Some h \<Rightarrow> if \<not> srv_parked e i \<and> h_name h \<noteq> '''' then [frame TUN_IDENT (of_nat i) (name_bytes (h_name h))] else []
      | None \<Rightarrow> []) @ [frame TUN_LINK (of_nat i) [link_byte (link_eff e i s)]]"

definition table_frames :: "senv \<Rightarrow> na \<Rightarrow> byte list list" where
  "table_frames e s =
     (case List.map_filter (\<lambda>i. nvs_get_harvest (se_open e i) i (na_nvs s)) [0 ..< na_units s] of
        [] \<Rightarrow> [] | h # _ \<Rightarrow> [frame TUN_TABLE TUNNEL_BMS_ID_LINK (table_payload h)])"

lemma out_enqueue: "length p \<le> TUNNEL_MAX_PAYLOAD \<Longrightarrow> length (na_out s) < SRV_OUT_DEPTH \<Longrightarrow> na_out (srv_enqueue t i p s) = na_out s @ [frame t i p]"
  by (simp add: srv_enqueue_def)

lemma length_unit_frames: "length (unit_frames e s i) \<le> 2"
  by (simp add: unit_frames_def split: option.split)

lemma link_eff_cong: "na_dec s' = na_dec s \<Longrightarrow> link_eff e i s' = link_eff e i s"
  by (simp add: link_eff_def na_arb_def)

lemma refresh_unit_same [simp]:
  "na_dec (refresh_unit e i s) = na_dec s" "na_nvs (refresh_unit e i s) = na_nvs s"
  by (auto simp: refresh_unit_def refresh_ident_def tunnel_send_link_def split: option.split)

lemma unit_frames_cong: "na_dec s' = na_dec s \<Longrightarrow> na_nvs s' = na_nvs s \<Longrightarrow> unit_frames e s' = unit_frames e s"
  by (rule ext) (simp add: unit_frames_def link_eff_cong [of s' s])

lemma refresh_unit_out:
  assumes "nvs_ok (na_nvs s)" "length (na_out s) + 2 \<le> SRV_OUT_DEPTH"
  shows "na_out (refresh_unit e i s) = na_out s @ unit_frames e s i"
proof -
  have "length (name_bytes (h_name h)) \<le> TUNNEL_MAX_PAYLOAD" if "nvs_get_harvest (se_open e i) i (na_nvs s) = Some h" for h
    using harvest_stored [OF that assms(1)] by (simp add: harvest_ok_def name_bytes_def TUNNEL_MAX_PAYLOAD_def)
  then show ?thesis using assms(2)
    by (auto simp: refresh_unit_def refresh_ident_def unit_frames_def tunnel_send_link_def out_enqueue TUNNEL_MAX_PAYLOAD_def
        split: option.split)
qed

lemma refresh_fold_out:
  assumes "nvs_ok (na_nvs s)" "length (na_out s) + 2 * length is \<le> SRV_OUT_DEPTH"
  shows "na_out (fold (refresh_unit e) is s) = na_out s @ concat (map (unit_frames e s) is)"
  using assms
proof (induction "is" arbitrary: s)
  case (Cons i "is")
  have out: "na_out (refresh_unit e i s) = na_out s @ unit_frames e s i" using Cons.prems by (intro refresh_unit_out) auto
  have "na_out (fold (refresh_unit e) is (refresh_unit e i s)) =
      na_out (refresh_unit e i s) @ concat (map (unit_frames e (refresh_unit e i s)) is)"
    using Cons.prems length_unit_frames [of e s i] by (intro Cons.IH) (auto simp: out)
  then show ?case by (simp add: out unit_frames_cong [of "refresh_unit e i s" s])
qed simp



end
