(* ===== verification/Supervisor.thy ===== *)
theory Supervisor
  imports Tunnel_Srv
begin

text \<open>
  The supervisor of node A, \<^verbatim>\<open>node_a/main/supervisor.c\<close>: the harvest of the blueprints, the per-unit maintenance (link
  changes and session bootstrap, the drivers that raise a link on demand, the reconnect ladder, the re-arm, the idle
  disconnect), the boot-verify round, the WiFi breaker and the measurement timeout, and the one-second tick that runs
  them.

  A \<^verbatim>\<open>static\<close> of a function is a field of the state. The clock \<^verbatim>\<open>esp_timer_get_time\<close> read by a function is the time of its
  environment. The link state \<^verbatim>\<open>0xFF\<close> that \<^verbatim>\<open>supervisor_start\<close> writes, equal to no state, is \<open>None\<close>. Calls into
  the parts of the node that are not modelled (MQTT publications, WiFi, OTA) are recorded in order; the JSON text of
  the verification is kept as its fields.
\<close>

section \<open>State\<close>

datatype sup_call =
    Publish_link nat
  | Publish_verify int "(nat \<times> string) list"
  | Publish_health
  | Wifi_disconnect
  | Keepalive_read
  | Ota_start
  | Ota_mark_valid

record sup_unit =
  su_last_link :: "tunnel_link_state option"
  su_linkup_us :: time_us
  su_hold_until_us :: time_us
  su_hold_s :: nat
  su_last_probe_us :: time_us
  su_app_drive_us :: time_us
  su_conn_drive_us :: time_us
  su_rearm_us :: time_us
  su_pub_tick :: nat

record vfy =
  v_bank :: "nat option"
  v_done :: bool
  v_start_us :: time_us
  v_result :: "string list"
  v_drive_us :: time_us

record sup =
  sp_na :: na
  sp_units :: "sup_unit list"
  sp_vfy :: vfy
  sp_meas_start_us :: time_us
  sp_zombie_kick_us :: time_us
  sp_mqtt_down_since_us :: time_us
  sp_ka :: nat
  sp_hb :: nat
  sp_rf :: nat
  sp_oa :: nat
  sp_calls :: "sup_call list"

text \<open>What a tick reads of the rest of the node.\<close>

record penv =
  pe_srv :: senv
  pe_put_ok :: "nat \<Rightarrow> bool"
  pe_meas_open :: bool
  pe_table :: "nat \<Rightarrow> harvest_entry option"
  pe_wall :: int
  pe_wifi_up :: bool
  pe_wifi_down_ms :: int
  pe_mqtt_up :: bool
  pe_ota_up :: bool

abbreviation pe_now :: "penv \<Rightarrow> time_us" where
  "pe_now e \<equiv> e_now (se_arb (pe_srv e))"

abbreviation pe_ble :: "penv \<Rightarrow> bool" where
  "pe_ble e \<equiv> se_ble_on (pe_srv e)"

definition sup_arb :: "sup \<Rightarrow> arb" where
  "sup_arb s = na_arb (sp_na s)"

definition on_na :: "(na \<Rightarrow> na) \<Rightarrow> sup \<Rightarrow> sup" where
  "on_na f s = s\<lparr>sp_na := f (sp_na s)\<rparr>"

definition on_sup_arb :: "(arb \<Rightarrow> arb) \<Rightarrow> sup \<Rightarrow> sup" where
  "on_sup_arb f = on_na (on_na_arb f)"

definition upd_su :: "nat \<Rightarrow> (sup_unit \<Rightarrow> sup_unit) \<Rightarrow> sup \<Rightarrow> sup" where
  "upd_su i f s = s\<lparr>sp_units := upd_unit i f (sp_units s)\<rparr>"

definition add_call :: "sup_call \<Rightarrow> sup \<Rightarrow> sup" where
  "add_call c s = s\<lparr>sp_calls := sp_calls s @ [c]\<rparr>"

definition poll_unit :: "penv \<Rightarrow> nat \<Rightarrow> byte \<Rightarrow> sup \<Rightarrow> sup" where
  "poll_unit e i op = on_sup_arb (arbiter_poll (se_arb (pe_srv e)) i op)"

abbreviation sunit :: "sup \<Rightarrow> nat \<Rightarrow> sup_unit" where
  "sunit s i \<equiv> sp_units s ! i"

definition cfg_name_for :: "penv \<Rightarrow> nat \<Rightarrow> string" where
  "cfg_name_for e i = (case name_for (e_fleet (se_arb (pe_srv e))) i of None \<Rightarrow> '''' | Some nm \<Rightarrow> nm)"

definition sup_runtime :: "nat \<Rightarrow> sup \<Rightarrow> bms_runtime" where
  "sup_runtime i s = state_get_runtime i (a_state (sup_arb s))"

section \<open>Harvest\<close>

definition pub_bridge_alert :: "nat \<Rightarrow> string \<Rightarrow> sup \<Rightarrow> sup" where
  "pub_bridge_alert i what = on_sup_arb (send_ack (mk_ack i ''harvest'' '''' what None None))"

definition sup_put_harvest :: "penv \<Rightarrow> nat \<Rightarrow> harvest_entry \<Rightarrow> na \<Rightarrow> na" where
  "sup_put_harvest e i h s = s\<lparr>na_nvs := nvs_put_harvest (pe_put_ok e i) i h (na_nvs s)\<rparr>"

definition named :: "penv \<Rightarrow> nat \<Rightarrow> harvest_entry \<Rightarrow> harvest_entry" where
  "named e i h = h\<lparr>h_name := take 31 (cfg_name_for e i)\<rparr>"

definition reference_harvest :: "penv \<Rightarrow> sup \<Rightarrow> harvest_entry option" where
  "reference_harvest e s =
     (case List.map_filter (\<lambda>j. nvs_get_harvest (se_open (pe_srv e) j) j (na_nvs (sp_na s))) [0 ..< na_units (sp_na s)] of
        [] \<Rightarrow> None | h # _ \<Rightarrow> Some h)"

definition harvest_unit :: "penv \<Rightarrow> nat \<Rightarrow> sup \<Rightarrow> sup" where
  "harvest_unit e i s =
     (case nvs_get_harvest (se_open (pe_srv e) i) i (na_nvs (sp_na s)) of
        Some h \<Rightarrow>
          if h_name h = '''' then on_na (tunnel_srv_announce (pe_srv e)) (on_na (sup_put_harvest e i (named e i h)) s) else s
      | None \<Rightarrow>
          (case pe_table e i of
             None \<Rightarrow> s
           | Some live \<Rightarrow>
               let s1 = (case reference_harvest e s of
                           Some first \<Rightarrow> if h_chars first \<noteq> h_chars live then pub_bridge_alert i ''layout_differs_accepted'' s else s
                         | None \<Rightarrow> s)
               in on_na (tunnel_srv_announce (pe_srv e)) (on_na (sup_put_harvest e i (named e i (live\<lparr>h_valid := True\<rparr>))) s1)))"

definition harvest_tick :: "penv \<Rightarrow> sup \<Rightarrow> sup" where
  "harvest_tick e s = fold (harvest_unit e) [0 ..< na_units (sp_na s)] s"

section \<open>Maintenance of one unit\<close>

definition CFG_RECONNECT_HOLD_BASE_S :: nat where "CFG_RECONNECT_HOLD_BASE_S = 60"

definition CFG_RECONNECT_HOLD_CAP_S :: nat where "CFG_RECONNECT_HOLD_CAP_S = 600"

definition CFG_STABLE_SESSION_S :: int where "CFG_STABLE_SESSION_S = 600"

definition CFG_RECONNECT_HOLD_PROD_S :: int where "CFG_RECONNECT_HOLD_PROD_S = 300"

definition CFG_REACHABILITY_PROBE_S :: int where "CFG_REACHABILITY_PROBE_S = 60"

definition CFG_MEAS_TIMEOUT_MS :: int where "CFG_MEAS_TIMEOUT_MS = 120000"

definition verify_wants :: "nat \<Rightarrow> sup \<Rightarrow> bool" where
  "verify_wants i s \<longleftrightarrow> \<not> v_done (sp_vfy s) \<and> v_bank (sp_vfy s) = Some i"

definition ble_quiesce :: "penv \<Rightarrow> bool" where
  "ble_quiesce e \<longleftrightarrow> pe_wifi_down_ms e > CFG_WIFI_QUIESCE_MS \<or> \<not> pe_ble e"

definition session_started :: "penv \<Rightarrow> nat \<Rightarrow> sup \<Rightarrow> sup" where
  "session_started e i s =
     on_na (\<lambda>a. a\<lparr>na_dec := decoder_session_reset i (na_dec a)\<rparr>)
       (poll_unit e i JK_CMD_CELL_INFO
         (poll_unit e i JK_CMD_DEVICE_INFO
           (on_sup_arb (arbiter_clear_pending (se_arb (pe_srv e)) i)
             (upd_su i (\<lambda>u. u\<lparr>su_linkup_us := pe_now e\<rparr>) s))))"

definition session_ended :: "time_us \<Rightarrow> bms_runtime \<Rightarrow> sup_unit \<Rightarrow> sup_unit" where
  "session_ended now rt u =
     (if now - su_linkup_us u \<ge> CFG_STABLE_SESSION_S * 1000000 then u\<lparr>su_hold_s := 0\<rparr>
      else if brt_last_seen_us rt > su_linkup_us u
      then u\<lparr>su_hold_s := 0, su_hold_until_us := now + CFG_RECONNECT_HOLD_PROD_S * 1000000\<rparr>
      else let h = (if su_hold_s u \<noteq> 0 then su_hold_s u * 2 else CFG_RECONNECT_HOLD_BASE_S);
               h = (if h > CFG_RECONNECT_HOLD_CAP_S then CFG_RECONNECT_HOLD_CAP_S else h)
           in u\<lparr>su_hold_s := h, su_hold_until_us := now + int h * 1000000\<rparr>)"

definition mt_link_change :: "penv \<Rightarrow> nat \<Rightarrow> bms_runtime \<Rightarrow> sup \<Rightarrow> sup" where
  "mt_link_change e i rt s =
     (if Some (brt_link rt) \<noteq> su_last_link (sunit s i) then
        let s1 = on_na (tunnel_send_link i (if cfg_name_for e i = '''' \<or> \<not> pe_ble e then LINK_UNREACHABLE else brt_link rt)) s;
            s2 = (if brt_link rt = LINK_UP then session_started e i s1
                  else if su_last_link (sunit s i) = Some LINK_UP then upd_su i (session_ended (pe_now e) rt) s1
                  else s1)
        in upd_su i (\<lambda>u. u\<lparr>su_last_link := Some (brt_link rt)\<rparr>) s2
      else s)"

text \<open>The phone is attached and the link is down.\<close>

definition mt_app_driver :: "penv \<Rightarrow> nat \<Rightarrow> bms_runtime \<Rightarrow> sup \<Rightarrow> sup" where
  "mt_app_driver e i rt s =
     (if \<not> ble_quiesce e \<and> cfg_name_for e i \<noteq> '''' \<and> brt_app_connected rt \<and> \<not> brt_link_held rt \<and>
         pe_now e - su_app_drive_us (sunit s i) > 5000000
      then poll_unit e i JK_CMD_DEVICE_INFO (upd_su i (\<lambda>u. u\<lparr>su_app_drive_us := pe_now e\<rparr>) s)
      else s)"

definition mt_conn_driver :: "penv \<Rightarrow> nat \<Rightarrow> bms_runtime \<Rightarrow> sup \<Rightarrow> sup" where
  "mt_conn_driver e i rt s =
     (if \<not> ble_quiesce e \<and> cfg_name_for e i \<noteq> '''' \<and> \<not> brt_link_held rt \<and> (brt_app_connected rt \<or> verify_wants i s) \<and>
         pe_now e \<ge> su_hold_until_us (sunit s i) \<and> pe_now e - su_conn_drive_us (sunit s i) > 20000000
      then poll_unit e i JK_CMD_DEVICE_INFO (upd_su i (\<lambda>u. u\<lparr>su_conn_drive_us := pe_now e\<rparr>) s)
      else s)"

definition mt_rearm :: "penv \<Rightarrow> nat \<Rightarrow> bms_runtime \<Rightarrow> sup \<Rightarrow> sup" where
  "mt_rearm e i rt s =
     (let stale = (brt_link_held rt \<and> pe_now e - brt_last_seen_us rt > 30000000);
          unarmed = (brt_link_held rt \<and> (case state_snapshot i (a_state (sup_arb s)) of Some b \<Rightarrow> \<not> st_have_cells b | None \<Rightarrow> False))
      in if \<not> ble_quiesce e \<and> (unarmed \<or> stale) \<and> pe_now e - su_rearm_us (sunit s i) > 600000000
         then poll_unit e i JK_CMD_DEVICE_INFO (upd_su i (\<lambda>u. u\<lparr>su_rearm_us := pe_now e\<rparr>) s)
         else s)"

definition mt_silent_opener :: "penv \<Rightarrow> nat \<Rightarrow> bms_runtime \<Rightarrow> sup \<Rightarrow> sup" where
  "mt_silent_opener e i rt s =
     (if \<not> ble_quiesce e \<and> brt_link_held rt \<and> brt_last_seen_us rt < su_linkup_us (sunit s i) \<and>
         pe_now e - su_linkup_us (sunit s i) > 4000000
      then on_na (\<lambda>a. a\<lparr>na_dec := decoder_send_opener (se_arb (pe_srv e)) (pe_wall e) i (na_dec a)\<rparr>) s
      else s)"

definition mt_probe :: "penv \<Rightarrow> nat \<Rightarrow> bms_runtime \<Rightarrow> sup \<Rightarrow> sup" where
  "mt_probe e i rt s =
     (if \<not> ble_quiesce e \<and> cfg_name_for e i \<noteq> '''' \<and> (brt_app_connected rt \<or> verify_wants i s) \<and>
         brt_link rt = LINK_UNREACHABLE \<and> pe_now e \<ge> su_hold_until_us (sunit s i) \<and>
         pe_now e - su_last_probe_us (sunit s i) > CFG_REACHABILITY_PROBE_S * 1000000
      then poll_unit e i JK_CMD_DEVICE_INFO (upd_su i (\<lambda>u. u\<lparr>su_last_probe_us := pe_now e\<rparr>) s)
      else s)"

definition idle_request :: "nat \<Rightarrow> u64 \<Rightarrow> bms_request" where
  "idle_request i ep = zero_request\<lparr>rq_bms_id := i, rq_kind := TXN_DISCONNECT, rq_source := SRC_INTERNAL,
     rq_idle_only := True, rq_idle_epoch := ep\<rparr>"

definition mt_idle_disconnect :: "penv \<Rightarrow> nat \<Rightarrow> bms_runtime \<Rightarrow> sup \<Rightarrow> sup" where
  "mt_idle_disconnect e i rt s =
     (let ref = (if brt_app_left_us rt > brt_link_up_us rt then brt_app_left_us rt else brt_link_up_us rt)
      in if brt_link_held rt \<and> \<not> brt_app_connected rt \<and> \<not> verify_wants i s \<and> ref \<noteq> 0 \<and>
            pe_now e - ref > CFG_IDLE_DISCONNECT_MS * 1000
         then on_sup_arb (set_state (state_clear_app_left_if i (brt_app_left_us rt)))
                (on_sup_arb (arbiter_submit (se_arb (pe_srv e)) (idle_request i (brt_idle_epoch rt))) s)
         else s)"

definition mt_publish :: "penv \<Rightarrow> nat \<Rightarrow> bms_runtime \<Rightarrow> sup \<Rightarrow> sup" where
  "mt_publish e i rt s =
     (if Some (brt_link rt) \<noteq> su_last_link (sunit s i) then add_call (Publish_link i) (upd_su i (\<lambda>u. u\<lparr>su_pub_tick := 0\<rparr>) s)
      else if su_pub_tick (sunit s i) + 1 \<ge> 30 then add_call (Publish_link i) (upd_su i (\<lambda>u. u\<lparr>su_pub_tick := 0\<rparr>) s)
      else upd_su i (\<lambda>u. u\<lparr>su_pub_tick := su_pub_tick u + 1\<rparr>) s)"

definition maintain_unit :: "penv \<Rightarrow> nat \<Rightarrow> sup \<Rightarrow> sup" where
  "maintain_unit e i s =
     (let rt = sup_runtime i s in
      mt_publish e i rt (mt_idle_disconnect e i rt (mt_probe e i rt (mt_silent_opener e i rt (mt_rearm e i rt
        (mt_conn_driver e i rt (mt_app_driver e i rt (mt_link_change e i rt s))))))))"

section \<open>Maintenance of the node\<close>

definition zombie_breaker :: "penv \<Rightarrow> sup \<Rightarrow> sup" where
  "zombie_breaker e s =
     (let since = (if pe_mqtt_up e then 0 else if sp_mqtt_down_since_us s = 0 then pe_now e else sp_mqtt_down_since_us s);
          s1 = s\<lparr>sp_mqtt_down_since_us := since\<rparr>
      in if \<not> pe_mqtt_up e \<and> pe_wifi_up e \<and> since \<noteq> 0 \<and> pe_now e - since > 30000000 \<and>
            pe_now e - sp_zombie_kick_us s > 60000000
         then add_call Wifi_disconnect (s1\<lparr>sp_zombie_kick_us := pe_now e\<rparr>)
         else s1)"

definition force_restore :: "penv \<Rightarrow> nat \<Rightarrow> sup \<Rightarrow> sup" where
  "force_restore e i s =
     (case measure_force_restore (pe_meas_open e) i (a_meas (sup_arb s)) (na_nvs (sp_na s)) of
        (m, v, acks) \<Rightarrow> on_na (\<lambda>a. a\<lparr>na_nvs := v\<rparr>) (on_sup_arb (\<lambda>a. fold send_ack acks (a\<lparr>a_meas := m\<rparr>)) s))"

definition measure_timeout :: "penv \<Rightarrow> sup \<Rightarrow> sup" where
  "measure_timeout e s =
     (case measure_active (a_meas (sup_arb s)) of
        (mb, active) \<Rightarrow>
          if active then
            let start = (if sp_meas_start_us s = 0 then pe_now e else sp_meas_start_us s); s1 = s\<lparr>sp_meas_start_us := start\<rparr>
            in if pe_now e - start > CFG_MEAS_TIMEOUT_MS * 1000 then force_restore e mb s1 else s1
          else s\<lparr>sp_meas_start_us := 0\<rparr>)"

definition maintenance_tick :: "penv \<Rightarrow> sup \<Rightarrow> sup" where
  "maintenance_tick e s =
     measure_timeout e (zombie_breaker e (fold (maintain_unit e) [0 ..< na_units (sp_na s)] s))"

section \<open>The boot-verify round\<close>

definition on_vfy :: "(vfy \<Rightarrow> vfy) \<Rightarrow> sup \<Rightarrow> sup" where
  "on_vfy f s = s\<lparr>sp_vfy := f (sp_vfy s)\<rparr>"

definition promote_unit :: "penv \<Rightarrow> nat \<Rightarrow> sup \<Rightarrow> sup" where
  "promote_unit e i s =
     (if cfg_name_for e i = '''' then s
      else case state_promote_unreachable i (a_state (sup_arb s)) of
        (changed, ss) \<Rightarrow>
          let s1 = on_sup_arb (set_state (\<lambda>_. ss)) s
          in if changed then on_na (tunnel_send_link i LINK_REACHABLE_IDLE) s1 else s1)"

definition verify_finish :: "penv \<Rightarrow> sup \<Rightarrow> sup" where
  "verify_finish e s =
     (let n = na_units (sp_na s);
          rs = map (\<lambda>i. (i, let r = v_result (sp_vfy s) ! i in if r \<noteq> '''' then r else ''skipped'')) [0 ..< n];
          s1 = add_call (Publish_verify (pe_now e div 1000000) rs) s
      in on_vfy (\<lambda>v. v\<lparr>v_done := True\<rparr>) (fold (promote_unit e) [0 ..< n] s1))"

definition verify_verdict :: "penv \<Rightarrow> nat \<Rightarrow> sup \<Rightarrow> string option" where
  "verify_verdict e i s =
     (let rt = sup_runtime i s in
      if cfg_name_for e i = '''' then Some ''parked''
      else if brt_last_frame_us rt > v_start_us (sp_vfy s) then Some ''ok''
      else if pe_now e - v_start_us (sp_vfy s) > 45000000
      then Some (if brt_link_held rt then ''no_frames'' else ''no_connect'')
      else None)"

definition verify_bank :: "penv \<Rightarrow> nat \<Rightarrow> sup \<Rightarrow> sup" where
  "verify_bank e i s =
     (case verify_verdict e i s of
        Some r \<Rightarrow> on_vfy (\<lambda>v. v\<lparr>v_result := (v_result v)[i := r], v_bank := Some (i + 1), v_start_us := pe_now e\<rparr>) s
      | None \<Rightarrow>
          if pe_now e - v_drive_us (sp_vfy s) > 5000000
          then poll_unit e i JK_CMD_DEVICE_INFO (on_vfy (\<lambda>v. v\<lparr>v_drive_us := pe_now e\<rparr>) s)
          else s)"

definition verify_tick :: "penv \<Rightarrow> sup \<Rightarrow> sup" where
  "verify_tick e s =
     (if v_done (sp_vfy s) \<or> \<not> pe_ble e then s
      else if v_bank (sp_vfy s) = None \<and> (\<not> pe_mqtt_up e \<or> pe_now e < 20000000) then s
      else let s1 = (if v_bank (sp_vfy s) = None then on_vfy (\<lambda>v. v\<lparr>v_bank := Some 0, v_start_us := pe_now e\<rparr>) s else s);
               i = the (v_bank (sp_vfy s1))
           in if i \<ge> na_units (sp_na s1) then verify_finish e s1 else verify_bank e i s1)"

section \<open>The tick\<close>

text \<open>A counted action: on every \<open>k\<close>-th pass.\<close>

definition every :: "nat \<Rightarrow> nat \<Rightarrow> bool \<times> nat" where
  "every k c = (if c + 1 \<ge> k then (True, 0) else (False, c + 1))"

definition tick_keepalive :: "penv \<Rightarrow> sup \<Rightarrow> sup" where
  "tick_keepalive e s =
     (case every 15 (sp_ka s) of (fire, c) \<Rightarrow>
        let s1 = s\<lparr>sp_ka := c\<rparr> in if fire \<and> pe_ble e then add_call Keepalive_read s1 else s1)"

definition tick_health :: "penv \<Rightarrow> sup \<Rightarrow> sup" where
  "tick_health e s =
     (case every 15 (sp_hb s) of (fire, c) \<Rightarrow> let s1 = s\<lparr>sp_hb := c\<rparr> in if fire then add_call Publish_health s1 else s1)"

definition tick_refresh :: "penv \<Rightarrow> sup \<Rightarrow> sup" where
  "tick_refresh e s =
     (case every 30 (sp_rf s) of (fire, c) \<Rightarrow>
        let s1 = s\<lparr>sp_rf := c\<rparr> in if fire \<and> na_up (sp_na s1) then on_na (tunnel_srv_refresh (pe_srv e)) s1 else s1)"

definition tick_ota :: "penv \<Rightarrow> sup \<Rightarrow> sup" where
  "tick_ota e s =
     (case every 30 (sp_oa s) of (fire, c) \<Rightarrow>
        let s1 = s\<lparr>sp_oa := c\<rparr>
        in if fire \<and> pe_wifi_up e
           then add_call Ota_mark_valid (if \<not> pe_ota_up e then add_call Ota_start s1 else s1)
           else s1)"

text \<open>One pass of \<^verbatim>\<open>supervisor_task\<close>; the clock is read again for the verification.\<close>

definition supervisor_tick :: "penv \<Rightarrow> penv \<Rightarrow> sup \<Rightarrow> sup" where
  "supervisor_tick e e' s =
     tick_ota e' (tick_refresh e' (tick_health e' (tick_keepalive e' (verify_tick e' (maintenance_tick e (harvest_tick e s))))))"

definition zero_sup_unit :: sup_unit where
  "zero_sup_unit = \<lparr>su_last_link = None, su_linkup_us = 0, su_hold_until_us = 0, su_hold_s = 0, su_last_probe_us = 0,
     su_app_drive_us = 0, su_conn_drive_us = 0, su_rearm_us = 0, su_pub_tick = 0\<rparr>"

definition supervisor_start :: "na \<Rightarrow> sup" where
  "supervisor_start a =
     \<lparr>sp_na = a, sp_units = replicate (na_units a) zero_sup_unit,
      sp_vfy = \<lparr>v_bank = None, v_done = False, v_start_us = 0, v_result = replicate (na_units a) '''', v_drive_us = 0\<rparr>,
      sp_meas_start_us = 0, sp_zombie_kick_us = 0, sp_mqtt_down_since_us = 0, sp_ka = 0, sp_hb = 0, sp_rf = 0, sp_oa = 0,
      sp_calls = []\<rparr>"


section \<open>What the steps leave alone\<close>

lemma sup_frame_simps [simp]:
  "sp_na (upd_su i f s) = sp_na s" "sp_vfy (upd_su i f s) = sp_vfy s" "length (sp_units (upd_su i f s)) = length (sp_units s)"
  "sp_na (add_call c s) = sp_na s" "sp_vfy (add_call c s) = sp_vfy s" "sp_units (add_call c s) = sp_units s"
  "sp_vfy (on_na g s) = sp_vfy s" "sp_units (on_na g s) = sp_units s" "sp_na (on_na g s) = g (sp_na s)"
  "sp_na (on_vfy h s) = sp_na s" "sp_units (on_vfy h s) = sp_units s" "sp_vfy (on_vfy h s) = h (sp_vfy s)"
  by (simp_all add: upd_su_def add_call_def on_na_def on_vfy_def)

lemma sup_arb_simps [simp]:
  "sup_arb (upd_su i f s) = sup_arb s" "sup_arb (add_call c s) = sup_arb s" "sup_arb (on_sup_arb g s) = g (sup_arb s)"
  "sup_arb (on_vfy h s) = sup_arb s"
  by (simp_all add: sup_arb_def on_sup_arb_def na_arb_def on_na_arb_def on_arb_def)

lemma na_arb_on [simp]:
  "na_arb (on_na_arb f a) = f (na_arb a)" "na_arb (a\<lparr>na_nvs := v\<rparr>) = na_arb a" "na_units (a\<lparr>na_nvs := v\<rparr>) = na_units a"
  by (simp_all add: na_arb_def na_units_def on_na_arb_def on_arb_def)

section \<open>Quiet idle\<close>

text \<open>A unit that asks for nothing: its link state is as last seen, no link is held, and there is no demand, or the radio must rest.\<close>

definition unit_idle :: "penv \<Rightarrow> sup \<Rightarrow> nat \<Rightarrow> bool" where
  "unit_idle e s i \<longleftrightarrow>
     (let rt = sup_runtime i s in
      su_last_link (sunit s i) = Some (brt_link rt) \<and> \<not> brt_link_held rt \<and>
      (ble_quiesce e \<or> \<not> brt_app_connected rt \<and> \<not> verify_wants i s))"

lemma maintain_idle:
  assumes "unit_idle e s i"
  shows "maintain_unit e i s = mt_publish e i (sup_runtime i s) s"
  using assms
  by (auto simp: maintain_unit_def Let_def unit_idle_def mt_link_change_def mt_app_driver_def mt_conn_driver_def mt_rearm_def
      mt_silent_opener_def mt_probe_def mt_idle_disconnect_def)

lemma mt_publish_frame [simp]:
  "sp_na (mt_publish e i rt s) = sp_na s" "sp_vfy (mt_publish e i rt s) = sp_vfy s"
  "length (sp_units (mt_publish e i rt s)) = length (sp_units s)"
  "j < length (sp_units s) \<Longrightarrow> su_last_link (sunit (mt_publish e i rt s) j) = su_last_link (sunit s j)"
  by (simp_all add: mt_publish_def) (simp add: upd_su_def add_call_def nth_upd_unit)

lemma idle_cong:
  assumes "sp_na s' = sp_na s" "sp_vfy s' = sp_vfy s" "su_last_link (sunit s' i) = su_last_link (sunit s i)"
  shows "unit_idle e s' i = unit_idle e s i"
  using assms by (simp add: unit_idle_def sup_runtime_def sup_arb_def verify_wants_def)

lemma maintain_all_idle:
  assumes "\<And>i. i \<in> set is \<Longrightarrow> i < length (sp_units s) \<and> unit_idle e s i"
  shows "sp_na (fold (maintain_unit e) is s) = sp_na s \<and> sp_vfy (fold (maintain_unit e) is s) = sp_vfy s"
  using assms
proof (induction "is" arbitrary: s)
  case (Cons i "is")
  let ?s = "maintain_unit e i s"
  have q: "?s = mt_publish e i (sup_runtime i s) s" using Cons.prems by (intro maintain_idle) simp
  have "j < length (sp_units ?s) \<and> unit_idle e ?s j" if "j \<in> set is" for j
    using Cons.prems [of j] that by (simp add: q idle_cong [of "mt_publish e i (sup_runtime i s) s" s])
  from Cons.IH [OF this] show ?case by (simp add: q)
qed simp

lemma send_acks_frame [simp]: "a_in_q (fold send_ack ks a) = a_in_q a" "units (fold send_ack ks a) = units a"
  by (induction ks arbitrary: a) (auto simp: send_ack_def units_def)

lemma measure_timeout_frame [simp]:
  "a_in_q (sup_arb (measure_timeout e s)) = a_in_q (sup_arb s)" "sp_vfy (measure_timeout e s) = sp_vfy s"
  by (auto simp: measure_timeout_def force_restore_def Let_def sup_arb_def on_sup_arb_def split: prod.split)

lemma zombie_frame [simp]: "sp_na (zombie_breaker e s) = sp_na s" "sp_vfy (zombie_breaker e s) = sp_vfy s"
  by (simp_all add: zombie_breaker_def Let_def)

lemma refresh_dec [simp]: "na_dec (tunnel_srv_refresh e a) = na_dec a"
proof -
  have "na_dec (fold (refresh_unit e) is a) = na_dec a" for "is" by (induction "is" arbitrary: a) auto
  then show ?thesis by (simp add: tunnel_srv_refresh_def)
qed

lemma announce_dec [simp]: "na_dec (tunnel_srv_announce e a) = na_dec a"
  by (simp add: tunnel_srv_announce_def announce_table_def split: list.split)

lemma announce_arb [simp]: "na_arb (tunnel_srv_announce e a) = na_arb a" "na_arb (tunnel_srv_refresh e a) = na_arb a"
  by (simp_all add: na_arb_def)

text \<open>What a harvest may change: the durable state, the outgoing frames and the alerts.\<close>

definition quiet_to :: "sup \<Rightarrow> sup \<Rightarrow> bool" where
  "quiet_to s s' \<longleftrightarrow> a_in_q (sup_arb s') = a_in_q (sup_arb s) \<and> a_state (sup_arb s') = a_state (sup_arb s) \<and>
     units (sup_arb s') = units (sup_arb s) \<and> sp_units s' = sp_units s \<and> sp_vfy s' = sp_vfy s"

lemma quiet_refl: "quiet_to s s"
  by (simp add: quiet_to_def)

lemma quiet_trans: "quiet_to s s' \<Longrightarrow> quiet_to s' s'' \<Longrightarrow> quiet_to s s''"
  by (simp add: quiet_to_def)

lemma send_ack_frame [simp]: "a_in_q (send_ack k a) = a_in_q a" "a_state (send_ack k a) = a_state a" "units (send_ack k a) = units a"
  by (simp_all add: send_ack_def units_def)

lemma put_arb [simp]: "na_arb (sup_put_harvest e i h a) = na_arb a"
  by (simp add: sup_put_harvest_def)

lemma quiet_on_na: "na_arb (f (sp_na s)) = na_arb (sp_na s) \<Longrightarrow> quiet_to s (on_na f s)"
  by (simp add: quiet_to_def sup_arb_def)

lemma quiet_alert: "quiet_to s (pub_bridge_alert i what s)"
  by (simp add: quiet_to_def pub_bridge_alert_def) (simp add: on_sup_arb_def)

lemma quiet_announce: "quiet_to s (on_na (tunnel_srv_announce e) (on_na (sup_put_harvest e' i h) s))"
  by (rule quiet_trans [of s "on_na (sup_put_harvest e' i h) s"]) (rule quiet_on_na, simp)+

lemma harvest_quiet: "quiet_to s (harvest_unit e i s)"
  by (auto simp: harvest_unit_def Let_def quiet_refl quiet_announce split: option.split
      intro: quiet_trans [OF quiet_alert quiet_announce])

lemma fold_quiet: "(\<And>i s. quiet_to s (f i s)) \<Longrightarrow> quiet_to s (fold f is s)"
  by (induction "is" arbitrary: s) (auto intro: quiet_refl quiet_trans)

lemma tick_frames [simp]:
  "a_in_q (sup_arb (tick_keepalive e s)) = a_in_q (sup_arb s)" "a_in_q (sup_arb (tick_health e s)) = a_in_q (sup_arb s)"
  "a_in_q (sup_arb (tick_refresh e s)) = a_in_q (sup_arb s)" "a_in_q (sup_arb (tick_ota e s)) = a_in_q (sup_arb s)"
  by (auto simp: tick_keepalive_def tick_health_def tick_refresh_def tick_ota_def Let_def sup_arb_def split: prod.split)



definition sample_sup :: sup where
  "sample_sup = (supervisor_start sample_na)\<lparr>sp_units := [zero_sup_unit\<lparr>su_last_link := Some LINK_REACHABLE_IDLE\<rparr>],
     sp_vfy := \<lparr>v_bank = Some 1, v_done = True, v_start_us = 0, v_result = [''ok''], v_drive_us = 0\<rparr>\<rparr>"

definition sample_penv :: "time_us \<Rightarrow> penv" where
  "sample_penv t = \<lparr>pe_srv = sample_senv\<lparr>se_arb := (se_arb sample_senv)\<lparr>e_now := t\<rparr>\<rparr>, pe_put_ok = (\<lambda>_. True), pe_meas_open = True,
     pe_table = (\<lambda>_. None), pe_wall = 1800000000, pe_wifi_up = True, pe_wifi_down_ms = 0, pe_mqtt_up = True, pe_ota_up = True\<rparr>"

lemma sample_na_units: "na_units sample_na = 1" "a_in_q (na_arb sample_na) = []" "a_state (na_arb sample_na) = state_cache_init 1"
  by (simp_all add: sample_na_def na_units_def na_arb_def sample_dec_def arbiter_start_def units_def)


section \<open>The reconnect ladder\<close>

text \<open>A session that was up for less than the stable time and in which no frame was seen.\<close>

definition silent :: "time_us \<times> time_us \<times> bms_runtime \<Rightarrow> bool" where
  "silent = (\<lambda>(up, down, rt). down - up < CFG_STABLE_SESSION_S * 1000000 \<and> brt_last_seen_us rt \<le> up)"

definition one_session :: "time_us \<times> time_us \<times> bms_runtime \<Rightarrow> sup_unit \<Rightarrow> sup_unit" where
  "one_session = (\<lambda>(up, down, rt) u. session_ended down rt (u\<lparr>su_linkup_us := up\<rparr>))"

lemma silent_session:
  assumes "silent x"
  shows "su_hold_s (one_session x u) = min 600 (if su_hold_s u = 0 then 60 else 2 * su_hold_s u)"
    and "su_hold_until_us (one_session x u) = fst (snd x) + int (su_hold_s (one_session x u)) * 1000000"
  using assms
  by (auto simp: silent_def one_session_def session_ended_def Let_def CFG_RECONNECT_HOLD_BASE_S_def CFG_RECONNECT_HOLD_CAP_S_def
      split: prod.splits)

lemma min_double: "min (600 :: nat) (2 * min 600 x) = min 600 (2 * x)"
  by auto

lemma ladder:
  assumes "list_all silent xs" "xs \<noteq> []" "su_hold_s u = 0"
  shows "su_hold_s (fold one_session xs u) = min 600 (60 * 2 ^ (length xs - 1))"
  using assms
proof (induction xs rule: rev_induct)
  case (snoc x xs)
  show ?case
  proof (cases "xs = []")
    case False
    then have h: "su_hold_s (fold one_session xs u) = min 600 (60 * 2 ^ (length xs - 1))" using snoc by simp
    then have "su_hold_s (fold one_session (xs @ [x]) u) = min 600 (2 * min 600 (60 * 2 ^ (length xs - 1)))"
      using silent_session(1) [of x "fold one_session xs u"] snoc.prems(1) by simp
    also have "\<dots> = min 600 (60 * 2 ^ (length (xs @ [x]) - 1))"
      using False by (cases xs rule: rev_cases) (simp_all add: min_double)
    finally show ?thesis .
  qed (use snoc.prems silent_session(1) [of x u] in simp)
qed simp

text \<open>A pass over a unit whose link is down and on hold: the drivers but the phone's do nothing.\<close>

lemma app_driver_frame:
  "su_hold_until_us (sunit (mt_app_driver e i rt s) i) = su_hold_until_us (sunit s i)"
  by (simp add: mt_app_driver_def poll_unit_def on_sup_arb_def on_na_def upd_su_def nth_upd_unit_field)

lemma maintain_held:
  assumes "pe_now e < su_hold_until_us (sunit s i)" "\<not> brt_link_held (sup_runtime i s)"
    "su_last_link (sunit s i) = Some (brt_link (sup_runtime i s))"
  shows "maintain_unit e i s = mt_publish e i (sup_runtime i s) (mt_app_driver e i (sup_runtime i s) s)"
  using assms app_driver_frame [of e i "sup_runtime i s" s]
  by (simp add: maintain_unit_def Let_def mt_link_change_def mt_conn_driver_def mt_rearm_def mt_silent_opener_def mt_probe_def
      mt_idle_disconnect_def)

lemma maintain_no_phone: "\<not> brt_app_connected rt \<Longrightarrow> mt_app_driver e i rt s = s"
  by (simp add: mt_app_driver_def)

text \<open>
  C24. The reconnect hold. After a unit's \<open>k\<close>-th session in a row that was short and brought no frame, a hold
  of \<open>60 * 2 ^ (k - 1)\<close> seconds, at most ten minutes, is set on it; a short session that brought frames waits five minutes and
  resets the ladder; a session of ten minutes resets it and holds nothing. While the hold lasts, neither the connect
  driver nor the reachability probe submits anything. Moreover a whole maintenance pass over the unit, while its link is
  down and unchanged, does nothing for it but what the app driver does, and so submits nothing
  when no phone is attached. The phone is the exception the code makes on purpose: user intent overrides the hold, and
  an attached phone raises the link every five seconds. The boot-verify round, a separate part of the supervisor, is not
  subject to the hold.
\<close>

theorem reconnect_hold:
  assumes "su_hold_s u = 0"
  shows "(list_all silent xs \<and> xs \<noteq> [] \<longrightarrow>
      su_hold_s (fold one_session xs u) = min 600 (60 * 2 ^ (length xs - 1)) \<and>
      su_hold_until_us (fold one_session xs u) = fst (snd (last xs)) + int (min 600 (60 * 2 ^ (length xs - 1))) * 1000000) \<and>
    (down - up < 600000000 \<and> brt_last_seen_us rt > up \<longrightarrow>
      su_hold_s (one_session (up, down, rt) v) = 0 \<and> su_hold_until_us (one_session (up, down, rt) v) = down + 300000000) \<and>
    (down - up \<ge> 600000000 \<longrightarrow>
      su_hold_s (one_session (up, down, rt) v) = 0 \<and> su_hold_until_us (one_session (up, down, rt) v) = su_hold_until_us v) \<and>
    (pe_now e < su_hold_until_us (sunit s i) \<longrightarrow> mt_probe e i rt (mt_conn_driver e i rt s) = s) \<and>
    (pe_now e < su_hold_until_us (sunit s i) \<and> \<not> brt_link_held (sup_runtime i s) \<and>
        su_last_link (sunit s i) = Some (brt_link (sup_runtime i s)) \<longrightarrow>
      maintain_unit e i s = mt_publish e i (sup_runtime i s) (mt_app_driver e i (sup_runtime i s) s) \<and>
      (\<not> brt_app_connected (sup_runtime i s) \<longrightarrow> sp_na (maintain_unit e i s) = sp_na s))"
proof -
  have "su_hold_until_us (fold one_session xs u) = fst (snd (last xs)) + int (su_hold_s (fold one_session xs u)) * 1000000"
    if xs: "list_all silent xs" "xs \<noteq> []"
  proof -
    obtain ys y where y: "xs = ys @ [y]" using xs(2) by (metis rev_exhaust)
    then show ?thesis using silent_session(2) [of y "fold one_session ys u"] xs(1) by simp
  qed
  then have "list_all silent xs \<and> xs \<noteq> [] \<longrightarrow>
      su_hold_s (fold one_session xs u) = min 600 (60 * 2 ^ (length xs - 1)) \<and>
      su_hold_until_us (fold one_session xs u) = fst (snd (last xs)) + int (min 600 (60 * 2 ^ (length xs - 1))) * 1000000"
    using ladder [OF _ _ assms] by metis
  moreover have "pe_now e < su_hold_until_us (sunit s i) \<and> \<not> brt_link_held (sup_runtime i s) \<and>
        su_last_link (sunit s i) = Some (brt_link (sup_runtime i s)) \<longrightarrow>
      maintain_unit e i s = mt_publish e i (sup_runtime i s) (mt_app_driver e i (sup_runtime i s) s) \<and>
      (\<not> brt_app_connected (sup_runtime i s) \<longrightarrow> sp_na (maintain_unit e i s) = sp_na s)"
    using maintain_held [of e s i] maintain_no_phone [of "sup_runtime i s" e i s] by auto
  ultimately show ?thesis
    by (auto simp: one_session_def session_ended_def CFG_STABLE_SESSION_S_def CFG_RECONNECT_HOLD_PROD_S_def mt_probe_def mt_conn_driver_def)
qed

theorem reconnect_hold_witness:
  "su_hold_s (fold one_session [(0, 30000000, zero_runtime), (90000000, 120000000, zero_runtime), (240000000, 250000000, zero_runtime)]
     zero_sup_unit) = 240"
  using reconnect_hold [of zero_sup_unit "[(0, 30000000, zero_runtime), (90000000, 120000000, zero_runtime), (240000000, 250000000, zero_runtime)]"]
  by (simp add: zero_sup_unit_def silent_def zero_runtime_def CFG_STABLE_SESSION_S_def)

section \<open>The verification ends\<close>

definition verdicts :: "string set" where
  "verdicts = {''parked'', ''ok'', ''no_frames'', ''no_connect''}"

text \<open>The round is running on bank \<open>b\<close> since at most 45 seconds before \<open>t\<close>, and the banks before it have their verdict.\<close>

definition verifying :: "nat \<Rightarrow> time_us \<Rightarrow> sup \<Rightarrow> bool" where
  "verifying n t s \<longleftrightarrow> na_units (sp_na s) = n \<and> \<not> v_done (sp_vfy s) \<and> length (v_result (sp_vfy s)) = n \<and>
     (case v_bank (sp_vfy s) of
        None \<Rightarrow> False
      | Some b \<Rightarrow> b \<le> n \<and> v_start_us (sp_vfy s) \<le> t \<and> t - v_start_us (sp_vfy s) \<le> 45000000 \<and>
                  (b = n \<longrightarrow> v_start_us (sp_vfy s) = t) \<and> (\<forall>j < b. v_result (sp_vfy s) ! j \<in> verdicts))"

definition verified :: "nat \<Rightarrow> sup \<Rightarrow> bool" where
  "verified n s \<longleftrightarrow> v_done (sp_vfy s) \<and>
     (\<exists>t rs. Publish_verify t rs \<in> set (sp_calls s) \<and> map fst rs = [0 ..< n] \<and> (\<forall>(i, r) \<in> set rs. r \<in> verdicts))"

text \<open>How many one-second passes may still be needed.\<close>

definition verify_left :: "nat \<Rightarrow> time_us \<Rightarrow> sup \<Rightarrow> int" where
  "verify_left n t s = 46 * (int n - int (the (v_bank (sp_vfy s)))) + 1 - (t - v_start_us (sp_vfy s)) div 1000000"

lemma verifying_left: "verifying n t s \<Longrightarrow> verify_left n t s \<ge> 1"
  by (auto simp: verifying_def verify_left_def split: option.splits)

lemma vfy_frame [simp]:
  "sp_vfy (on_sup_arb f s) = sp_vfy s" "sp_vfy (poll_unit e i op s) = sp_vfy s" "sp_calls (on_na g s) = sp_calls s"
  "sp_calls (on_sup_arb f s) = sp_calls s" "sp_calls (on_vfy h s) = sp_calls s"
  by (simp_all add: on_sup_arb_def poll_unit_def on_na_def on_vfy_def)

lemma na_units_on [simp]: "units (f (na_arb (sp_na s))) = units (na_arb (sp_na s)) \<Longrightarrow> na_units (sp_na (on_sup_arb f s)) = na_units (sp_na s)"
  by (simp add: on_sup_arb_def na_units_def)

lemma poll_units [simp]: "na_units (sp_na (poll_unit e i op s)) = na_units (sp_na s)"
  by (simp add: poll_unit_def)

lemma promote_vfy: "sp_vfy (fold (promote_unit e) is s) = sp_vfy s \<and> sp_calls (fold (promote_unit e) is s) = sp_calls s"
  by (induction "is" arbitrary: s) (auto simp: promote_unit_def Let_def split: prod.split)

lemma finish_verified:
  assumes "length (v_result (sp_vfy s)) = n" "na_units (sp_na s) = n" "\<forall>j < n. v_result (sp_vfy s) ! j \<in> verdicts"
  shows "verified n (verify_finish e s)"
proof -
  let ?rs = "map (\<lambda>i. (i, let r = v_result (sp_vfy s) ! i in if r \<noteq> '''' then r else ''skipped'')) [0 ..< n]"
  have "Publish_verify (pe_now e div 1000000) ?rs \<in> set (sp_calls (verify_finish e s))"
    by (simp add: verify_finish_def assms(2) Let_def promote_vfy) (simp add: add_call_def)
  moreover have "map fst ?rs = [0 ..< n]" by (simp add: comp_def map_idI)
  moreover have "\<forall>(i, r) \<in> set ?rs. r \<in> verdicts" using assms(3) by (auto simp: verdicts_def)
  moreover have "v_done (sp_vfy (verify_finish e s))" by (simp add: verify_finish_def Let_def)
  ultimately show ?thesis unfolding verified_def by blast
qed

lemma verdict_in: "verify_verdict e i s = Some r \<Longrightarrow> r \<in> verdicts"
  by (auto simp: verify_verdict_def Let_def verdicts_def split: if_splits)

lemma no_verdict: "verify_verdict e i s = None \<Longrightarrow> pe_now e - v_start_us (sp_vfy s) \<le> 45000000"
  by (auto simp: verify_verdict_def Let_def split: if_splits)

lemma verify_bank_none:
  "verify_verdict e i s = None \<Longrightarrow>
     sp_vfy (verify_bank e i s) = (sp_vfy s)\<lparr>v_drive_us := v_drive_us (sp_vfy (verify_bank e i s))\<rparr> \<and>
     na_units (sp_na (verify_bank e i s)) = na_units (sp_na s)"
  by (simp add: verify_bank_def)

text \<open>One pass on a running bank: a verdict moves on, and without one at most 45 seconds have passed.\<close>

lemma verify_bank_step:
  assumes b: "v_bank (sp_vfy s) = Some b" "b < n" "na_units (sp_na s) = n" "\<not> v_done (sp_vfy s)" "length (v_result (sp_vfy s)) = n"
    and old: "\<forall>j < b. v_result (sp_vfy s) ! j \<in> verdicts" and t: "v_start_us (sp_vfy s) \<le> pe_now e"
  shows "verifying n (pe_now e) (verify_bank e b s) \<and>
    (verify_left n (pe_now e) (verify_bank e b s) = 46 * (int n - int b - 1) + 1 \<or>
     verify_left n (pe_now e) (verify_bank e b s) = 46 * (int n - int b) + 1 - (pe_now e - v_start_us (sp_vfy s)) div 1000000)"
proof (cases "verify_verdict e b s")
  case None
  have "sp_vfy (verify_bank e b s) = (sp_vfy s)\<lparr>v_drive_us := v_drive_us (sp_vfy (verify_bank e b s))\<rparr>"
    "na_units (sp_na (verify_bank e b s)) = n"
    using verify_bank_none [OF None] b(3) by blast+
  then have "v_bank (sp_vfy (verify_bank e b s)) = Some b" "v_start_us (sp_vfy (verify_bank e b s)) = v_start_us (sp_vfy s)"
    "v_result (sp_vfy (verify_bank e b s)) = v_result (sp_vfy s)" "\<not> v_done (sp_vfy (verify_bank e b s))"
    using b by (metis vfy.select_convs vfy.update_convs vfy.surjective)+
  then show ?thesis using no_verdict [OF None] b old t \<open>na_units (sp_na (verify_bank e b s)) = n\<close>
    by (simp add: verifying_def verify_left_def)
next
  case (Some r)
  have "\<forall>j < Suc b. (v_result (sp_vfy s))[b := r] ! j \<in> verdicts"
    using old verdict_in [OF Some] b by (auto simp: less_Suc_eq nth_list_update)
  then show ?thesis using Some b t by (auto simp: verify_bank_def verifying_def verify_left_def)
qed


lemma verify_tick_running:
  assumes "\<not> v_done (sp_vfy s)" "v_bank (sp_vfy s) = Some b" "pe_ble e"
  shows "verify_tick e s = (if b \<ge> na_units (sp_na s) then verify_finish e s else verify_bank e b s)"
  using assms by (simp add: verify_tick_def Let_def)

lemma verify_tick_step:
  assumes v: "verifying n t s" and e: "pe_ble e" "t + 1000000 \<le> pe_now e"
  shows "verified n (verify_tick e s) \<or>
    verifying n (pe_now e) (verify_tick e s) \<and> verify_left n (pe_now e) (verify_tick e s) \<le> verify_left n t s - 1"
proof -
  obtain b where b: "v_bank (sp_vfy s) = Some b" "b \<le> n" "v_start_us (sp_vfy s) \<le> t" "t - v_start_us (sp_vfy s) \<le> 45000000"
      "b = n \<longrightarrow> v_start_us (sp_vfy s) = t" "\<forall>j < b. v_result (sp_vfy s) ! j \<in> verdicts"
      "na_units (sp_na s) = n" "\<not> v_done (sp_vfy s)" "length (v_result (sp_vfy s)) = n"
    using v by (auto simp: verifying_def split: option.splits)
  have tick: "verify_tick e s = (if b \<ge> n then verify_finish e s else verify_bank e b s)"
    using verify_tick_running [OF b(8,1) e(1)] b(7) by simp
  have left: "verify_left n t s = 46 * (int n - int b) + 1 - (t - v_start_us (sp_vfy s)) div 1000000"
    by (simp add: verify_left_def b(1))
  show ?thesis
  proof (cases "b = n")
    case True
    then show ?thesis using finish_verified [OF b(9,7)] b(6) tick by simp
  next
    case False
    then have "b < n" using b(2) by simp
    define A B where "A = (t - v_start_us (sp_vfy s)) div 1000000" and "B = (pe_now e - v_start_us (sp_vfy s)) div 1000000"
    have "A \<le> 45000000 div 1000000" unfolding A_def using b(4) by (rule zdiv_mono1) simp
    then have A: "A \<le> 45" by simp
    have "(t - v_start_us (sp_vfy s) + 1000000) div 1000000 \<le> B" unfolding B_def using e(2) by (intro zdiv_mono1) simp_all
    then have B: "A + 1 \<le> B" by (simp add: A_def)
    have start: "v_start_us (sp_vfy s) \<le> pe_now e" using b(3) e(2) by simp
    have "verifying n (pe_now e) (verify_bank e b s) \<and> verify_left n (pe_now e) (verify_bank e b s) \<le> verify_left n t s - 1"
      using verify_bank_step [OF b(1) \<open>b < n\<close> b(7,8,9,6) start] A B unfolding left A_def [symmetric] B_def [symmetric] by auto
    then show ?thesis using tick False b(2) by simp
  qed
qed

text \<open>The other work of the node between two passes: it leaves the round alone and only adds calls.\<close>

definition round_kept :: "(sup \<Rightarrow> sup) \<Rightarrow> bool" where
  "round_kept f \<longleftrightarrow> (\<forall>s. sp_vfy (f s) = sp_vfy s \<and> na_units (sp_na (f s)) = na_units (sp_na s) \<and> set (sp_calls s) \<subseteq> set (sp_calls (f s)))"

fun spaced :: "time_us \<Rightarrow> (penv \<times> (sup \<Rightarrow> sup)) list \<Rightarrow> bool" where
  "spaced t [] \<longleftrightarrow> True"
| "spaced t ((e, f) # xs) \<longleftrightarrow> t + 1000000 \<le> pe_now e \<and> pe_ble e \<and> round_kept f \<and> spaced (pe_now e) xs"

definition verify_passes :: "(penv \<times> (sup \<Rightarrow> sup)) list \<Rightarrow> sup \<Rightarrow> sup" where
  "verify_passes xs s = fold (\<lambda>(e, f) s. verify_tick e (f s)) xs s"

lemma verified_kept: "verified n s \<Longrightarrow> round_kept f \<Longrightarrow> verified n (f s)"
  unfolding verified_def round_kept_def by (metis subsetD)

lemma verified_final: "verified n s \<Longrightarrow> verify_tick e s = s"
  by (simp add: verify_tick_def verified_def)

lemma verified_passes: "verified n s \<Longrightarrow> spaced t xs \<Longrightarrow> verified n (verify_passes xs s)"
proof (induction t xs arbitrary: s rule: spaced.induct)
  case (2 t e f xs)
  then have "verified n (f s)" by (auto intro: verified_kept)
  then show ?case using 2 verified_final [of n "f s" e] by (simp add: verify_passes_def)
qed (simp add: verify_passes_def)

lemma verifying_kept: "round_kept f \<Longrightarrow> verifying n t (f s) = verifying n t s \<and> verify_left n t (f s) = verify_left n t s"
proof -
  assume "round_kept f"
  then have "sp_vfy (f s) = sp_vfy s" "na_units (sp_na (f s)) = na_units (sp_na s)" by (simp_all add: round_kept_def)
  then show ?thesis by (simp only: verifying_def verify_left_def)
qed

lemma verify_run:
  assumes "verifying n t s" "spaced t xs" "verify_left n t s \<le> int (length xs)"
  shows "verified n (verify_passes xs s)"
  using assms
proof (induction t xs arbitrary: s rule: spaced.induct)
  case (1 t)
  then show ?case using verifying_left by fastforce
next
  case (2 t e f xs)
  let ?s = "verify_tick e (f s)"
  have v: "verifying n t (f s)" "verify_left n t (f s) = verify_left n t s" using 2 verifying_kept by auto
  have p: "verify_passes ((e, f) # xs) s = verify_passes xs ?s" by (simp add: verify_passes_def)
  consider "verified n ?s" | "verifying n (pe_now e) ?s" "verify_left n (pe_now e) ?s \<le> verify_left n t s - 1"
    using verify_tick_step [OF v(1), of e] v(2) 2(3) by auto
  then show ?case
  proof cases
    case 1
    then show ?thesis unfolding p using 2(3) by (auto intro: verified_passes)
  next
    case 2
    then show ?thesis unfolding p using \<open>spaced t ((e, f) # xs)\<close> \<open>verify_left n t s \<le> _\<close> by (intro "2.IH") auto
  qed
qed

text \<open>
  C14. The boot verification always ends. Once the radio is on and MQTT is up 20 seconds after boot, passes at least a
  second apart conclude every bank: after at most \<open>46 * n + 2\<close> passes, whatever the links, the phones and the other
  work of the node do in between, the round is over, its report, with exactly one verdict per bank, has been published,
  and from then on the verification does nothing.
\<close>

theorem boot_verify_ends:
  assumes s: "v_bank (sp_vfy s) = None" "\<not> v_done (sp_vfy s)" "na_units (sp_na s) = n" "length (v_result (sp_vfy s)) = n"
    and e: "pe_ble e" "pe_mqtt_up e" "20000000 \<le> pe_now e" "round_kept f" and xs: "spaced (pe_now e) xs" "46 * n + 1 \<le> length xs"
  shows "verified n (verify_passes ((e, f) # xs) s) \<and> verify_tick e' (verify_passes ((e, f) # xs) s) = verify_passes ((e, f) # xs) s"
proof -
  let ?s = "on_vfy (\<lambda>v. v\<lparr>v_bank := Some 0, v_start_us := pe_now e\<rparr>) (f s)"
  have k: "sp_vfy (f s) = sp_vfy s" "na_units (sp_na (f s)) = n" using e(4) s(3) by (auto simp: round_kept_def)
  then have tick: "verify_tick e (f s) = (if n = 0 then verify_finish e ?s else verify_bank e 0 ?s)"
    using s e by (simp add: verify_tick_def Let_def)
  have p: "verify_passes ((e, f) # xs) s = verify_passes xs (verify_tick e (f s))" by (simp add: verify_passes_def)
  have v: "verified n (verify_passes ((e, f) # xs) s)"
  proof (cases "n = 0")
    case True
    then have "verified n (verify_tick e (f s))" unfolding tick using finish_verified [of ?s 0 e] k s by simp
    then show ?thesis unfolding p using xs(1) by (rule verified_passes)
  next
    case False
    then have "verifying n (pe_now e) (verify_tick e (f s))" "verify_left n (pe_now e) (verify_tick e (f s)) \<le> 46 * int n + 1"
      unfolding tick using verify_bank_step [of ?s 0 n e] k s by auto
    then show ?thesis unfolding p using xs by (intro verify_run) auto
  qed
  then show ?thesis by (simp add: verified_final [OF v])
qed

definition sample_passes :: "nat \<Rightarrow> nat \<Rightarrow> (penv \<times> (sup \<Rightarrow> sup)) list" where
  "sample_passes j m = map (\<lambda>k. (sample_penv (21000000 + 1000000 * int k), \<lambda>s. s)) [j ..< j + m]"

lemma sample_spaced: "spaced (20000000 + 1000000 * int j) (sample_passes j m)"
proof (induction m arbitrary: j)
  case (Suc m)
  have "sample_passes j (Suc m) = (sample_penv (21000000 + 1000000 * int j), \<lambda>s. s) # sample_passes (Suc j) m"
    by (simp add: sample_passes_def upt_rec)
  then show ?case using Suc [of "Suc j"] by (simp add: sample_penv_def sample_senv_def round_kept_def algebra_simps)
qed (simp add: sample_passes_def)

theorem boot_verify_ends_witness:
  "v_done (sp_vfy (verify_passes ((sample_penv 20000000, \<lambda>s. s) # sample_passes 0 47) (supervisor_start sample_na)))"
proof -
  have "verified 1 (verify_passes ((sample_penv 20000000, \<lambda>s. s) # sample_passes 0 47) (supervisor_start sample_na))"
  proof (rule conjunct1 [OF boot_verify_ends])
    show "spaced (pe_now (sample_penv 20000000)) (sample_passes 0 47)" using sample_spaced [of 0 47] by (simp add: sample_penv_def)
    show "46 * 1 + 1 \<le> length (sample_passes 0 47)" by (simp add: sample_passes_def)
  qed (use sample_na_units in \<open>simp_all add: supervisor_start_def sample_penv_def sample_senv_def round_kept_def\<close>)
  then show ?thesis by (simp add: verified_def)
qed

end
