(* ===== verification/C_Text.thy ===== *)
theory C_Text
  imports Prelude
begin

text \<open>
  Text as the C library writes and reads it: \<^verbatim>\<open>snprintf\<close> with decimal and hexadecimal conversions, the number scanner
  behind \<^verbatim>\<open>atoi\<close>, \<^verbatim>\<open>strtol\<close> and \<^verbatim>\<open>sscanf\<close>, and \<^verbatim>\<open>strtok\<close>. A C string is the list of its characters without the
  terminating zero. The locale \<open>hex_printer\<close> is the interface between the printers of bytes and their readers.
\<close>

section \<open>Printing\<close>

text \<open>\<^verbatim>\<open>snprintf\<close> into a buffer of \<open>n\<close> bytes leaves at most \<open>n - 1\<close> characters.\<close>

definition snprintf :: "nat \<Rightarrow> string \<Rightarrow> string" where
  "snprintf n s = take (n - 1) s"

fun dec_string :: "nat \<Rightarrow> string" where
  "dec_string n = (if n < 10 then [char_of (48 + n)] else dec_string (n div 10) @ [char_of (48 + n mod 10)])"

declare dec_string.simps [simp del]

definition int_string :: "int \<Rightarrow> string" where
  "int_string x = (if x < 0 then ''-'' @ dec_string (nat (- x)) else dec_string (nat x))"

definition hex_digit :: "nat \<Rightarrow> char" where
  "hex_digit d = char_of (if d < 10 then 48 + d else 55 + d)"

definition hex_digit_low :: "nat \<Rightarrow> char" where
  "hex_digit_low d = char_of (if d < 10 then 48 + d else 87 + d)"

text \<open>\<^verbatim>\<open>%02X\<close> and \<^verbatim>\<open>%02x\<close> of one byte, and \<^verbatim>\<open>%02x\<close> of a 32-bit number.\<close>

definition hex_byte :: "byte \<Rightarrow> string" where
  "hex_byte b = [hex_digit (unat b div 16), hex_digit (unat b mod 16)]"

definition hex_byte_low :: "byte \<Rightarrow> string" where
  "hex_byte_low b = [hex_digit_low (unat b div 16), hex_digit_low (unat b mod 16)]"

fun hex_low :: "nat \<Rightarrow> string" where
  "hex_low n = (if n < 16 then [hex_digit_low n] else hex_low (n div 16) @ [hex_digit_low (n mod 16)])"

declare hex_low.simps [simp del]

definition hex2_low :: "nat \<Rightarrow> string" where
  "hex2_low n = (if n < 16 then ''0'' else '''') @ hex_low n"

definition bool_digit :: "bool \<Rightarrow> string" where
  "bool_digit b = (if b then ''1'' else ''0'')"

section \<open>Reading\<close>

definition is_space :: "char \<Rightarrow> bool" where
  "is_space c \<longleftrightarrow> of_char c = (32 :: nat) \<or> 9 \<le> (of_char c :: nat) \<and> (of_char c :: nat) \<le> 13"

definition is_digit :: "char \<Rightarrow> bool" where
  "is_digit c \<longleftrightarrow> 48 \<le> (of_char c :: nat) \<and> (of_char c :: nat) \<le> 57"

definition digits_value :: "string \<Rightarrow> nat" where
  "digits_value = foldl (\<lambda>v c. 10 * v + (of_char c - 48)) 0"

text \<open>White space and a sign: whether the sign is a minus, the rest.\<close>

definition scan_sign :: "string \<Rightarrow> bool \<times> string" where
  "scan_sign s =
     (let s1 = dropWhile is_space s in
      (s1 \<noteq> [] \<and> hd s1 = CHR ''-'',
       if s1 \<noteq> [] \<and> (hd s1 = CHR ''-'' \<or> hd s1 = CHR ''+'') then tl s1 else s1))"

text \<open>White space, a sign, decimal digits: whether the sign is a minus, the digits, the rest.\<close>

definition scan_number :: "string \<Rightarrow> bool \<times> string \<times> string" where
  "scan_number s = (case scan_sign s of (neg, s2) \<Rightarrow> (neg, takeWhile is_digit s2, dropWhile is_digit s2))"

definition c_atoi :: "string \<Rightarrow> int" where
  "c_atoi s = (case scan_number s of (neg, ds, _) \<Rightarrow> if neg then - int (digits_value ds) else int (digits_value ds))"

definition scan_uint :: "string \<Rightarrow> (nat \<times> string) option" where
  "scan_uint s =
     (case scan_number s of
        (neg, ds, r) \<Rightarrow>
          if ds = [] then None
          else let v = digits_value ds in
            Some (if v > 2 ^ 32 - 1 then 2 ^ 32 - 1 else if neg then (2 ^ 32 - v) mod 2 ^ 32 else v, r))"

definition hex_value :: "char \<Rightarrow> nat option" where
  "hex_value c =
     (let n = of_char c :: nat in
      if 48 \<le> n \<and> n \<le> 57 then Some (n - 48)
      else if 65 \<le> n \<and> n \<le> 70 then Some (n - 55)
      else if 97 \<le> n \<and> n \<le> 102 then Some (n - 87) else None)"

definition is_hex :: "char \<Rightarrow> bool" where
  "is_hex c \<longleftrightarrow> hex_value c \<noteq> None"

text \<open>\<^verbatim>\<open>strtol(s, NULL, 16)\<close>: white space, a sign, an optional \<^verbatim>\<open>0x\<close> in front of a digit, digits.\<close>

definition strtol16 :: "string \<Rightarrow> int" where
  "strtol16 s =
     (case scan_sign s of
        (neg, s2) \<Rightarrow>
          let s3 = (if length s2 > 2 \<and> s2 ! 0 = CHR ''0'' \<and> (s2 ! 1 = CHR ''x'' \<or> s2 ! 1 = CHR ''X'') \<and> is_hex (s2 ! 2)
                    then drop 2 s2 else s2);
              v = foldl (\<lambda>v c. 16 * v + the (hex_value c)) 0 (takeWhile is_hex s3)
          in if neg then - int v else int v)"

definition strip_prefix :: "string \<Rightarrow> string \<Rightarrow> string option" where
  "strip_prefix p s = (if take (length p) s = p then Some (drop (length p) s) else None)"

text \<open>\<^verbatim>\<open>strtok\<close>: the next word and what is left behind the character that ended it.\<close>

definition strtok :: "(char \<Rightarrow> bool) \<Rightarrow> string \<Rightarrow> (string \<times> string) option" where
  "strtok sep s =
     (let s1 = dropWhile sep s in
      if s1 = [] then None
      else Some (takeWhile (\<lambda>c. \<not> sep c) s1, drop 1 (dropWhile (\<lambda>c. \<not> sep c) s1)))"

section \<open>Numbers read back\<close>

lemma digit_char: "(d :: nat) < 10 \<Longrightarrow> is_digit (char_of (48 + d)) \<and> \<not> is_space (char_of (48 + d)) \<and> of_char (char_of (48 + d) :: char) - 48 = d"
proof -
  assume d: "d < 10"
  then have "of_char (char_of (48 + d) :: char) = 48 + d" by (simp add: of_char_of)
  with d show ?thesis by (simp add: is_digit_def is_space_def)
qed

lemma dec_string_digits: "list_all is_digit (dec_string n) \<and> dec_string n \<noteq> [] \<and> digits_value (dec_string n) = n"
proof (induction n rule: dec_string.induct)
  case (1 n)
  show ?case
  proof (cases "n < 10")
    case True
    then show ?thesis using digit_char [of n] by (simp add: dec_string.simps [of n] digits_value_def)
  next
    case False
    have "n mod 10 < 10" by simp
    note d = digit_char [OF this]
    show ?thesis using 1 False d by (simp add: dec_string.simps [of n] digits_value_def)
  qed
qed

lemma length_dec_string: "n < 10 ^ k \<Longrightarrow> k > 0 \<Longrightarrow> length (dec_string n) \<le> k"
proof (induction k arbitrary: n)
  case (Suc k)
  show ?case
  proof (cases "n < 10")
    case False
    with Suc.prems have "n div 10 < 10 ^ k" "k > 0" by (cases k; auto simp: less_mult_imp_div_less)+
    with Suc.IH [of "n div 10"] False show ?thesis by (simp add: dec_string.simps [of n])
  qed (simp add: dec_string.simps [of n])
qed simp

lemma digit_no_sign: "is_digit c \<Longrightarrow> \<not> is_space c \<and> c \<noteq> CHR ''-'' \<and> c \<noteq> CHR ''+''"
  by (auto simp: is_digit_def is_space_def)

lemma scan_sign_digit: "is_digit c \<Longrightarrow> scan_sign (c # s) = (False, c # s)"
  using digit_no_sign [of c] by (simp add: scan_sign_def)

lemma scan_number_dec: "list_all (\<lambda>c. \<not> is_digit c) (take 1 r) \<Longrightarrow> scan_number (dec_string i @ r) = (False, dec_string i, r)"
proof -
  assume r: "list_all (\<lambda>c. \<not> is_digit c) (take 1 r)"
  obtain c cs where c: "dec_string i = c # cs" "is_digit c" "list_all is_digit (dec_string i)"
    using dec_string_digits [of i] by (cases "dec_string i") auto
  have r': "takeWhile is_digit r = []" "dropWhile is_digit r = r" using r by (cases r; simp)+
  have "takeWhile is_digit (dec_string i @ r) = dec_string i" "dropWhile is_digit (dec_string i @ r) = r"
    using c(3) r' by (simp_all add: list_all_iff takeWhile_append2 dropWhile_append2)
  then show ?thesis using scan_sign_digit [OF c(2)] c(1) by (simp add: scan_number_def)
qed

lemma scan_uint_dec: "list_all (\<lambda>c. \<not> is_digit c) (take 1 r) \<Longrightarrow> i < 2 ^ 32 \<Longrightarrow> scan_uint (dec_string i @ r) = Some (i, r)"
  using dec_string_digits [of i] by (simp add: scan_uint_def scan_number_dec Let_def)

lemma atoi_dec: "c_atoi (dec_string i) = int i"
  using dec_string_digits [of i] scan_number_dec [of "[]" i] by (simp add: c_atoi_def)

lemma strip_prefix_append [simp]: "strip_prefix p (p @ r) = Some r"
  by (simp add: strip_prefix_def)

section \<open>Words\<close>

lemma strtok_word:
  assumes "w \<noteq> []" "list_all (\<lambda>c. \<not> sep c) w" "sep d"
  shows "strtok sep (w @ d # r) = Some (w, r)"
proof -
  have "dropWhile sep (w @ d # r) = w @ d # r" using assms(1,2) by (cases w) simp_all
  moreover have "takeWhile (\<lambda>c. \<not> sep c) (w @ d # r) = w" "dropWhile (\<lambda>c. \<not> sep c) (w @ d # r) = d # r"
    using assms(2,3) by (simp_all add: list_all_iff takeWhile_append2 dropWhile_append2)
  ultimately show ?thesis by (simp add: strtok_def Let_def)
qed

section \<open>Bytes in hexadecimal\<close>

locale hex_printer =
  fixes digit :: "nat \<Rightarrow> char"
  assumes hex_value_digit: "d < 16 \<Longrightarrow> hex_value (digit d) = Some d"
begin

definition pr :: "byte \<Rightarrow> string" where
  "pr b = [digit (unat b div 16), digit (unat b mod 16)]"

lemma pr_high: "(unat (b :: byte) div 16) < 16"
  using unsigned_less [of b, where ?'a = nat] by simp

lemma pr_plain: "c \<in> set (pr b) \<Longrightarrow> is_hex c"
  using hex_value_digit [OF pr_high [of b]] hex_value_digit [of "unat b mod 16"] by (auto simp: pr_def is_hex_def)

lemma pr_read: "foldl (\<lambda>v c. 16 * v + the (hex_value c)) 0 (pr b) = unat b"
  using hex_value_digit [OF pr_high [of b]] hex_value_digit [of "unat b mod 16"] by (simp add: pr_def)

end

lemma hex_no_sign: "is_hex c \<Longrightarrow> \<not> is_space c \<and> c \<noteq> CHR ''-'' \<and> c \<noteq> CHR ''+'' \<and> c \<noteq> CHR 0x00"
  by (auto simp: is_hex_def hex_value_def is_space_def Let_def split: if_splits)

context hex_printer
begin

lemma strtol_pr: "strtol16 (pr b) = int (unat b)"
proof -
  obtain c d where cd: "pr b = [c, d]" by (simp add: pr_def)
  then have h: "is_hex c" "is_hex d" using pr_plain [of _ b] by simp_all
  then show ?thesis using hex_no_sign [of c] pr_read [of b] by (simp add: strtol16_def scan_sign_def cd)
qed

end

interpretation hexU: hex_printer hex_digit
  by unfold_locales (simp add: hex_value_def hex_digit_def of_char_of Let_def)

interpretation hexL: hex_printer hex_digit_low
  by unfold_locales (simp add: hex_value_def hex_digit_low_def of_char_of Let_def)

lemma hexU_pr: "hexU.pr = hex_byte"
  by (rule ext) (simp add: hexU.pr_def hex_byte_def)

lemma hexL_pr: "hexL.pr = hex_byte_low"
  by (rule ext) (simp add: hexL.pr_def hex_byte_low_def)

end
