(* ===== verification/Mqtt_Task.thy ===== *)
theory Mqtt_Task
  imports Arbiter_Spec C_Text
begin

text \<open>
  The MQTT side of node A, \<^verbatim>\<open>node_a/main/mqtt_task.c\<close>: the gate on publications, the documents published about a unit, and
  the routing of inbound commands to the arbiter, the BLE task and the store.

  A publication is its topic, its payload and whether it is retained. A document built with cJSON is kept as a value
  (the printer is cJSON's); what cJSON makes of a command's body is a parameter. The \<^verbatim>\<open>double\<close> arithmetic of the values is
  written out. The topic parser is \<^verbatim>\<open>sscanf\<close> of the C library: \<^verbatim>\<open>%u\<close> skips white space, takes a sign and digits, and reads a
  number beyond 32 bits as the largest one.
\<close>

section \<open>Definitions\<close>

datatype json = J_null | J_bool bool | J_num rat | J_str string | J_raw string | J_arr "json list" | J_obj "(string \<times> json) list"

datatype payload = P_text string | P_json json

datatype bridge_act = Act_reboot | Act_scan_dump | Act_rawcap int | Act_gattdump nat | Act_set_ble bool

record mqs =
  mq_arb :: arb
  mq_nvs :: nvs
  mq_cli :: bool
  mq_up :: bool
  mq_pubs :: "(string \<times> payload \<times> bool) list"
  mq_acts :: "bridge_act list"
  mq_subs :: "string list"

text \<open>The arbiter's environment, the string \<^verbatim>\<open>id\<close> that cJSON finds in a body, and whether the store opens.\<close>

record menv =
  mn_arb :: env
  mn_id :: "string \<Rightarrow> string option"
  mn_open :: bool

definition CFG_MQTT_BASE :: string where "CFG_MQTT_BASE = ''jkbms''"

definition CFG_MQTT_BRIDGE_STATUS :: string where "CFG_MQTT_BRIDGE_STATUS = CFG_MQTT_BASE @ ''/bridge/status''"

definition topic_of :: "nat \<Rightarrow> nat \<Rightarrow> string \<Rightarrow> string" where
  "topic_of n i leaf = snprintf n (CFG_MQTT_BASE @ ''/'' @ dec_string i @ ''/'' @ leaf)"

definition mqtt_pub :: "string \<Rightarrow> payload \<Rightarrow> bool \<Rightarrow> mqs \<Rightarrow> mqs" where
  "mqtt_pub t p retain s = (if \<not> mq_up s then s else if mq_cli s then s\<lparr>mq_pubs := mq_pubs s @ [(t, p, retain)]\<rparr> else s)"

definition mqtt_publish_scan :: "string \<Rightarrow> mqs \<Rightarrow> mqs" where
  "mqtt_publish_scan j = mqtt_pub (CFG_MQTT_BASE @ ''/bridge/scan'') (P_text j) False"

definition mqtt_publish_gatt :: "string \<Rightarrow> mqs \<Rightarrow> mqs" where
  "mqtt_publish_gatt j = mqtt_pub (CFG_MQTT_BASE @ ''/bridge/gatt'') (P_text j) False"

definition mqtt_publish_verify :: "string \<Rightarrow> mqs \<Rightarrow> mqs" where
  "mqtt_publish_verify j = mqtt_pub (CFG_MQTT_BASE @ ''/bridge/verify'') (P_text j) False"

text \<open>
  The reports built with \<^verbatim>\<open>snprintf\<close>. The up time is in whole seconds; what the SDK says about the heap and the WiFi is an
  argument. The vitals carry the received strength per unit, already as text.
\<close>

definition up_seconds :: "time_us \<Rightarrow> string" where
  "up_seconds now = int_string (now div 1000000)"

definition mqtt_publish_llevent :: "time_us \<Rightarrow> string \<Rightarrow> nat \<Rightarrow> int \<Rightarrow> mqs \<Rightarrow> mqs" where
  \<open>mqtt_publish_llevent now kind i reason =
     mqtt_pub (CFG_MQTT_BASE @ ''/bridge/llevent'')
       (P_text (snprintf 96 (''{"ev":"'' @ kind @ ''","bms":'' @ dec_string i @ '',"reason":"0x'' @ hex2_low (nat (reason mod 2 ^ 32)) @
          ''","up":'' @ up_seconds now @ ''}''))) False\<close>

definition mqtt_publish_ka :: "time_us \<Rightarrow> nat \<Rightarrow> string \<Rightarrow> mqs \<Rightarrow> mqs" where
  \<open>mqtt_publish_ka now links rssi =
     mqtt_pub (CFG_MQTT_BASE @ ''/bridge/ka'')
       (P_text (snprintf 160 (''{"links":'' @ dec_string links @ '',"rssi":{'' @ rssi @ ''},"up":'' @ up_seconds now @ ''}''))) False\<close>

record health =
  he_heap :: u32
  he_min_heap :: u32
  he_ifree :: u32
  he_imin :: u32
  he_rssi :: int
  he_ota :: bool
  he_ble :: bool
  he_conn :: u32
  he_disc :: u32

definition mqtt_publish_health :: "time_us \<Rightarrow> health \<Rightarrow> mqs \<Rightarrow> mqs" where
  \<open>mqtt_publish_health now h s =
     (if \<not> mq_cli s then s
      else mqtt_pub (CFG_MQTT_BASE @ ''/bridge/health'')
        (P_text (snprintf 192 (''{"heap":'' @ dec_string (unat (he_heap h)) @ '',"min_heap":'' @ dec_string (unat (he_min_heap h)) @
           '',"ifree":'' @ dec_string (unat (he_ifree h)) @ '',"imin":'' @ dec_string (unat (he_imin h)) @
           '',"rssi":'' @ int_string (he_rssi h) @ '',"up":'' @ up_seconds now @ '',"ota":'' @ bool_digit (he_ota h) @
           '',"ble":'' @ bool_digit (he_ble h) @ '',"conn":'' @ dec_string (unat (he_conn h)) @
           '',"disc":'' @ dec_string (unat (he_disc h)) @ ''}''))) False s)\<close>

text \<open>Two characters per byte while at least three places are left.\<close>

definition pub_hex :: "nat \<Rightarrow> nat \<Rightarrow> string \<Rightarrow> byte list \<Rightarrow> mqs \<Rightarrow> mqs" where
  "pub_hex cap i leaf data = mqtt_pub (topic_of 40 i leaf) (P_text (concat (map hex_byte (take ((cap - 2) div 2) data)))) False"

definition mqtt_publish_raw :: "nat \<Rightarrow> byte list \<Rightarrow> mqs \<Rightarrow> mqs" where
  "mqtt_publish_raw i = pub_hex 600 i ''raw''"

definition mqtt_publish_appwrite :: "nat \<Rightarrow> byte list \<Rightarrow> mqs \<Rightarrow> mqs" where
  "mqtt_publish_appwrite i = pub_hex 600 i ''appwrite''"

section \<open>Documents\<close>

definition milli :: "int \<Rightarrow> json" where
  "milli x = J_num (fl64 (of_int x / 1000))"

definition cell_json :: "jk_cell \<Rightarrow> json" where
  "cell_json c = J_obj [(''n'', J_num (of_nat (c_n c))), (''v'', milli (uint (c_mv c))),
     (''r'', if c_r_mohm c < 0 then J_null else milli (c_r_mohm c))]"

definition mqtt_publish_cells :: "nat \<Rightarrow> mqs \<Rightarrow> mqs" where
  "mqtt_publish_cells i s =
     (case state_snapshot i (a_state (mq_arb s)) of
        None \<Rightarrow> s
      | Some b \<Rightarrow> if \<not> st_have_cells b then s
                  else mqtt_pub (topic_of 48 i ''state/cells'') (P_json (J_arr (map cell_json (ci_cells (st_cells b))))) False s)"

definition summary_json :: "jk_cell_info \<Rightarrow> json" where
  "summary_json c = J_obj [(''pack_v'', milli (ci_pack_mv c)), (''current'', milli (ci_current_ma c)), (''power'', milli (ci_power_mw c)),
     (''soc'', J_num (of_int (uint (ci_soc_pct c)))), (''cycles'', J_num (of_int (uint (ci_cycle_count c)))),
     (''balancing'', J_bool (ci_balancing c)), (''charging'', J_bool (ci_charging c)), (''discharging'', J_bool (ci_discharging c))]"

definition mqtt_publish_summary :: "nat \<Rightarrow> mqs \<Rightarrow> mqs" where
  "mqtt_publish_summary i s =
     (case state_snapshot i (a_state (mq_arb s)) of
        None \<Rightarrow> s
      | Some b \<Rightarrow> if \<not> st_have_cells b then s else mqtt_pub (topic_of 48 i ''state/summary'') (P_json (summary_json (st_cells b))) False s)"

definition settings_json :: "jk_settings \<Rightarrow> json" where
  "settings_json c = J_obj [(''balance_trigger_voltage'', J_num (se_balance_trigger_v c)), (''balance_start_voltage'', J_num (se_balance_start_v c)),
     (''cell_count'', J_num (of_int (uint (se_cell_count_set c)))), (''balance_current'', J_num (se_balance_current_a c)),
     (''balancing_enabled'', J_bool (se_balancing_enabled c))]"

definition mqtt_publish_settings :: "nat \<Rightarrow> mqs \<Rightarrow> mqs" where
  "mqtt_publish_settings i s =
     (case state_snapshot i (a_state (mq_arb s)) of
        None \<Rightarrow> s
      | Some b \<Rightarrow> if \<not> st_have_settings b then s else mqtt_pub (topic_of 48 i ''state/settings'') (P_json (settings_json (st_settings b))) True s)"

definition faults_json :: "jk_cell_info \<Rightarrow> json" where
  "faults_json c = J_obj [(''error_bitmask'', J_num (of_int (uint (ci_error_bitmask c)))), (''wire_warn_bitmask'', J_num (of_int (uint (ci_wire_warn_bitmask c))))]"

definition mqtt_publish_faults :: "nat \<Rightarrow> mqs \<Rightarrow> mqs" where
  "mqtt_publish_faults i s =
     (case state_snapshot i (a_state (mq_arb s)) of
        None \<Rightarrow> s
      | Some b \<Rightarrow> if \<not> st_have_cells b then s else mqtt_pub (topic_of 48 i ''state/faults'') (P_json (faults_json (st_cells b))) True s)"

definition link_json :: "bms_runtime \<Rightarrow> json" where
  "link_json rt = J_obj [(''reachability'', J_num (of_int (uint (link_byte (brt_link rt))))), (''app_connected'', J_bool (brt_app_connected rt)),
     (''last_seen'', J_num (of_int (brt_last_seen_us rt div 1000000)))]"

definition mqtt_publish_link :: "nat \<Rightarrow> mqs \<Rightarrow> mqs" where
  "mqtt_publish_link i s = mqtt_pub (topic_of 48 i ''state/link'') (P_json (link_json (state_get_runtime i (a_state (mq_arb s))))) True s"

definition mqtt_publish_meas :: "nat \<Rightarrow> string \<Rightarrow> mqs \<Rightarrow> mqs" where
  "mqtt_publish_meas i j = mqtt_pub (topic_of 48 i ''state/meas'') (P_text j) True"

text \<open>The arguments of the C function: NULL is \<open>None\<close>.\<close>

definition ack_json :: "string \<Rightarrow> string option \<Rightarrow> string \<Rightarrow> string option \<Rightarrow> string option \<Rightarrow> json" where
  "ack_json cmd cid status detail readback =
     J_obj ([(''cmd'', J_str cmd)] @ (case cid of Some c \<Rightarrow> if c \<noteq> '''' then [(''id'', J_str c)] else [] | None \<Rightarrow> []) @
       [(''status'', J_str status)] @ (case detail of Some d \<Rightarrow> [(''detail'', J_str d)] | None \<Rightarrow> []) @
       (case readback of Some r \<Rightarrow> [(''readback'', J_raw r)] | None \<Rightarrow> []))"

definition mqtt_ack :: "nat \<Rightarrow> string \<Rightarrow> string option \<Rightarrow> string \<Rightarrow> string option \<Rightarrow> string option \<Rightarrow> mqs \<Rightarrow> mqs" where
  "mqtt_ack i cmd cid status detail readback =
     mqtt_pub (topic_of 48 i ''ack'') (P_json (ack_json cmd cid status detail readback)) False"

section \<open>Commands\<close>

text \<open>\<^verbatim>\<open>sscanf(topic, CFG_MQTT_BASE "/%u/cmd/%31s", &id, what) == 2\<close>\<close>

definition scan_topic :: "string \<Rightarrow> (nat \<times> string) option" where
  "scan_topic t =
     (case strip_prefix (CFG_MQTT_BASE @ ''/'') t of
        None \<Rightarrow> None
      | Some r \<Rightarrow>
          (case scan_uint r of
             None \<Rightarrow> None
           | Some (i, r1) \<Rightarrow>
               (case strip_prefix ''/cmd/'' r1 of
                  None \<Rightarrow> None
                | Some r2 \<Rightarrow>
                    let w = take 31 (takeWhile (\<lambda>c. \<not> is_space c) (dropWhile is_space r2)) in
                    if w = [] then None else Some (i, w))))"

definition bridge_cmd :: "string \<Rightarrow> string" where
  "bridge_cmd c = CFG_MQTT_BASE @ ''/bridge/cmd/'' @ c"

definition act :: "bridge_act \<Rightarrow> mqs \<Rightarrow> mqs" where
  "act b s = s\<lparr>mq_acts := mq_acts s @ [b]\<rparr>"

definition ble_on_payload :: "string \<Rightarrow> bool" where
  "ble_on_payload d \<longleftrightarrow> (d ! 0 = CHR ''1'' \<or> d ! 0 = CHR ''o'' \<or> d ! 0 = CHR ''O'') \<and>
     \<not> (length d \<ge> 2 \<and> (d ! 1 = CHR ''f'' \<or> d ! 1 = CHR ''F''))"

text \<open>A command to the bridge clears its retained copy first.\<close>

definition on_bridge_cmd :: "menv \<Rightarrow> string \<Rightarrow> string \<Rightarrow> mqs \<Rightarrow> mqs option" where
  "on_bridge_cmd e t d s =
     (let s1 = mqtt_pub t (P_text '''') True s in
      if t = bridge_cmd ''reboot'' then Some (act Act_reboot s1)
      else if t = bridge_cmd ''scan'' then Some (act Act_scan_dump s1)
      else if t = bridge_cmd ''rawcap'' then Some (act (Act_rawcap (c_atoi (take 7 d))) s1)
      else if t = bridge_cmd ''gattdump'' then Some (act (Act_gattdump (nat (c_atoi (take 7 d) mod 256))) s1)
      else if t = bridge_cmd ''ble'' then Some (act (Act_set_ble (ble_on_payload d)) s1)
      else if t = bridge_cmd ''nvsclear''
      then Some (act Act_reboot (s1\<lparr>mq_nvs := nvs_clear_harvest_all (mn_open e) (mq_nvs s1)\<rparr>))
      else None)"

definition on_unit_cmd :: "menv \<Rightarrow> nat \<Rightarrow> string \<Rightarrow> string \<Rightarrow> mqs \<Rightarrow> mqs" where
  "on_unit_cmd e i what body s =
     (let cid = (case mn_id e body of Some x \<Rightarrow> take 31 x | None \<Rightarrow> '''');
          a = mn_arb e
      in if what = ''balance/set'' then s\<lparr>mq_arb := arbiter_balance_set a i (Some body) (Some cid) (mq_arb s)\<rparr>
         else if what = ''measure'' then s\<lparr>mq_arb := arbiter_measure a i (Some cid) (mq_arb s)\<rparr>
         else if what = ''refresh'' then s\<lparr>mq_arb := arbiter_refresh a i (Some cid) (mq_arb s)\<rparr>
         else if what = ''bounce'' then s\<lparr>mq_arb := arbiter_bounce a i (mq_arb s)\<rparr>
         else s)"

definition on_cmd :: "menv \<Rightarrow> string \<Rightarrow> string \<Rightarrow> mqs \<Rightarrow> mqs" where
  "on_cmd e t d s =
     (if t = [] \<or> length t \<ge> 64 \<or> d = [] \<or> length d \<ge> 192 \<or> CHR 0x00 \<in> set t \<or> CHR 0x00 \<in> set d then s
      else case on_bridge_cmd e t d s of
        Some s1 \<Rightarrow> s1
      | None \<Rightarrow>
          (case scan_topic t of
             None \<Rightarrow> s
           | Some (i, what) \<Rightarrow> if i \<ge> units (mq_arb s) then s else on_unit_cmd e i what d s))"

datatype mqtt_ev = Mq_connected int u32 | Mq_disconnected | Mq_data bool int int string string

definition online_text :: string where
  \<open>online_text = ''{"online":true}''\<close>

text \<open>The reset reason and the free heap come from the SDK with the event.\<close>

definition boot_text :: "int \<Rightarrow> u32 \<Rightarrow> string" where
  \<open>boot_text reason heap = snprintf 64 (''{"reset_reason":'' @ int_string reason @ '',"heap":'' @ dec_string (unat heap) @ ''}'')\<close>

fun ev_handler :: "menv \<Rightarrow> mqtt_ev \<Rightarrow> mqs \<Rightarrow> mqs" where
  "ev_handler e (Mq_connected reason heap) s =
     (let s1 = mqtt_pub (CFG_MQTT_BASE @ ''/bridge/boot'') (P_text (boot_text reason heap)) True
                 (mqtt_pub CFG_MQTT_BRIDGE_STATUS (P_text online_text) True (s\<lparr>mq_up := True\<rparr>))
      in fold mqtt_publish_link [0 ..< units (mq_arb s)] (s1\<lparr>mq_subs := mq_subs s1 @ [CFG_MQTT_BASE @ ''/+/cmd/#'']\<rparr>))"
| "ev_handler e Mq_disconnected s = s\<lparr>mq_up := False\<rparr>"
| "ev_handler e (Mq_data retained offset tlen t d) s =
     (if \<not> command_event_valid retained offset tlen (int (length d)) (int (length t)) then s else on_cmd e t d s)"

definition mqtt_start :: "mqs \<Rightarrow> mqs" where
  "mqtt_start s = s\<lparr>mq_cli := True\<rparr>"


section \<open>Topics\<close>

definition unit_topic :: "nat \<Rightarrow> string \<Rightarrow> string" where
  "unit_topic i what = CFG_MQTT_BASE @ ''/'' @ dec_string i @ ''/cmd/'' @ what"

lemma scan_unit_topic:
  assumes "i < 2 ^ 32" "what \<noteq> ''''" "length what \<le> 31" "list_all (\<lambda>c. \<not> is_space c) what"
  shows "scan_topic (unit_topic i what) = Some (i, what)"
proof -
  have w: "dropWhile is_space what = what" "takeWhile (\<lambda>c. \<not> is_space c) what = what"
    using assms(2,4) by (cases what; auto simp: list_all_iff)+
  have "scan_uint (dec_string i @ ''/cmd/'' @ what) = Some (i, ''/cmd/'' @ what)"
    using assms(1) by (intro scan_uint_dec) (simp_all add: is_digit_def)
  moreover have "strip_prefix (CFG_MQTT_BASE @ ''/'') (unit_topic i what) = Some (dec_string i @ ''/cmd/'' @ what)"
    using strip_prefix_append [of "CFG_MQTT_BASE @ ''/''" "dec_string i @ ''/cmd/'' @ what"] by (simp add: unit_topic_def)
  moreover have "strip_prefix ''/cmd/'' (''/cmd/'' @ what) = Some what" by (rule strip_prefix_append)
  moreover have "take 31 (takeWhile (\<lambda>c. \<not> is_space c) (dropWhile is_space what)) = what" unfolding w using assms(3) by simp
  ultimately show ?thesis using assms(2) unfolding scan_topic_def Let_def by (simp only: option.simps prod.case if_False)
qed

lemma unit_topic_not_bridge: "unit_topic i what \<noteq> bridge_cmd c"
proof
  assume "unit_topic i what = bridge_cmd c"
  then have *: "dec_string i @ ''/cmd/'' @ what = ''bridge/cmd/'' @ c" by (simp add: unit_topic_def bridge_cmd_def)
  obtain d ds where "dec_string i = d # ds" "is_digit d" using dec_string_digits [of i] by (cases "dec_string i") auto
  with * show False by (auto simp: is_digit_def)
qed

lemma rejected_event:
  "retained \<or> offset \<noteq> 0 \<or> tlen \<noteq> int (length b) \<or> length b \<ge> 192 \<or> length t \<ge> 64 \<or> b = '''' \<or> t = '''' \<or>
     CHR 0x00 \<in> set t \<or> CHR 0x00 \<in> set b \<Longrightarrow> ev_handler e (Mq_data retained offset tlen t b) s = s"
  unfolding ev_handler.simps command_event_valid_def on_cmd_def by (elim disjE) simp_all

lemma mqtt_pub_frame [simp]:
  "mq_arb (mqtt_pub t p r s) = mq_arb s" "mq_acts (mqtt_pub t p r s) = mq_acts s"
  by (simp_all add: mqtt_pub_def)

lemma bridge_cmd_effect:
  "on_bridge_cmd e t b s = Some s' \<Longrightarrow> mq_arb s' = mq_arb s \<and>
     mq_pubs s' = mq_pubs (mqtt_pub t (P_text '''') True s) \<and> (\<exists>x. mq_acts s' = mq_acts s @ [x])"
  unfolding on_bridge_cmd_def Let_def act_def by (force split: if_split_asm)

text \<open>
  C20. A command reaches exactly the unit its topic names. A complete, fresh message on the command topic of a unit of the
  fleet makes exactly the arbiter call of its kind, with the whole body and the correlation id found in it; on any other
  topic of that shape nothing happens. A message that is retained, fragmented, empty, over-long or carries a
  zero byte has no effect at all. A command to the bridge clears its retained copy before its one action, and
  submits nothing to the arbiter.
\<close>

theorem mqtt_command_routed:
  assumes "i < units (mq_arb s)" "units (mq_arb s) \<le> 255"
    and d: "d \<noteq> ''''" "length d < 192" "CHR 0x00 \<notin> set d"
    and what: "what \<noteq> ''''" "length what \<le> 31" "list_all (\<lambda>c. \<not> is_space c) what" "CHR 0x00 \<notin> set what"
  shows "ev_handler e (Mq_data False 0 (int (length d)) (unit_topic i what) d) s =
      (let cid = Some (case mn_id e d of Some x \<Rightarrow> take 31 x | None \<Rightarrow> ''''); a = mn_arb e in
       if what = ''balance/set'' then s\<lparr>mq_arb := arbiter_balance_set a i (Some d) cid (mq_arb s)\<rparr>
       else if what = ''measure'' then s\<lparr>mq_arb := arbiter_measure a i cid (mq_arb s)\<rparr>
       else if what = ''refresh'' then s\<lparr>mq_arb := arbiter_refresh a i cid (mq_arb s)\<rparr>
       else if what = ''bounce'' then s\<lparr>mq_arb := arbiter_bounce a i (mq_arb s)\<rparr>
       else s) \<and>
    (retained \<or> offset \<noteq> 0 \<or> tlen \<noteq> int (length b) \<or> length b \<ge> 192 \<or> length t \<ge> 64 \<or> b = [] \<or> t = [] \<or>
      CHR 0x00 \<in> set t \<or> CHR 0x00 \<in> set b \<longrightarrow> ev_handler e (Mq_data retained offset tlen t b) s = s) \<and>
    (\<forall>s'. on_bridge_cmd e t b s = Some s' \<longrightarrow> mq_arb s' = mq_arb s \<and>
      mq_pubs s' = mq_pubs (mqtt_pub t (P_text []) True s) \<and> (\<exists>x. mq_acts s' = mq_acts s @ [x]))"
proof -
  have "i < 255" using assms(1,2) by simp
  then have l: "length (dec_string i) \<le> 3" using length_dec_string [of i 3] by simp
  have z: "CHR 0x00 \<notin> set (unit_topic i what)"
    using dec_string_digits [of i] what(4) by (auto simp: unit_topic_def CFG_MQTT_BASE_def list_all_iff is_digit_def)
  have t: "unit_topic i what \<noteq> ''''" "length (unit_topic i what) < 64"
    using l what(2) by (simp_all add: unit_topic_def CFG_MQTT_BASE_def)
  have n: "on_bridge_cmd e (unit_topic i what) d s = None" by (simp add: on_bridge_cmd_def Let_def unit_topic_not_bridge)
  have st: "scan_topic (unit_topic i what) = Some (i, what)" using \<open>i < 255\<close> what(1-3) by (intro scan_unit_topic) simp_all
  have "ev_handler e (Mq_data False 0 (int (length d)) (unit_topic i what) d) s =
      (let cid = Some (case mn_id e d of Some x \<Rightarrow> take 31 x | None \<Rightarrow> ''''); a = mn_arb e in
       if what = ''balance/set'' then s\<lparr>mq_arb := arbiter_balance_set a i (Some d) cid (mq_arb s)\<rparr>
       else if what = ''measure'' then s\<lparr>mq_arb := arbiter_measure a i cid (mq_arb s)\<rparr>
       else if what = ''refresh'' then s\<lparr>mq_arb := arbiter_refresh a i cid (mq_arb s)\<rparr>
       else if what = ''bounce'' then s\<lparr>mq_arb := arbiter_bounce a i (mq_arb s)\<rparr>
       else s)"
    using d t z assms(1) by (simp add: command_event_valid_def on_cmd_def n st on_unit_cmd_def Let_def)
  then show ?thesis using rejected_event [of retained offset tlen b t e s] bridge_cmd_effect [of e t b s] by blast
qed

definition sample_mqs :: mqs where
  "sample_mqs = \<lparr>mq_arb = arbiter_start 1 sample_meas, mq_nvs = \<lparr>nv_harvest = Map.empty, nv_ble_en = None, nv_meas = None\<rparr>,
     mq_cli = True, mq_up = True, mq_pubs = [], mq_acts = [], mq_subs = []\<rparr>"

theorem mqtt_command_routed_witness:
  "a_in_q (mq_arb (ev_handler \<lparr>mn_arb = sample_env sample_doc, mn_id = (\<lambda>_. Some ''c7''), mn_open = True\<rparr>
     (Mq_data False 0 2 (unit_topic 0 ''measure'') ''{}'') sample_mqs)) = [ARB_MQTT 0 MQTT_MEASURE '''' ''c7'']"
proof -
  have "0 < units (mq_arb sample_mqs)" "units (mq_arb sample_mqs) \<le> 255" by (simp_all add: sample_mqs_def arbiter_start_def units_def)
  from conjunct1 [OF mqtt_command_routed [OF this, of "''{}''" "''measure''" "\<lparr>mn_arb = sample_env sample_doc, mn_id = (\<lambda>_. Some ''c7''), mn_open = True\<rparr>"]]
  show ?thesis
    by (simp add: is_space_def arbiter_measure_def submit_mqtt_def arb_in_send_def sample_env_def sample_mqs_def arbiter_start_def units_def Let_def)
qed

end
