(* ===== verification/Ble_Diag.thy ===== *)
theory Ble_Diag
  imports Mqtt_Task Ble_Model
begin

text \<open>
  The diagnostics of \<^verbatim>\<open>node_a/main/ble_owner.c\<close> that end as text on MQTT: the walk over all services and characteristics of a
  unit (\<^verbatim>\<open>gattdump\<close>), the list of advertising devices, the link vitals, and what becomes of each publication of the BLE task.

  The walk is driven by NimBLE callbacks. Its state is \<open>gd\<close> (\<^verbatim>\<open>s_gd\<close> and \<^verbatim>\<open>s_gd_req\<close>): \<open>gd_json\<close> is the text in the buffer up
  to its zero byte, \<open>gd_jo\<close> the write position, one past it when the last print was cut. The return code of starting the
  walk of the \<open>k\<close>-th service is a parameter; the text of a UUID is what \<^verbatim>\<open>ble_uuid_to_str\<close> makes of it.
\<close>

section \<open>The GATT walk\<close>

record walk_svc =
  gs_uuid :: string
  gs_start :: u16
  gs_end :: u16

record walk_chr =
  gc_uuid :: string
  gc_props :: byte

record gd =
  gd_svcs :: "walk_svc list"
  gd_cur :: int
  gd_conn :: u16
  gd_bms_id :: nat
  gd_active :: bool
  gd_json :: string
  gd_jo :: nat
  gd_req :: "nat option"
  gd_calls :: "(u16 \<times> u16) list"
  gd_pub :: "string list"

definition GD_MAX_SVCS :: nat where "GD_MAX_SVCS = 12"
definition GD_JSON_SIZE :: nat where "GD_JSON_SIZE = 1792"

definition ble_owner_gattdump :: "nat \<Rightarrow> gd \<Rightarrow> gd" where
  "ble_owner_gattdump i g = g\<lparr>gd_req := Some i\<rparr>"

definition gd_append :: "string \<Rightarrow> gd \<Rightarrow> gd" where
  "gd_append t g =
     (let left = int GD_JSON_SIZE - int (gd_jo g) - 1 in
      if left \<le> 0 then g
      else g\<lparr>gd_json := gd_json g @ take (nat left - 1) t,
             gd_jo := gd_jo g + (if int (length t) < left then length t else nat left)\<rparr>)"

definition gd_finish :: "gd \<Rightarrow> gd" where
  "gd_finish g = (let g = gd_append '']}]}'' g in g\<lparr>gd_pub := gd_pub g @ [gd_json g], gd_active := False\<rparr>)"

text \<open>Whether the last character printed closes an object: the next characteristic needs a comma then.\<close>

definition gd_after_object :: "gd \<Rightarrow> bool" where
  "gd_after_object g \<longleftrightarrow> gd_jo g \<noteq> 0 \<and> gd_jo g - 1 < length (gd_json g) \<and> gd_json g ! (gd_jo g - 1) = CHR ''}''"

lemma gd_append_frame [simp]:
  "gd_svcs (gd_append t g) = gd_svcs g" "gd_cur (gd_append t g) = gd_cur g" "gd_pub (gd_append t g) = gd_pub g"
  "gd_active (gd_append t g) = gd_active g" "gd_req (gd_append t g) = gd_req g" "gd_calls (gd_append t g) = gd_calls g"
  "gd_conn (gd_append t g) = gd_conn g"
  by (simp_all add: gd_append_def Let_def)

definition svc_text :: "bool \<Rightarrow> walk_svc \<Rightarrow> string" where
  \<open>svc_text later sv = (if later then '']},'' else '''') @ ''{"svc":"'' @ gs_uuid sv @ ''","chrs":[''\<close>

function gd_next_svc :: "(nat \<Rightarrow> int) \<Rightarrow> gd \<Rightarrow> gd" where
  "gd_next_svc rc g =
     (let g1 = g\<lparr>gd_cur := gd_cur g + 1\<rparr> in
      if gd_cur g1 \<ge> int (length (gd_svcs g1)) then gd_finish g1
      else let sv = gd_svcs g1 ! nat (gd_cur g1);
               g2 = gd_append (svc_text (gd_cur g1 \<noteq> 0) sv) g1;
               g3 = g2\<lparr>gd_calls := gd_calls g2 @ [(gs_start sv, gs_end sv)]\<rparr>
           in if rc (nat (gd_cur g3)) \<noteq> 0 then gd_next_svc rc g3 else g3)"
  by pat_completeness auto

termination
  by (relation "measure (\<lambda>(rc, g). nat (int (length (gd_svcs g)) - gd_cur g))") auto

declare gd_next_svc.simps [simp del]

text \<open>A callback: the status (NULL is \<open>None\<close>) and the entry, if any.\<close>

definition chr_text :: "bool \<Rightarrow> walk_chr \<Rightarrow> string" where
  \<open>chr_text comma c = (if comma then '','' else '''') @ ''{"u":"'' @ gc_uuid c @ ''","p":'' @ dec_string (unat (gc_props c)) @ ''}''\<close>

definition gd_chr_cb :: "(nat \<Rightarrow> int) \<Rightarrow> int option \<Rightarrow> walk_chr option \<Rightarrow> gd \<Rightarrow> gd" where
  "gd_chr_cb rc err chr g =
     (let g1 = (case chr of Some c \<Rightarrow> gd_append (chr_text (gd_after_object g) c) g | None \<Rightarrow> g) in
      case err of Some st \<Rightarrow> if st = BLE_HS_EDONE then gd_next_svc rc g1 else if st \<noteq> 0 then gd_next_svc rc g1 else g1
      | None \<Rightarrow> g1)"

definition gd_svc_cb :: "(nat \<Rightarrow> int) \<Rightarrow> int option \<Rightarrow> walk_svc option \<Rightarrow> gd \<Rightarrow> gd" where
  "gd_svc_cb rc err svc g =
     (let g1 = (case svc of Some sv \<Rightarrow> if length (gd_svcs g) < GD_MAX_SVCS then g\<lparr>gd_svcs := gd_svcs g @ [sv]\<rparr> else g | None \<Rightarrow> g) in
      case err of
        None \<Rightarrow> g1
      | Some st \<Rightarrow>
          if st = BLE_HS_EDONE \<or> st \<noteq> 0
          then if st = BLE_HS_EDONE \<and> length (gd_svcs g1) \<noteq> 0 then gd_next_svc rc (g1\<lparr>gd_cur := -1\<rparr>)
               else if st \<noteq> BLE_HS_EDONE then g1\<lparr>gd_active := False\<rparr> else g1
          else g1)"

text \<open>\<open>rc0\<close> is the return code of starting the service discovery.\<close>

definition do_gatt_dump :: "int \<Rightarrow> nat \<Rightarrow> bo \<Rightarrow> gd \<Rightarrow> gd" where
  \<open>do_gatt_dump rc0 i s g =
     (let conn = (case link_by_bms i s of Some k \<Rightarrow> l_conn_handle (lnk s k) | None \<Rightarrow> 0) in
      if conn = 0 then g
      else let g1 = gd_append (''{"id":'' @ dec_string i @ '',"svcs":['')
                 (g\<lparr>gd_svcs := [], gd_cur := 0, gd_json := [], gd_jo := 0, gd_conn := conn, gd_bms_id := i, gd_active := True\<rparr>)
           in if rc0 \<noteq> 0 then g1\<lparr>gd_active := False\<rparr> else g1)\<close>

text \<open>The part of a turn of \<^verbatim>\<open>ble_owner_task\<close> that serves a request.\<close>

definition serve_gatt_req :: "int \<Rightarrow> bo \<Rightarrow> gd \<Rightarrow> gd" where
  "serve_gatt_req rc0 s g =
     (case gd_req g of
        Some i \<Rightarrow> if \<not> gd_active g then do_gatt_dump rc0 i s (g\<lparr>gd_req := None\<rparr>) else g
      | None \<Rightarrow> g)"

text \<open>The whole turn: the walk is served between the renegotiation and the request.\<close>

definition ble_owner_full_turn :: "int \<Rightarrow> benv \<Rightarrow> bms_request option \<Rightarrow> bo \<times> gd \<Rightarrow> bo \<times> gd" where
  "ble_owner_full_turn rc0 e ro p =
     (case p of (s, g) \<Rightarrow> (ble_owner_turn e ro s, serve_gatt_req rc0 (renegotiate e (serve_scan_req e s)) g))"

section \<open>The list of devices\<close>

text \<open>\<^verbatim>\<open>o += snprintf(buf + o, sizeof(buf) - o, ...)\<close>: the position advances by the length of the uncut text.\<close>

definition buf_printf :: "nat \<Rightarrow> string \<Rightarrow> nat \<times> string \<Rightarrow> nat \<times> string" where
  "buf_printf cap t p = (case p of (o1, b) \<Rightarrow> (o1 + length t, b @ take (cap - o1 - 1) t))"

definition safe_char :: "char \<Rightarrow> char" where
  "safe_char c = (if c = CHR 0x22 \<or> c = CHR 0x5C \<or> (of_char c :: nat) < 32 then CHR ''.'' else c)"

definition safe_name :: "string \<Rightarrow> string" where
  "safe_name nm = map safe_char (take 31 nm)"

definition addr_text :: "byte list \<Rightarrow> string" where
  "addr_text a = hex_byte (a ! 5) @ '':'' @ hex_byte (a ! 4) @ '':'' @ hex_byte (a ! 3) @ '':'' @ hex_byte (a ! 2) @ '':'' @ hex_byte (a ! 1) @
     '':'' @ hex_byte (a ! 0)"

definition dev_text :: "scan_rec \<Rightarrow> string" where
  \<open>dev_text r = ''{"a":"'' @ addr_text (sr_addr r) @ ''","t":'' @ dec_string (unat (sr_type r)) @ '',"rssi":'' @ int_string (sr_rssi r) @
     '',"name":"'' @ safe_name (sr_name r) @ ''"}''\<close>

definition SCAN_BUF :: nat where "SCAN_BUF = 2048"

fun scan_devs :: "bool \<Rightarrow> scan_rec list \<Rightarrow> nat \<times> string \<Rightarrow> nat \<times> string" where
  "scan_devs later [] p = p"
| "scan_devs later (r # rs) p =
     (if fst p < SCAN_BUF - 96
      then scan_devs True rs (buf_printf SCAN_BUF ((if later then '','' else '''') @ dev_text r) p) else p)"

definition scan_head :: "nat \<Rightarrow> string" where
  \<open>scan_head n = ''{"n":'' @ dec_string n @ '',"devs":[''\<close>

definition publish_scan_dump :: "scan_rec list \<Rightarrow> string" where
  \<open>publish_scan_dump rs =
     (let p = scan_devs False rs (buf_printf SCAN_BUF (scan_head (length rs)) (0, ''''));
          p = (if fst p < SCAN_BUF - 3 then buf_printf SCAN_BUF '']}'' p else p)
      in snd p)\<close>

section \<open>Link vitals and publications\<close>

fun rssi_frag :: "(nat \<times> int) list \<Rightarrow> nat \<times> string \<Rightarrow> nat \<times> string" where
  "rssi_frag [] p = p"
| \<open>rssi_frag ((i, r) # ls) p =
     rssi_frag ls (buf_printf 64 ((if fst p \<noteq> 0 then '','' else '''') @ ''"'' @ dec_string i @ ''":'' @ int_string r) p)\<close>

fun ble_pub_mqtt :: "time_us \<Rightarrow> ble_pub \<Rightarrow> mqs \<Rightarrow> mqs" where
  "ble_pub_mqtt now (Pub_llevent kind i reason) = mqtt_publish_llevent now kind i reason"
| "ble_pub_mqtt now (Pub_raw i data) = mqtt_publish_raw i data"
| "ble_pub_mqtt now (Pub_scan rs) = mqtt_publish_scan (publish_scan_dump rs)"
| "ble_pub_mqtt now (Pub_ka links ls) = mqtt_publish_ka now links (snd (rssi_frag ls (0, '''')))"

definition gatt_pub_mqtt :: "gd \<Rightarrow> mqs \<Rightarrow> mqs" where
  "gatt_pub_mqtt g s = fold mqtt_publish_gatt (gd_pub g) s"


section \<open>The text of a complete walk\<close>

fun commas :: "string list \<Rightarrow> string" where
  "commas [] = ''''"
| "commas [x] = x"
| "commas (x # y # r) = x @ '','' @ commas (y # r)"

definition svc_json :: "walk_svc \<times> walk_chr list \<Rightarrow> string" where
  \<open>svc_json p = ''{"svc":"'' @ gs_uuid (fst p) @ ''","chrs":['' @ commas (map (chr_text False) (snd p)) @ '']}''\<close>

definition gatt_json :: "nat \<Rightarrow> (walk_svc \<times> walk_chr list) list \<Rightarrow> string" where
  \<open>gatt_json i ps = ''{"id":'' @ dec_string i @ '',"svcs":['' @ commas (map svc_json ps) @ '']}''\<close>

text \<open>The callbacks of a complete walk, and what a service whose walk could not be started shows.\<close>

fun chr_phase :: "(nat \<Rightarrow> int) \<Rightarrow> nat \<Rightarrow> (walk_svc \<times> walk_chr list) list \<Rightarrow> gd \<Rightarrow> gd" where
  "chr_phase rc k [] g = g"
| "chr_phase rc k ((sv, chs) # ps) g =
     chr_phase rc (Suc k) ps
       (if rc k = 0 then gd_chr_cb rc (Some BLE_HS_EDONE) None (fold (\<lambda>c. gd_chr_cb rc (Some 0) (Some c)) chs g) else g)"

definition svc_phase :: "(nat \<Rightarrow> int) \<Rightarrow> (walk_svc \<times> walk_chr list) list \<Rightarrow> gd \<Rightarrow> gd" where
  "svc_phase rc ps g = gd_svc_cb rc (Some BLE_HS_EDONE) None (fold (\<lambda>p. gd_svc_cb rc (Some 0) (Some (fst p))) ps g)"

fun shown :: "(nat \<Rightarrow> int) \<Rightarrow> nat \<Rightarrow> (walk_svc \<times> walk_chr list) list \<Rightarrow> (walk_svc \<times> walk_chr list) list" where
  "shown rc k [] = []"
| "shown rc k ((sv, chs) # ps) = (sv, if rc k = 0 then chs else []) # shown rc (Suc k) ps"

lemma length_shown [simp]: "length (shown rc k ps) = length ps"
  by (induction rc k ps rule: shown.induct) simp_all

text \<open>The same text in the order of printing.\<close>

fun gatt_body :: "bool \<Rightarrow> (walk_svc \<times> walk_chr list) list \<Rightarrow> string" where
  "gatt_body later [] = ''''"
| "gatt_body later ((sv, chs) # ps) = svc_text later sv @ commas (map (chr_text False) chs) @ gatt_body True ps"

lemma gatt_body_json: "ps \<noteq> [] \<Longrightarrow> gatt_body later ps @ '']}'' = (if later then '']},'' else '''') @ commas (map svc_json ps)"
proof (induction ps arbitrary: later)
  case (Cons p ps)
  obtain sv chs where p: "p = (sv, chs)" by (cases p)
  show ?case
  proof (cases ps)
    case Nil
    then show ?thesis by (simp add: p svc_text_def svc_json_def)
  next
    case (Cons q qs)
    then have "gatt_body True ps @ '']}'' = '']},'' @ commas (map svc_json ps)" using Cons.IH [of True] by simp
    then show ?thesis by (simp add: svc_text_def svc_json_def [of "(sv, chs)"] p Cons)
  qed
qed simp

definition room :: "nat \<Rightarrow> gd \<Rightarrow> bool" where
  "room n g \<longleftrightarrow> gd_jo g = length (gd_json g) \<and> length (gd_json g) + n \<le> GD_JSON_SIZE - 2"

lemma append_in_room:
  "room n g \<Longrightarrow> length t \<le> n \<Longrightarrow> gd_append t g = g\<lparr>gd_json := gd_json g @ t, gd_jo := length (gd_json g @ t)\<rparr>"
proof -
  assume a: "room n g" "length t \<le> n"
  then have "length t \<le> nat (int GD_JSON_SIZE - int (gd_jo g) - 1) - 1"
    unfolding room_def GD_JSON_SIZE_def by arith
  then show ?thesis using a by (simp add: room_def gd_append_def GD_JSON_SIZE_def Let_def)
qed

lemma last_after_object:
  "gd_json g = pre @ [c] \<Longrightarrow> gd_jo g = length (gd_json g) \<Longrightarrow> gd_after_object g \<longleftrightarrow> c = CHR ''}''"
  by (simp add: gd_after_object_def nth_append)

lemma commas_concat:
  "commas (map (chr_text False) (c # cs)) = chr_text False c @ concat (map (chr_text True) cs)"
  by (induction cs arbitrary: c) (simp_all add: chr_text_def)

lemma chr_step:
  assumes "gd_json g = pre @ [x]" "room n g" "length (chr_text (x = CHR ''}'') c) \<le> n"
  shows "gd_chr_cb rc (Some 0) (Some c) g =
    g\<lparr>gd_json := gd_json g @ chr_text (x = CHR ''}'') c, gd_jo := length (gd_json g @ chr_text (x = CHR ''}'') c)\<rparr>"
proof -
  have "gd_after_object g = (x = CHR ''}'')" using last_after_object [OF assms(1)] assms(2) by (simp add: room_def)
  with append_in_room [OF assms(2,3)] show ?thesis by (simp add: gd_chr_cb_def BLE_HS_EDONE_def)
qed

lemma more_chrs:
  assumes "gd_json g = pre @ ''}''" "room (length (concat (map (chr_text True) cs))) g"
  shows "fold (\<lambda>c. gd_chr_cb rc (Some 0) (Some c)) cs g =
    g\<lparr>gd_json := gd_json g @ concat (map (chr_text True) cs), gd_jo := length (gd_json g @ concat (map (chr_text True) cs))\<rparr>"
  using assms
proof (induction cs arbitrary: g pre)
  case (Cons c cs)
  let ?g = "g\<lparr>gd_json := gd_json g @ chr_text True c, gd_jo := length (gd_json g @ chr_text True c)\<rparr>"
  have "gd_chr_cb rc (Some 0) (Some c) g = ?g" using chr_step [OF Cons.prems] by simp
  moreover have "gd_json ?g = (gd_json g @ butlast (chr_text True c)) @ ''}''" by (simp add: chr_text_def butlast_append)
  moreover have "room (length (concat (map (chr_text True) cs))) ?g" using Cons.prems(2) by (simp add: room_def)
  ultimately show ?case using Cons.IH [of ?g "gd_json g @ butlast (chr_text True c)"] by simp
qed (simp add: room_def)

lemma chrs_printed:
  assumes "gd_json g = pre @ ''[''" "room (length (commas (map (chr_text False) chs))) g"
  shows "fold (\<lambda>c. gd_chr_cb rc (Some 0) (Some c)) chs g =
    g\<lparr>gd_json := gd_json g @ commas (map (chr_text False) chs), gd_jo := length (gd_json g @ commas (map (chr_text False) chs))\<rparr>"
proof (cases chs)
  case Nil
  with assms(2) show ?thesis by (simp add: room_def)
next
  case (Cons c cs)
  let ?g = "g\<lparr>gd_json := gd_json g @ chr_text False c, gd_jo := length (gd_json g @ chr_text False c)\<rparr>"
  have r: "room (length (chr_text False c) + length (concat (map (chr_text True) cs))) g"
    using assms(2) unfolding Cons commas_concat by simp
  have "gd_chr_cb rc (Some 0) (Some c) g = ?g" using chr_step [OF assms(1) r] by simp
  moreover have "gd_json ?g = (gd_json g @ butlast (chr_text False c)) @ ''}''" by (simp add: chr_text_def butlast_append)
  moreover have "room (length (concat (map (chr_text True) cs))) ?g" using r by (simp add: room_def)
  ultimately show ?thesis
    using more_chrs [of ?g "gd_json g @ butlast (chr_text False c)" cs rc] unfolding Cons commas_concat by simp
qed

lemma next_svc_unfold:
  "gd_cur g = int k - 1 \<Longrightarrow> k < length (gd_svcs g) \<Longrightarrow>
   gd_next_svc rc g =
     (let g3 = gd_append (svc_text (k \<noteq> 0) (gd_svcs g ! k)) (g\<lparr>gd_cur := int k\<rparr>);
          g4 = g3\<lparr>gd_calls := gd_calls g3 @ [(gs_start (gd_svcs g ! k), gs_end (gd_svcs g ! k))]\<rparr>
      in if rc k \<noteq> 0 then gd_next_svc rc g4 else g4)"
  by (subst gd_next_svc.simps) (simp add: Let_def)

lemma next_svc_last:
  "gd_cur g = int k - 1 \<Longrightarrow> length (gd_svcs g) \<le> k \<Longrightarrow> gd_next_svc rc g = gd_finish (g\<lparr>gd_cur := int k\<rparr>)"
  by (subst gd_next_svc.simps) (simp add: Let_def)

text \<open>From the start of the \<open>k\<close>-th service to the publication.\<close>

lemma walk_printed:
  assumes "gd_cur g = int k - 1" "gd_svcs g = done @ map fst ps" "length done = k"
    and "room (length (gatt_body (k \<noteq> 0) (shown rc k ps)) + 4) g"
  shows "gd_pub (chr_phase rc k ps (gd_next_svc rc g)) = gd_pub g @ [gd_json g @ gatt_body (k \<noteq> 0) (shown rc k ps) @ '']}]}''] \<and>
    \<not> gd_active (chr_phase rc k ps (gd_next_svc rc g))"
  using assms
proof (induction ps arbitrary: g k "done")
  case Nil
  then show ?case using append_in_room [of 4 "g\<lparr>gd_cur := int k\<rparr>" "'']}]}''"]
    by (simp add: next_svc_last gd_finish_def Let_def room_def)
next
  case (Cons p ps)
  obtain sv chs where p: "p = (sv, chs)" by (cases p)
  let ?chs = "if rc k = 0 then chs else []"
  let ?t = "svc_text (k \<noteq> 0) sv" and ?c = "commas (map (chr_text False) ?chs)"
  let ?more = "gatt_body True (shown rc (Suc k) ps)"
  have sv: "gd_svcs g ! k = sv" "k < length (gd_svcs g)" using Cons.prems(2,3) p by (auto simp: nth_append)
  let ?g = "g\<lparr>gd_cur := int k, gd_json := gd_json g @ ?t, gd_jo := length (gd_json g @ ?t),
      gd_calls := gd_calls g @ [(gs_start sv, gs_end sv)]\<rparr>"
  have room: "room (length ?t + length ?c + length ?more + 4) g" using Cons.prems(4) by (cases "rc k = 0") (simp_all add: p add.assoc)
  then have ap: "gd_append ?t (g\<lparr>gd_cur := int k\<rparr>) = g\<lparr>gd_cur := int k, gd_json := gd_json g @ ?t, gd_jo := length (gd_json g @ ?t)\<rparr>"
    by (subst append_in_room [of "length ?t"]) (simp_all add: room_def)
  have next_k: "gd_next_svc rc g = (if rc k \<noteq> 0 then gd_next_svc rc ?g else ?g)"
    using next_svc_unfold [OF Cons.prems(1) sv(2), of rc] unfolding sv(1) ap by (simp add: Let_def)
  let ?h = "?g\<lparr>gd_json := gd_json ?g @ ?c, gd_jo := length (gd_json ?g @ ?c)\<rparr>"
  have h: "(if rc k = 0 then gd_chr_cb rc (Some BLE_HS_EDONE) None (fold (\<lambda>c. gd_chr_cb rc (Some 0) (Some c)) chs (gd_next_svc rc g))
      else gd_next_svc rc g) = gd_next_svc rc ?h"
  proof (cases "rc k = 0")
    case True
    have "gd_json ?g = (gd_json g @ butlast ?t) @ ''[''" by (simp add: svc_text_def butlast_append)
    moreover have "room (length (commas (map (chr_text False) chs))) ?g" using room True by (simp add: room_def)
    ultimately show ?thesis using True chrs_printed [of ?g "gd_json g @ butlast ?t" chs rc]
      by (simp add: next_k gd_chr_cb_def)
  next
    case False
    then have "?h = ?g" by (intro gd.equality) simp_all
    with False show ?thesis by (simp only: next_k simp_thms if_True if_False)
  qed
  have "gd_cur ?h = int (Suc k) - 1" "gd_svcs ?h = (done @ [sv]) @ map fst ps" "length (done @ [sv]) = Suc k"
    using Cons.prems(2,3) p by simp_all
  moreover have "room (length (gatt_body (Suc k \<noteq> 0) (shown rc (Suc k) ps)) + 4) ?h" using room by (simp add: room_def)
  ultimately have "gd_pub (chr_phase rc (Suc k) ps (gd_next_svc rc ?h)) = gd_pub ?h @ [gd_json ?h @ gatt_body True (shown rc (Suc k) ps) @ '']}]}''] \<and>
      \<not> gd_active (chr_phase rc (Suc k) ps (gd_next_svc rc ?h))"
    using Cons.IH [of ?h "Suc k" "done @ [sv]"] by simp
  then show ?case unfolding p shown.simps chr_phase.simps h by simp
qed

lemma svc_phase_list:
  "length (gd_svcs g) + length ps \<le> GD_MAX_SVCS \<Longrightarrow>
   fold (\<lambda>p. gd_svc_cb rc (Some 0) (Some (fst p))) ps g = g\<lparr>gd_svcs := gd_svcs g @ map fst ps\<rparr>"
  by (induction ps arbitrary: g) (simp_all add: gd_svc_cb_def BLE_HS_EDONE_def)

definition gatt_head :: "nat \<Rightarrow> string" where
  \<open>gatt_head i = ''{"id":'' @ dec_string i @ '',"svcs":[''\<close>

lemma gatt_json_printed: "ps \<noteq> [] \<Longrightarrow> gatt_json i ps = gatt_head i @ gatt_body False ps @ '']}]}''"
  using gatt_body_json [of ps False] by (simp add: gatt_json_def gatt_head_def)

text \<open>
  A requested walk ends in one complete document. When the unit is connected and reports between one and twelve
  services, and the text fits the buffer, one document is published: every service in order with every characteristic
  reported for it, in order, with its properties; a service whose walk could not be started is listed without
  characteristics. The walk is over afterwards and the next request can be served.
\<close>

theorem gatt_dump_published:
  assumes "gd_req g = Some i" "\<not> gd_active g" "link_by_bms i s = Some k" "l_conn_handle (lnk s k) \<noteq> 0"
    and "ps \<noteq> []" "length ps \<le> GD_MAX_SVCS" "length (gatt_json i (shown rc 0 ps)) \<le> GD_JSON_SIZE - 2"
  shows "gd_pub (chr_phase rc 0 ps (svc_phase rc ps (serve_gatt_req 0 s g))) = gd_pub g @ [gatt_json i (shown rc 0 ps)] \<and>
    \<not> gd_active (chr_phase rc 0 ps (svc_phase rc ps (serve_gatt_req 0 s g)))"
proof -
  have ne: "shown rc 0 ps \<noteq> []" using assms(5) by (metis length_0_conv length_shown)
  note len = assms(7) [unfolded gatt_json_printed [OF ne]]
  let ?ga = "g\<lparr>gd_req := None, gd_svcs := [], gd_cur := 0, gd_json := [], gd_jo := 0, gd_conn := l_conn_handle (lnk s k), gd_bms_id := i, gd_active := True\<rparr>"
  let ?gb = "?ga\<lparr>gd_json := gatt_head i, gd_jo := length (gatt_head i)\<rparr>"
  let ?g = "?gb\<lparr>gd_svcs := map fst ps, gd_cur := -1\<rparr>"
  have "gd_append (gatt_head i) ?ga = ?gb" using len append_in_room [of "length (gatt_head i)" ?ga "gatt_head i"] by (simp add: room_def)
  then have "serve_gatt_req 0 s g = ?gb" using assms(1-4) by (simp add: serve_gatt_req_def do_gatt_dump_def gatt_head_def)
  moreover have "fold (\<lambda>p. gd_svc_cb rc (Some 0) (Some (fst p))) ps ?gb = ?gb\<lparr>gd_svcs := map fst ps\<rparr>"
    using svc_phase_list [of ?gb ps rc] assms(6) by simp
  ultimately have "svc_phase rc ps (serve_gatt_req 0 s g) = gd_next_svc rc ?g"
    using assms(5) by (simp add: svc_phase_def gd_svc_cb_def BLE_HS_EDONE_def)
  moreover have "room (length (gatt_body (0 \<noteq> (0 :: nat)) (shown rc 0 ps)) + 4) ?g" using len by (simp add: room_def)
  ultimately show ?thesis using walk_printed [of ?g 0 "[]" ps rc] gatt_json_printed [OF ne, of i] by simp
qed

text \<open>A unit that reports no service at all leaves the walk marked as running: no later request is ever served.\<close>

lemma gatt_dump_blocked:
  assumes "gd_req g = Some i" "\<not> gd_active g" "link_by_bms i s = Some k" "l_conn_handle (lnk s k) \<noteq> 0"
  shows "gd_active (svc_phase rc [] (serve_gatt_req 0 s g)) \<and>
    serve_gatt_req rc1 s1 (ble_owner_gattdump j (svc_phase rc [] (serve_gatt_req 0 s g))) = ble_owner_gattdump j (svc_phase rc [] (serve_gatt_req 0 s g))"
  using assms by (simp add: serve_gatt_req_def do_gatt_dump_def svc_phase_def gd_svc_cb_def BLE_HS_EDONE_def ble_owner_gattdump_def)

definition sample_bo :: bo where
  "sample_bo = (ble_owner_start 2 \<lparr>nv_harvest = Map.empty, nv_ble_en = None, nv_meas = None\<rparr>)
     \<lparr>bo_links := [zero_link\<lparr>l_in_use := True, l_bms_id := 1, l_conn_handle := 5\<rparr>]\<rparr>"

definition sample_gd :: gd where
  "sample_gd = \<lparr>gd_svcs = [], gd_cur = 0, gd_conn = 0, gd_bms_id = 0, gd_active = False, gd_json = [], gd_jo = 0, gd_req = Some 1,
     gd_calls = [], gd_pub = []\<rparr>"

definition sample_walk :: "(walk_svc \<times> walk_chr list) list" where
  "sample_walk = [(\<lparr>gs_uuid = ''0x1800'', gs_start = 1, gs_end = 5\<rparr>, []),
     (\<lparr>gs_uuid = ''0xffe0'', gs_start = 6, gs_end = 20\<rparr>, [\<lparr>gc_uuid = ''0xffe1'', gc_props = 28\<rparr>, \<lparr>gc_uuid = ''0xffe2'', gc_props = 4\<rparr>])]"

theorem gatt_dump_published_witness:
  \<open>gd_pub (chr_phase (\<lambda>k. if k = 0 then 3 else 0) 0 sample_walk (svc_phase (\<lambda>k. if k = 0 then 3 else 0) sample_walk (serve_gatt_req 0 sample_bo sample_gd))) =
     [''{"id":1,"svcs":[{"svc":"0x1800","chrs":[]},{"svc":"0xffe0","chrs":[{"u":"0xffe1","p":28},{"u":"0xffe2","p":4}]}]}'']\<close>
proof -
  let ?rc = "\<lambda>k :: nat. if k = 0 then 3 else 0 :: int"
  have j: \<open>gatt_json 1 (shown ?rc 0 sample_walk) =
      ''{"id":1,"svcs":[{"svc":"0x1800","chrs":[]},{"svc":"0xffe0","chrs":[{"u":"0xffe1","p":28},{"u":"0xffe2","p":4}]}]}''\<close>
    by (simp add: gatt_json_def sample_walk_def svc_json_def chr_text_def dec_string.simps char_of_def bit_0 bit_Suc_0_iff)
  have "link_by_bms 1 sample_bo = Some 0" "l_conn_handle (lnk sample_bo 0) \<noteq> 0"
    by (simp_all add: sample_bo_def link_by_bms_def)
  from gatt_dump_published [of sample_gd 1, OF _ _ this, of sample_walk ?rc]
  show ?thesis unfolding j by (simp add: sample_gd_def sample_walk_def GD_MAX_SVCS_def GD_JSON_SIZE_def)
qed

section \<open>The text of the device list\<close>

lemma length_addr_text [simp]: "length (addr_text a) = 17"
  by (simp add: addr_text_def hex_byte_def)

lemma length_int_string: "\<bar>x\<bar> < 1000 \<Longrightarrow> length (int_string x) \<le> 4"
proof -
  assume "\<bar>x\<bar> < 1000"
  then have "length (dec_string (nat x)) \<le> 3" "length (dec_string (nat (- x))) \<le> 3" by (intro length_dec_string; simp)+
  then show ?thesis by (simp add: int_string_def)
qed

lemma length_dev_text: "\<bar>sr_rssi r\<bar> < 1000 \<Longrightarrow> length (dev_text r) \<le> 86"
proof -
  assume "\<bar>sr_rssi r\<bar> < 1000"
  moreover have "unat (sr_type r) < 10 ^ 3" using unsigned_less [of "sr_type r", where ?'a = nat] by simp
  ultimately show ?thesis
    using length_int_string [of "sr_rssi r"] length_dec_string [of "unat (sr_type r)" 3] by (simp add: dev_text_def safe_name_def)
qed

lemma commas_mono: "length (commas xs) \<le> length (commas (xs @ ys))"
proof (induction xs rule: commas.induct)
  case (2 x)
  then show ?case by (cases ys) simp_all
qed simp_all

lemma commas_snoc: "commas (xs @ [x]) = (if xs = [] then x else commas xs @ '','' @ x)"
  by (induction xs rule: commas.induct) simp_all

text \<open>From any position inside the list: some number of devices more, as many as fit below the reserve.\<close>

lemma scan_devs_printed:
  assumes "list_all (\<lambda>r. \<bar>sr_rssi r\<bar> < 1000) rs" "length b \<le> SCAN_BUF - 10"
    and "list_all (\<lambda>r. \<bar>sr_rssi r\<bar> < 1000) ds" "b = pre @ commas (map dev_text ds)" "later = (ds \<noteq> [])"
  shows "\<exists>m \<le> length rs. scan_devs later rs (length b, b) =
      (length (pre @ commas (map dev_text (ds @ take m rs))), pre @ commas (map dev_text (ds @ take m rs))) \<and>
    length (pre @ commas (map dev_text (ds @ take m rs))) \<le> SCAN_BUF - 10 \<and>
    (length (pre @ commas (map dev_text (ds @ rs))) < SCAN_BUF - 96 \<longrightarrow> m = length rs)"
  using assms
proof (induction rs arbitrary: b ds later)
  case (Cons r rs)
  let ?t = "(if later then '','' else '''') @ dev_text r"
  show ?case
  proof (cases "length b < SCAN_BUF - 96")
    case True
    have t: "length ?t \<le> 87" using length_dev_text [of r] Cons.prems(1) by simp
    then have p: "buf_printf SCAN_BUF ?t (length b, b) = (length (b @ ?t), b @ ?t)" using True by (simp add: buf_printf_def SCAN_BUF_def)
    have bt: "b @ ?t = pre @ commas (map dev_text (ds @ [r]))" using Cons.prems(4,5) by (simp add: commas_snoc)
    have "length (b @ ?t) \<le> SCAN_BUF - 10" using t True by (simp add: SCAN_BUF_def)
    from Cons.IH [OF _ this _ bt, of True] Cons.prems(1,3) obtain m where m: "m \<le> length rs"
      "scan_devs True rs (length (b @ ?t), b @ ?t) =
        (length (pre @ commas (map dev_text ((ds @ [r]) @ take m rs))), pre @ commas (map dev_text ((ds @ [r]) @ take m rs)))"
      "length (pre @ commas (map dev_text ((ds @ [r]) @ take m rs))) \<le> SCAN_BUF - 10"
      "length (pre @ commas (map dev_text ((ds @ [r]) @ rs))) < SCAN_BUF - 96 \<longrightarrow> m = length rs" by auto
    have "scan_devs later (r # rs) (length b, b) = scan_devs True rs (length (b @ ?t), b @ ?t)" using True p by simp
    with m show ?thesis by (intro exI [of _ "Suc m"]) simp
  next
    case False
    have "length (pre @ commas (map dev_text (ds @ r # rs))) \<ge> length b"
      using commas_mono [of "map dev_text ds" "map dev_text (r # rs)"] Cons.prems(4) by simp
    with False Cons.prems show ?thesis by (intro exI [of _ 0]) simp
  qed
qed (auto intro: exI [of _ 0])

definition scan_json :: "nat \<Rightarrow> scan_rec list \<Rightarrow> string" where
  \<open>scan_json n rs = scan_head n @ commas (map dev_text rs) @ '']}''\<close>

text \<open>
  The device list is always a complete document: the first devices found, never one cut in half, each with its name made
  harmless. All of them are listed while the text is short enough; the announced number is the number found either way.
\<close>

lemma scan_dump_document:
  assumes "list_all (\<lambda>r. \<bar>sr_rssi r\<bar> < 1000) rs" "length rs \<le> SCAN_DUMP_MAX"
  shows "\<exists>m \<le> length rs. publish_scan_dump rs = scan_json (length rs) (take m rs) \<and> length (publish_scan_dump rs) < SCAN_BUF \<and>
    (length (scan_json (length rs) rs) \<le> SCAN_BUF - 96 \<longrightarrow> m = length rs)"
proof -
  let ?pre = "scan_head (length rs)"
  have "length (dec_string (length rs)) \<le> 2" using length_dec_string [of "length rs" 2] assms(2) by (simp add: SCAN_DUMP_MAX_def)
  then have l: "length ?pre \<le> 20" by (simp add: scan_head_def)
  then have h: "buf_printf SCAN_BUF ?pre (0, '''') = (length ?pre, ?pre)" by (simp add: buf_printf_def SCAN_BUF_def)
  from scan_devs_printed [of rs ?pre "[]" ?pre False] assms(1) l obtain m where m: "m \<le> length rs"
    "scan_devs False rs (length ?pre, ?pre) = (length (?pre @ commas (map dev_text (take m rs))), ?pre @ commas (map dev_text (take m rs)))"
    "length (?pre @ commas (map dev_text (take m rs))) \<le> SCAN_BUF - 10"
    "length (?pre @ commas (map dev_text rs)) < SCAN_BUF - 96 \<longrightarrow> m = length rs" by (auto simp: SCAN_BUF_def)
  have "publish_scan_dump rs = ?pre @ commas (map dev_text (take m rs)) @ '']}''"
    using m(2,3) h by (simp add: publish_scan_dump_def buf_printf_def SCAN_BUF_def)
  with m(1,3,4) show ?thesis by (intro exI [of _ m]) (simp add: scan_json_def SCAN_BUF_def)
qed

end
