(* ===== verification/Ota.thy ===== *)
theory Ota
  imports C_Text
begin

text \<open>
  The update receiver shared by both nodes, \<^verbatim>\<open>components/ota/ota.c\<close>: the POST handler that streams an image into the spare slot,
  the confirmation of a running image, the start of the server and the deferred restart.

  The partition API and the HTTP server belong to the SDK. Their results are the environment \<open>oenv\<close>; \<open>ot_calls\<close> is the log
  of what the code asked of them, in order. A receive call yields bytes, a timeout or an error, and is numbered.
\<close>

section \<open>Definitions\<close>

datatype ota_call =
    Ota_begin
  | Ota_write "byte list"
  | Ota_end
  | Ota_abort
  | Set_boot
  | Resp string string
  | Timer_create
  | Timer_start nat
  | Restart
  | Httpd_start nat
  | Httpd_register string
  | Httpd_stop
  | Cancel_rollback

datatype rx = Rx "byte list" | Rx_timeout | Rx_error

datatype end_rc = End_ok | End_invalid | End_failed

record oenv =
  oe_slot :: "(nat \<times> string) option"
  oe_begin :: "nat option"
  oe_recv :: "nat \<Rightarrow> nat \<Rightarrow> rx"
  oe_write_ok :: "nat \<Rightarrow> bool"
  oe_end :: end_rc
  oe_boot_ok :: bool
  oe_timer_ok :: bool

record ota =
  ot_srv :: bool
  ot_tmr :: bool
  ot_calls :: "ota_call list"

definition ota_call :: "ota_call \<Rightarrow> ota \<Rightarrow> ota" where
  "ota_call c s = s\<lparr>ot_calls := ot_calls s @ [c]\<rparr>"

definition ota_schedule_reboot :: "oenv \<Rightarrow> ota \<Rightarrow> ota" where
  "ota_schedule_reboot e s =
     (if ot_tmr s then ota_call (Timer_start 1000000) s
      else let s1 = ota_call Timer_create s in
        if oe_timer_ok e then ota_call (Timer_start 1000000) (s1\<lparr>ot_tmr := True\<rparr>)
        else ota_call Restart s1)"

text \<open>\<^verbatim>\<open>fail\<close>: a handle of zero is not aborted.\<close>

definition ota_fail :: "nat \<Rightarrow> string \<Rightarrow> string \<Rightarrow> ota \<Rightarrow> bool \<times> ota" where
  "ota_fail h code msg s = (False, ota_call (Resp code msg) (if h \<noteq> 0 then ota_call Ota_abort s else s))"

definition OTA_BUF :: nat where "OTA_BUF = 1460"

text \<open>
  The receive loop: what is left of the image, the consecutive timeouts, the number of the next receive call, the bytes written
  so far. Its first result is the reason of a failure; the dash of that message is a longer one in the source.
\<close>

function recv_loop :: "oenv \<Rightarrow> int \<Rightarrow> nat \<Rightarrow> nat \<Rightarrow> nat \<Rightarrow> ota \<Rightarrow> (string \<times> string) option \<times> nat \<times> nat \<times> ota" where
  "recv_loop e remaining idle k tot s =
     (if remaining \<le> 0 then (None, k, tot, s)
      else case oe_recv e k (min (nat remaining) OTA_BUF) of
        Rx_timeout \<Rightarrow>
          if idle + 1 \<ge> 3 then (Some (''408 Request Timeout'', ''upload stalled - aborting''), Suc k, tot, s)
          else recv_loop e remaining (idle + 1) (Suc k) tot s
      | Rx_error \<Rightarrow> (Some (''400 Bad Request'', ''recv error / short upload''), Suc k, tot, s)
      | Rx bs \<Rightarrow>
          if bs = [] then (Some (''400 Bad Request'', ''recv error / short upload''), Suc k, tot, s)
          else let s1 = ota_call (Ota_write bs) s in
            if \<not> oe_write_ok e k then (Some (''500 Internal Server Error'', ''flash write error''), Suc k, tot, s1)
            else recv_loop e (remaining - int (length bs)) 0 (Suc k) (tot + length bs) s1)"
  by pat_completeness auto

termination
  by (relation "measures [\<lambda>(e, r, i, k, tot, s). nat r, \<lambda>(e, r, i, k, tot, s). 3 - i]") auto

declare recv_loop.simps [simp del]

definition ota_ok_text :: "nat \<Rightarrow> string \<Rightarrow> string" where
  "ota_ok_text tot label = snprintf 96 (''OK: '' @ dec_string tot @ '' bytes -> '' @ label @ '', rebooting'' @ [CHR 0x0A])"

definition ota_post_handler :: "oenv \<Rightarrow> nat \<Rightarrow> ota \<Rightarrow> bool \<times> ota" where
  "ota_post_handler e content_len s =
     (case oe_slot e of
        None \<Rightarrow> ota_fail 0 ''500 Internal Server Error'' ''no OTA slot'' s
      | Some (slot_size, label) \<Rightarrow>
          if content_len = 0 \<or> content_len > slot_size
          then ota_fail 0 ''413 Content Too Large'' ''empty image or image exceeds OTA slot'' s
          else let s = ota_call Ota_begin s in
            case oe_begin e of
              None \<Rightarrow> ota_fail 0 ''500 Internal Server Error'' ''esp_ota_begin failed'' s
            | Some h \<Rightarrow>
                (case recv_loop e (int content_len) 0 0 0 s of
                   (Some (code, msg), _, _, s) \<Rightarrow> ota_fail h code msg s
                 | (None, _, tot, s) \<Rightarrow>
                     let s = ota_call Ota_end s in
                     if oe_end e \<noteq> End_ok
                     then ota_fail 0 ''400 Bad Request''
                            (if oe_end e = End_invalid then ''image validation failed'' else ''esp_ota_end failed'') s
                     else let s = ota_call Set_boot s in
                       if \<not> oe_boot_ok e then ota_fail 0 ''500 Internal Server Error'' ''set_boot_partition failed'' s
                       else (True, ota_schedule_reboot e (ota_call (Resp ''200 OK'' (ota_ok_text tot label)) s))))"

text \<open>The server counts as up only when both routes exist. The arguments are the results of the three SDK calls.\<close>

definition ota_is_up :: "ota \<Rightarrow> bool" where
  "ota_is_up s = ot_srv s"

definition ota_start :: "bool \<Rightarrow> bool \<Rightarrow> bool \<Rightarrow> nat \<Rightarrow> ota \<Rightarrow> ota" where
  "ota_start started reg_ota reg_status port s =
     (if ot_srv s then s
      else let s = ota_call (Httpd_start port) s in
        if \<not> started then s\<lparr>ot_srv := False\<rparr>
        else let s = ota_call (Httpd_register ''/ota'') s in
          if \<not> reg_ota then ota_call Httpd_stop s
          else let s = ota_call (Httpd_register ''/ota/status'') s in
            if \<not> reg_status then ota_call Httpd_stop s else s\<lparr>ot_srv := True\<rparr>)"

text \<open>The state the SDK reports for the running slot: \<open>None\<close> when the query fails.\<close>

definition ESP_OTA_IMG_PENDING_VERIFY :: nat where "ESP_OTA_IMG_PENDING_VERIFY = 1"

definition ota_mark_valid :: "nat option \<Rightarrow> ota \<Rightarrow> ota" where
  "ota_mark_valid st s =
     (if \<not> ota_is_up s then s
      else case st of
        None \<Rightarrow> s
      | Some v \<Rightarrow> if v = ESP_OTA_IMG_PENDING_VERIFY then ota_call Cancel_rollback s else s)"

definition ota_status_text :: "byte list \<Rightarrow> nat option \<Rightarrow> int \<Rightarrow> string" where
  \<open>ota_status_text sha st now =
     snprintf 192 (''{"elf_sha256":"'' @ concat (map hex_byte_low sha) @ ''","ota_state":'' @
       (case st of None \<Rightarrow> ''-1'' | Some v \<Rightarrow> dec_string v) @ '',"uptime_ms":'' @ int_string (now div 1000) @ ''}'')\<close>

definition ota_init :: ota where
  "ota_init = \<lparr>ot_srv = False, ot_tmr = False, ot_calls = []\<rparr>"

section \<open>The receive loop\<close>

lemma ota_call_simps [simp]:
  "ot_calls (ota_call c s) = ot_calls s @ [c]" "ot_srv (ota_call c s) = ot_srv s" "ot_tmr (ota_call c s) = ot_tmr s"
  by (simp_all add: ota_call_def)

text \<open>What the receive calls from number \<open>k\<close> on yielded, and the pieces of the image among it.\<close>

fun received :: "oenv \<Rightarrow> nat \<Rightarrow> rx list \<Rightarrow> bool" where
  "received e k [] = True"
| "received e k (r # tr) = ((\<exists>m. 0 < m \<and> m \<le> OTA_BUF \<and> r = oe_recv e k m) \<and> received e (Suc k) tr)"

fun pieces :: "rx list \<Rightarrow> byte list list" where
  "pieces [] = []"
| "pieces (Rx bs # tr) = (if bs = [] then [] else [bs]) @ pieces tr"
| "pieces (_ # tr) = pieces tr"

definition sdk_recv :: "oenv \<Rightarrow> bool" where
  "sdk_recv e \<longleftrightarrow> (\<forall>k m bs. oe_recv e k m = Rx bs \<longrightarrow> length bs \<le> m)"

definition loop_post :: "oenv \<Rightarrow> int \<Rightarrow> nat \<Rightarrow> nat \<Rightarrow> nat \<Rightarrow> ota \<Rightarrow> (string \<times> string) option \<times> nat \<times> nat \<times> ota \<Rightarrow> bool" where
  "loop_post e remaining idle k tot s res \<longleftrightarrow>
     (case res of (r, k', tot', s') \<Rightarrow>
        \<exists>tr. received e k tr \<and> k' = k + length tr \<and> length tr \<le> 3 * nat remaining - idle \<and>
          s' = s\<lparr>ot_calls := ot_calls s @ map Ota_write (pieces tr)\<rparr> \<and>
          (case r of
             None \<Rightarrow> length (concat (pieces tr)) = nat remaining \<and> tot' = tot + nat remaining
           | Some (code, msg) \<Rightarrow> code \<in> {''408 Request Timeout'', ''400 Bad Request'', ''500 Internal Server Error''}))"

lemma loop_postI:
  assumes "received e k tr" "k' = k + length tr" "length tr \<le> 3 * nat remaining - idle"
    "s' = s\<lparr>ot_calls := ot_calls s @ map Ota_write (pieces tr)\<rparr>"
    "case r of None \<Rightarrow> length (concat (pieces tr)) = nat remaining \<and> tot' = tot + nat remaining
       | Some (code, msg) \<Rightarrow> code \<in> {''408 Request Timeout'', ''400 Bad Request'', ''500 Internal Server Error''}"
  shows "loop_post e remaining idle k tot s (r, k', tot', s')"
  unfolding loop_post_def prod.case using assms by blast

lemma loop_post_last:
  assumes "0 < m" "m \<le> OTA_BUF" "oe_recv e k m = r" "1 \<le> 3 * nat remaining - idle"
    "s' = s\<lparr>ot_calls := ot_calls s @ map Ota_write (pieces [r])\<rparr>"
    "code \<in> {''408 Request Timeout'', ''400 Bad Request'', ''500 Internal Server Error''}"
  shows "loop_post e remaining idle k tot s (Some (code, msg), Suc k, tot', s')"
proof (rule loop_postI [of e k "[r]"])
  show "received e k [r]" using assms(1-3) by auto
qed (use assms(4-6) in simp_all)

lemma loop_post_step:
  assumes "loop_post e rem1 idle1 (Suc k) tot1 s1 res" "r = oe_recv e k m" "0 < m" "m \<le> OTA_BUF"
    and "s1 = s\<lparr>ot_calls := ot_calls s @ map Ota_write (pieces [r])\<rparr>"
    and "nat remaining = nat rem1 + length (concat (pieces [r]))" "tot1 = tot + length (concat (pieces [r]))"
    and "Suc (3 * nat rem1 - idle1) \<le> 3 * nat remaining - idle"
  shows "loop_post e remaining idle k tot s res"
proof -
  obtain q k' tot' s' where res: "res = (q, k', tot', s')" by (cases res)
  with assms(1) obtain tr where tr: "received e (Suc k) tr" "k' = Suc k + length tr" "length tr \<le> 3 * nat rem1 - idle1"
      "s' = s1\<lparr>ot_calls := ot_calls s1 @ map Ota_write (pieces tr)\<rparr>"
      "case q of None \<Rightarrow> length (concat (pieces tr)) = nat rem1 \<and> tot' = tot1 + nat rem1
       | Some (code, msg) \<Rightarrow> code \<in> {''408 Request Timeout'', ''400 Bad Request'', ''500 Internal Server Error''}"
    unfolding loop_post_def by auto
  have p: "pieces (r # tr) = pieces [r] @ pieces tr" by (cases r) simp_all
  show ?thesis
    unfolding res
  proof (rule loop_postI [of e k "r # tr"])
    show "received e k (r # tr)" using assms(2-4) tr(1) by auto
    show "length (r # tr) \<le> 3 * nat remaining - idle" using tr(3) assms(8) by simp
    show "s' = s\<lparr>ot_calls := ot_calls s @ map Ota_write (pieces (r # tr))\<rparr>" using tr(4) assms(5) by (simp add: p)
    show "case q of None \<Rightarrow> length (concat (pieces (r # tr))) = nat remaining \<and> tot' = tot + nat remaining
       | Some (code, msg) \<Rightarrow> code \<in> {''408 Request Timeout'', ''400 Bad Request'', ''500 Internal Server Error''}"
      using tr(5) assms(6,7) by (cases q) (simp_all add: p)
  qed (use tr(2) in simp)
qed

lemma recv_loop_post:
  assumes "sdk_recv e" "idle < 3"
  shows "loop_post e remaining idle k tot s (recv_loop e remaining idle k tot s)"
  using assms
proof (induction e remaining idle k tot s rule: recv_loop.induct)
  case (1 e remaining idle k tot s)
  let ?m = "min (nat remaining) OTA_BUF"
  let ?r = "oe_recv e k ?m"
  note unfold = recv_loop.simps [of e remaining idle k tot s]
  show ?case
  proof (cases "remaining \<le> 0")
    case True
    then show ?thesis unfolding unfold by (simp add: loop_postI [of _ _ "[]"])
  next
    case False
    then have m: "0 < ?m" "?m \<le> OTA_BUF" by (simp_all add: OTA_BUF_def)
    have fits: "3 * nat remaining - idle \<ge> 1" using False 1(4) by linarith
    show ?thesis
    proof (cases ?r)
      case (Rx bs)
      show ?thesis
      proof (cases "bs = [] \<or> \<not> oe_write_ok e k")
        case True
        then show ?thesis unfolding unfold using False Rx loop_post_last [OF m Rx fits]
          by (auto simp: ota_call_def)
      next
        case ok: False
        let ?s = "ota_call (Ota_write bs) s"
        have "length bs \<le> ?m" using Rx 1(3) unfolding sdk_recv_def by blast
        then have l: "length bs \<le> nat remaining" "bs \<noteq> []" using ok by simp_all
        have "loop_post e (remaining - int (length bs)) 0 (Suc k) (tot + length bs) ?s
            (recv_loop e (remaining - int (length bs)) 0 (Suc k) (tot + length bs) ?s)"
          using 1(1) [OF False Rx] ok 1(3) by simp
        then have "loop_post e remaining idle k tot s (recv_loop e (remaining - int (length bs)) 0 (Suc k) (tot + length bs) ?s)"
        proof (rule loop_post_step [OF _ refl m])
          have "length bs \<ge> 1" using l(2) by (cases bs) simp_all
          then show "Suc (3 * nat (remaining - int (length bs)) - 0) \<le> 3 * nat remaining - idle" using l(1) 1(4) by linarith
          show "nat remaining = nat (remaining - int (length bs)) + length (concat (pieces [?r]))" using l Rx by simp
        qed (use Rx l in \<open>simp_all add: ota_call_def\<close>)
        then show ?thesis unfolding unfold using False Rx ok by (simp add: Let_def)
      qed
    next
      case Rx_timeout
      show ?thesis
      proof (cases "idle + 1 \<ge> 3")
        case True
        then show ?thesis unfolding unfold using False Rx_timeout loop_post_last [OF m Rx_timeout fits] by simp
      next
        case go: False
        have "loop_post e remaining (idle + 1) (Suc k) tot s (recv_loop e remaining (idle + 1) (Suc k) tot s)"
          using 1(2) [OF False Rx_timeout go] 1(3) go by simp
        then have "loop_post e remaining idle k tot s (recv_loop e remaining (idle + 1) (Suc k) tot s)"
          by (rule loop_post_step [OF _ refl m]) (use Rx_timeout False 1(4) in \<open>simp_all\<close>)
        then show ?thesis unfolding unfold using False Rx_timeout go by simp
      qed
    next
      case Rx_error
      then show ?thesis unfolding unfold using False loop_post_last [OF m Rx_error fits] by simp
    qed
  qed
qed

section \<open>All or nothing\<close>

definition reboot_calls :: "oenv \<Rightarrow> ota \<Rightarrow> ota_call list" where
  "reboot_calls e s = (if ot_tmr s then [Timer_start 1000000] else [Timer_create, if oe_timer_ok e then Timer_start 1000000 else Restart])"

lemma schedule_reboot_calls: "ot_calls (ota_schedule_reboot e s) = ot_calls s @ reboot_calls e s"
  by (simp add: ota_schedule_reboot_def reboot_calls_def Let_def)

text \<open>What a failed request may have done: written to the spare slot, and nothing that lasts.\<close>

definition harmless :: "oenv \<Rightarrow> ota_call list \<Rightarrow> bool" where
  "harmless e cs \<longleftrightarrow> list_all (\<lambda>c. case c of Ota_begin \<Rightarrow> True | Ota_write _ \<Rightarrow> True | Ota_end \<Rightarrow> True | Ota_abort \<Rightarrow> True
       | Set_boot \<Rightarrow> \<not> oe_boot_ok e | _ \<Rightarrow> False) cs"

lemma harmless_writes [simp]: "harmless e (map Ota_write bss)"
  by (simp add: harmless_def list_all_iff)

lemma no_writes_counted [simp]: "count_list (map Ota_write bss) Ota_abort = 0" "count_list (map Ota_write bss) Ota_end = 0"
  by (induction bss) simp_all

lemma harmless_simps [simp]:
  "harmless e []" "harmless e (Ota_begin # cs) = harmless e cs" "harmless e (Ota_end # cs) = harmless e cs"
  "harmless e (Ota_abort # cs) = harmless e cs" "harmless e (Set_boot # cs) \<longleftrightarrow> \<not> oe_boot_ok e \<and> harmless e cs"
  by (simp_all add: harmless_def)

lemma harmless_append: "harmless e (xs @ ys) \<longleftrightarrow> harmless e xs \<and> harmless e ys"
  by (simp add: harmless_def)

text \<open>What an upload leaves behind, told as one predicate: its log behind that of the state before.\<close>

definition upload_outcome :: "oenv \<Rightarrow> nat \<Rightarrow> ota \<Rightarrow> bool \<Rightarrow> ota \<Rightarrow> bool" where
  "upload_outcome e len s ok s' \<longleftrightarrow> (\<exists>tr cs. received e 0 tr \<and> length tr \<le> 3 * len \<and> ot_calls s' = ot_calls s @ cs \<and>
    (ok \<longrightarrow> length (concat (pieces tr)) = len \<and> oe_end e = End_ok \<and> oe_boot_ok e \<and>
       (\<exists>slot_size label. oe_slot e = Some (slot_size, label) \<and> len \<le> slot_size \<and>
         cs = [Ota_begin] @ map Ota_write (pieces tr) @ [Ota_end, Set_boot, Resp ''200 OK'' (ota_ok_text len label)] @ reboot_calls e s)) \<and>
    (\<not> ok \<longrightarrow> (\<exists>pre code msg. cs = pre @ [Resp code msg] \<and> code \<noteq> ''200 OK'' \<and> harmless e pre \<and>
       (Ota_begin \<in> set pre \<and> oe_begin e \<noteq> None \<longrightarrow> count_list pre Ota_abort + count_list pre Ota_end = 1))))"

lemma upload_failed:
  assumes "received e 0 tr" "length tr \<le> 3 * len" "ot_calls s' = ot_calls s @ pre @ [Resp code msg]" "code \<noteq> ''200 OK''" "harmless e pre"
    and "Ota_begin \<in> set pre \<and> oe_begin e \<noteq> None \<longrightarrow> count_list pre Ota_abort + count_list pre Ota_end = 1"
  shows "upload_outcome e len s False s'"
  using assms unfolding upload_outcome_def by (intro exI [of _ tr] exI [of _ "pre @ [Resp code msg]"]) blast

lemma upload_refused:
  assumes "oe_slot e = None \<or> (\<exists>sz label. oe_slot e = Some (sz, label) \<and> (len = 0 \<or> len > sz)) \<or> oe_begin e = None"
  shows "upload_outcome e len s (fst (ota_post_handler e len s)) (snd (ota_post_handler e len s))"
proof -
  have *: "\<exists>pre code msg. ota_post_handler e len s = ota_fail 0 code msg (s\<lparr>ot_calls := ot_calls s @ pre\<rparr>) \<and> code \<noteq> ''200 OK'' \<and>
      (pre = [] \<or> pre = [Ota_begin] \<and> oe_begin e = None)"
  proof (cases "oe_slot e")
    case None
    then show ?thesis by (intro exI [of _ "[]"] exI [of _ "''500 Internal Server Error''"] exI [of _ "''no OTA slot''"]) (simp add: ota_post_handler_def)
  next
    case (Some sl)
    obtain sz label where sl: "sl = (sz, label)" by (cases sl)
    show ?thesis
    proof (cases "len = 0 \<or> len > sz")
      case True
      then show ?thesis using Some sl
        by (intro exI [of _ "[]"] exI [of _ "''413 Content Too Large''"] exI [of _ "''empty image or image exceeds OTA slot''"]) (simp add: ota_post_handler_def)
    next
      case False
      then show ?thesis using Some sl assms
        by (intro exI [of _ "[Ota_begin]"] exI [of _ "''500 Internal Server Error''"] exI [of _ "''esp_ota_begin failed''"]) (auto simp: ota_post_handler_def ota_call_def Let_def)
    qed
  qed
  then obtain pre code msg where p: "ota_post_handler e len s = ota_fail 0 code msg (s\<lparr>ot_calls := ot_calls s @ pre\<rparr>)" "code \<noteq> ''200 OK''"
      "pre = [] \<or> pre = [Ota_begin] \<and> oe_begin e = None" by blast
  then show ?thesis by (simp add: ota_fail_def) (rule upload_failed [of e "[]" len _ s pre code msg]; auto)
qed

text \<open>Behind the receive loop: the rest of the handler, with the update begun and the pieces written.\<close>

lemma upload_received:
  assumes "sdk_recv e" "oe_slot e = Some (sz, label)" "0 < len" "len \<le> sz" "oe_begin e = Some h"
  obtains r tr tot k s1 where "recv_loop e (int len) 0 0 0 (ota_call Ota_begin s) = (r, k, tot, s1)"
    "received e 0 tr" "length tr \<le> 3 * len" "ot_calls s1 = ot_calls s @ Ota_begin # map Ota_write (pieces tr)" "ot_tmr s1 = ot_tmr s"
    "r = None \<Longrightarrow> length (concat (pieces tr)) = len \<and> tot = len" "\<And>code msg. r = Some (code, msg) \<Longrightarrow> code \<noteq> ''200 OK''"
proof -
  let ?s = "ota_call Ota_begin s"
  obtain r k tot s1 where r: "recv_loop e (int len) 0 0 0 ?s = (r, k, tot, s1)" by (metis prod_cases4)
  have "loop_post e (int len) 0 0 0 ?s (r, k, tot, s1)" using recv_loop_post [OF assms(1), of 0 "int len" 0 0 ?s] r by simp
  then obtain tr where tr: "received e 0 tr" "length tr \<le> 3 * nat (int len) - 0"
    "s1 = ?s\<lparr>ot_calls := ot_calls ?s @ map Ota_write (pieces tr)\<rparr>"
    "case r of None \<Rightarrow> length (concat (pieces tr)) = nat (int len) \<and> tot = 0 + nat (int len)
       | Some (code, msg) \<Rightarrow> code \<in> {''408 Request Timeout'', ''400 Bad Request'', ''500 Internal Server Error''}"
    unfolding loop_post_def prod.case by blast
  show ?thesis by (rule that [OF r tr(1)]) (use tr in auto)
qed

lemma upload_closed:
  assumes "received e 0 tr" "length tr \<le> 3 * len" "ot_calls s1 = ot_calls s @ Ota_begin # map Ota_write (pieces tr)"
    and "\<not> (oe_end e = End_ok \<and> oe_boot_ok e)" "code \<noteq> ''200 OK''"
    and "ot_calls s' = ot_calls s1 @ (if oe_end e = End_ok then [Ota_end, Set_boot] else [Ota_end]) @ [Resp code msg]"
  shows "upload_outcome e len s False s'"
  by (rule upload_failed [OF assms(1,2), of _ s "Ota_begin # map Ota_write (pieces tr) @ (if oe_end e = End_ok then [Ota_end, Set_boot] else [Ota_end])" code msg])
    (use assms(3-6) in \<open>auto simp: harmless_append count_list_append\<close>)

text \<open>
  C21. An upload is applied completely or not at all. The receive loop ends after at most three receive calls per announced
  byte, whatever the client does. If the handler succeeds, the spare slot was written with exactly the announced number of
  bytes, the received ones in order, it was validated before the boot slot was switched, the client was told, and only then was the restart
  scheduled. Otherwise there is no restart and no switch of the boot slot, the client gets exactly one error, and a begun
  update is closed exactly once, by abort or by the failed validation.
\<close>

theorem ota_all_or_nothing:
  assumes "sdk_recv e" "oe_begin e \<noteq> Some 0" "ota_post_handler e len s = (ok, s')"
  shows "\<exists>tr cs. received e 0 tr \<and> length tr \<le> 3 * len \<and> ot_calls s' = ot_calls s @ cs \<and>
    (ok \<longrightarrow> length (concat (pieces tr)) = len \<and> oe_end e = End_ok \<and> oe_boot_ok e \<and>
       (\<exists>slot_size label. oe_slot e = Some (slot_size, label) \<and> len \<le> slot_size \<and>
         cs = [Ota_begin] @ map Ota_write (pieces tr) @ [Ota_end, Set_boot, Resp ''200 OK'' (ota_ok_text len label)] @ reboot_calls e s)) \<and>
    (\<not> ok \<longrightarrow> (\<exists>pre code msg. cs = pre @ [Resp code msg] \<and> code \<noteq> ''200 OK'' \<and> harmless e pre \<and>
       (Ota_begin \<in> set pre \<and> oe_begin e \<noteq> None \<longrightarrow> count_list pre Ota_abort + count_list pre Ota_end = 1)))"
proof -
  have "upload_outcome e len s ok s'"
  proof (cases "oe_slot e = None \<or> (\<exists>sz label. oe_slot e = Some (sz, label) \<and> (len = 0 \<or> len > sz)) \<or> oe_begin e = None")
    case True
    then show ?thesis using upload_refused [of e len s] assms(3) by simp
  next
    case False
    then obtain sz label h where sl: "oe_slot e = Some (sz, label)" "0 < len" "len \<le> sz" "oe_begin e = Some h" by fastforce
    then have "h \<noteq> 0" using assms(2) by simp
    obtain r tr tot k s1 where r: "recv_loop e (int len) 0 0 0 (ota_call Ota_begin s) = (r, k, tot, s1)"
      and tr: "received e 0 tr" "length tr \<le> 3 * len" "ot_calls s1 = ot_calls s @ Ota_begin # map Ota_write (pieces tr)" "ot_tmr s1 = ot_tmr s"
      and fin: "r = None \<Longrightarrow> length (concat (pieces tr)) = len \<and> tot = len" "\<And>code msg. r = Some (code, msg) \<Longrightarrow> code \<noteq> ''200 OK''"
      by (rule upload_received [OF assms(1) sl]) blast
    consider (cut) code msg where "r = Some (code, msg)" | (good) "r = None" "oe_end e = End_ok" "oe_boot_ok e"
      | (bad) "r = None" "\<not> (oe_end e = End_ok \<and> oe_boot_ok e)" by (cases r) auto
    then show ?thesis
    proof cases
      case cut
      then have *: "s' = ota_call (Resp code msg) (ota_call Ota_abort s1)" "ok = False"
        using assms(3) sl r \<open>h \<noteq> 0\<close> by (auto simp: ota_post_handler_def ota_fail_def Let_def)
      show ?thesis unfolding *(2)
        by (rule upload_failed [OF tr(1,2), of _ s "Ota_begin # map Ota_write (pieces tr) @ [Ota_abort]" code msg])
          (simp_all add: tr(3) harmless_append count_list_append *(1) fin(2) [OF cut])
    next
      case good
      then have "ok" "s' = ota_schedule_reboot e (ota_call (Resp ''200 OK'' (ota_ok_text len label)) (ota_call Set_boot (ota_call Ota_end s1)))"
        using assms(3) sl r fin(1) by (auto simp: ota_post_handler_def Let_def)
      then show ?thesis using tr good fin(1) sl unfolding upload_outcome_def
        by (intro exI [of _ tr] exI [of _ "[Ota_begin] @ map Ota_write (pieces tr) @ [Ota_end, Set_boot, Resp ''200 OK'' (ota_ok_text len label)] @ reboot_calls e s"])
          (simp add: schedule_reboot_calls reboot_calls_def)
    next
      case bad
      let ?code = "if oe_end e = End_ok then ''500 Internal Server Error'' else ''400 Bad Request''"
      have "ok = False \<and> (\<exists>msg. ot_calls s' = ot_calls s1 @ (if oe_end e = End_ok then [Ota_end, Set_boot] else [Ota_end]) @ [Resp ?code msg])"
        using assms(3) sl r bad by (cases "oe_end e = End_ok"; force simp: ota_post_handler_def ota_fail_def Let_def)
      then show ?thesis using upload_closed [OF tr(1-3) bad(2), of ?code s'] by (auto split: if_splits)
    qed
  qed
  then show ?thesis unfolding upload_outcome_def .
qed

definition sample_oenv :: oenv where
  "sample_oenv = \<lparr>oe_slot = Some (4096, ''ota_1''), oe_begin = Some 7,
     oe_recv = (\<lambda>k m. if k = 0 then Rx (take m [1, 2]) else if k = 1 then Rx_timeout else Rx (take m [3])),
     oe_write_ok = (\<lambda>_. True), oe_end = End_ok, oe_boot_ok = True, oe_timer_ok = True\<rparr>"

theorem ota_all_or_nothing_witness:
  "fst (ota_post_handler sample_oenv 3 ota_init) \<and>
   (\<exists>tr. received sample_oenv 0 tr \<and> length (concat (pieces tr)) = 3 \<and>
     ot_calls (snd (ota_post_handler sample_oenv 3 ota_init)) =
       [Ota_begin] @ map Ota_write (pieces tr) @
       [Ota_end, Set_boot, Resp ''200 OK'' (ota_ok_text 3 ''ota_1''), Timer_create, Timer_start 1000000])"
proof -
  have recv: "sdk_recv sample_oenv" by (auto simp: sdk_recv_def sample_oenv_def split: if_splits)
  have ok: "fst (ota_post_handler sample_oenv 3 ota_init)"
    by (simp add: ota_post_handler_def sample_oenv_def recv_loop.simps OTA_BUF_def Let_def)
  have slot: "oe_slot sample_oenv = Some (4096, ''ota_1'')" "oe_begin sample_oenv \<noteq> Some 0" "reboot_calls sample_oenv ota_init = [Timer_create, Timer_start 1000000]"
    by (simp_all add: sample_oenv_def reboot_calls_def ota_init_def)
  show ?thesis
    using ok ota_all_or_nothing [OF recv slot(2) prod.collapse [symmetric], of 3 ota_init] slot by (auto simp: ota_init_def)
qed

section \<open>Confirmation\<close>

text \<open>A running image is confirmed only behind a working receiver, and only while the boot loader waits for it.\<close>

lemma confirmed_only_with_receiver:
  "ot_calls (ota_mark_valid st s) \<noteq> ot_calls s \<longleftrightarrow> ota_is_up s \<and> st = Some ESP_OTA_IMG_PENDING_VERIFY"
  by (simp add: ota_mark_valid_def split: option.splits)

text \<open>Retrying the start never takes a working receiver down, and a start is retried until both routes exist.\<close>

lemma ota_start_up:
  "ota_is_up (ota_start started r1 r2 port s) \<longleftrightarrow> ota_is_up s \<or> started \<and> r1 \<and> r2"
  "ota_is_up s \<Longrightarrow> ota_start started r1 r2 port s = s"
  by (simp_all add: ota_start_def ota_is_up_def Let_def)

end
