(* ===== verification/Net_Util.thy ===== *)
theory Net_Util
  imports C_Text
begin

text \<open>
  The network glue both nodes share, \<^verbatim>\<open>components/net_util\<close>: what it remembers of the WiFi station (\<^verbatim>\<open>net_util.c\<close>) and the nightly
  restart (\<^verbatim>\<open>nightly.c\<close>). The events come from the SDK; an address is its four bytes, all zero for none. The calls made to
  the SDK are logged.
\<close>

section \<open>WiFi station\<close>

datatype wifi_call = Wifi_start | Wifi_connect | Set_hostname string | Set_got_ip | Set_txpower int

record net =
  ne_ip :: "byte list"
  ne_down_since_us :: time_us
  ne_hostname :: string
  ne_calls :: "wifi_call list"

definition NO_IP :: "byte list" where "NO_IP = [0, 0, 0, 0]"

definition net_init :: net where
  "net_init = \<lparr>ne_ip = NO_IP, ne_down_since_us = 0, ne_hostname = '''', ne_calls = []\<rparr>"

definition wifi_call :: "wifi_call \<Rightarrow> net \<Rightarrow> net" where
  "wifi_call c s = s\<lparr>ne_calls := ne_calls s @ [c]\<rparr>"

definition net_wifi_up :: "net \<Rightarrow> bool" where
  "net_wifi_up s \<longleftrightarrow> ne_ip s \<noteq> NO_IP"

definition net_wifi_down_ms :: "time_us \<Rightarrow> net \<Rightarrow> int" where
  "net_wifi_down_ms now s =
     (if net_wifi_up s then 0
      else if ne_down_since_us s = 0 then 0
      else (now - ne_down_since_us s) div 1000)"

definition ip_text :: "byte list \<Rightarrow> string" where
  "ip_text a = dec_string (unat (a ! 0)) @ ''.'' @ dec_string (unat (a ! 1)) @ ''.'' @ dec_string (unat (a ! 2)) @ ''.'' @ dec_string (unat (a ! 3))"

definition net_wifi_ip_str :: "nat \<Rightarrow> net \<Rightarrow> string" where
  "net_wifi_ip_str n s = snprintf n (if net_wifi_up s then ip_text (ne_ip s) else ''-'')"

datatype net_ev = Ev_sta_start | Ev_disconnected | Ev_got_ip "byte list"

fun on_evt :: "time_us \<Rightarrow> net_ev \<Rightarrow> net \<Rightarrow> net" where
  "on_evt now Ev_sta_start s = s"
| "on_evt now Ev_disconnected s =
     (let s = s\<lparr>ne_ip := NO_IP\<rparr>;
          s = (if ne_down_since_us s = 0 then s\<lparr>ne_down_since_us := now\<rparr> else s)
      in wifi_call Wifi_connect s)"
| "on_evt now (Ev_got_ip a) s = wifi_call Set_got_ip (s\<lparr>ne_ip := a, ne_down_since_us := 0\<rparr>)"

text \<open>The start, with every checked SDK call succeeding (it restarts the node otherwise); the name buffer has 33 bytes.\<close>

definition net_wifi_start :: "time_us \<Rightarrow> string option \<Rightarrow> net \<Rightarrow> net" where
  "net_wifi_start now hostname s =
     (let s = (case hostname of Some h \<Rightarrow> s\<lparr>ne_hostname := take 32 h\<rparr> | None \<Rightarrow> s)
      in wifi_call Wifi_start (s\<lparr>ne_down_since_us := now\<rparr>))"

definition netstart_task :: "net \<Rightarrow> net" where
  "netstart_task s = wifi_call Wifi_connect (if ne_hostname s \<noteq> '''' then wifi_call (Set_hostname (ne_hostname s)) s else s)"

definition net_wifi_rssi :: "int option \<Rightarrow> int" where
  "net_wifi_rssi ap = (case ap of None \<Rightarrow> 0 | Some r \<Rightarrow> r)"

definition net_wifi_set_txpower :: "int \<Rightarrow> net \<Rightarrow> net" where
  "net_wifi_set_txpower max_qdbm = wifi_call (Set_txpower max_qdbm)"

text \<open>What the rest of the firmware is promised: either an address, or the moment from which there has been none.\<close>

datatype outage = Online "byte list" | Offline time_us

fun spec_evt :: "time_us \<Rightarrow> net_ev \<Rightarrow> outage \<Rightarrow> outage" where
  "spec_evt now Ev_sta_start w = w"
| "spec_evt now (Ev_got_ip a) w = Online a"
| "spec_evt now Ev_disconnected (Online a) = Offline now"
| "spec_evt now Ev_disconnected (Offline t) = Offline t"

fun spec_down_ms :: "time_us \<Rightarrow> outage \<Rightarrow> int" where
  "spec_down_ms now (Online a) = 0"
| "spec_down_ms now (Offline t) = (now - t) div 1000"

definition net_abs :: "net \<Rightarrow> outage \<Rightarrow> bool" where
  "net_abs s w \<longleftrightarrow> (case w of Online a \<Rightarrow> ne_ip s = a \<and> a \<noteq> NO_IP \<and> ne_down_since_us s = 0
     | Offline t \<Rightarrow> ne_ip s = NO_IP \<and> ne_down_since_us s = t \<and> 0 < t)"

definition timed :: "(time_us \<times> net_ev) list \<Rightarrow> bool" where
  "timed evs \<longleftrightarrow> list_all (\<lambda>(t, ev). 0 < t \<and> ev \<noteq> Ev_got_ip NO_IP) evs"

lemma net_abs_step:
  "net_abs s w \<Longrightarrow> 0 < t \<Longrightarrow> ev \<noteq> Ev_got_ip NO_IP \<Longrightarrow> net_abs (on_evt t ev s) (spec_evt t ev w)"
  by (cases ev; cases w) (auto simp: net_abs_def wifi_call_def Let_def)

lemma net_abs_run:
  "net_abs s w \<Longrightarrow> timed evs \<Longrightarrow> net_abs (fold (\<lambda>(t, ev). on_evt t ev) evs s) (fold (\<lambda>(t, ev). spec_evt t ev) evs w)"
  by (induction evs arbitrary: s w) (auto simp: timed_def net_abs_step)

text \<open>
  From the start on, through any events: the station is up exactly while it holds an address, and the outage reported is the
  time since the first loss of the last address, not since the latest failed attempt.
\<close>

lemma net_reports_outage:
  assumes "0 < t0" "timed evs"
  shows "let s = fold (\<lambda>(t, ev). on_evt t ev) evs (net_wifi_start t0 h net_init);
             w = fold (\<lambda>(t, ev). spec_evt t ev) evs (Offline t0)
         in net_wifi_down_ms now s = spec_down_ms now w \<and> (net_wifi_up s \<longleftrightarrow> (\<exists>a. w = Online a))"
proof -
  let ?s = "fold (\<lambda>(t, ev). on_evt t ev) evs (net_wifi_start t0 h net_init)"
  let ?w = "fold (\<lambda>(t, ev). spec_evt t ev) evs (Offline t0)"
  have "net_abs (net_wifi_start t0 h net_init) (Offline t0)"
    using assms(1) by (simp add: net_abs_def net_wifi_start_def net_init_def wifi_call_def Let_def split: option.split)
  from net_abs_run [OF this assms(2)] have "net_abs ?s ?w" .
  then show ?thesis
    by (cases ?w) (simp_all add: net_abs_def net_wifi_down_ms_def net_wifi_up_def Let_def)
qed

section \<open>Nightly restart\<close>

text \<open>
  One check, every minute: the up time, the wall clock in seconds, the local hour and minute, and what the busy callback says
  when there is one.
\<close>

definition nightly_due :: "nat \<Rightarrow> nat \<Rightarrow> time_us \<Rightarrow> int \<Rightarrow> nat \<Rightarrow> nat \<Rightarrow> bool" where
  "nightly_due s_hour s_min now wall hour minute \<longleftrightarrow>
     \<not> now < 2 * 3600 * 1000000 \<and> \<not> wall < 1600000000 \<and> \<not> (hour \<noteq> s_hour \<or> minute < s_min \<or> minute \<ge> s_min + 5)"

definition nightly_tick :: "nat \<Rightarrow> nat \<Rightarrow> time_us \<Rightarrow> int \<Rightarrow> nat \<Rightarrow> nat \<Rightarrow> bool option \<Rightarrow> bool" where
  "nightly_tick s_hour s_min now wall hour minute busy =
     (if \<not> nightly_due s_hour s_min now wall hour minute then False else if busy = Some True then False else True)"

text \<open>
  A node that has been up long enough and whose clock is set restarts within the window: a check runs every minute and the
  window holds five of them. After the restart its up time starts again, and the window is over long before two hours have passed.
\<close>

lemma nightly_window:
  assumes "now \<ge> 7200000000" "wall \<ge> 1600000000" "s_min \<le> 55" "60 * s_min \<le> sec" "sec < 60 * s_min + 300"
  shows "nightly_tick s_hour s_min now wall s_hour (sec div 60) None"
  using assms by (auto simp: nightly_tick_def nightly_due_def)

lemma nightly_no_loop: "now < 7200000000 \<Longrightarrow> \<not> nightly_tick s_hour s_min now wall hour minute busy"
  by (simp add: nightly_tick_def nightly_due_def)

end
