(* ===== verification/Nb_State.thy ===== *)
theory Nb_State
  imports Tunnel_Wire
begin

text \<open>
  The shared state of node B, \<^verbatim>\<open>node_b/main/nb_state.c\<close>: per identity the link state reported by node A, the
  phone's connection and subscription, the read caches, the warm-start records and the replay owed to the
  phone. One mutex guards the table, so every operation is one critical section on it.

  A \<^verbatim>\<open>nb_cache_t\<close> (a length and a buffer) is the list of its bytes, a C string the list of the bytes before
  its terminator. The flash namespace \<^verbatim>\<open>warm\<close> is a map from unit and page; whether it could be opened at boot
  and whether a write succeeds are parameters.
\<close>

section \<open>Data\<close>

definition NB_MAX_CHARS :: nat where "NB_MAX_CHARS = 8"

definition NB_CACHE_MAX :: nat where "NB_CACHE_MAX = 320"

definition NB_CELL_REPLAY_MAX_AGE_US :: time_us where "NB_CELL_REPLAY_MAX_AGE_US = 10 * 60 * 1000000"

definition NB_REPLAY_DEVINFO :: byte where "NB_REPLAY_DEVINFO = 0x01"

definition NB_REPLAY_CELLINFO :: byte where "NB_REPLAY_CELLINFO = 0x02"

definition NB_REPLAY_SETTINGS :: byte where "NB_REPLAY_SETTINGS = 0x04"

type_synonym nb_cache = "byte list"

record nb_identity =
  ni_name :: "byte list"
  ni_addr :: "byte list"
  ni_have_name :: bool
  ni_link :: tunnel_link_state
  ni_connected :: bool
  ni_conn_handle :: u16
  ni_notify_enabled :: bool
  ni_notify_epoch :: u64
  ni_write_fail_count :: byte
  ni_cache :: "nb_cache list"
  ni_warm_dev :: "nb_cache list"
  ni_warm_cellinfo :: nb_cache
  ni_warm_settings :: nb_cache
  ni_warm_cell_us :: time_us
  ni_pending_replay :: byte
  ni_pending_since_us :: time_us
  ni_dev_seen_us :: time_us

definition zero_identity :: nb_identity where
  "zero_identity = \<lparr>ni_name = [], ni_addr = replicate 6 0, ni_have_name = False, ni_link = LINK_UNREACHABLE,
     ni_connected = False, ni_conn_handle = 0, ni_notify_enabled = False, ni_notify_epoch = 0, ni_write_fail_count = 0,
     ni_cache = replicate NB_MAX_CHARS [], ni_warm_dev = [[], []], ni_warm_cellinfo = [], ni_warm_settings = [],
     ni_warm_cell_us = 0, ni_pending_replay = 0, ni_pending_since_us = 0, ni_dev_seen_us = 0\<rparr>"

record nb_blueprint =
  bp_char_count :: nat
  bp_chars :: "tunnel_char_desc list"
  bp_valid :: bool

record nb_notify_session =
  ns_epoch :: u64
  ns_conn_handle :: u16
  ns_connected :: bool
  ns_notify_enabled :: bool

definition no_session :: nb_notify_session where
  "no_session = \<lparr>ns_epoch = 0, ns_conn_handle = 0, ns_connected = False, ns_notify_enabled = False\<rparr>"

type_synonym warm_flash = "nat \<times> nat \<rightharpoonup> byte list"

record nbs =
  nb_bp :: nb_blueprint
  nb_ids :: "nb_identity list"
  nb_open :: bool
  nb_flash :: warm_flash

abbreviation ident :: "nbs \<Rightarrow> nat \<Rightarrow> nb_identity" where
  "ident s i \<equiv> nb_ids s ! i"

text \<open>
  A store into a fixed array at a variable index. In C a store outside the array overwrites what lies behind
  it; here it makes the list longer than the array, so that a missing bounds test shows in the sizes.
\<close>

definition store_at :: "nat \<Rightarrow> 'a \<Rightarrow> 'a list \<Rightarrow> 'a list" where
  "store_at i v xs = (if i < length xs then xs[i := v] else xs @ [v])"

lemma store_at_inside [simp]: "i < length xs \<Longrightarrow> store_at i v xs = xs[i := v]"
  by (simp add: store_at_def)

text \<open>An update of one identity, behind the test \<^verbatim>\<open>if (id >= CFG_NUM_UNITS) return;\<close> of every operation.\<close>

definition upd_ident :: "nat \<Rightarrow> (nb_identity \<Rightarrow> nb_identity) \<Rightarrow> nbs \<Rightarrow> nbs" where
  "upd_ident i f s = (if i \<ge> length (nb_ids s) then s else s\<lparr>nb_ids := store_at i (f (ident s i)) (nb_ids s)\<rparr>)"

section \<open>Operations\<close>

definition devinfo_score :: "byte list \<Rightarrow> nat" where
  "devinfo_score f = length (filter (\<lambda>i. f ! i \<noteq> 0) [38 ..< min 160 (length f)])"

text \<open>\<^verbatim>\<open>nvs_get_blob\<close> into a buffer of \<^verbatim>\<open>NB_CACHE_MAX\<close> bytes; a missing or larger blob leaves the slot empty.\<close>

definition restore_page :: "warm_flash \<Rightarrow> nat \<Rightarrow> nat \<Rightarrow> nb_cache" where
  "restore_page fl i p = (case fl (i, p) of Some d \<Rightarrow> if length d \<le> NB_CACHE_MAX then d else [] | None \<Rightarrow> [])"

definition nb_state_init :: "nat \<Rightarrow> bool \<Rightarrow> warm_flash \<Rightarrow> nbs" where
  "nb_state_init n open_ok fl =
     \<lparr>nb_bp = \<lparr>bp_char_count = 0, bp_chars = [], bp_valid = False\<rparr>,
      nb_ids = map (\<lambda>i. if open_ok then zero_identity\<lparr>ni_warm_dev := [restore_page fl i 0, restore_page fl i 1]\<rparr>
                        else zero_identity) [0 ..< n],
      nb_open = open_ok, nb_flash = fl\<rparr>"

definition nb_get_blueprint :: "nbs \<Rightarrow> nb_blueprint" where
  "nb_get_blueprint s = nb_bp s"

definition nb_set_blueprint :: "nb_blueprint \<Rightarrow> nbs \<Rightarrow> nbs" where
  "nb_set_blueprint bp s = s\<lparr>nb_bp := bp\<lparr>bp_valid := True\<rparr>\<rparr>"

definition nb_get_identity :: "nat \<Rightarrow> nbs \<Rightarrow> nb_identity" where
  "nb_get_identity i s = (if i \<ge> length (nb_ids s) then zero_identity else ident s i)"

definition nb_set_ident_name :: "nat \<Rightarrow> byte list \<Rightarrow> nbs \<Rightarrow> nbs" where
  "nb_set_ident_name i name = upd_ident i (\<lambda>it. it\<lparr>ni_name := take 31 name, ni_have_name := True\<rparr>)"

definition nb_set_link :: "nat \<Rightarrow> tunnel_link_state \<Rightarrow> nbs \<Rightarrow> nbs" where
  "nb_set_link i l = upd_ident i (\<lambda>it. it\<lparr>ni_link := l\<rparr>)"

definition nb_set_cache :: "nat \<Rightarrow> nat \<Rightarrow> byte list \<Rightarrow> nbs \<Rightarrow> nbs" where
  "nb_set_cache i idx data s =
     (if idx \<ge> NB_MAX_CHARS then s
      else upd_ident i (\<lambda>it. it\<lparr>ni_cache := store_at idx (take NB_CACHE_MAX data) (ni_cache it)\<rparr>) s)"

definition nb_get_cache :: "nat \<Rightarrow> nat \<Rightarrow> nbs \<Rightarrow> nb_cache" where
  "nb_get_cache i idx s = (if i \<ge> length (nb_ids s) \<or> idx \<ge> NB_MAX_CHARS then [] else ni_cache (ident s i) ! idx)"

text \<open>
  \<^verbatim>\<open>nb_set_warm\<close>: of device-info records the richest is kept, and written to flash when it is richer than or
  differs from the cached one in its public fields; cell-info carries its capture time. Other record types
  are ignored.
\<close>

definition same_public :: "byte list \<Rightarrow> byte list \<Rightarrow> bool" where
  "same_public w f \<longleftrightarrow> length w = length f \<and> length f \<ge> 38 \<and> take 32 (drop 6 w) = take 32 (drop 6 f)"

definition set_warm_other :: "time_us \<Rightarrow> byte \<Rightarrow> byte list \<Rightarrow> nb_identity \<Rightarrow> nb_identity" where
  "set_warm_other now rec f it =
     (if rec = 0x02 then it\<lparr>ni_warm_cell_us := now, ni_warm_cellinfo := f\<rparr>
      else if rec = 0x01 then it\<lparr>ni_warm_settings := f\<rparr> else it)"

definition nb_set_warm :: "time_us \<Rightarrow> bool \<Rightarrow> nat \<Rightarrow> byte \<Rightarrow> byte list \<Rightarrow> nbs \<Rightarrow> nbs" where
  "nb_set_warm now nvs_ok i rec data s =
     (if i \<ge> length (nb_ids s) then s
      else let f = take NB_CACHE_MAX data in
        if rec = 0x03 then
          let w = ni_warm_dev (ident s i) ! 0; news = devinfo_score f; olds = devinfo_score w in
          if w \<noteq> [] \<and> news < olds then s
          else let persist = news > olds \<or> \<not> same_public w f;
                   s1 = upd_ident i (\<lambda>it. it\<lparr>ni_warm_dev := (ni_warm_dev it)[0 := f]\<rparr>) s in
               if persist \<and> nb_open s \<and> nvs_ok then s1\<lparr>nb_flash := (nb_flash s1)((i, 0) \<mapsto> f)\<rparr> else s1
        else upd_ident i (set_warm_other now rec f) s)"

definition nb_get_warm :: "time_us \<Rightarrow> nat \<Rightarrow> byte \<Rightarrow> nbs \<Rightarrow> nb_cache" where
  "nb_get_warm now i rec s =
     (if i \<ge> length (nb_ids s) then []
      else let it = ident s i in
        if rec = 0x03 then ni_warm_dev it ! 0
        else if rec = 0x02 then
          if now - ni_warm_cell_us it > NB_CELL_REPLAY_MAX_AGE_US then [] else ni_warm_cellinfo it
        else if rec = 0x01 then ni_warm_settings it else [])"

definition nb_get_warm_dev :: "nat \<Rightarrow> nat \<Rightarrow> nbs \<Rightarrow> nb_cache" where
  "nb_get_warm_dev i page s = (if i \<ge> length (nb_ids s) \<or> page > 1 then [] else ni_warm_dev (ident s i) ! page)"

definition mark_replay :: "time_us \<Rightarrow> byte \<Rightarrow> u64 \<Rightarrow> nb_identity \<Rightarrow> nb_identity" where
  "mark_replay now bits ep it =
     (if \<not> ni_connected it \<or> ni_notify_epoch it \<noteq> ep \<or> bits = 0 then it
      else it\<lparr>ni_pending_since_us := (if ni_pending_replay it = 0 then now else ni_pending_since_us it),
              ni_pending_replay := ni_pending_replay it OR bits\<rparr>)"

definition nb_mark_replay :: "time_us \<Rightarrow> nat \<Rightarrow> byte \<Rightarrow> u64 \<Rightarrow> nbs \<Rightarrow> nbs" where
  "nb_mark_replay now i bits ep = upd_ident i (mark_replay now bits ep)"

definition nb_notify_ready :: "nat \<Rightarrow> nbs \<Rightarrow> bool" where
  "nb_notify_ready i s \<longleftrightarrow> i < length (nb_ids s) \<and> ni_connected (ident s i) \<and> ni_notify_enabled (ident s i)"

definition replay_owed :: "nb_identity \<Rightarrow> bool" where
  "replay_owed it \<longleftrightarrow> ni_connected it \<and> ni_notify_enabled it \<and> ni_pending_replay it \<noteq> 0"

definition replay_expired :: "time_us \<Rightarrow> nb_identity \<Rightarrow> bool" where
  "replay_expired now it \<longleftrightarrow> now - ni_pending_since_us it > 5000000"

definition nb_replay_ready :: "time_us \<Rightarrow> nat \<Rightarrow> nbs \<Rightarrow> bool \<times> nbs" where
  "nb_replay_ready now i s =
     (if i \<ge> length (nb_ids s) then (False, s)
      else if replay_owed (ident s i) \<and> replay_expired now (ident s i)
      then (False, upd_ident i (\<lambda>it. it\<lparr>ni_pending_replay := 0\<rparr>) s)
      else (replay_owed (ident s i), s))"

definition nb_conn_handle :: "nat \<Rightarrow> nbs \<Rightarrow> u16 option" where
  "nb_conn_handle i s = (if i \<ge> length (nb_ids s) \<or> \<not> ni_connected (ident s i) then None else Some (ni_conn_handle (ident s i)))"

definition nb_get_name :: "nat \<Rightarrow> nat \<Rightarrow> nbs \<Rightarrow> byte list option" where
  "nb_get_name i out_len s =
     (if i \<ge> length (nb_ids s) \<or> out_len = 0 \<or> \<not> ni_have_name (ident s i) then None
      else Some (take (out_len - 1) (ni_name (ident s i))))"

definition nb_note_dev_forwarded :: "time_us \<Rightarrow> nat \<Rightarrow> u64 \<Rightarrow> nbs \<Rightarrow> nbs" where
  "nb_note_dev_forwarded now i ep =
     upd_ident i (\<lambda>it. if ni_connected it \<and> ni_notify_enabled it \<and> ni_notify_epoch it = ep
                       then it\<lparr>ni_dev_seen_us := now\<rparr> else it)"

text \<open>The decision on a replay: 0 nothing, 1 deliver, 2 cancelled because the live stream has answered.\<close>

definition replay_action_locked :: "time_us \<Rightarrow> nb_identity \<Rightarrow> nat \<times> nb_identity" where
  "replay_action_locked now it =
     (if replay_owed it then
        if replay_expired now it then (0, it\<lparr>ni_pending_replay := 0\<rparr>)
        else if ni_dev_seen_us it > ni_pending_since_us it then (2, it\<lparr>ni_pending_replay := 0\<rparr>)
        else if ni_link it \<noteq> LINK_UP \<or> now - ni_pending_since_us it > 2000000 then (1, it)
        else (0, it)
      else (0, it))"

definition nb_replay_action :: "time_us \<Rightarrow> nat \<Rightarrow> nbs \<Rightarrow> nat \<times> nbs" where
  "nb_replay_action now i s =
     (if i \<ge> length (nb_ids s) then (0, s)
      else (fst (replay_action_locked now (ident s i)), upd_ident i (\<lambda>it. snd (replay_action_locked now it)) s))"

definition session_of :: "nb_identity \<Rightarrow> nb_notify_session" where
  "session_of it = \<lparr>ns_epoch = ni_notify_epoch it, ns_conn_handle = ni_conn_handle it,
     ns_connected = ni_connected it, ns_notify_enabled = ni_notify_enabled it\<rparr>"

definition claim_replay :: "time_us \<Rightarrow> nb_identity \<Rightarrow> nb_identity" where
  "claim_replay now it =
     (case replay_action_locked now it of (act, it1) \<Rightarrow> if act = 1 then it1\<lparr>ni_pending_replay := 0\<rparr> else it1)"

definition nb_claim_replay :: "time_us \<Rightarrow> nat \<Rightarrow> nbs \<Rightarrow> (nat \<times> nb_notify_session \<times> byte) \<times> nbs" where
  "nb_claim_replay now i s =
     (if i \<ge> length (nb_ids s) then ((0, no_session, 0), s)
      else case replay_action_locked now (ident s i) of (act, it) \<Rightarrow>
        ((if act = 1 then (act, session_of it, ni_pending_replay it) else (act, no_session, 0)),
         upd_ident i (claim_replay now) s))"

definition nb_link_state :: "nat \<Rightarrow> nbs \<Rightarrow> tunnel_link_state" where
  "nb_link_state i s = (if i \<ge> length (nb_ids s) then LINK_UNREACHABLE else ni_link (ident s i))"

definition set_conn :: "bool \<Rightarrow> u16 \<Rightarrow> nb_identity \<Rightarrow> nb_identity" where
  "set_conn c h it =
     (let it1 = it\<lparr>ni_notify_epoch := (if ni_connected it \<noteq> c \<or> ni_conn_handle it \<noteq> h then ni_notify_epoch it + 1
                                       else ni_notify_epoch it),
                   ni_connected := c, ni_conn_handle := h\<rparr> in
      if \<not> c then it1\<lparr>ni_notify_enabled := False, ni_write_fail_count := 0, ni_pending_replay := 0\<rparr> else it1)"

definition nb_set_conn :: "nat \<Rightarrow> bool \<Rightarrow> u16 \<Rightarrow> nbs \<Rightarrow> nbs" where
  "nb_set_conn i c h = upd_ident i (set_conn c h)"

definition set_notify :: "bool \<Rightarrow> nb_identity \<Rightarrow> nb_identity" where
  "set_notify en it =
     it\<lparr>ni_notify_epoch := (if ni_notify_enabled it \<noteq> en then ni_notify_epoch it + 1 else ni_notify_epoch it),
        ni_notify_enabled := en\<rparr>"

definition nb_set_notify :: "nat \<Rightarrow> bool \<Rightarrow> nbs \<Rightarrow> nbs" where
  "nb_set_notify i en = upd_ident i (set_notify en)"

definition nb_get_notify_session :: "nat \<Rightarrow> nbs \<Rightarrow> nb_notify_session" where
  "nb_get_notify_session i s = (if i \<ge> length (nb_ids s) then no_session else session_of (ident s i))"

definition nb_identity_for_conn :: "u16 \<Rightarrow> nbs \<Rightarrow> nat option" where
  "nb_identity_for_conn h s = find_index (\<lambda>it. ni_connected it \<and> ni_conn_handle it = h) (nb_ids s)"

definition nb_active_conn_count :: "nbs \<Rightarrow> nat" where
  "nb_active_conn_count s = length (filter ni_connected (nb_ids s))"

section \<open>Runs of critical sections\<close>

datatype nb_op =
    Op_blueprint nb_blueprint
  | Op_name nat "byte list"
  | Op_link nat tunnel_link_state
  | Op_cache nat nat "byte list"
  | Op_warm time_us bool nat byte "byte list"
  | Op_mark time_us nat byte u64
  | Op_ready time_us nat
  | Op_dev_forwarded time_us nat u64
  | Op_action time_us nat
  | Op_claim time_us nat
  | Op_conn nat bool u16
  | Op_notify nat bool

fun nb_apply :: "nb_op \<Rightarrow> nbs \<Rightarrow> nbs" where
  "nb_apply (Op_blueprint bp) s = nb_set_blueprint bp s"
| "nb_apply (Op_name i name) s = nb_set_ident_name i name s"
| "nb_apply (Op_link i l) s = nb_set_link i l s"
| "nb_apply (Op_cache i idx d) s = nb_set_cache i idx d s"
| "nb_apply (Op_warm t ok i rec f) s = nb_set_warm t ok i rec f s"
| "nb_apply (Op_mark t i b ep) s = nb_mark_replay t i b ep s"
| "nb_apply (Op_ready t i) s = snd (nb_replay_ready t i s)"
| "nb_apply (Op_dev_forwarded t i ep) s = nb_note_dev_forwarded t i ep s"
| "nb_apply (Op_action t i) s = snd (nb_replay_action t i s)"
| "nb_apply (Op_claim t i) s = snd (nb_claim_replay t i s)"
| "nb_apply (Op_conn i c h) s = nb_set_conn i c h s"
| "nb_apply (Op_notify i en) s = nb_set_notify i en s"

abbreviation nb_run :: "nb_op list \<Rightarrow> nbs \<Rightarrow> nbs" where
  "nb_run ops s \<equiv> fold nb_apply ops s"

lemmas nb_op_defs = nb_set_blueprint_def nb_set_ident_name_def nb_set_link_def nb_set_cache_def nb_set_warm_def
  nb_mark_replay_def nb_replay_ready_def nb_note_dev_forwarded_def nb_replay_action_def nb_claim_replay_def
  nb_set_conn_def nb_set_notify_def

lemma upd_ident_simps [simp]:
  "nb_ids (upd_ident i f s) = upd_unit i f (nb_ids s)" "nb_bp (upd_ident i f s) = nb_bp s"
  "nb_open (upd_ident i f s) = nb_open s" "nb_flash (upd_ident i f s) = nb_flash s"
  by (simp_all add: upd_ident_def upd_unit_def)

lemma nb_apply_length [simp]: "length (nb_ids (nb_apply op s)) = length (nb_ids s)"
  by (cases op) (simp_all add: nb_op_defs Let_def case_prod_unfold)

lemma nb_apply_open [simp]: "nb_open (nb_apply op s) = nb_open s"
  by (cases op) (simp_all add: nb_op_defs Let_def case_prod_unfold)

lemma nb_run_length [simp]: "length (nb_ids (nb_run ops s)) = length (nb_ids s)"
  by (induction ops arbitrary: s) simp_all

lemma nb_run_open [simp]: "nb_open (nb_run ops s) = nb_open s"
  by (induction ops arbitrary: s) simp_all

section \<open>The replay debt\<close>

text \<open>The bits a mark adds to the debt of unit \<open>i\<close>, and the bits added along a run.\<close>

fun accepted :: "nat \<Rightarrow> nb_op \<Rightarrow> nbs \<Rightarrow> byte" where
  "accepted i (Op_mark t j b ep) s =
     (if j = i \<and> ni_connected (ident s i) \<and> ni_notify_epoch (ident s i) = ep then b else 0)"
| "accepted i _ s = 0"

fun marks :: "nat \<Rightarrow> nb_op list \<Rightarrow> nbs \<Rightarrow> byte" where
  "marks i [] s = 0"
| "marks i (op # ops) s = accepted i op s OR marks i ops (nb_apply op s)"

lemma marks_snoc: "marks i (ops @ [op]) s = marks i ops s OR accepted i op (nb_run ops s)"
  by (induction ops arbitrary: s) (simp_all add: or.assoc)

text \<open>Whether an operation hands the replay of unit \<open>i\<close> to the tunnel task.\<close>

fun delivers :: "nat \<Rightarrow> nb_op \<Rightarrow> nbs \<Rightarrow> bool" where
  "delivers i (Op_claim t j) s \<longleftrightarrow> j = i \<and> fst (fst (nb_claim_replay t i s)) = 1"
| "delivers i _ s \<longleftrightarrow> False"

lemmas replay_defs = mark_replay_def claim_replay_def replay_action_locked_def set_conn_def set_notify_def
  set_warm_other_def Let_def

text \<open>What any operation does to a debt that remains owed after it: it creates it, or extends it.\<close>

lemma debt_step:
  assumes i: "i < length (nb_ids s)" and p: "ni_pending_replay (ident (nb_apply op s) i) \<noteq> 0"
    and wf: "ni_pending_replay (ident s i) \<noteq> 0 \<longrightarrow> ni_connected (ident s i)"
  shows "ni_connected (ident (nb_apply op s) i) \<and>
    ((ni_pending_replay (ident s i) = 0 \<and> (\<exists>t b ep. op = Op_mark t i b ep \<and> accepted i op s = b \<and>
        ni_pending_replay (ident (nb_apply op s) i) = b \<and> ni_pending_since_us (ident (nb_apply op s) i) = t)) \<or>
     (ni_pending_replay (ident s i) \<noteq> 0 \<and> \<not> delivers i op s \<and>
        ni_pending_replay (ident (nb_apply op s) i) = ni_pending_replay (ident s i) OR accepted i op s \<and>
        ni_pending_since_us (ident (nb_apply op s) i) = ni_pending_since_us (ident s i)))"
proof (cases op)
  case (Op_claim t j)
  then show ?thesis using i p wf
    by (cases "j = i") (auto simp: nb_op_defs nth_upd_unit replay_defs case_prod_unfold split: if_splits)
next
  case (Op_conn j c h)
  then show ?thesis using i p wf
    by (cases "j = i") (auto simp: nb_op_defs nth_upd_unit replay_defs split: if_splits)
next
  case (Op_mark t j b ep)
  then show ?thesis using i p wf
    by (cases "j = i") (auto simp: nb_op_defs nth_upd_unit replay_defs split: if_splits)
next
  case (Op_warm t ok j rec f)
  then show ?thesis using i p wf
    by (cases "j = i") (auto simp: nb_op_defs nth_upd_unit replay_defs split: if_splits)
qed (use i p wf in \<open>auto simp: nb_op_defs nth_upd_unit replay_defs case_prod_unfold split: if_splits\<close>)

text \<open>
  An owed debt has one origin in the run: a mark of a connected session, after which the phone stayed connected
  and nothing was delivered; the debt is what was marked since.
\<close>

definition debt_since :: "nat \<Rightarrow> nbs \<Rightarrow> nb_op list \<Rightarrow> time_us \<Rightarrow> byte \<Rightarrow> u64 \<Rightarrow> nb_op list \<Rightarrow> bool" where
  "debt_since i s0 pre t b ep post \<longleftrightarrow>
     (let s = nb_run pre s0; ops = Op_mark t i b ep # post in
      b \<noteq> 0 \<and> ni_connected (ident s i) \<and> ni_notify_epoch (ident s i) = ep \<and>
      (\<forall>k \<le> length ops. ni_connected (ident (nb_run (take k ops) s) i)) \<and>
      (\<forall>k < length ops. \<not> delivers i (ops ! k) (nb_run (take k ops) s)))"

lemma debt_since_snoc:
  assumes "debt_since i s0 pre t b ep post" and "\<not> delivers i op (nb_run (pre @ Op_mark t i b ep # post) s0)"
    and "ni_connected (ident (nb_run (pre @ Op_mark t i b ep # post @ [op]) s0) i)"
  shows "debt_since i s0 pre t b ep (post @ [op])"
proof -
  let ?ops = "Op_mark t i b ep # post" and ?s = "nb_run pre s0"
  have split: "Op_mark t i b ep # post @ [op] = ?ops @ [op]" by simp
  have old: "b \<noteq> 0" "ni_connected (ident ?s i)" "ni_notify_epoch (ident ?s i) = ep"
    "\<forall>k \<le> length ?ops. ni_connected (ident (nb_run (take k ?ops) ?s) i)"
    "\<forall>k < length ?ops. \<not> delivers i (?ops ! k) (nb_run (take k ?ops) ?s)"
    using assms(1) unfolding debt_since_def Let_def by blast+
  have "ni_connected (ident (nb_run (take k (?ops @ [op])) ?s) i)" if "k \<le> length (?ops @ [op])" for k
  proof (cases "k \<le> length ?ops")
    case True
    then have "take k (?ops @ [op]) = take k ?ops" by (simp del: append_Cons)
    with old(4) True show ?thesis by metis
  next
    case False
    with that have "take k (?ops @ [op]) = ?ops @ [op]" by (simp del: append_Cons)
    with assms(3) show ?thesis by simp
  qed
  moreover have "\<not> delivers i ((?ops @ [op]) ! k) (nb_run (take k (?ops @ [op])) ?s)" if "k < length (?ops @ [op])" for k
  proof (cases "k < length ?ops")
    case True
    then have "take k (?ops @ [op]) = take k ?ops" "(?ops @ [op]) ! k = ?ops ! k" by (simp_all add: nth_append del: append_Cons)
    with old(5) True show ?thesis by metis
  next
    case False
    with that have "take k (?ops @ [op]) = ?ops" "(?ops @ [op]) ! k = op" by (simp_all add: nth_append del: append_Cons)
    with assms(2) show ?thesis by simp
  qed
  ultimately show ?thesis unfolding debt_since_def Let_def split using old(1-3) by blast
qed

lemma debt_origin:
  assumes "i < length (nb_ids s0)" and "ni_pending_replay (ident s0 i) = 0"
    and "ni_pending_replay (ident (nb_run ops s0) i) \<noteq> 0"
  shows "ni_connected (ident (nb_run ops s0) i) \<and>
    (\<exists>pre t b ep post. ops = pre @ Op_mark t i b ep # post \<and> debt_since i s0 pre t b ep post \<and>
       ni_pending_since_us (ident (nb_run ops s0) i) = t \<and>
       ni_pending_replay (ident (nb_run ops s0) i) = marks i (Op_mark t i b ep # post) (nb_run pre s0))"
  using assms(3)
proof (induction ops rule: rev_induct)
  case (snoc op ops)
  let ?s = "nb_run ops s0"
  have len: "i < length (nb_ids ?s)" using assms(1) by simp
  have st: "nb_run (ops @ [op]) s0 = nb_apply op ?s" by simp
  note step = debt_step [OF len, of op]
  show ?case
  proof (cases "ni_pending_replay (ident ?s i) = 0")
    case True
    with step snoc.prems obtain t b ep where o: "op = Op_mark t i b ep" "accepted i op ?s = b"
      "ni_pending_replay (ident (nb_apply op ?s) i) = b" "ni_pending_since_us (ident (nb_apply op ?s) i) = t"
      "ni_connected (ident (nb_apply op ?s) i)" unfolding st by blast
    with snoc.prems have "debt_since i s0 ops t b ep []"
      by (auto simp: debt_since_def Let_def less_Suc_eq_le le_Suc_eq split: if_splits)
    with o st show ?thesis by (intro conjI exI [of _ ops] exI [of _ t] exI [of _ b] exI [of _ ep] exI [of _ "[]"]) simp_all
  next
    case False
    from snoc.IH [OF False] obtain pre t b ep post where h: "ops = pre @ Op_mark t i b ep # post"
      "debt_since i s0 pre t b ep post" "ni_pending_since_us (ident ?s i) = t"
      "ni_pending_replay (ident ?s i) = marks i (Op_mark t i b ep # post) (nb_run pre s0)"
      and c: "ni_connected (ident ?s i)" by blast
    from step snoc.prems False c have n: "ni_connected (ident (nb_apply op ?s) i)" "\<not> delivers i op ?s"
      "ni_pending_replay (ident (nb_apply op ?s) i) = ni_pending_replay (ident ?s i) OR accepted i op ?s"
      "ni_pending_since_us (ident (nb_apply op ?s) i) = ni_pending_since_us (ident ?s i)" by auto
    have "debt_since i s0 pre t b ep (post @ [op])"
      using debt_since_snoc [OF h(2), of op] n(1,2) h(1) by simp
    moreover have "marks i (Op_mark t i b ep # post @ [op]) (nb_run pre s0) = ni_pending_replay (ident (nb_apply op ?s) i)"
      using marks_snoc [of i "Op_mark t i b ep # post" op "nb_run pre s0"] n(3) h(1,4) by simp
    ultimately show ?thesis using n h st
      by (intro conjI exI [of _ pre] exI [of _ t] exI [of _ b] exI [of _ ep] exI [of _ "post @ [op]"]) simp_all
  qed
qed (use assms in simp)

text \<open>
  C32. A replay answers a recent request of the same connection, and only once. If, after any interleaving of
  critical sections, the tunnel task claims a replay, then the run contains a request of a connected phone at most
  5 s old such that the phone has stayed connected ever since and no replay was delivered in between; the claimed
  records are exactly those requested from that moment on. The destination is the unit's current session, and
  either the real link is down or it has left the request unanswered for more than two seconds.
\<close>

theorem replay_answers_an_opener:
  assumes "i < length (nb_ids s0)" and "ni_pending_replay (ident s0 i) = 0"
    and "fst (nb_claim_replay now i (nb_run ops s0)) = (1, sess, bits)"
  shows "\<exists>pre t b ep post. ops = pre @ Op_mark t i b ep # post \<and> debt_since i s0 pre t b ep post \<and>
    now - t \<le> 5000000 \<and> bits = marks i (Op_mark t i b ep # post) (nb_run pre s0) \<and>
    sess = nb_get_notify_session i (nb_run ops s0) \<and>
    (nb_link_state i (nb_run ops s0) \<noteq> LINK_UP \<or> now - t > 2000000)"
proof -
  let ?it = "ident (nb_run ops s0) i"
  from assms(1,3) have c: "replay_owed ?it" "\<not> replay_expired now ?it" "bits = ni_pending_replay ?it" "sess = session_of ?it"
    "ni_link ?it \<noteq> LINK_UP \<or> now - ni_pending_since_us ?it > 2000000"
    by (auto simp: nb_claim_replay_def replay_action_locked_def split: if_splits)
  then have "ni_pending_replay ?it \<noteq> 0" by (simp add: replay_owed_def)
  from debt_origin [OF assms(1,2) this] obtain pre t b ep post
    where h: "ops = pre @ Op_mark t i b ep # post" "debt_since i s0 pre t b ep post" "ni_pending_since_us ?it = t"
      "ni_pending_replay ?it = marks i (Op_mark t i b ep # post) (nb_run pre s0)" by blast
  have "now - t \<le> 5000000" "sess = nb_get_notify_session i (nb_run ops s0)"
    "nb_link_state i (nb_run ops s0) \<noteq> LINK_UP \<or> now - t > 2000000"
    using c h(3) assms(1) by (auto simp: replay_expired_def nb_get_notify_session_def nb_link_state_def)
  with h(1,2,4) c(3) show ?thesis by metis
qed

theorem replay_answers_an_opener_witness:
  "\<exists>pre t b ep post. [Op_conn 0 True 5, Op_mark 100 0 3 1, Op_notify 0 True] = pre @ Op_mark t 0 b ep # post \<and> b = 3"
proof -
  have "\<exists>pre t b ep post. [Op_conn 0 True 5, Op_mark 100 0 3 1, Op_notify 0 True] = pre @ Op_mark t 0 b ep # post \<and>
      debt_since 0 (nb_state_init 1 True Map.empty) pre t b ep post \<and> 900 - t \<le> 5000000 \<and>
      3 = marks 0 (Op_mark t 0 b ep # post) (nb_run pre (nb_state_init 1 True Map.empty)) \<and>
      \<lparr>ns_epoch = 2, ns_conn_handle = 5, ns_connected = True, ns_notify_enabled = True\<rparr> =
        nb_get_notify_session 0 (nb_run [Op_conn 0 True 5, Op_mark 100 0 3 1, Op_notify 0 True] (nb_state_init 1 True Map.empty)) \<and>
      (nb_link_state 0 (nb_run [Op_conn 0 True 5, Op_mark 100 0 3 1, Op_notify 0 True] (nb_state_init 1 True Map.empty)) \<noteq> LINK_UP \<or>
        900 - t > 2000000)"
    by (rule replay_answers_an_opener)
       (simp_all add: nb_state_init_def nb_op_defs upd_ident_def zero_identity_def replay_defs replay_owed_def
          replay_expired_def session_of_def)
  then obtain pre t b ep post where h: "[Op_conn 0 True 5, Op_mark 100 0 3 1, Op_notify 0 True] = pre @ Op_mark t 0 b ep # post" by blast
  then have "Op_mark t 0 b ep \<in> set [Op_conn 0 True 5, Op_mark 100 0 3 1, Op_notify 0 True]" by simp
  then have "b = 3" by simp
  with h show ?thesis by blast
qed
section \<open>The device-info record\<close>

lemma devinfo_score_Nil [simp]: "devinfo_score [] = 0"
  by (simp add: devinfo_score_def)

lemma same_public_trans: "same_public a b \<Longrightarrow> same_public b c \<Longrightarrow> same_public a c"
  by (simp add: same_public_def)

text \<open>What boot would restore is as rich as what is cached, and carries the same public fields.\<close>

definition warm_synced :: "nat \<Rightarrow> nbs \<Rightarrow> bool" where
  "warm_synced i s \<longleftrightarrow> length (ni_warm_dev (ident s i)) = 2 \<and>
     (let w = ni_warm_dev (ident s i) ! 0; r = restore_page (nb_flash s) i 0 in
      devinfo_score r = devinfo_score w \<and> (r = w \<or> same_public r w))"

fun warm_write_ok :: "nb_op \<Rightarrow> bool" where
  "warm_write_ok (Op_warm t ok i rec f) \<longleftrightarrow> ok"
| "warm_write_ok _ \<longleftrightarrow> True"

text \<open>The device-info record an operation offers to unit \<open>i\<close>.\<close>

fun offers :: "nat \<Rightarrow> nb_op \<Rightarrow> byte list option" where
  "offers i (Op_warm t ok j rec f) = (if j = i \<and> rec = 0x03 then Some (take NB_CACHE_MAX f) else None)"
| "offers i _ = None"

lemma warm_other [simp]: "ni_warm_dev (set_warm_other now rec f it) = ni_warm_dev it"
  by (simp add: set_warm_other_def)

lemma claim_warm_dev [simp]: "ni_warm_dev (claim_replay t it) = ni_warm_dev it"
  by (simp add: claim_replay_def replay_action_locked_def)

text \<open>Without an offer to the unit, neither its cached page nor its page in flash changes.\<close>

lemma warm_untouched:
  assumes "offers i op = None"
  shows "ni_warm_dev (ident (nb_apply op s) i) = ni_warm_dev (ident s i)" "nb_flash (nb_apply op s) (i, 0) = nb_flash s (i, 0)"
  by (cases op; use assms in \<open>auto simp: nb_op_defs nth_upd_unit_field replay_defs case_prod_unfold upd_unit_other split: if_splits\<close>)+

lemma restore_page_cong: "fl (i, p) = fl' (i, p) \<Longrightarrow> restore_page fl i p = restore_page fl' i p"
  by (simp add: restore_page_def)

lemma restore_page_put [simp]: "length f \<le> NB_CACHE_MAX \<Longrightarrow> restore_page (fl((i, p) \<mapsto> f)) i p = f"
  by (simp add: restore_page_def)

lemma warm_step:
  assumes i: "i < length (nb_ids s)" and s: "warm_synced i s" "nb_open s" and ok: "warm_write_ok op"
  shows "warm_synced i (nb_apply op s) \<and>
    devinfo_score (ni_warm_dev (ident s i) ! 0) \<le> devinfo_score (ni_warm_dev (ident (nb_apply op s) i) ! 0) \<and>
    (\<forall>f. offers i op = Some f \<longrightarrow> devinfo_score f \<le> devinfo_score (ni_warm_dev (ident (nb_apply op s) i) ! 0))"
proof (cases "offers i op")
  case None
  with warm_untouched [OF None, of s] s show ?thesis by (simp add: warm_synced_def restore_page_cong [of "nb_flash (nb_apply op s)"])
next
  case (Some f)
  then obtain t data where op: "op = Op_warm t True i 0x03 data" and f: "f = take NB_CACHE_MAX data"
    using ok by (cases op) (auto split: if_splits)
  let ?w = "ni_warm_dev (ident s i) ! 0"
  have l: "length f \<le> NB_CACHE_MAX" using f by simp
  show ?thesis
  proof (cases "?w \<noteq> [] \<and> devinfo_score f < devinfo_score ?w")
    case True
    then have "nb_apply op s = s" using i op f by (simp add: nb_set_warm_def Let_def)
    with s True Some show ?thesis by simp
  next
    case False
    then have ge: "devinfo_score ?w \<le> devinfo_score f" by auto
    have w': "ni_warm_dev (ident (nb_apply op s) i) = (ni_warm_dev (ident s i))[0 := f]"
      using i op f False by (auto simp: nb_set_warm_def Let_def upd_unit_same)
    have fl: "nb_flash (nb_apply op s) = (if devinfo_score f > devinfo_score ?w \<or> \<not> same_public ?w f
        then (nb_flash s)((i, 0) \<mapsto> f) else nb_flash s)"
      using i op f False s(2) by (auto simp: nb_set_warm_def Let_def)
    have "warm_synced i (nb_apply op s)"
    proof (cases "devinfo_score f > devinfo_score ?w \<or> \<not> same_public ?w f")
      case True
      with w' fl l s(1) show ?thesis by (simp add: warm_synced_def)
    next
      case same: False
      with w' fl s(1) ge show ?thesis by (auto simp: warm_synced_def Let_def intro: same_public_trans)
    qed
    with w' ge Some s(1) show ?thesis by (simp add: warm_synced_def)
  qed
qed

lemma warm_run:
  assumes "i < length (nb_ids s)" "warm_synced i s" "nb_open s" "list_all warm_write_ok ops"
  shows "warm_synced i (nb_run ops s) \<and>
    devinfo_score (ni_warm_dev (ident s i) ! 0) \<le> devinfo_score (ni_warm_dev (ident (nb_run ops s) i) ! 0) \<and>
    (\<forall>op \<in> set ops. \<forall>f. offers i op = Some f \<longrightarrow> devinfo_score f \<le> devinfo_score (ni_warm_dev (ident (nb_run ops s) i) ! 0))"
  using assms
proof (induction ops arbitrary: s)
  case (Cons op ops)
  then have step: "warm_synced i (nb_apply op s)"
      "devinfo_score (ni_warm_dev (ident s i) ! 0) \<le> devinfo_score (ni_warm_dev (ident (nb_apply op s) i) ! 0)"
      "\<forall>f. offers i op = Some f \<longrightarrow> devinfo_score f \<le> devinfo_score (ni_warm_dev (ident (nb_apply op s) i) ! 0)"
    using warm_step [of i s op] by auto
  have "warm_synced i (nb_run ops (nb_apply op s)) \<and>
    devinfo_score (ni_warm_dev (ident (nb_apply op s) i) ! 0) \<le> devinfo_score (ni_warm_dev (ident (nb_run ops (nb_apply op s)) i) ! 0) \<and>
    (\<forall>o' \<in> set ops. \<forall>f. offers i o' = Some f \<longrightarrow> devinfo_score f \<le> devinfo_score (ni_warm_dev (ident (nb_run ops (nb_apply op s)) i) ! 0))"
    using Cons step(1) by (intro Cons.IH) simp_all
  with step show ?case by (fastforce intro: order_trans)
qed simp

text \<open>
  C33. The richest device-info record is kept, across reboots. Start node B on any flash contents and let any
  critical sections run in any order, as long as the flash writes succeed. Then no device-info record offered to a
  unit was richer than the one cached for it, nor was the one restored at the start; and if node B restarts at this
  moment, the record it restores is exactly as rich and, where it differs from the cached one at all, agrees with
  it in length and in the public model and version fields.
\<close>

theorem richest_devinfo_kept:
  assumes "i < n" and "list_all warm_write_ok ops" and "s = nb_run ops (nb_state_init n True fl)"
  shows "(\<forall>f. Some f \<in> set (map (offers i) ops) \<longrightarrow> devinfo_score f \<le> devinfo_score (nb_get_warm_dev i 0 s)) \<and>
    devinfo_score (nb_get_warm_dev i 0 (nb_state_init n True fl)) \<le> devinfo_score (nb_get_warm_dev i 0 s) \<and>
    devinfo_score (nb_get_warm_dev i 0 (nb_state_init n True (nb_flash s))) = devinfo_score (nb_get_warm_dev i 0 s) \<and>
    (nb_get_warm_dev i 0 (nb_state_init n True (nb_flash s)) = nb_get_warm_dev i 0 s \<or>
     same_public (nb_get_warm_dev i 0 (nb_state_init n True (nb_flash s))) (nb_get_warm_dev i 0 s))"
proof -
  let ?s0 = "nb_state_init n True fl"
  have "i < length (nb_ids ?s0)" "warm_synced i ?s0" "nb_open ?s0"
    using assms(1) by (simp_all add: nb_state_init_def warm_synced_def)
  from warm_run [OF this assms(2)] assms(1)
  show ?thesis unfolding assms(3)
    by (auto simp: nb_get_warm_dev_def warm_synced_def Let_def) (auto simp: nb_state_init_def)
qed

theorem richest_devinfo_kept_witness:
  "devinfo_score (nb_get_warm_dev 0 0 (nb_state_init 1 True (nb_flash (nb_run
     [Op_warm 7 True 0 0x03 (replicate 40 1), Op_warm 9 True 0 0x03 (replicate 38 1)] (nb_state_init 1 True Map.empty))))) \<ge>
   devinfo_score (replicate 40 1)"
proof -
  let ?ops = "[Op_warm 7 True 0 0x03 (replicate 40 1), Op_warm 9 True 0 0x03 (replicate 38 1)]"
  let ?s = "nb_run ?ops (nb_state_init 1 True Map.empty)"
  have "Some (replicate 40 1) \<in> set (map (offers 0) ?ops)" by (simp add: NB_CACHE_MAX_def)
  moreover have "list_all warm_write_ok ?ops" by simp
  moreover note richest_devinfo_kept [of 0 1 ?ops ?s Map.empty]
  ultimately show ?thesis by (metis less_one)
qed


section \<open>The buffers\<close>

definition typed_ident :: "nb_identity \<Rightarrow> bool" where
  "typed_ident it \<longleftrightarrow> length (ni_name it) \<le> 31 \<and> length (ni_cache it) = NB_MAX_CHARS \<and> length (ni_warm_dev it) = 2 \<and>
     list_all (\<lambda>c. length c \<le> NB_CACHE_MAX)
       (ni_cache it @ ni_warm_dev it @ [ni_warm_cellinfo it, ni_warm_settings it])"

definition typed_bp :: "nb_blueprint \<Rightarrow> bool" where
  "typed_bp bp \<longleftrightarrow> bp_char_count bp \<le> NB_MAX_CHARS \<and> length (bp_chars bp) = bp_char_count bp"

definition typed_nbs :: "nbs \<Rightarrow> bool" where
  "typed_nbs s \<longleftrightarrow> list_all typed_ident (nb_ids s) \<and> typed_bp (nb_bp s)"

fun typed_op :: "nb_op \<Rightarrow> bool" where
  "typed_op (Op_blueprint bp) \<longleftrightarrow> typed_bp bp"
| "typed_op _ \<longleftrightarrow> True"

lemma typed_upd: "typed_nbs s \<Longrightarrow> (\<And>it. typed_ident it \<Longrightarrow> typed_ident (f it)) \<Longrightarrow> typed_nbs (upd_ident i f s)"
  by (simp add: typed_nbs_def list_all_upd_unit)

lemma list_all_update: "list_all P xs \<Longrightarrow> P x \<Longrightarrow> list_all P (xs[k := x])"
  by (auto simp: list_all_iff dest: set_update_subset_insert [THEN subsetD])

lemma typed_replay: "typed_ident it \<Longrightarrow> typed_ident (snd (replay_action_locked now it))"
  by (simp add: replay_action_locked_def typed_ident_def)

lemma typed_warm_other: "typed_ident it \<Longrightarrow> length f \<le> NB_CACHE_MAX \<Longrightarrow> typed_ident (set_warm_other now rec f it)"
  by (simp add: set_warm_other_def typed_ident_def)

lemma typed_simple:
  "typed_ident it \<Longrightarrow> typed_ident (mark_replay t b ep it)" "typed_ident it \<Longrightarrow> typed_ident (claim_replay t it)"
  "typed_ident it \<Longrightarrow> typed_ident (set_conn c h it)" "typed_ident it \<Longrightarrow> typed_ident (set_notify en it)"
  by (simp_all add: mark_replay_def claim_replay_def replay_action_locked_def set_conn_def set_notify_def Let_def typed_ident_def)

lemma typed_set_warm: "typed_nbs s \<Longrightarrow> typed_nbs (nb_set_warm now ok i rec f s)"
proof -
  assume s: "typed_nbs s"
  let ?s1 = "upd_ident i (\<lambda>it. it\<lparr>ni_warm_dev := (ni_warm_dev it)[0 := take NB_CACHE_MAX f]\<rparr>) s"
  have "typed_nbs ?s1" using s by (rule typed_upd) (auto simp: typed_ident_def list_all_update)
  moreover have "typed_nbs (?s1\<lparr>nb_flash := fl\<rparr>)" if "typed_nbs ?s1" for fl using that by (simp add: typed_nbs_def)
  moreover have "typed_nbs (upd_ident i (set_warm_other now rec (take NB_CACHE_MAX f)) s)"
    using s by (rule typed_upd) (simp add: typed_warm_other)
  ultimately show ?thesis using s by (simp add: nb_set_warm_def Let_def)
qed

lemma typed_apply:
  assumes "typed_nbs s" "typed_op op"
  shows "typed_nbs (nb_apply op s)"
proof (cases op)
  case (Op_cache i idx d)
  have "typed_nbs (upd_ident i (\<lambda>it. it\<lparr>ni_cache := store_at idx (take NB_CACHE_MAX d) (ni_cache it)\<rparr>) s)"
    if "idx < NB_MAX_CHARS"
    using assms(1) by (rule typed_upd) (use that in \<open>auto simp: typed_ident_def list_all_update\<close>)
  with Op_cache assms(1) show ?thesis by (simp add: nb_set_cache_def)
qed (use assms in \<open>auto simp: nb_set_blueprint_def nb_set_ident_name_def nb_set_link_def nb_mark_replay_def nb_replay_ready_def
    nb_note_dev_forwarded_def nb_replay_action_def nb_claim_replay_def nb_set_conn_def nb_set_notify_def case_prod_unfold
    intro!: typed_upd typed_set_warm typed_replay typed_simple\<close>,
    auto simp: typed_nbs_def typed_ident_def typed_bp_def)



end
