(* ===== verification/Adv_Mgr.thy ===== *)
theory Adv_Mgr
  imports Tunnel_Wire
begin

text \<open>
  The advertising sets of node B, \<^verbatim>\<open>node_b/main/adv_mgr.c\<close>: one set per identity with its own static-random
  address; a set is on the air while its unit is reachable, named and not connected, and the tunnel is up.

  The calls into NimBLE are recorded in the order they are made. Their return codes, the encoder of the
  advertising payload, the pool of packet buffers and the controller's own view of a set are parameters.
\<close>

section \<open>Data\<close>

record adv_set =
  as_addr :: "byte list"
  as_name :: "byte list"
  as_configured :: bool
  as_advertising :: bool
  as_connected :: bool
  as_link :: tunnel_link_state

datatype adv_call =
    Adv_configure nat
  | Adv_set_addr nat "byte list"
  | Adv_set_data nat "byte list"
  | Adv_start nat
  | Adv_stop nat

record adv =
  av_sets :: "adv_set list"
  av_calls :: "adv_call list"

record aenv =
  ae_up :: bool
  ae_rc :: "adv_call list \<Rightarrow> adv_call \<Rightarrow> int"
  ae_fields_ok :: "byte list \<Rightarrow> bool"
  ae_mbuf_ok :: "adv_call list \<Rightarrow> bool"
  ae_active :: "nat \<Rightarrow> bool"

abbreviation aset :: "adv \<Rightarrow> nat \<Rightarrow> adv_set" where
  "aset a i \<equiv> av_sets a ! i"

definition upd_set :: "nat \<Rightarrow> (adv_set \<Rightarrow> adv_set) \<Rightarrow> adv \<Rightarrow> adv" where
  "upd_set i f a = a\<lparr>av_sets := upd_unit i f (av_sets a)\<rparr>"

definition adv_do :: "aenv \<Rightarrow> adv_call \<Rightarrow> adv \<Rightarrow> int \<times> adv" where
  "adv_do e c a = (ae_rc e (av_calls a) c, a\<lparr>av_calls := av_calls a @ [c]\<rparr>)"

definition CFG_ADVERTISE_WHEN_DOWN :: bool where "CFG_ADVERTISE_WHEN_DOWN = False"

section \<open>Operations\<close>

definition adv_mgr_addr :: "nat \<Rightarrow> adv \<Rightarrow> byte list option" where
  "adv_mgr_addr i a = (if i < length (av_sets a) then Some (as_addr (aset a i)) else None)"

definition adv_mgr_identity_for_addr :: "byte list \<Rightarrow> adv \<Rightarrow> nat option" where
  "adv_mgr_identity_for_addr addr a = find_index (\<lambda>s. as_addr s = addr) (av_sets a)"

definition set_adv_data :: "aenv \<Rightarrow> nat \<Rightarrow> adv \<Rightarrow> adv" where
  "set_adv_data e i a =
     (if \<not> ae_fields_ok e (as_name (aset a i)) then a
      else if \<not> ae_mbuf_ok e (av_calls a) then a
      else snd (adv_do e (Adv_set_data i (as_name (aset a i))) a))"

definition configure :: "aenv \<Rightarrow> nat \<Rightarrow> adv \<Rightarrow> adv" where
  "configure e i a =
     (case adv_do e (Adv_configure i) a of (rc, a1) \<Rightarrow>
        if rc \<noteq> 0 then a1
        else let a2 = snd (adv_do e (Adv_set_addr i (as_addr (aset a1 i))) a1);
                 a3 = set_adv_data e i a2 in
             upd_set i (\<lambda>s. s\<lparr>as_configured := True\<rparr>) a3)"

definition should_advertise :: "aenv \<Rightarrow> nat \<Rightarrow> adv \<Rightarrow> bool" where
  "should_advertise e i a =
     (if as_connected (aset a i) then False
      else if \<not> ae_up e then False
      else if as_link (aset a i) = LINK_UNREACHABLE \<and> \<not> CFG_ADVERTISE_WHEN_DOWN then False
      else as_name (aset a i) \<noteq> [])"

definition apply_adv :: "aenv \<Rightarrow> nat \<Rightarrow> adv \<Rightarrow> adv" where
  "apply_adv e i a =
     (let want = should_advertise e i a in
      if want \<and> \<not> as_advertising (aset a i) then
        let a1 = (if \<not> as_configured (aset a i) then configure e i a else a) in
        case adv_do e (Adv_start i) a1 of (rc, a2) \<Rightarrow>
          if rc \<noteq> 0 then a2 else upd_set i (\<lambda>s. s\<lparr>as_advertising := True\<rparr>) a2
      else if \<not> want \<and> as_advertising (aset a i) then
        upd_set i (\<lambda>s. s\<lparr>as_advertising := False\<rparr>) (snd (adv_do e (Adv_stop i) a))
      else a)"

definition adv_mgr_set_name :: "aenv \<Rightarrow> nat \<Rightarrow> byte list \<Rightarrow> adv \<Rightarrow> adv" where
  "adv_mgr_set_name e i name a =
     (if i \<ge> length (av_sets a) then a
      else let a1 = (if take 32 (as_name (aset a i)) \<noteq> take 32 name then
                       let a2 = upd_set i (\<lambda>s. s\<lparr>as_name := take 31 name\<rparr>) a in
                       if as_configured (aset a2 i) then set_adv_data e i a2 else a2
                     else a) in
           apply_adv e i a1)"

definition adv_mgr_on_link :: "aenv \<Rightarrow> nat \<Rightarrow> tunnel_link_state \<Rightarrow> adv \<Rightarrow> adv" where
  "adv_mgr_on_link e i st a =
     (if i < length (av_sets a) then apply_adv e i (upd_set i (\<lambda>s. s\<lparr>as_link := st\<rparr>) a) else a)"

definition adv_mgr_on_connect :: "aenv \<Rightarrow> nat \<Rightarrow> adv \<Rightarrow> adv" where
  "adv_mgr_on_connect e i a =
     (if i < length (av_sets a) then apply_adv e i (upd_set i (\<lambda>s. s\<lparr>as_connected := True\<rparr>) a) else a)"

definition adv_mgr_on_disconnect :: "aenv \<Rightarrow> nat \<Rightarrow> adv \<Rightarrow> adv" where
  "adv_mgr_on_disconnect e i a =
     (if i < length (av_sets a) then apply_adv e i (upd_set i (\<lambda>s. s\<lparr>as_connected := False\<rparr>) a) else a)"

definition adv_mgr_on_adv_stopped :: "aenv \<Rightarrow> nat \<Rightarrow> bool \<Rightarrow> adv \<Rightarrow> adv" where
  "adv_mgr_on_adv_stopped e i restart a =
     (if i \<ge> length (av_sets a) then a
      else let a1 = upd_set i (\<lambda>s. s\<lparr>as_advertising := False\<rparr>) a in
           if restart then apply_adv e i a1 else a1)"

definition audit_set :: "aenv \<Rightarrow> nat \<Rightarrow> adv \<Rightarrow> adv" where
  "audit_set e i a =
     apply_adv e i (if as_configured (aset a i) \<and> as_advertising (aset a i) \<and> \<not> ae_active e i
                    then upd_set i (\<lambda>s. s\<lparr>as_advertising := False\<rparr>) a else a)"

definition adv_mgr_audit :: "aenv \<Rightarrow> adv \<Rightarrow> adv" where
  "adv_mgr_audit e a = fold (audit_set e) [0 ..< length (av_sets a)] a"

definition pause_set :: "aenv \<Rightarrow> nat \<Rightarrow> adv \<Rightarrow> adv" where
  "pause_set e i a =
     (if as_advertising (aset a i)
      then upd_set i (\<lambda>s. s\<lparr>as_advertising := False\<rparr>) (snd (adv_do e (Adv_stop i) a)) else a)"

definition adv_mgr_pause_all :: "aenv \<Rightarrow> adv \<Rightarrow> adv" where
  "adv_mgr_pause_all e a = fold (pause_set e) [0 ..< length (av_sets a)] a"

text \<open>
  \<^verbatim>\<open>adv_mgr_init\<close>: the stored addresses if the blob has the right size, else fresh ones with the two top bits
  set, stored when the namespace could be opened. The result carries the blob that is in flash afterwards.
\<close>

definition mint_addrs :: "nat \<Rightarrow> byte list \<Rightarrow> byte list" where
  "mint_addrs n rnd = map (\<lambda>k. if k mod 6 = 5 then rnd ! k OR 0xC0 else rnd ! k) [0 ..< 6 * n]"

definition fresh_set :: "byte list \<Rightarrow> nat \<Rightarrow> adv_set" where
  "fresh_set addrs i = \<lparr>as_addr = take 6 (drop (6 * i) addrs), as_name = [], as_configured = False,
     as_advertising = False, as_connected = False, as_link = LINK_UNREACHABLE\<rparr>"

definition adv_mgr_init :: "nat \<Rightarrow> bool \<Rightarrow> bool \<Rightarrow> byte list option \<Rightarrow> byte list \<Rightarrow> adv \<times> byte list option" where
  "adv_mgr_init n open_ok set_ok blob rnd =
     (let minted = mint_addrs n rnd;
          stored = (if set_ok then Some minted else blob);
          (addrs, blob') = (if open_ok then (case blob of
              Some b \<Rightarrow> if length b = 6 * n then (b, blob) else (minted, stored)
            | None \<Rightarrow> (minted, stored)) else (minted, blob)) in
      (\<lparr>av_sets = map (fresh_set addrs) [0 ..< n], av_calls = []\<rparr>, blob'))"

section \<open>What the operations do to the sets\<close>

lemma upd_set_simps [simp]: "av_sets (upd_set i f a) = upd_unit i f (av_sets a)" "av_calls (upd_set i f a) = av_calls a"
  by (simp_all add: upd_set_def)

lemma adv_do_simps [simp]: "av_sets (snd (adv_do e c a)) = av_sets a" "av_calls (snd (adv_do e c a)) = av_calls a @ [c]"
    "fst (adv_do e c a) = ae_rc e (av_calls a) c"
  by (simp_all add: adv_do_def)

lemma set_adv_data_sets [simp]: "av_sets (set_adv_data e i a) = av_sets a"
  by (simp add: set_adv_data_def)

lemma configure_sets:
  "av_sets (configure e i a) =
     (if ae_rc e (av_calls a) (Adv_configure i) \<noteq> 0 then av_sets a
      else upd_unit i (\<lambda>s. s\<lparr>as_configured := True\<rparr>) (av_sets a))"
  by (simp add: configure_def case_prod_unfold Let_def)

text \<open>The effect of one application of the policy on the flags: only \<open>configured\<close> and \<open>advertising\<close> of the set change.\<close>

lemma apply_adv_sets:
  "\<exists>c v. av_sets (apply_adv e i a) = upd_unit i (\<lambda>s. s\<lparr>as_configured := c, as_advertising := v\<rparr>) (av_sets a) \<and>
     (v \<longrightarrow> should_advertise e i a)"
proof (cases "i < length (av_sets a)")
  case False
  then show ?thesis
    by (auto simp: apply_adv_def Let_def case_prod_unfold configure_sets)
next
  case True
  have same: "av_sets a = upd_unit i (\<lambda>s. s\<lparr>as_configured := as_configured (aset a i), as_advertising := as_advertising (aset a i)\<rparr>) (av_sets a)"
    using True by (simp add: upd_unit_id)
  consider "should_advertise e i a" "\<not> as_advertising (aset a i)" | "\<not> should_advertise e i a" "as_advertising (aset a i)"
    | "should_advertise e i a \<longleftrightarrow> as_advertising (aset a i)" by blast
  then show ?thesis
  proof cases
    case 1
    define a1 where "a1 = (if \<not> as_configured (aset a i) then configure e i a else a)"
    have a1: "\<exists>c. av_sets a1 = upd_unit i (\<lambda>s. s\<lparr>as_configured := c, as_advertising := False\<rparr>) (av_sets a)"
    proof (cases "as_configured (aset a i) \<or> ae_rc e (av_calls a) (Adv_configure i) \<noteq> 0")
      case True
      then have "av_sets a1 = av_sets a" by (auto simp: a1_def configure_sets)
      with same 1 show ?thesis by (metis (full_types))
    next
      case False
      then have "av_sets a1 = upd_unit i (\<lambda>s. s\<lparr>as_configured := True, as_advertising := False\<rparr>) (av_sets a)"
        using 1 True by (auto simp: a1_def configure_sets intro: upd_unit_cong)
      then show ?thesis by blast
    qed
    then obtain c where c: "av_sets a1 = upd_unit i (\<lambda>s. s\<lparr>as_configured := c, as_advertising := False\<rparr>) (av_sets a)" by blast
    define v where "v = (ae_rc e (av_calls a1) (Adv_start i) = 0)"
    have "av_sets (apply_adv e i a) = upd_unit i (\<lambda>s. s\<lparr>as_configured := c, as_advertising := v\<rparr>) (av_sets a)"
      using 1 c by (simp add: apply_adv_def Let_def case_prod_unfold a1_def [symmetric] v_def comp_def)
    with 1 show ?thesis by blast
  next
    case 2
    have "av_sets (apply_adv e i a) =
        upd_unit i (\<lambda>s. s\<lparr>as_configured := as_configured (aset a i), as_advertising := False\<rparr>) (av_sets a)"
      using 2 True by (auto simp: apply_adv_def Let_def case_prod_unfold intro: upd_unit_cong)
    then show ?thesis by blast
  next
    case 3
    then have "apply_adv e i a = a" by (simp add: apply_adv_def Let_def)
    with same 3 show ?thesis by metis
  qed
qed

lemma apply_adv_length [simp]: "length (av_sets (apply_adv e i a)) = length (av_sets a)"
  using apply_adv_sets [of e i a] by auto

lemma apply_adv_other [simp]: "j \<noteq> i \<Longrightarrow> aset (apply_adv e i a) j = aset a j"
  using apply_adv_sets [of e i a] by auto

lemma apply_adv_fields [simp]:
  "as_connected (aset (apply_adv e i a) j) = as_connected (aset a j)"
  "as_link (aset (apply_adv e i a) j) = as_link (aset a j)"
  "as_name (aset (apply_adv e i a) j) = as_name (aset a j)"
  "as_addr (aset (apply_adv e i a) j) = as_addr (aset a j)"
  using apply_adv_sets [of e i a] by (auto simp: nth_upd_unit_field)

lemma should_advertise_cong:
  "as_connected (aset a i) = as_connected (aset b i) \<Longrightarrow> as_link (aset a i) = as_link (aset b i) \<Longrightarrow>
   as_name (aset a i) = as_name (aset b i) \<Longrightarrow> should_advertise e i a = should_advertise e i b"
  by (simp add: should_advertise_def)

lemma should_advertise_apply [simp]: "should_advertise e j (apply_adv e' i a) = should_advertise e j a"
  by (rule should_advertise_cong) simp_all

lemma apply_adv_advertising:
  assumes "i < length (av_sets a)" and "as_advertising (aset (apply_adv e i a) i)"
  shows "should_advertise e i a"
  using apply_adv_sets [of e i a] assms by (auto simp: upd_unit_same)

text \<open>A wanted set that is still off after the policy was applied has had its start refused.\<close>

lemma apply_adv_refused:
  assumes "i < length (av_sets a)" and "should_advertise e i a" and "\<not> as_advertising (aset (apply_adv e i a) i)"
  shows "\<exists>cs. av_calls (apply_adv e i a) = cs @ [Adv_start i] \<and> ae_rc e cs (Adv_start i) \<noteq> 0"
  using assms by (auto simp: apply_adv_def Let_def case_prod_unfold upd_unit_same configure_sets split: if_splits)

lemma set_adv_data_calls: "\<exists>cs. av_calls (set_adv_data e i a) = av_calls a @ cs"
  by (simp add: set_adv_data_def)

lemma configure_calls: "\<exists>cs. av_calls (configure e i a) = av_calls a @ cs"
  using set_adv_data_calls [of e i "snd (adv_do e (Adv_set_addr i (as_addr (aset a i))) (snd (adv_do e (Adv_configure i) a)))"]
  by (auto simp: configure_def case_prod_unfold Let_def)

lemma apply_adv_calls: "\<exists>cs. av_calls (apply_adv e i a) = av_calls a @ cs"
  using configure_calls [of e i a] by (auto simp: apply_adv_def Let_def case_prod_unfold)

section \<open>The connected sets are silent\<close>

definition silent_ok :: "adv_set \<Rightarrow> bool" where
  "silent_ok s \<longleftrightarrow> (as_connected s \<longrightarrow> \<not> as_advertising s)"

lemma apply_adv_silent:
  assumes "\<And>j. j < length (av_sets a) \<Longrightarrow> j \<noteq> i \<Longrightarrow> silent_ok (aset a j)"
  shows "list_all silent_ok (av_sets (apply_adv e i a))"
proof (unfold list_all_length, intro allI impI)
  fix j assume j: "j < length (av_sets (apply_adv e i a))"
  show "silent_ok (aset (apply_adv e i a) j)"
  proof (cases "j = i")
    case True
    with j apply_adv_advertising [of i a e] show ?thesis by (auto simp: silent_ok_def should_advertise_def)
  qed (use assms j in simp)
qed

abbreviation conn_flags :: "adv \<Rightarrow> bool list" where
  "conn_flags a \<equiv> map as_connected (av_sets a)"

lemma conn_flags_apply [simp]: "conn_flags (apply_adv e i a) = conn_flags a"
  by (rule nth_equalityI) simp_all

lemma conn_flags_upd: "(\<And>s. as_connected (f s) = as_connected s) \<Longrightarrow> map as_connected (upd_unit i f xs) = map as_connected xs"
  by (rule nth_equalityI) (simp_all add: nth_upd_unit_field)

lemma conn_flags_set: "map as_connected (upd_unit i (\<lambda>s. s\<lparr>as_connected := c\<rparr>) xs) = upd_unit i (\<lambda>_. c) (map as_connected xs)"
  by (rule nth_equalityI) (auto simp: nth_upd_unit)

text \<open>The connected flags and the silence of the connected sets under every operation.\<close>

lemma adv_ops_flags:
  "conn_flags (adv_mgr_set_name e i name a) = conn_flags a"
  "conn_flags (adv_mgr_on_link e i st a) = conn_flags a"
  "conn_flags (adv_mgr_on_connect e i a) = upd_unit i (\<lambda>_. True) (conn_flags a)"
  "conn_flags (adv_mgr_on_disconnect e i a) = upd_unit i (\<lambda>_. False) (conn_flags a)"
  "conn_flags (adv_mgr_on_adv_stopped e i r a) = conn_flags a"
  by (simp_all add: adv_mgr_set_name_def adv_mgr_on_link_def adv_mgr_on_connect_def adv_mgr_on_disconnect_def
      adv_mgr_on_adv_stopped_def conn_flags_upd conn_flags_set Let_def)

lemma silent_upd_off: "list_all silent_ok xs \<Longrightarrow> list_all silent_ok (upd_unit i (\<lambda>s. s\<lparr>as_advertising := False\<rparr>) xs)"
  by (rule list_all_upd_unit) (simp_all add: silent_ok_def)

lemma silent_nth: "list_all silent_ok (av_sets a) \<Longrightarrow> j < length (av_sets a) \<Longrightarrow> j \<noteq> i \<Longrightarrow> silent_ok (upd_unit i f (av_sets a) ! j)"
  by (simp add: list_all_length)

lemma adv_ops_silent:
  assumes "list_all silent_ok (av_sets a)"
  shows "list_all silent_ok (av_sets (adv_mgr_set_name e i name a))"
    and "list_all silent_ok (av_sets (adv_mgr_on_link e i st a))"
    and "list_all silent_ok (av_sets (adv_mgr_on_connect e i a))"
    and "list_all silent_ok (av_sets (adv_mgr_on_disconnect e i a))"
    and "list_all silent_ok (av_sets (adv_mgr_on_adv_stopped e i r a))"
proof -
  note nth = silent_nth [OF assms] and ap = apply_adv_silent
  have all: "silent_ok (aset a j)" if "j < length (av_sets a)" for j using assms that by (simp add: list_all_length)
  show "list_all silent_ok (av_sets (adv_mgr_set_name e i name a))"
    using assms by (auto simp: adv_mgr_set_name_def Let_def nth all intro!: ap)
  show "list_all silent_ok (av_sets (adv_mgr_on_link e i st a))"
    using assms by (auto simp: adv_mgr_on_link_def nth all intro!: ap)
  show "list_all silent_ok (av_sets (adv_mgr_on_connect e i a))"
    using assms by (auto simp: adv_mgr_on_connect_def nth all intro!: ap)
  show "list_all silent_ok (av_sets (adv_mgr_on_disconnect e i a))"
    using assms by (auto simp: adv_mgr_on_disconnect_def nth all intro!: ap)
  show "list_all silent_ok (av_sets (adv_mgr_on_adv_stopped e i r a))"
    using assms by (auto simp: adv_mgr_on_adv_stopped_def Let_def nth all silent_upd_off intro!: ap)
qed

lemma audit_set_keeps:
  assumes "list_all silent_ok (av_sets a)"
  shows "list_all silent_ok (av_sets (audit_set e i a)) \<and> conn_flags (audit_set e i a) = conn_flags a"
  using assms by (auto simp: audit_set_def conn_flags_upd silent_nth list_all_length intro!: apply_adv_silent [THEN list_all_length [THEN iffD1, rule_format]])

lemma adv_mgr_audit_keeps:
  assumes "list_all silent_ok (av_sets a)"
  shows "list_all silent_ok (av_sets (adv_mgr_audit e a)) \<and> conn_flags (adv_mgr_audit e a) = conn_flags a"
  unfolding adv_mgr_audit_def
  by (rule fold_inv [where I = "\<lambda>b. list_all silent_ok (av_sets b) \<and> conn_flags b = conn_flags a"])
     (use assms audit_set_keeps in auto)

lemma adv_mgr_pause_all_keeps:
  assumes "list_all silent_ok (av_sets a)"
  shows "list_all silent_ok (av_sets (adv_mgr_pause_all e a)) \<and> conn_flags (adv_mgr_pause_all e a) = conn_flags a"
  unfolding adv_mgr_pause_all_def
  by (rule fold_inv [where I = "\<lambda>b. list_all silent_ok (av_sets b) \<and> conn_flags b = conn_flags a"])
     (use assms in \<open>auto simp: pause_set_def silent_upd_off conn_flags_upd\<close>)
section \<open>The policy is enforced\<close>

lemma audit_set_other: "j \<noteq> i \<Longrightarrow> aset (audit_set e i a) j = aset a j"
  by (simp add: audit_set_def)

lemma should_advertise_off [simp]:
  "should_advertise e j (upd_set i (\<lambda>s. s\<lparr>as_advertising := False\<rparr>) a) = should_advertise e j a"
  by (rule should_advertise_cong) (simp_all add: nth_upd_unit_field)

lemma audit_set_policy [simp]: "should_advertise e j (audit_set e' i a) = should_advertise e j a"
  by (simp add: audit_set_def)

lemma audit_set_length [simp]: "length (av_sets (audit_set e i a)) = length (av_sets a)"
  by (simp add: audit_set_def)

lemma audit_set_calls: "\<exists>cs. av_calls (audit_set e i a) = av_calls a @ cs"
  using apply_adv_calls [of e i a] apply_adv_calls [of e i "upd_set i (\<lambda>s. s\<lparr>as_advertising := False\<rparr>) a"]
  by (simp add: audit_set_def)

text \<open>The state of set \<open>i\<close> agrees with the policy, unless the stack has refused to start it.\<close>

definition policy_at :: "aenv \<Rightarrow> nat \<Rightarrow> adv \<Rightarrow> bool" where
  "policy_at e i a \<longleftrightarrow> (as_advertising (aset a i) \<longrightarrow> should_advertise e i a) \<and>
     (should_advertise e i a \<longrightarrow> as_advertising (aset a i) \<or>
        (\<exists>cs ds. av_calls a = cs @ Adv_start i # ds \<and> ae_rc e cs (Adv_start i) \<noteq> 0))"

lemma policy_at_apply: "i < length (av_sets a) \<Longrightarrow> policy_at e i (apply_adv e i a)"
  using apply_adv_advertising [of i a e] apply_adv_refused [of i a e] by (auto simp: policy_at_def)

lemma policy_at_audit: "i < length (av_sets a) \<Longrightarrow> policy_at e i (audit_set e i a)"
  by (simp add: audit_set_def policy_at_apply)

lemma policy_at_keep:
  assumes "policy_at e j a" and "aset b j = aset a j" and "av_calls b = av_calls a @ cs"
  shows "policy_at e j b"
proof -
  have "should_advertise e j b = should_advertise e j a" by (simp add: should_advertise_def assms(2))
  with assms show ?thesis by (fastforce simp: policy_at_def)
qed

lemma policy_after_audit: "k \<le> length (av_sets a) \<Longrightarrow> j < k \<Longrightarrow> policy_at e j (fold (audit_set e) [0 ..< k] a)"
proof (induction k)
  case (Suc k)
  let ?b = "fold (audit_set e) [0 ..< k] a"
  have len: "length (av_sets ?b) = length (av_sets a)" by (rule fold_inv) simp_all
  show ?case
  proof (cases "j = k")
    case True
    with Suc.prems len show ?thesis by (simp add: policy_at_audit)
  next
    case False
    with Suc have "policy_at e j ?b" by simp
    moreover obtain cs where "av_calls (audit_set e k ?b) = av_calls ?b @ cs" using audit_set_calls by blast
    ultimately show ?thesis using False by (simp add: policy_at_keep audit_set_other)
  qed
qed simp

section \<open>What is on the air\<close>

text \<open>
  Whether the controller sends set \<open>i\<close> after the calls \<open>ds\<close>, made after the calls \<open>cs\<close>, if it did so (\<open>b\<close>)
  before them: a start that returns zero turns the set on, a stop turns it off.
\<close>

fun air :: "aenv \<Rightarrow> nat \<Rightarrow> adv_call list \<Rightarrow> adv_call list \<Rightarrow> bool \<Rightarrow> bool" where
  "air e i cs [] b = b"
| "air e i cs (d # ds) b =
     air e i (cs @ [d]) ds (if d = Adv_start i \<and> ae_rc e cs d = 0 then True else if d = Adv_stop i then False else b)"

definition refused :: "aenv \<Rightarrow> nat \<Rightarrow> adv_call list \<Rightarrow> adv_call list \<Rightarrow> bool" where
  "refused e i cs ds \<longleftrightarrow> (\<exists>us vs. ds = us @ Adv_start i # vs \<and> ae_rc e (cs @ us) (Adv_start i) \<noteq> 0)"

definition others :: "nat \<Rightarrow> adv_call list \<Rightarrow> bool" where
  "others i ds \<longleftrightarrow> Adv_start i \<notin> set ds \<and> Adv_stop i \<notin> set ds"

lemma air_append: "air e i cs (ds @ us) b = air e i (cs @ ds) us (air e i cs ds b)"
  by (induction ds arbitrary: cs b) simp_all

lemma air_others: "others i ds \<Longrightarrow> air e i cs ds b = b"
  by (induction ds arbitrary: cs) (auto simp: others_def)

lemma refused_append: "refused e i (cs @ ds) us \<Longrightarrow> refused e i cs (ds @ us @ vs)"
  unfolding refused_def by (metis append.assoc append_Cons)

lemma set_adv_data_others: "\<exists>ds. av_calls (set_adv_data e j a) = av_calls a @ ds \<and> others i ds"
  by (simp add: set_adv_data_def others_def)

lemma configure_others: "\<exists>ds. av_calls (configure e j a) = av_calls a @ ds \<and> others i ds"
proof -
  let ?a2 = "snd (adv_do e (Adv_set_addr j (as_addr (aset (snd (adv_do e (Adv_configure j) a)) j))) (snd (adv_do e (Adv_configure j) a)))"
  obtain ds where "av_calls (set_adv_data e j ?a2) = av_calls ?a2 @ ds" "others i ds" using set_adv_data_others by blast
  then show ?thesis by (auto simp: configure_def case_prod_unfold Let_def others_def)
qed

lemma apply_adv_others: "i \<noteq> j \<Longrightarrow> \<exists>ds. av_calls (apply_adv e j a) = av_calls a @ ds \<and> others i ds"
  using configure_others [of e j a i] by (auto simp: apply_adv_def Let_def case_prod_unfold others_def)

lemma audit_set_others: "i \<noteq> j \<Longrightarrow> \<exists>ds. av_calls (audit_set e j a) = av_calls a @ ds \<and> others i ds"
  using apply_adv_others [of i j e a] apply_adv_others [of i j e "upd_set j (\<lambda>s. s\<lparr>as_advertising := False\<rparr>) a"]
  by (simp add: audit_set_def)

lemma audit_fold_others:
  "i \<notin> set js \<Longrightarrow> \<exists>ds. av_calls (fold (audit_set e) js a) = av_calls a @ ds \<and> others i ds \<and> aset (fold (audit_set e) js a) i = aset a i"
proof (induction js arbitrary: a)
  case Nil
  then show ?case by (simp add: others_def)
next
  case (Cons j js)
  then have j: "i \<noteq> j" "i \<notin> set js" by auto
  obtain ds where ds: "av_calls (audit_set e j a) = av_calls a @ ds" "others i ds" using audit_set_others [OF j(1)] by blast
  obtain us where us: "av_calls (fold (audit_set e) js (audit_set e j a)) = av_calls (audit_set e j a) @ us" "others i us"
    "aset (fold (audit_set e) js (audit_set e j a)) i = aset (audit_set e j a) i"
    using Cons.IH [OF j(2), of "audit_set e j a"] by blast
  have "others i (ds @ us)" using ds(2) us(2) by (auto simp: others_def)
  with ds(1) us(1,3) j(1) show ?case by (intro exI [of _ "ds @ us"]) (simp add: audit_set_other)
qed

text \<open>A set whose flag is off is started if it is wanted; a set whose flag is on is stopped if it is not.\<close>

lemma apply_adv_start:
  assumes "should_advertise e i a" "\<not> as_advertising (aset a i)"
  shows "\<exists>ds. av_calls (apply_adv e i a) = av_calls a @ ds @ [Adv_start i] \<and> others i ds \<and>
    (i < length (av_sets a) \<longrightarrow> (as_advertising (aset (apply_adv e i a) i) \<longleftrightarrow> ae_rc e (av_calls a @ ds) (Adv_start i) = 0))"
proof -
  define a1 where "a1 = (if \<not> as_configured (aset a i) then configure e i a else a)"
  have "\<exists>ds. av_calls a1 = av_calls a @ ds \<and> others i ds"
    using configure_others [of e i a i] by (auto simp: a1_def others_def)
  then obtain ds where ds: "av_calls a1 = av_calls a @ ds" "others i ds" by blast
  have "length (av_sets a1) = length (av_sets a)" "i < length (av_sets a) \<Longrightarrow> \<not> as_advertising (aset a1 i)"
    using assms(2) by (auto simp: a1_def configure_sets nth_upd_unit)
  then show ?thesis using ds assms
    by (auto simp: apply_adv_def Let_def case_prod_unfold a1_def [symmetric] upd_unit_same)
qed

lemma audit_set_air:
  assumes i: "i < length (av_sets a)"
  shows "\<exists>ds. av_calls (audit_set e i a) = av_calls a @ ds \<and>
    (as_configured (aset a i) \<or> \<not> as_advertising (aset a i) \<longrightarrow>
       (as_advertising (aset (audit_set e i a) i) \<longrightarrow> air e i (av_calls a) ds (ae_active e i)) \<and>
       (should_advertise e i a \<longrightarrow> air e i (av_calls a) ds (ae_active e i) \<or> refused e i (av_calls a) ds)) \<and>
    (\<not> should_advertise e i a \<and> as_advertising (aset a i) \<longrightarrow> \<not> air e i (av_calls a) ds (ae_active e i))"
proof -
  define stranded where "stranded \<longleftrightarrow> as_configured (aset a i) \<and> as_advertising (aset a i) \<and> \<not> ae_active e i"
  define a1 where "a1 = (if stranded then upd_set i (\<lambda>s. s\<lparr>as_advertising := False\<rparr>) a else a)"
  have a1: "av_calls a1 = av_calls a" "length (av_sets a1) = length (av_sets a)" "should_advertise e i a1 = should_advertise e i a"
    "as_advertising (aset a1 i) \<longleftrightarrow> as_advertising (aset a i) \<and> \<not> stranded"
    using i by (simp_all add: a1_def upd_unit_same)
  have au: "audit_set e i a = apply_adv e i a1" by (simp add: audit_set_def a1_def stranded_def)
  consider "should_advertise e i a" "\<not> as_advertising (aset a1 i)" | "\<not> should_advertise e i a" "as_advertising (aset a1 i)"
    | "should_advertise e i a \<longleftrightarrow> as_advertising (aset a1 i)" by blast
  then show ?thesis
  proof cases
    case 1
    then obtain ds where ds: "av_calls (audit_set e i a) = av_calls a @ ds @ [Adv_start i]" "others i ds"
      "as_advertising (aset (audit_set e i a) i) \<longleftrightarrow> ae_rc e (av_calls a @ ds) (Adv_start i) = 0"
      using apply_adv_start [of e i a1] a1 i by (auto simp: au)
    have "refused e i (av_calls a) (ds @ [Adv_start i])" if "ae_rc e (av_calls a @ ds) (Adv_start i) \<noteq> 0"
      using that unfolding refused_def by blast
    with ds 1 show ?thesis by (intro exI [of _ "ds @ [Adv_start i]"]) (auto simp: air_append air_others)
  next
    case 2
    then have "av_calls (audit_set e i a) = av_calls a @ [Adv_stop i]" "\<not> as_advertising (aset (audit_set e i a) i)"
      using a1 i by (simp_all add: au apply_adv_def Let_def upd_unit_same)
    with 2 show ?thesis by (intro exI [of _ "[Adv_stop i]"]) simp
  next
    case 3
    then have "audit_set e i a = a1" using a1(3) by (simp add: au apply_adv_def Let_def)
    with 3 a1 show ?thesis by (intro exI [of _ "[]"]) (auto simp: stranded_def)
  qed
qed

lemma audit_air:
  assumes "i < length (av_sets a)"
  shows "\<exists>ds. av_calls (adv_mgr_audit e a) = av_calls a @ ds \<and>
    (as_configured (aset a i) \<or> \<not> as_advertising (aset a i) \<longrightarrow>
       (as_advertising (aset (adv_mgr_audit e a) i) \<longrightarrow> air e i (av_calls a) ds (ae_active e i)) \<and>
       (should_advertise e i a \<longrightarrow> air e i (av_calls a) ds (ae_active e i) \<or> refused e i (av_calls a) ds)) \<and>
    (\<not> should_advertise e i a \<and> as_advertising (aset a i) \<longrightarrow> \<not> air e i (av_calls a) ds (ae_active e i))"
proof -
  have up: "[0 ..< length (av_sets a)] = [0 ..< i] @ i # [Suc i ..< length (av_sets a)]"
    using assms by (metis le_add1 plus_nat.add_0 upt_add_eq_append upt_conv_Cons less_imp_le le_add_diff_inverse)
  let ?b = "fold (audit_set e) [0 ..< i] a"
  let ?c = "audit_set e i ?b"
  have f: "adv_mgr_audit e a = fold (audit_set e) [Suc i ..< length (av_sets a)] ?c" by (simp add: adv_mgr_audit_def up)
  obtain ds where ds: "av_calls ?b = av_calls a @ ds" "others i ds" "aset ?b i = aset a i"
    using audit_fold_others [of i "[0 ..< i]" e a] by auto
  obtain us where us: "av_calls (adv_mgr_audit e a) = av_calls ?c @ us" "others i us" "aset (adv_mgr_audit e a) i = aset ?c i"
    using audit_fold_others [of i "[Suc i ..< length (av_sets a)]" e ?c] unfolding f by auto
  have len: "length (av_sets ?b) = length (av_sets a)" by (rule fold_inv) simp_all
  have sh: "should_advertise e i ?b = should_advertise e i a" by (rule should_advertise_cong) (simp_all add: ds(3))
  from audit_set_air [of i ?b e] assms len obtain ms where ms: "av_calls ?c = av_calls ?b @ ms"
    "as_configured (aset ?b i) \<or> \<not> as_advertising (aset ?b i) \<longrightarrow>
       (as_advertising (aset ?c i) \<longrightarrow> air e i (av_calls ?b) ms (ae_active e i)) \<and>
       (should_advertise e i ?b \<longrightarrow> air e i (av_calls ?b) ms (ae_active e i) \<or> refused e i (av_calls ?b) ms)"
    "\<not> should_advertise e i ?b \<and> as_advertising (aset ?b i) \<longrightarrow> \<not> air e i (av_calls ?b) ms (ae_active e i)" by auto
  have air: "air e i (av_calls a) (ds @ ms @ us) (ae_active e i) = air e i (av_calls ?b) ms (ae_active e i)"
    by (simp add: air_append air_others ds us)
  have "refused e i (av_calls ?b) ms \<Longrightarrow> refused e i (av_calls a) (ds @ ms @ us)" unfolding ds(1) by (rule refused_append)
  with ms us(1,3) ds(1,3) sh show ?thesis
    by (intro exI [of _ "ds @ ms @ us"]) (auto simp: air)
qed

text \<open>
  C34. The audit puts the air back in order. Whatever the flags said before, the supervisor's audit reconciles them with
  what the stack reports to be on the air (\<open>ae_active\<close>, one value per set during a pass). Judged by that report and by
  the starts and stops the audit issued: a set that should be on the air (not connected, tunnel up, unit reachable, name
  known) is on the air afterwards, also one that was flagged as advertising but had been stopped behind
  the manager's back, unless the stack refused to start it in this pass; a set that was flagged
  but should be off is off; and a set that is still flagged as advertising really is. The flags agree with
  the policy, links, names and connections are untouched. Not covered is a set that is flagged without having been configured
  (its configuration failed and its start did not), which the code does not ask the stack about.
\<close>

theorem audit_enforces_policy:
  assumes "i < length (av_sets a)"
  shows "policy_at e i (adv_mgr_audit e a) \<and> should_advertise e i (adv_mgr_audit e a) = should_advertise e i a \<and>
    (\<exists>ds. av_calls (adv_mgr_audit e a) = av_calls a @ ds \<and>
      (as_configured (aset a i) \<or> \<not> as_advertising (aset a i) \<longrightarrow>
         (as_advertising (aset (adv_mgr_audit e a) i) \<longrightarrow> air e i (av_calls a) ds (ae_active e i)) \<and>
         (should_advertise e i a \<longrightarrow> air e i (av_calls a) ds (ae_active e i) \<or> refused e i (av_calls a) ds)) \<and>
      (\<not> should_advertise e i a \<and> as_advertising (aset a i) \<longrightarrow> \<not> air e i (av_calls a) ds (ae_active e i)))"
proof -
  have "should_advertise e i (fold (audit_set e) js a) = should_advertise e i a" for js
    by (induction js arbitrary: a) simp_all
  with policy_after_audit [of "length (av_sets a)" a i e] audit_air [OF assms, of e] assms show ?thesis
    by (simp add: adv_mgr_audit_def)
qed

definition sample_aenv :: aenv where
  "sample_aenv = \<lparr>ae_up = True, ae_rc = (\<lambda>_ _. 0), ae_fields_ok = (\<lambda>_. True), ae_mbuf_ok = (\<lambda>_. True), ae_active = (\<lambda>_. False)\<rparr>"

definition stranded_set :: adv_set where
  "stranded_set = \<lparr>as_addr = [1, 2, 3, 4, 5, 0xC6], as_name = [0x54], as_configured = True, as_advertising = True,
     as_connected = False, as_link = LINK_UP\<rparr>"

theorem audit_enforces_policy_witness:
  "policy_at sample_aenv 0 (adv_mgr_audit sample_aenv \<lparr>av_sets = [stranded_set], av_calls = []\<rparr>) \<and>
   av_calls (adv_mgr_audit sample_aenv \<lparr>av_sets = [stranded_set], av_calls = []\<rparr>) = [Adv_start 0]"
proof -
  let ?a = "\<lparr>av_sets = [stranded_set], av_calls = []\<rparr>"
  have c: "av_calls (adv_mgr_audit sample_aenv ?a) = [Adv_start 0]"
    by (simp add: adv_mgr_audit_def audit_set_def apply_adv_def should_advertise_def sample_aenv_def stranded_set_def
        upd_set_def upd_unit_def adv_do_def)
  from audit_enforces_policy [of 0 ?a sample_aenv] have "policy_at sample_aenv 0 (adv_mgr_audit sample_aenv ?a)" by simp
  with c show ?thesis by blast
qed

end
