(* ===== verification/Stream_Start.thy ===== *)
theory Stream_Start
  imports Prelude
begin

text \<open>
  The boundary search of node B, \<^verbatim>\<open>node_b/main/stream_start.c\<close>: after an app subscribes, raw chunks are
  swallowed until the first complete record. The buffer \<^verbatim>\<open>data[0 .. len)\<close> is a byte list; the
  caller resets it after a hit, so it holds fewer than 300 bytes on entry. The search is shown to
  find the first valid record at any offset, false starts and damaged records before it included.
\<close>

section \<open>Definitions\<close>

definition STREAM_START_RECORD_LEN :: nat where
  "STREAM_START_RECORD_LEN = 300"

definition ss_magic :: "byte list" where
  "ss_magic = [0x55, 0xAA, 0xEB, 0x90]"

definition possible_header :: "byte list \<Rightarrow> bool" where
  "possible_header d \<longleftrightarrow> list_all (\<lambda>i. d ! i = ss_magic ! i) [0 ..< min (length d) 4] \<and>
     (length d < 5 \<or> (d ! 4 \<ge> 1 \<and> d ! 4 \<le> 3))"

text \<open>\<^verbatim>\<open>while (s->len && !possible_header(s)) memmove(...)\<close>\<close>

fun slide :: "byte list \<Rightarrow> byte list" where
  "slide [] = []"
| "slide (b # d) = (if possible_header (b # d) then b # d else slide d)"

definition ss_checksum :: "byte list \<Rightarrow> bool" where
  "ss_checksum d = (sum8 (take (STREAM_START_RECORD_LEN - 1) d) = d ! (STREAM_START_RECORD_LEN - 1))"

text \<open>The body of the outer loop on one byte: the buffer, and whether the search has ended.\<close>

definition ss_byte :: "byte list \<Rightarrow> byte \<Rightarrow> byte list \<times> bool" where
  "ss_byte d b =
     (let d1 = d @ [b] in
      if length d1 = STREAM_START_RECORD_LEN then
        if ss_checksum d1 then (d1, True) else (slide (tl d1), False)
      else (slide d1, False))"

fun ss_loop :: "byte list \<Rightarrow> byte list \<Rightarrow> nat \<Rightarrow> byte list \<times> bool \<times> nat" where
  "ss_loop d [] consumed = (d, False, consumed)"
| "ss_loop d (b # bs) consumed =
     (case ss_byte d b of
        (d', True) \<Rightarrow> (d', True, consumed + 1)
      | (d', False) \<Rightarrow> ss_loop d' bs (consumed + 1))"

definition stream_start_push :: "byte list \<Rightarrow> byte list \<Rightarrow> byte list \<times> bool \<times> nat" where
  "stream_start_push d data = ss_loop d data 0"

text \<open>Chunks pushed one after the other until a hit; the bytes consumed in all.\<close>

fun ss_feed :: "byte list \<Rightarrow> byte list list \<Rightarrow> nat \<Rightarrow> byte list \<times> bool \<times> nat" where
  "ss_feed d [] n = (d, False, n)"
| "ss_feed d (c # cs) n =
     (case stream_start_push d c of
        (d', True, k) \<Rightarrow> (d', True, n + k)
      | (d', False, k) \<Rightarrow> ss_feed d' cs (n + k))"

section \<open>Records in a stream\<close>

definition ss_record :: "byte list \<Rightarrow> bool" where
  "ss_record r \<longleftrightarrow> length r = STREAM_START_RECORD_LEN \<and> take 4 r = ss_magic \<and> r ! 4 \<in> {1, 2, 3} \<and> ss_checksum r"

definition record_at :: "byte list \<Rightarrow> nat \<Rightarrow> bool" where
  "record_at s k \<longleftrightarrow> k + STREAM_START_RECORD_LEN \<le> length s \<and> ss_record (take STREAM_START_RECORD_LEN (drop k s))"

text \<open>No continuation turns the bytes \<open>x\<close> into the beginning of a record.\<close>

definition dead :: "byte list \<Rightarrow> bool" where
  "dead x \<longleftrightarrow> (\<forall>t. \<not> record_at (x @ t) 0)"

lemma dead_append: "dead x \<Longrightarrow> dead (x @ y)"
  by (simp add: dead_def)

lemma ss_type_range: "(b :: byte) \<ge> 1 \<and> b \<le> 3 \<longleftrightarrow> b \<in> {1, 2, 3}"
proof
  assume "b \<ge> 1 \<and> b \<le> 3"
  then have "1 \<le> uint b" "uint b \<le> 3" by (simp_all add: word_le_def)
  then have "uint b = 1 \<or> uint b = 2 \<or> uint b = 3" by arith
  then show "b \<in> {1, 2, 3}" by (auto simp: word_uint_eq_iff)
qed auto

lemma possible_header_full:
  "5 \<le> length d \<Longrightarrow> possible_header d \<longleftrightarrow> take 4 d = ss_magic \<and> d ! 4 \<in> {1, 2, 3}"
  using take4 [of 0 d]
  by (auto simp: possible_header_def ss_type_range ss_magic_def upt_rec numeral_eq_Suc)

lemma record_prefix_possible:
  assumes "record_at (x @ t) 0" "length x \<le> STREAM_START_RECORD_LEN"
  shows "possible_header x"
proof -
  let ?r = "take STREAM_START_RECORD_LEN (x @ t)"
  from assms have r: "ss_record ?r" "length ?r = 300" and x: "x = take (length x) ?r"
    by (auto simp: record_at_def STREAM_START_RECORD_LEN_def)
  then have m: "?r ! i = ss_magic ! i" if "i < 4" for i
    using that by (metis ss_record_def nth_take)
  have "x ! i = ?r ! i" if "i < length x" for i using x that by (metis nth_take)
  then show ?thesis using m r(1)
    unfolding possible_header_def ss_type_range by (auto simp: list_all_length ss_record_def)
qed

lemma not_possible_dead:
  "\<not> possible_header x \<Longrightarrow> length x \<le> STREAM_START_RECORD_LEN \<Longrightarrow> dead x"
  using record_prefix_possible unfolding dead_def by blast

lemma bad_checksum_dead: "length x = STREAM_START_RECORD_LEN \<Longrightarrow> \<not> ss_checksum x \<Longrightarrow> dead x"
  by (simp add: dead_def record_at_def ss_record_def)

section \<open>The invariant of the search\<close>

text \<open>
  \<open>s\<close> is what has been received: the buffer is its end, and no record can start before it.
\<close>

definition ss_inv :: "byte list \<Rightarrow> byte list \<Rightarrow> bool" where
  "ss_inv s d \<longleftrightarrow> length d < STREAM_START_RECORD_LEN \<and> (d = [] \<or> possible_header d) \<and>
     (\<exists>p. s = p @ d \<and> (\<forall>j < length p. dead (drop j s)))"

lemma slide_inv:
  assumes "length d < STREAM_START_RECORD_LEN" "\<forall>j < length p. dead (drop j (p @ d))"
  shows "ss_inv (p @ d) (slide d)"
  using assms
proof (induction d arbitrary: p)
  case Nil
  then show ?case by (auto simp: ss_inv_def)
next
  case (Cons b d)
  show ?case
  proof (cases "possible_header (b # d)")
    case True
    with Cons.prems show ?thesis by (auto simp: ss_inv_def)
  next
    case False
    then have "dead (b # d)" using Cons.prems(1) by (intro not_possible_dead) simp_all
    then have "\<forall>j < length (p @ [b]). dead (drop j ((p @ [b]) @ d))"
      using Cons.prems(2) by (auto simp: less_Suc_eq)
    from Cons.IH [OF _ this] False Cons.prems(1) show ?thesis by simp
  qed
qed

lemma ss_byte_inv:
  assumes "ss_inv s d"
  shows "case ss_byte d b of
     (d', True) \<Rightarrow> ss_record d' \<and> (\<exists>p. s @ [b] = p @ d' \<and> (\<forall>j < length p. dead (drop j (s @ [b]))))
   | (d', False) \<Rightarrow> ss_inv (s @ [b]) d'"
proof -
  from assms obtain p where p: "s = p @ d" "\<forall>j < length p. dead (drop j s)"
    and d: "length d < STREAM_START_RECORD_LEN" "d = [] \<or> possible_header d"
    by (auto simp: ss_inv_def)
  have old: "\<forall>j < length p. dead (drop j (p @ d @ [b]))"
  proof (intro allI impI)
    fix j assume "j < length p"
    then have "dead (drop j p @ d)" using p by simp
    from dead_append [OF this, of "[b]"] \<open>j < length p\<close> show "dead (drop j (p @ d @ [b]))" by simp
  qed
  show ?thesis
  proof (cases "length (d @ [b]) = STREAM_START_RECORD_LEN")
    case False
    with d old have "ss_inv (p @ d @ [b]) (slide (d @ [b]))" by (intro slide_inv) simp_all
    with False p show ?thesis by (simp add: ss_byte_def Let_def)
  next
    case full: True
    then have d5: "5 \<le> length d" "d \<noteq> []" by (auto simp: STREAM_START_RECORD_LEN_def)
    show ?thesis
    proof (cases "ss_checksum (d @ [b])")
      case True
      have "take 4 d = ss_magic" "d ! 4 \<in> {1, 2, 3}" using d d5 possible_header_full by auto
      with full True d5 have "ss_record (d @ [b])" by (simp add: ss_record_def nth_append)
      with full True old p show ?thesis by (auto simp: ss_byte_def Let_def)
    next
      case False
      obtain a d' where ad: "d @ [b] = a # d'" by (cases "d @ [b]") auto
      from False full have "dead (a # d')" using bad_checksum_dead ad by metis
      then have "\<forall>j < length (p @ [a]). dead (drop j ((p @ [a]) @ d'))"
        using old ad by (auto simp: less_Suc_eq)
      moreover have "length d' < STREAM_START_RECORD_LEN" using full ad by (metis length_Cons lessI)
      ultimately have "ss_inv ((p @ [a]) @ d') (slide d')" by (rule slide_inv [rotated])
      then show ?thesis using full False p ad by (simp add: ss_byte_def Let_def)
    qed
  qed
qed

lemma ss_loop_inv:
  assumes "ss_inv s d" "ss_loop d bs i = (d', found, n)"
  shows "i \<le> n \<and> n \<le> i + length bs \<and>
    (if found then ss_record d' \<and>
       (\<exists>p. s @ take (n - i) bs = p @ d' \<and> (\<forall>j < length p. dead (drop j (s @ take (n - i) bs))))
     else n = i + length bs \<and> ss_inv (s @ bs) d')"
  using assms
proof (induction bs arbitrary: s d i)
  case (Cons b bs)
  obtain d1 f where step: "ss_byte d b = (d1, f)" by fastforce
  show ?case
  proof (cases f)
    case True
    with Cons.prems step ss_byte_inv [OF Cons.prems(1), of b] show ?thesis by auto
  next
    case False
    with step ss_byte_inv [OF Cons.prems(1), of b] have "ss_inv (s @ [b]) d1" by simp
    moreover from False step Cons.prems(2) have "ss_loop d1 bs (i + 1) = (d', found, n)" by simp
    ultimately have IH: "i + 1 \<le> n \<and> n \<le> i + 1 + length bs \<and>
      (if found then ss_record d' \<and> (\<exists>p. (s @ [b]) @ take (n - (i + 1)) bs = p @ d' \<and>
           (\<forall>j < length p. dead (drop j ((s @ [b]) @ take (n - (i + 1)) bs))))
       else n = i + 1 + length bs \<and> ss_inv ((s @ [b]) @ bs) d')"
      by (rule Cons.IH)
    then have "take (n - i) (b # bs) = b # take (n - (i + 1)) bs" by (simp add: take_Cons')
    with IH show ?thesis by (auto split: if_splits)
  qed
qed simp

lemma ss_feed_inv:
  assumes "ss_inv s d" "ss_feed d cs i = (d', found, n)"
  shows "i \<le> n \<and> n \<le> i + length (concat cs) \<and>
    (if found then ss_record d' \<and>
       (\<exists>p. s @ take (n - i) (concat cs) = p @ d' \<and> (\<forall>j < length p. dead (drop j (s @ take (n - i) (concat cs)))))
     else n = i + length (concat cs) \<and> ss_inv (s @ concat cs) d')"
  using assms
proof (induction cs arbitrary: s d i)
  case (Cons c cs)
  obtain d1 f k where step: "stream_start_push d c = (d1, f, k)" by (cases "stream_start_push d c") auto
  note inv = ss_loop_inv [OF Cons.prems(1), of c 0 d1 f k, folded stream_start_push_def, OF step]
  show ?case
  proof (cases f)
    case True
    with Cons.prems step inv show ?thesis by auto
  next
    case False
    with inv have k: "k = length c" and "ss_inv (s @ c) d1" by simp_all
    note \<open>ss_inv (s @ c) d1\<close>
    moreover from False step Cons.prems(2) have "ss_feed d1 cs (i + k) = (d', found, n)" by simp
    ultimately have IH: "i + k \<le> n \<and> n \<le> i + k + length (concat cs) \<and>
      (if found then ss_record d' \<and> (\<exists>p. (s @ c) @ take (n - (i + k)) (concat cs) = p @ d' \<and>
           (\<forall>j < length p. dead (drop j ((s @ c) @ take (n - (i + k)) (concat cs)))))
       else n = i + k + length (concat cs) \<and> ss_inv ((s @ c) @ concat cs) d')"
      by (rule Cons.IH)
    then have "k \<le> n - i" by auto
    with k have "take (n - i) (c @ concat cs) = c @ take (n - (i + k)) (concat cs)" by simp
    with IH show ?thesis using k by (auto split: if_splits)
  qed
qed simp

lemma ss_inv_Nil: "ss_inv [] []"
  by (simp add: ss_inv_def STREAM_START_RECORD_LEN_def)

lemma dead_no_record: "dead (drop j s) \<Longrightarrow> \<not> record_at (s @ t) j"
proof
  assume "dead (drop j s)" "record_at (s @ t) j"
  then show False
    by (cases "j \<le> length s") (auto simp: dead_def record_at_def ss_record_def)
qed

section \<open>Properties\<close>

definition ss_sample :: "byte list" where
  "ss_sample = ss_magic @ 0x02 # replicate 294 0 @ [0x7C]"

lemma ss_sample_record: "ss_record ss_sample"
proof -
  have "take 299 ss_sample = ss_magic @ 0x02 # replicate 294 0" "ss_sample ! 299 = 0x7C"
    by (simp_all add: ss_sample_def ss_magic_def nth_append)
  then have "ss_checksum ss_sample"
    by (simp add: ss_checksum_def STREAM_START_RECORD_LEN_def sum8_sum_list ss_magic_def sum_list_replicate)
  then show ?thesis
    by (simp add: ss_record_def ss_sample_def STREAM_START_RECORD_LEN_def ss_magic_def)
qed

text \<open>
  C18. The boundary search finds the first record. Chunks are pushed from an empty buffer until a
  hit. On a hit the buffer holds a checksum-valid record of type 1, 2 or 3, the search has
  consumed exactly up to its end, and no valid record starts earlier in the stream, not even one
  overlapping a false start or a damaged record. Without a hit every byte has been consumed and the
  stream contains no valid record at all.
\<close>

theorem stream_start_finds_first_record:
  assumes "ss_feed [] cs 0 = (d, found, n)"
  shows "if found
    then \<exists>k. n = k + 300 \<and> record_at (concat cs) k \<and> d = take 300 (drop k (concat cs)) \<and>
           (\<forall>j < k. \<not> record_at (concat cs) j)
    else n = length (concat cs) \<and> (\<forall>k. \<not> record_at (concat cs) k)"
proof -
  note inv = ss_feed_inv [OF ss_inv_Nil assms]
  show ?thesis
  proof (cases found)
    case True
    with inv obtain p where p: "take n (concat cs) = p @ d" "\<forall>j < length p. dead (drop j (take n (concat cs)))"
      and d: "ss_record d" and n: "n \<le> length (concat cs)" by auto
    define t where "t = drop n (concat cs)"
    have cs: "concat cs = p @ d @ t" using p(1) append_take_drop_id [of n "concat cs"] by (simp add: t_def)
    have len: "length d = 300" using d by (simp add: ss_record_def STREAM_START_RECORD_LEN_def)
    have "n = length p + 300" using arg_cong [OF p(1), of length] n len by simp
    moreover have "record_at (concat cs) (length p)"
      using d len unfolding cs by (simp add: record_at_def STREAM_START_RECORD_LEN_def)
    moreover have "\<not> record_at (concat cs) j" if "j < length p" for j
    proof -
      have "dead (drop j (p @ d))" using p that by metis
      from dead_no_record [OF this, of t] show ?thesis by (simp add: cs)
    qed
    ultimately show ?thesis using True cs len by auto
  next
    case False
    with inv obtain p where p: "concat cs = p @ d" "\<forall>j < length p. dead (drop j (concat cs))"
      and d: "length d < STREAM_START_RECORD_LEN" and n: "n = length (concat cs)"
      by (auto simp: ss_inv_def)
    have "\<not> record_at (concat cs) j" for j
      using dead_no_record [of j "concat cs" "[]"] p d by (cases "j < length p") (auto simp: record_at_def)
    with False n show ?thesis by simp
  qed
qed

theorem stream_start_finds_first_record_witness:
  "\<exists>d n. ss_feed [] [[0x55, 0x55], ss_sample @ [0x01]] 0 = (d, True, n) \<and>
     (\<exists>k. n = k + 300 \<and> record_at ([0x55, 0x55] @ ss_sample @ [0x01]) k)"
proof -
  let ?cs = "[[0x55, 0x55], ss_sample @ [0x01]]"
  have "length ss_sample = 300" using ss_sample_record by (simp add: ss_record_def STREAM_START_RECORD_LEN_def)
  then have at: "record_at (concat ?cs) 2"
    using ss_sample_record by (simp add: record_at_def STREAM_START_RECORD_LEN_def)
  obtain d found n where run: "ss_feed [] ?cs 0 = (d, found, n)" by (cases "ss_feed [] ?cs 0") auto
  from stream_start_finds_first_record [OF run] at have found by (auto split: if_splits)
  with stream_start_finds_first_record [OF run] run show ?thesis by auto
qed

end
