(* ===== verification/Ble_Periph.thy ===== *)
theory Ble_Periph
  imports Nb_State Adv_Mgr Stream_Start
begin

text \<open>
  The phone's side of node B, \<^verbatim>\<open>node_b/main/ble_periph.c\<close>, with the sending half of \<^verbatim>\<open>tunnel_cli.c\<close> it calls: the
  GATT access callbacks, the GAP events, the notification path with its stream alignment, the warm replay and
  the audit of connections.

  The state \<open>nb\<close> joins the shared state, the advertising sets, the alignment buffers, the replay counter, the queue
  to the tunnel task (\<open>None\<close> before \<^verbatim>\<open>tunnel_cli_start\<close>) and the record of the calls made into NimBLE. Return
  codes, buffer allocation, the MTU and the connection table of the host are parameters that may depend on the
  calls made so far.

  NimBLE's host task runs the callbacks, the tunnel task runs the notification path, and the state lock is not held
  across a notification: between two chunks of a notification any host events may take place. \<open>ne_intf\<close> gives them,
  as a function of the calls made so far.
\<close>

section \<open>State\<close>

datatype nb_call =
    Notify u16 "byte list"
  | Terminate u16
  | Gap_name "byte list"

record live =
  lv_epoch :: u64
  lv_aligned :: bool
  lv_start :: "byte list"

record nb =
  nb_s :: nbs
  nb_av :: adv
  nb_live :: "live list"
  nb_ctr :: byte
  nb_up :: bool
  nb_q :: "byte list list option"
  nb_calls :: "nb_call list"

datatype gatt_op = Read_chr | Write_chr "byte list" | Other_op

datatype gap_ev =
    Ev_connect int u16
  | Ev_adv_complete nat int u16
  | Ev_disconnect u16
  | Ev_subscribe u16 bool

text \<open>What may happen beside the tunnel task: GAP events, writes and reads of the two characteristics, the audit.\<close>

datatype host_ev =
    Gap gap_ev
  | Access_ffe1 u16 gatt_op
  | Access_ffe2 u16 gatt_op
  | Audit

record nenv =
  ne_now :: time_us
  ne_adv :: aenv
  ne_rc :: "nb_call list \<Rightarrow> nb_call \<Rightarrow> int"
  ne_find :: "nb_call list \<Rightarrow> u16 \<Rightarrow> (byte list \<times> byte list) option"
  ne_mtu :: "u16 \<Rightarrow> nat"
  ne_mbuf_ok :: "nb_call list \<Rightarrow> bool"
  ne_flat_ok :: bool
  ne_append_ok :: bool
  ne_nvs_ok :: bool
  ne_intf :: "nb_call list \<Rightarrow> host_ev list"

definition CFG_MAX_APP_CONNS :: nat where "CFG_MAX_APP_CONNS = 1"

definition TUN_OUT_DEPTH :: nat where "TUN_OUT_DEPTH = 8"

abbreviation nb_units :: "nb \<Rightarrow> nat" where
  "nb_units s \<equiv> length (nb_ids (nb_s s))"

definition on_state :: "(nbs \<Rightarrow> nbs) \<Rightarrow> nb \<Rightarrow> nb" where
  "on_state f s = s\<lparr>nb_s := f (nb_s s)\<rparr>"

text \<open>An operation of \<^verbatim>\<open>adv_mgr\<close>, which reads whether the tunnel is up.\<close>

definition on_adv :: "nenv \<Rightarrow> (aenv \<Rightarrow> adv \<Rightarrow> adv) \<Rightarrow> nb \<Rightarrow> nb" where
  "on_adv e f s = s\<lparr>nb_av := f ((ne_adv e)\<lparr>ae_up := nb_up s\<rparr>) (nb_av s)\<rparr>"

definition nb_do :: "nenv \<Rightarrow> nb_call \<Rightarrow> nb \<Rightarrow> int \<times> nb" where
  "nb_do e c s = (ne_rc e (nb_calls s) c, s\<lparr>nb_calls := nb_calls s @ [c]\<rparr>)"

section \<open>Messages to node A\<close>

definition enqueue :: "byte \<Rightarrow> byte \<Rightarrow> byte list \<Rightarrow> nb \<Rightarrow> bool \<times> nb" where
  "enqueue type i pl s =
     (case nb_q s of
        None \<Rightarrow> (False, s)
      | Some q \<Rightarrow> if length pl > TUNNEL_MAX_PAYLOAD then (False, s)
                  else if length q < TUN_OUT_DEPTH then (True, s\<lparr>nb_q := Some (q @ [frame type i pl])\<rparr>)
                  else (False, s))"

definition tunnel_cli_send_write :: "nat \<Rightarrow> byte \<Rightarrow> bool \<Rightarrow> byte list \<Rightarrow> nb \<Rightarrow> bool \<times> nb" where
  "tunnel_cli_send_write i idx wr d s =
     (if i \<ge> nb_units s \<or> idx > 1 \<or> d = [] \<or> length d > TUNNEL_MAX_WRITE_DATA then (False, s)
      else enqueue TUN_WRITE (of_nat i) ([idx, if wr then 1 else 0] @ d) s)"

definition tunnel_cli_send_client :: "nat \<Rightarrow> bool \<Rightarrow> nb \<Rightarrow> nb" where
  "tunnel_cli_send_client i c s = snd (enqueue TUN_CLIENT (of_nat i) [if c then 1 else 0] s)"

section \<open>GATT access callbacks\<close>

datatype att_result = Att_ok "byte list" | Att_unlikely | Att_insufficient_res | Att_invalid_len

definition identity_for_conn :: "nenv \<Rightarrow> u16 \<Rightarrow> nb \<Rightarrow> nat option" where
  "identity_for_conn e h s =
     (case ne_find e (nb_calls s) h of
        None \<Rightarrow> None
      | Some (ota, idaddr) \<Rightarrow>
          (case adv_mgr_identity_for_addr ota (nb_av s) of
             Some i \<Rightarrow> Some i
           | None \<Rightarrow> adv_mgr_identity_for_addr idaddr (nb_av s)))"

definition append_result :: "nenv \<Rightarrow> byte list \<Rightarrow> att_result" where
  "append_result e d = (if ne_append_ok e then Att_ok d else Att_insufficient_res)"

text \<open>The records an opener asks for, in the order of the app's own ladder.\<close>

definition opener_records :: "byte \<Rightarrow> byte list" where
  "opener_records op = (if op = 0x97 then [0x03, 0x01, 0x02] else if op = 0x96 then [0x01, 0x02] else [])"

definition replay_bit :: "byte \<Rightarrow> byte" where
  "replay_bit rec = (if rec = 0x03 then NB_REPLAY_DEVINFO else if rec = 0x01 then NB_REPLAY_SETTINGS else NB_REPLAY_CELLINFO)"

definition warm_record :: "time_us \<Rightarrow> nat \<Rightarrow> byte \<Rightarrow> nbs \<Rightarrow> nb_cache" where
  "warm_record now i rec s = (if rec = 0x03 then nb_get_warm_dev i 0 s else nb_get_warm now i rec s)"

definition opener_debt :: "time_us \<Rightarrow> nat \<Rightarrow> byte list \<Rightarrow> nbs \<Rightarrow> byte" where
  "opener_debt now i recs s =
     foldl (\<lambda>bits rec. if warm_record now i rec s = [] then bits else bits OR replay_bit rec) 0 recs"

definition maybe_replay_opener :: "nenv \<Rightarrow> nat \<Rightarrow> byte list \<Rightarrow> nb \<Rightarrow> nb" where
  "maybe_replay_opener e i buf s =
     (if length buf < 5 \<or> take 4 buf \<noteq> [0xAA, 0x55, 0x90, 0xEB] then s
      else let recs = opener_records (buf ! 4) in
        if recs = [] then s
        else let session = nb_get_notify_session i (nb_s s) in
          if \<not> ns_connected session then s
          else on_state (nb_mark_replay (ne_now e) i (opener_debt (ne_now e) i recs (nb_s s)) (ns_epoch session)) s)"

text \<open>A write on either characteristic: length checks, the copy, the message to node A, then the opener's debt.\<close>

definition app_write :: "nenv \<Rightarrow> nat \<Rightarrow> byte \<Rightarrow> bool \<Rightarrow> byte list \<Rightarrow> nb \<Rightarrow> att_result \<times> nb" where
  "app_write e i idx wr d s =
     (if d = [] \<or> length d > TUNNEL_MAX_WRITE_DATA then (Att_invalid_len, s)
      else if \<not> ne_flat_ok e then (Att_unlikely, s)
      else case tunnel_cli_send_write i idx wr d s of
        (False, s1) \<Rightarrow> (Att_insufficient_res, s1)
      | (True, s1) \<Rightarrow> (Att_ok [], maybe_replay_opener e i d s1))"

definition chr_access :: "nenv \<Rightarrow> u16 \<Rightarrow> gatt_op \<Rightarrow> nb \<Rightarrow> att_result \<times> nb" where
  "chr_access e conn op s =
     (case identity_for_conn e conn s of
        None \<Rightarrow> (Att_unlikely, s)
      | Some i \<Rightarrow>
          (case op of
             Read_chr \<Rightarrow> (append_result e (nb_get_cache i 0 (nb_s s)), s)
           | Write_chr d \<Rightarrow> app_write e i 0 True d s
           | Other_op \<Rightarrow> (Att_unlikely, s)))"

definition ascii :: "string \<Rightarrow> byte list" where
  "ascii = map (\<lambda>c. of_nat (of_char c))"

definition DIS_SERIAL :: "string list" where
  "DIS_SERIAL = [''504185749000000'', ''504185749007323'', ''504185749000000'', ''504185749007494'']"

definition dis_value :: "nat option \<Rightarrow> u16 \<Rightarrow> byte list option" where
  "dis_value i u =
     (if u = 0x2A29 then Some (ascii ''JK-BMS'')
      else if u = 0x2A24 then Some (ascii ''JK-PB2A16S20P'')
      else if u = 0x2A25 then Some (ascii (DIS_SERIAL ! (case i of Some k \<Rightarrow> if k < 4 then k else 0 | None \<Rightarrow> 0)))
      else if u = 0x2A27 then Some (ascii ''19A'')
      else if u = 0x2A26 then Some (ascii ''19.31'')
      else if u = 0x2A28 then Some (ascii ''19.31'')
      else if u = 0x2A23 then Some (replicate 8 0)
      else if u = 0x2A2A then Some (replicate 4 0)
      else if u = 0x2A50 then Some (0x01 # replicate 6 0)
      else None)"

definition dis_access :: "nenv \<Rightarrow> u16 \<Rightarrow> u16 \<Rightarrow> gatt_op \<Rightarrow> nb \<Rightarrow> att_result" where
  "dis_access e conn uuid op s =
     (if op \<noteq> Read_chr then Att_unlikely
      else case dis_value (identity_for_conn e conn s) uuid of
        None \<Rightarrow> Att_unlikely | Some d \<Rightarrow> append_result e d)"

definition batt_soc :: "nb_cache \<Rightarrow> byte" where
  "batt_soc c = (if length c \<ge> 174 \<and> c ! 4 = 0x02 then c ! 173 else 100)"

definition batt_access :: "nenv \<Rightarrow> u16 \<Rightarrow> gatt_op \<Rightarrow> nb \<Rightarrow> att_result" where
  "batt_access e conn op s =
     (if op \<noteq> Read_chr then Att_unlikely
      else append_result e [case identity_for_conn e conn s of
        Some i \<Rightarrow> batt_soc (nb_get_cache i 0 (nb_s s)) | None \<Rightarrow> 100])"

definition chr2_access :: "nenv \<Rightarrow> u16 \<Rightarrow> gatt_op \<Rightarrow> nb \<Rightarrow> att_result \<times> nb" where
  "chr2_access e conn op s =
     (case op of
        Write_chr d \<Rightarrow>
          (case identity_for_conn e conn s of
             None \<Rightarrow> (Att_unlikely, s)
           | Some i \<Rightarrow> app_write e i 1 False d s)
      | _ \<Rightarrow> (Att_unlikely, s))"

section \<open>Connections\<close>

text \<open>The clean-up of a lost connection, shared by the DISCONNECT event and the audit.\<close>

definition drop_conn :: "nenv \<Rightarrow> nat \<Rightarrow> nb \<Rightarrow> nb" where
  "drop_conn e i s = tunnel_cli_send_client i False (on_adv e (\<lambda>ae. adv_mgr_on_disconnect ae i) (on_state (nb_set_conn i False 0) s))"

definition audit_conn :: "nenv \<Rightarrow> nat \<Rightarrow> nb \<Rightarrow> nb" where
  "audit_conn e i s =
     (case nb_conn_handle i (nb_s s) of
        None \<Rightarrow> s
      | Some h \<Rightarrow> if ne_find e (nb_calls s) h \<noteq> None then s else drop_conn e i s)"

definition ble_periph_audit_conns :: "nenv \<Rightarrow> nb \<Rightarrow> nb" where
  "ble_periph_audit_conns e s = fold (audit_conn e) [0 ..< nb_units s] s"

definition adopt_conn :: "nenv \<Rightarrow> nat \<Rightarrow> u16 \<Rightarrow> nb \<Rightarrow> nb" where
  "adopt_conn e i h s =
     (if nb_identity_for_conn h (nb_s s) \<noteq> None then s
      else if nb_active_conn_count (nb_s s) \<ge> CFG_MAX_APP_CONNS then snd (nb_do e (Terminate h) s)
      else let s1 = on_adv e (\<lambda>ae. adv_mgr_on_connect ae i) (on_state (nb_set_conn i True h) s);
               s2 = (case nb_get_name i 32 (nb_s s1) of Some nm \<Rightarrow> snd (nb_do e (Gap_name nm) s1) | None \<Rightarrow> s1) in
           tunnel_cli_send_client i True s2)"

fun gap_event :: "nenv \<Rightarrow> gap_ev \<Rightarrow> nb \<Rightarrow> nb" where
  "gap_event e (Ev_connect status h) s =
     (if status \<noteq> 0 then s
      else case identity_for_conn e h s of
        None \<Rightarrow> snd (nb_do e (Terminate h) s)
      | Some i \<Rightarrow> adopt_conn e i h s)"
| "gap_event e (Ev_adv_complete inst reason h) s =
     (let s1 = on_adv e (\<lambda>ae. adv_mgr_on_adv_stopped ae inst (reason \<noteq> 0)) s in
      if reason = 0 \<and> inst < nb_units s1 \<and> ne_find e (nb_calls s1) h \<noteq> None then adopt_conn e inst h s1 else s1)"
| "gap_event e (Ev_disconnect h) s =
     (case nb_identity_for_conn h (nb_s s) of None \<Rightarrow> s | Some i \<Rightarrow> drop_conn e i s)"
| "gap_event e (Ev_subscribe h en) s =
     (case nb_identity_for_conn h (nb_s s) of None \<Rightarrow> s | Some i \<Rightarrow> on_state (nb_set_notify i en) s)"

text \<open>\<^verbatim>\<open>supervisor_task\<close> of node B: the two audits.\<close>

definition supervisor_audit :: "nenv \<Rightarrow> nb \<Rightarrow> nb" where
  "supervisor_audit e s = on_adv e adv_mgr_audit (ble_periph_audit_conns e s)"

fun host_step :: "nenv \<Rightarrow> host_ev \<Rightarrow> nb \<Rightarrow> nb" where
  "host_step e (Gap ev) s = gap_event e ev s"
| "host_step e (Access_ffe1 conn op) s = snd (chr_access e conn op s)"
| "host_step e (Access_ffe2 conn op) s = snd (chr2_access e conn op s)"
| "host_step e Audit s = supervisor_audit e s"

section \<open>Notifications\<close>

definition disturb :: "nenv \<Rightarrow> nb \<Rightarrow> nb" where
  "disturb e s = fold (host_step e) (ne_intf e (nb_calls s)) s"

definition chunk_size :: "nat \<Rightarrow> nat" where
  "chunk_size mtu = min (max mtu 23 - 3) 128"

lemma chunk_size_pos [simp]: "0 < chunk_size mtu"
  by (simp add: chunk_size_def)

text \<open>The check that authorizes one submission: the session is still the one the notification was meant for.\<close>

definition same_session :: "nb_notify_session \<Rightarrow> nb_notify_session \<Rightarrow> bool" where
  "same_session it current \<longleftrightarrow> ns_connected current \<and> ns_notify_enabled current \<and>
     ns_epoch current = ns_epoch it \<and> ns_conn_handle current = ns_conn_handle it"

text \<open>The loop over the chunks; \<open>clean\<close> is whether every submission so far succeeded.\<close>

function notify_loop :: "nenv \<Rightarrow> nat \<Rightarrow> nb_notify_session \<Rightarrow> nat \<Rightarrow> byte list \<Rightarrow> bool \<Rightarrow> nb \<Rightarrow> bool \<times> nb" where
  "notify_loop e i it chunk data clean s =
     (if data = [] \<or> chunk = 0 then (clean, s)
      else let s1 = disturb e s in
        if \<not> same_session it (nb_get_notify_session i (nb_s s1)) then (False, s1)
        else if \<not> ne_mbuf_ok e (nb_calls s1) then (False, s1)
        else case nb_do e (Notify (ns_conn_handle it) (take chunk data)) s1 of
          (rc, s2) \<Rightarrow> notify_loop e i it chunk (drop chunk data) (clean \<and> rc = 0) s2)"
  by pat_completeness auto
termination
  by (relation "measure (\<lambda>(e, i, it, chunk, data, clean, s). length data)") auto

declare notify_loop.simps [simp del]

lemma notify_loop_Nil [simp]: "notify_loop e i it chunk [] clean s = (clean, s)"
  by (simp add: notify_loop.simps)

lemma notify_loop_step:
  assumes "data \<noteq> []" and "0 < chunk" and "s1 = disturb e s"
  shows "notify_loop e i it chunk data clean s =
    (if \<not> same_session it (nb_get_notify_session i (nb_s s1)) \<or> \<not> ne_mbuf_ok e (nb_calls s1) then (False, s1)
     else notify_loop e i it chunk (drop chunk data)
       (clean \<and> fst (nb_do e (Notify (ns_conn_handle it) (take chunk data)) s1) = 0)
       (snd (nb_do e (Notify (ns_conn_handle it) (take chunk data)) s1)))"
  using assms by (subst notify_loop.simps) (simp add: Let_def case_prod_unfold)

text \<open>Induction over the chunks.\<close>

lemma chunk_induct [consumes 1, case_names finished chunk]:
  assumes "0 < chunk" and "\<And>clean s. P [] clean s"
    and "\<And>data clean s. data \<noteq> [] \<Longrightarrow> (\<And>clean s. P (drop chunk data) clean s) \<Longrightarrow> P data clean s"
  shows "P data clean s"
proof (induction "length data" arbitrary: data clean s rule: less_induct)
  case less
  show ?case
  proof (cases "data = []")
    case False
    then have "length (drop chunk data) < length data" using assms(1) by simp
    with less False assms(3) show ?thesis by blast
  qed (simp add: assms(2))
qed

definition DEVINFO_HEADER :: "byte list" where
  "DEVINFO_HEADER = [0x55, 0xAA, 0xEB, 0x90, 0x03]"

definition notify_session :: "nenv \<Rightarrow> nat \<Rightarrow> byte list \<Rightarrow> nb_notify_session \<Rightarrow> nb \<Rightarrow> bool \<times> nb" where
  "notify_session e i data it s =
     (if \<not> ns_connected it \<or> \<not> ns_notify_enabled it then (False, s)
      else let s1 = (if take 5 data = DEVINFO_HEADER then on_state (nb_note_dev_forwarded (ne_now e) i (ns_epoch it)) s else s) in
           notify_loop e i it (chunk_size (ne_mtu e (ns_conn_handle it))) data True s1)"

definition upd_live :: "nat \<Rightarrow> (live \<Rightarrow> live) \<Rightarrow> nb \<Rightarrow> nb" where
  "upd_live i f s = s\<lparr>nb_live := upd_unit i f (nb_live s)\<rparr>"

text \<open>The gate opens at the first complete record of the session; what follows it is passed on verbatim.\<close>

definition align_stream :: "nenv \<Rightarrow> nat \<Rightarrow> byte list \<Rightarrow> nb_notify_session \<Rightarrow> nb \<Rightarrow> byte list option \<times> nb" where
  "align_stream e i data session s =
     (case stream_start_push (lv_start (nb_live s ! i)) data of
        (buf, False, _) \<Rightarrow> (None, upd_live i (\<lambda>v. v\<lparr>lv_start := buf\<rparr>) s)
      | (buf, True, consumed) \<Rightarrow>
          (case notify_session e i buf session (upd_live i (\<lambda>v. v\<lparr>lv_start := buf\<rparr>) s) of
             (sent, s1) \<Rightarrow>
               let s2 = upd_live i (\<lambda>v. v\<lparr>lv_start := []\<rparr>) s1 in
               if \<not> sent then (None, s2) else (Some (drop consumed data), upd_live i (\<lambda>v. v\<lparr>lv_aligned := True\<rparr>) s2)))"

definition sync_live :: "nat \<Rightarrow> nb_notify_session \<Rightarrow> nb \<Rightarrow> nb" where
  "sync_live i session s =
     (if lv_epoch (nb_live s ! i) \<noteq> ns_epoch session
      then upd_live i (\<lambda>_. \<lparr>lv_epoch = ns_epoch session, lv_aligned = False, lv_start = []\<rparr>) s else s)"

definition ble_periph_forward_notify :: "nenv \<Rightarrow> nat \<Rightarrow> byte list \<Rightarrow> nb \<Rightarrow> nb" where
  "ble_periph_forward_notify e i data s =
     (if i \<ge> nb_units s then s
      else let session = nb_get_notify_session i (nb_s s); s1 = sync_live i session s in
        if \<not> ns_connected session \<or> \<not> ns_notify_enabled session then s1
        else case (if \<not> lv_aligned (nb_live s1 ! i) then align_stream e i data session s1 else (Some data, s1)) of
          (None, s2) \<Rightarrow> s2
        | (Some rest, s2) \<Rightarrow> if rest \<noteq> [] then snd (notify_session e i rest session s2) else s2)"

section \<open>Warm replay\<close>

text \<open>A fresh frame counter in byte 5 and the checksum over all but the last byte.\<close>

definition stamp :: "byte \<Rightarrow> byte list \<Rightarrow> byte list" where
  "stamp c w =
     (if length w \<ge> 6 then let w1 = w[5 := c] in w1[length w1 - 1 := sum8 (take (length w1 - 1) w1)] else w)"

definition replay_seq :: "(byte \<times> byte) list" where
  "replay_seq = [(NB_REPLAY_DEVINFO, 0x03), (NB_REPLAY_SETTINGS, 0x01), (NB_REPLAY_CELLINFO, 0x02)]"

definition replay_record :: "nenv \<Rightarrow> nat \<Rightarrow> nb_notify_session \<Rightarrow> byte \<Rightarrow> byte \<times> byte \<Rightarrow> nb \<Rightarrow> nb" where
  "replay_record e i session bits br s =
     (if bits AND fst br = 0 then s
      else let w = warm_record (ne_now e) i (snd br) (nb_s s) in
        if w = [] then s
        else snd (notify_session e i (stamp (nb_ctr s) w) session
               (if length w \<ge> 6 then s\<lparr>nb_ctr := nb_ctr s + 1\<rparr> else s)))"

definition replay_unit :: "nenv \<Rightarrow> nat \<Rightarrow> nb \<Rightarrow> nb" where
  "replay_unit e i s =
     (case nb_claim_replay (ne_now e) i (nb_s s) of
        ((act, session, bits), st) \<Rightarrow>
          let s1 = s\<lparr>nb_s := st\<rparr> in
          if act \<noteq> 1 then s1 else fold (replay_record e i session bits) replay_seq s1)"

definition ble_periph_replay_tick :: "nenv \<Rightarrow> nb \<Rightarrow> nb" where
  "ble_periph_replay_tick e s = fold (replay_unit e) [0 ..< nb_units s] s"

section \<open>Results and teardown\<close>

definition ble_periph_on_write_result :: "nenv \<Rightarrow> nat \<Rightarrow> byte \<Rightarrow> nb \<Rightarrow> nb" where
  "ble_periph_on_write_result e i status s =
     (let it = nb_get_identity i (nb_s s) in
      if \<not> ni_connected it then s
      else if status = status_byte TUN_WR_LINK_DOWN then snd (nb_do e (Terminate (ni_conn_handle it)) s)
      else s)"

definition drop_one :: "nenv \<Rightarrow> nat \<Rightarrow> nb \<Rightarrow> nb" where
  "drop_one e i s =
     (let it = nb_get_identity i (nb_s s) in
      if ni_connected it then snd (nb_do e (Terminate (ni_conn_handle it)) s) else s)"

definition ble_periph_drop_all :: "nenv \<Rightarrow> nb \<Rightarrow> nb" where
  "ble_periph_drop_all e s = fold (drop_one e) [0 ..< nb_units s] s"

end
