(* ===== verification/Upkeep.thy ===== *)
theory Upkeep
  imports Supervisor Ble_Diag Ota Net_Util Ble_Periph
begin

text \<open>
  Start-up and upkeep of both nodes: what the calls that the supervisor of node A records do in the other components
  (\<^verbatim>\<open>node_a/main/supervisor.c\<close>), the whole pass of node B's supervisor (\<^verbatim>\<open>node_b/main/supervisor.c\<close>), the persisted radio
  switch, the report of an interrupted measurement at boot (\<^verbatim>\<open>node_a/main/app_main.c\<close>), and the remote log
  (\<^verbatim>\<open>node_a/main/log_udp.c\<close>).
\<close>

section \<open>The update receiver\<close>

text \<open>
  What a pass meets: whether WiFi is up, the results of starting the server and registering its two routes, and the state
  the SDK reports for the running image.
\<close>

record upenv =
  up_wifi :: bool
  up_started :: bool
  up_reg_ota :: bool
  up_reg_status :: bool
  up_img :: "nat option"

definition CFG_OTA_PORT :: nat where "CFG_OTA_PORT = 3765"

definition ota_retry :: "upenv \<Rightarrow> ota \<Rightarrow> ota" where
  "ota_retry u = ota_start (up_started u) (up_reg_ota u) (up_reg_status u) CFG_OTA_PORT"

definition ota_upkeep :: "upenv \<Rightarrow> ota \<Rightarrow> ota" where
  "ota_upkeep u s = (if up_wifi u then ota_mark_valid (up_img u) (if \<not> ota_is_up s then ota_retry u s else s) else s)"

text \<open>One pass of node B's supervisor: the receiver, then the two audits.\<close>

definition supervisor_pass_b :: "upenv \<Rightarrow> nenv \<Rightarrow> nb \<times> ota \<Rightarrow> nb \<times> ota" where
  "supervisor_pass_b u e p = (case p of (s, o') \<Rightarrow> (supervisor_audit e s, ota_upkeep u o'))"

text \<open>The calls of node A's supervisor that concern the receiver.\<close>

fun sup_call_ota :: "upenv \<Rightarrow> sup_call \<Rightarrow> ota \<Rightarrow> ota" where
  "sup_call_ota u Ota_start s = ota_retry u s"
| "sup_call_ota u Ota_mark_valid s = ota_mark_valid (up_img u) s"
| "sup_call_ota u _ s = s"

text \<open>The receiver part of one pass on both nodes: node A acts on every thirtieth pass.\<close>

definition receiver_pass :: "penv \<times> upenv \<Rightarrow> sup \<times> ota \<Rightarrow> sup \<times> ota" where
  "receiver_pass x p =
     (case x of (e, u) \<Rightarrow> case p of (s, o') \<Rightarrow>
        let s' = tick_ota (e\<lparr>pe_ota_up := ota_is_up o', pe_wifi_up := up_wifi u\<rparr>) s
        in (s', fold (sup_call_ota u) (drop (length (sp_calls s)) (sp_calls s')) o'))"

lemma receiver_pass_snd:
  "snd (receiver_pass (e, u) p) = (if sp_oa (fst p) + 1 \<ge> 30 then ota_upkeep u (snd p) else snd p)"
  by (cases p) (simp add: receiver_pass_def tick_ota_def every_def ota_upkeep_def add_call_def Let_def)

lemma receiver_pass_wait: "sp_oa s + 1 < 30 \<Longrightarrow> receiver_pass (e, u) (s, o1) = (s\<lparr>sp_oa := sp_oa s + 1\<rparr>, o1)"
  by (simp add: receiver_pass_def tick_ota_def every_def add_call_def Let_def)

lemma confirm_keeps_up [simp]: "ota_is_up (ota_mark_valid st s) = ota_is_up s"
  by (simp add: ota_mark_valid_def ota_is_up_def ota_call_def split: option.split)

lemma start_calls: "\<exists>cs. ot_calls (ota_start a b c port s) = ot_calls s @ cs \<and> Cancel_rollback \<notin> set cs"
  by (simp add: ota_start_def ota_call_def Let_def)

lemma upkeep_calls:
  "\<exists>cs. ot_calls (ota_upkeep u s) = ot_calls s @ cs \<and>
     (Cancel_rollback \<in> set cs \<longrightarrow> up_wifi u \<and> ota_is_up (ota_upkeep u s) \<and> up_img u = Some ESP_OTA_IMG_PENDING_VERIFY)"
proof -
  let ?s = "if \<not> ota_is_up s then ota_retry u s else s"
  have "\<exists>cs. ot_calls ?s = ot_calls s @ cs \<and> Cancel_rollback \<notin> set cs"
    using start_calls [of "up_started u" "up_reg_ota u" "up_reg_status u" CFG_OTA_PORT s] by (cases "ota_is_up s") (simp_all add: ota_retry_def)
  then obtain cs where cs: "ot_calls ?s = ot_calls s @ cs" "Cancel_rollback \<notin> set cs" by blast
  show ?thesis
  proof (cases "up_wifi u \<and> ota_is_up ?s \<and> up_img u = Some ESP_OTA_IMG_PENDING_VERIFY")
    case True
    have "ot_calls (ota_upkeep u s) = ot_calls s @ cs @ [Cancel_rollback]"
      using True cs(1) unfolding ota_upkeep_def ota_mark_valid_def by (simp add: ota_call_def)
    moreover have "ota_is_up (ota_upkeep u s)" using True by (simp add: ota_upkeep_def)
    ultimately show ?thesis using True by blast
  next
    case False
    then have "ot_calls (ota_upkeep u s) = ot_calls s @ (if up_wifi u then cs else [])"
      using cs(1) unfolding ota_upkeep_def ota_mark_valid_def by (auto split: option.splits)
    then show ?thesis using cs(2) by (intro exI [of _ "if up_wifi u then cs else []"]) simp
  qed
qed

lemma upkeep_up: "ota_is_up s \<Longrightarrow> ota_is_up (ota_upkeep u s)"
  by (simp add: ota_upkeep_def)

lemma upkeep_works:
  assumes "up_wifi u" "up_started u" "up_reg_ota u" "up_reg_status u"
  shows "ota_is_up (ota_upkeep u s) \<and> (up_img u = Some ESP_OTA_IMG_PENDING_VERIFY \<longrightarrow> Cancel_rollback \<in> set (ot_calls (ota_upkeep u s)))"
proof -
  let ?s = "if \<not> ota_is_up s then ota_retry u s else s"
  have "ota_is_up ?s"
    using ota_start_up(1) [of "up_started u" "up_reg_ota u" "up_reg_status u" CFG_OTA_PORT s] assms by (auto simp: ota_retry_def)
  moreover from this have "up_img u = Some ESP_OTA_IMG_PENDING_VERIFY \<Longrightarrow> ota_mark_valid (up_img u) ?s = ota_call Cancel_rollback ?s"
    unfolding ota_mark_valid_def by simp
  ultimately show ?thesis using assms(1) unfolding ota_upkeep_def by (simp del: if_split add: ota_call_def)
qed


text \<open>
  The receiver heals itself. In any run of passes of node A's supervisor: a running receiver is never taken down; rollback is cancelled only by a
  pass that found WiFi and ended with the receiver up on an unconfirmed image; and thirty consecutive passes with WiFi in
  which the server can be started leave the receiver up, the image confirmed if it was waiting for it.
\<close>

lemma receiver_never_lost: "ota_is_up (snd p) \<Longrightarrow> ota_is_up (snd (fold receiver_pass xs p))"
proof (induction xs arbitrary: p)
  case (Cons x xs)
  have "ota_is_up (snd (receiver_pass x p))"
    using Cons.prems by (cases x) (simp add: receiver_pass_snd upkeep_up)
  with Cons.IH show ?case by simp
qed simp

lemma confirmed_for_a_reason:
  assumes "Cancel_rollback \<in> set (ot_calls (snd (fold receiver_pass xs p)))" "Cancel_rollback \<notin> set (ot_calls (snd p))"
  shows "\<exists>e u. (e, u) \<in> set xs \<and> up_wifi u \<and> up_img u = Some ESP_OTA_IMG_PENDING_VERIFY \<and> ota_is_up (snd (fold receiver_pass xs p))"
  using assms
proof (induction xs arbitrary: p)
  case (Cons x xs)
  obtain e u where x: "x = (e, u)" by (cases x)
  show ?case
  proof (cases "Cancel_rollback \<in> set (ot_calls (snd (receiver_pass x p)))")
    case True
    then have "up_wifi u \<and> ota_is_up (snd (receiver_pass x p)) \<and> up_img u = Some ESP_OTA_IMG_PENDING_VERIFY"
      using Cons.prems(2) upkeep_calls [of u "snd p"] unfolding x by (auto simp: receiver_pass_snd split: if_splits)
    moreover from this have "ota_is_up (snd (fold receiver_pass xs (receiver_pass x p)))" using receiver_never_lost by blast
    ultimately show ?thesis unfolding x by auto
  next
    case False
    with Cons.IH [of "receiver_pass x p"] Cons.prems(1) show ?thesis by (fastforce simp: x)
  qed
qed simp

definition can_start :: "upenv \<Rightarrow> bool" where
  "can_start u \<longleftrightarrow> up_wifi u \<and> up_started u \<and> up_reg_ota u \<and> up_reg_status u \<and> up_img u = Some ESP_OTA_IMG_PENDING_VERIFY"

lemma upkeep_keeps_calls: "set (ot_calls s) \<subseteq> set (ot_calls (ota_upkeep u s))"
  using upkeep_calls [of u s] by auto

lemma passes_keep_calls: "set (ot_calls (snd p)) \<subseteq> set (ot_calls (snd (fold receiver_pass xs p)))"
proof (induction xs arbitrary: p)
  case (Cons x xs)
  have "set (ot_calls (snd p)) \<subseteq> set (ot_calls (snd (receiver_pass x p)))"
    using upkeep_keeps_calls by (cases x) (simp add: receiver_pass_snd)
  with Cons.IH [of "receiver_pass x p"] show ?case by simp
qed simp

lemma passes_until_action:
  assumes "30 \<le> sp_oa s + length xs" "sp_oa s < 30" "xs \<noteq> []" "list_all (can_start \<circ> snd) xs"
  shows "let o2 = snd (fold receiver_pass xs (s, o1)) in ota_is_up o2 \<and> Cancel_rollback \<in> set (ot_calls o2)"
  using assms
proof (induction xs arbitrary: s o1)
  case (Cons x xs)
  obtain e u where x: "x = (e, u)" by (cases x)
  have u: "can_start u" using Cons.prems(4) by (simp add: x)
  show ?case
  proof (cases "sp_oa s + 1 \<ge> 30")
    case True
    have "snd (receiver_pass x (s, o1)) = ota_upkeep u o1" using True by (simp add: x receiver_pass_snd)
    moreover have "ota_is_up (ota_upkeep u o1)" "Cancel_rollback \<in> set (ot_calls (ota_upkeep u o1))"
      using upkeep_works [of u o1] u by (simp_all add: can_start_def)
    ultimately show ?thesis
      using receiver_never_lost [of "receiver_pass x (s, o1)" xs] passes_keep_calls [of "receiver_pass x (s, o1)" xs] by (auto simp: Let_def)
  next
    case False
    then have p: "receiver_pass x (s, o1) = (s\<lparr>sp_oa := sp_oa s + 1\<rparr>, o1)" by (simp add: x receiver_pass_wait)
    have "xs \<noteq> []" using Cons.prems(1,2) False by auto
    with Cons.IH [of "s\<lparr>sp_oa := sp_oa s + 1\<rparr>" o1] Cons.prems False show ?thesis by (simp add: p)
  qed
qed simp

text \<open>
  The update receiver heals itself and rollback stays armed until it has. Over any passes of node A's supervisor from
  any state: a running receiver stays up; if an image gets confirmed, some pass found WiFi up with the image waiting, and
  the receiver is up; and once there are thirty consecutive passes with WiFi in which the server can be started and the image waits, the receiver
  is up and the image confirmed.
\<close>

theorem receiver_heals:
  assumes "sp_oa s < 30" "Cancel_rollback \<notin> set (ot_calls o1)" "fold receiver_pass xs (s, o1) = (s', o2)"
  shows "(ota_is_up o1 \<longrightarrow> ota_is_up o2) \<and>
    (Cancel_rollback \<in> set (ot_calls o2) \<longrightarrow>
       ota_is_up o2 \<and> (\<exists>e u. (e, u) \<in> set xs \<and> up_wifi u \<and> up_img u = Some ESP_OTA_IMG_PENDING_VERIFY)) \<and>
    (30 \<le> length xs \<and> list_all (can_start \<circ> snd) xs \<longrightarrow> ota_is_up o2 \<and> Cancel_rollback \<in> set (ot_calls o2))"
  using receiver_never_lost [of "(s, o1)" xs] confirmed_for_a_reason [of xs "(s, o1)"] passes_until_action [of s xs o1] assms
  by (cases "xs = []") (auto simp: Let_def)

definition sample_up :: upenv where
  "sample_up = \<lparr>up_wifi = True, up_started = True, up_reg_ota = True, up_reg_status = True, up_img = Some ESP_OTA_IMG_PENDING_VERIFY\<rparr>"

theorem receiver_heals_witness:
  "ota_is_up (snd (fold receiver_pass (replicate 30 (sample_penv 0, sample_up)) (sample_sup, ota_init))) \<and>
   Cancel_rollback \<in> set (ot_calls (snd (fold receiver_pass (replicate 30 (sample_penv 0, sample_up)) (sample_sup, ota_init))))"
proof -
  let ?p = "fold receiver_pass (replicate 30 (sample_penv 0, sample_up)) (sample_sup, ota_init)"
  have p: "?p = (fst ?p, snd ?p)" by simp
  have "sp_oa sample_sup < 30" "Cancel_rollback \<notin> set (ot_calls ota_init)"
    by (simp_all add: sample_sup_def supervisor_start_def ota_init_def)
  moreover have "list_all (can_start \<circ> snd) (replicate 30 (sample_penv 0, sample_up))"
    by (simp add: list_all_iff can_start_def sample_up_def)
  ultimately show ?thesis using receiver_heals [OF _ _ p] by simp
qed

section \<open>Publications of the supervisor\<close>

text \<open>The report of the boot verification, printed into a buffer of 192 bytes.\<close>

definition VERIFY_BUF :: nat where "VERIFY_BUF = 192"

definition verify_head :: "int \<Rightarrow> string" where
  \<open>verify_head up = ''{"up":'' @ int_string up @ '',"results":{''\<close>

definition result_text :: "nat \<times> string \<Rightarrow> string" where
  \<open>result_text r = ''"'' @ dec_string (fst r) @ ''":"'' @ snd r @ ''"''\<close>

fun verify_results :: "(nat \<times> string) list \<Rightarrow> nat \<times> string \<Rightarrow> nat \<times> string" where
  "verify_results [] p = p"
| "verify_results (r # rs) p = verify_results rs (buf_printf VERIFY_BUF ((if fst r \<noteq> 0 then '','' else '''') @ result_text r) p)"

definition verify_text :: "int \<Rightarrow> (nat \<times> string) list \<Rightarrow> string" where
  "verify_text up rs = snd (buf_printf VERIFY_BUF ''}}'' (verify_results rs (buf_printf VERIFY_BUF (verify_head up) (0, ''''))))"

text \<open>What each call publishes; the health values are those of the moment.\<close>

fun sup_call_mqtt :: "time_us \<Rightarrow> health \<Rightarrow> sup_call \<Rightarrow> mqs \<Rightarrow> mqs" where
  "sup_call_mqtt now h (Publish_link i) s = mqtt_publish_link i s"
| "sup_call_mqtt now h (Publish_verify up rs) s = mqtt_publish_verify (verify_text up rs) s"
| "sup_call_mqtt now h Publish_health s = mqtt_publish_health now h s"
| "sup_call_mqtt now h _ s = s"

definition verify_json :: "int \<Rightarrow> (nat \<times> string) list \<Rightarrow> string" where
  \<open>verify_json up rs = verify_head up @ commas (map result_text rs) @ ''}}''\<close>

lemma buf_printf_room: "length b + length t < cap \<Longrightarrow> buf_printf cap t (length b, b) = (length (b @ t), b @ t)"
  by (simp add: buf_printf_def)

lemma verify_more:
  assumes "list_all (\<lambda>r. fst r \<noteq> 0) rs" "length b + length (concat (map (\<lambda>r. '','' @ result_text r) rs)) < VERIFY_BUF"
  shows "verify_results rs (length b, b) = (let t = b @ concat (map (\<lambda>r. '','' @ result_text r) rs) in (length t, t))"
  using assms
proof (induction rs arbitrary: b)
  case (Cons r rs)
  let ?b = "b @ '','' @ result_text r"
  have "buf_printf VERIFY_BUF ('','' @ result_text r) (length b, b) = (length ?b, ?b)"
    using Cons.prems(2) by (subst buf_printf_room) simp_all
  with Cons.IH [of ?b] Cons.prems show ?case by (simp add: Let_def)
qed simp

lemma commas_results: "commas (map result_text (r # rs)) = result_text r @ concat (map (\<lambda>r. '','' @ result_text r) rs)"
  by (induction rs arbitrary: r) simp_all

text \<open>The report is complete whenever it fits the buffer.\<close>

lemma verify_report_complete:
  assumes "map fst rs = [0 ..< n]" "length (verify_json up rs) < VERIFY_BUF"
  shows "verify_text up rs = verify_json up rs"
proof -
  have h: "buf_printf VERIFY_BUF (verify_head up) (0, '''') = (length (verify_head up), verify_head up)"
    using assms(2) buf_printf_room [of "[]" "verify_head up" VERIFY_BUF] by (simp add: verify_json_def)
  show ?thesis
  proof (cases rs)
    case Nil
    then show ?thesis using assms(2) buf_printf_room [of "verify_head up" "''}}''"] by (simp add: verify_text_def verify_json_def h)
  next
    case (Cons r rs')
    have f: "fst r = 0" "map fst rs' = [1 ..< n]"
      using assms(1) unfolding Cons by (cases n; simp add: upt_conv_Cons del: upt_Suc)+
    have "0 \<notin> set (map fst rs')" unfolding f(2) by simp
    then have nz: "list_all (\<lambda>r. fst r \<noteq> 0) rs'" by (auto simp: list_all_iff image_iff)
    let ?b = "verify_head up @ result_text r" and ?c = "concat (map (\<lambda>r. '','' @ result_text r) rs')"
    have len: "length ?b + length ?c + 2 < VERIFY_BUF" using assms(2) unfolding Cons verify_json_def commas_results by simp
    have "buf_printf VERIFY_BUF (result_text r) (length (verify_head up), verify_head up) = (length ?b, ?b)"
      using len by (subst buf_printf_room) simp_all
    then have "verify_results rs (length (verify_head up), verify_head up) = (length (?b @ ?c), ?b @ ?c)"
      using verify_more [OF nz, of ?b] len f(1) by (simp add: Cons Let_def)
    moreover have "buf_printf VERIFY_BUF ''}}'' (length (?b @ ?c), ?b @ ?c) = (length ((?b @ ?c) @ ''}}''), (?b @ ?c) @ ''}}'')"
      using len by (subst buf_printf_room) simp_all
    ultimately have "verify_text up rs = (?b @ ?c) @ ''}}''" by (simp only: verify_text_def h snd_conv)
    then show ?thesis unfolding verify_json_def Cons commas_results by simp
  qed
qed

section \<open>The radio switch\<close>

text \<open>\<^verbatim>\<open>supervisor_task\<close> of node A, before its loop: the switch is restored from the durable store.\<close>

definition restore_radio :: "benv \<Rightarrow> bo \<Rightarrow> bo" where
  "restore_radio e s = (if nvs_get_ble_enabled (be_nvs_ok e) (bo_nvs s) then ble_owner_set_ble e True s else s)"

lemma set_ble_off_frame:
  "bo_nvs (fold (\<lambda>k s. if l_in_use (lnk s k) \<and> l_conn_handle (lnk s k) \<noteq> 0 then snd (ble e (Gap_terminate (l_conn_handle (lnk s k))) s) else s) ks s) = bo_nvs s"
  by (induction ks arbitrary: s) (simp_all add: ble_def Let_def)

text \<open>The operator's choice survives a restart: after it the radio is on exactly if it was switched on last.\<close>

lemma radio_choice_persists:
  assumes "be_nvs_ok e" "be_nvs_ok e'"
  shows "bo_ble_enabled (restore_radio e' (ble_owner_start n (bo_nvs (ble_owner_set_ble e on s)))) = on"
  using assms by (cases on) (simp_all add: restore_radio_def ble_owner_set_ble_def Let_def set_ble_off_frame nvs_get_ble_enabled_def
      nvs_put_ble_enabled_def ble_owner_start_def)

section \<open>Start-up of node A\<close>

text \<open>
  The first steps of \<^verbatim>\<open>app_main\<close>: an interrupted measurement is closed and acknowledged before the queues and the MQTT client
  exist. The acknowledgement goes to a client that is not there.
\<close>

definition boot_a :: "bool \<Rightarrow> nvs \<Rightarrow> mqs \<Rightarrow> nvs \<times> mqs" where
  "boot_a open_ok nv s =
     (case measure_check_boot open_ok nv of
        (nv', acks) \<Rightarrow> (nv', fold (\<lambda>k. mqtt_ack (ak_bms_id k) (ak_cmd k) None (ak_status k) (ak_detail k) None) acks s))"

text \<open>The interruption is cleared from the store, and nobody hears of it.\<close>

lemma boot_ack_lost:
  assumes "\<not> mq_cli s \<or> \<not> mq_up s"
  shows "mq_pubs (snd (boot_a open_ok nv s)) = mq_pubs s \<and> nvs_get_meas open_ok (fst (boot_a open_ok nv s)) = None"
  using assms by (auto simp: boot_a_def measure_check_boot_def mqtt_ack_def mqtt_pub_def nvs_get_meas_def nvs_clear_meas_def
      split: option.splits)

section \<open>The remote log\<close>

text \<open>The datagram of one log line: the text cut to the buffer; a line that is too long takes the closing zero byte along.\<close>

definition LOG_BUF :: nat where "LOG_BUF = 256"

definition log_datagram :: "string \<Rightarrow> string option" where
  "log_datagram t =
     (let n = length t; buf = take (LOG_BUF - 1) t @ [CHR 0x00]
      in if n > 0 then Some (take (if n > LOG_BUF then LOG_BUF else n) buf) else None)"

lemma log_short: "0 < length t \<Longrightarrow> length t < LOG_BUF \<Longrightarrow> log_datagram t = Some t"
  by (simp add: log_datagram_def Let_def)

lemma log_long: "LOG_BUF \<le> length t \<Longrightarrow> log_datagram t = Some (take 255 t @ [CHR 0x00])"
  by (cases t) (simp_all add: log_datagram_def Let_def LOG_BUF_def)

end
