(* ===== verification/Test_Board.thy ===== *)
theory Test_Board
  imports Jk_Frame C_Text
begin

text \<open>
  The bench board, \<^verbatim>\<open>test_board/main\<close>: the synthetic records (\<^verbatim>\<open>synth_frames.c\<close>), the emulated module (\<^verbatim>\<open>emu_bms.c\<close>), the
  emulated phone application (\<^verbatim>\<open>emu_app.c\<close>) and the command line that drives them (\<^verbatim>\<open>ctl_server.c\<close>).

  What the board prints is a list of lines, what it asks of NimBLE a list of calls. The replies of NimBLE arrive as events.
\<close>

section \<open>Synthetic records\<close>

text \<open>One store: the offset and the bytes written there.\<close>

type_synonym store = "nat \<times> byte list"

definition put_store :: "store \<Rightarrow> byte list \<Rightarrow> byte list" where
  "put_store w f = put_bytes (fst w) (snd w) f"

definition put_u16 :: "nat \<Rightarrow> u16 \<Rightarrow> store" where
  "put_u16 off v = (off, bytes16 v)"

definition put_u32 :: "nat \<Rightarrow> u32 \<Rightarrow> store" where
  "put_u32 off v = (off, bytes32 v)"

definition synth_finalize :: "byte \<Rightarrow> byte list \<Rightarrow> byte list" where
  "synth_finalize ty f =
     (let f = put_store (4, [ty]) (put_store (0, JK02_MAGIC) f)
      in f[JK02_RECORD_LEN - 1 := sum8 (take (JK02_RECORD_LEN - 1) f)])"

definition cell_mv :: "u32 \<Rightarrow> nat \<Rightarrow> u16" where
  "cell_mv seq i = (let mv = ucast (3300 + of_nat (i * 3) + seq mod 5) in if i = 8 then mv - 12 else mv)"

definition cell_r :: "nat \<Rightarrow> u16" where
  "cell_r i = (if i = 2 then 0 else of_nat (140 + i))"

definition cell_stores :: "u32 \<Rightarrow> store list" where
  "cell_stores seq =
     concat (map (\<lambda>i. [put_u16 (6 + i * 2) (cell_mv seq i), put_u16 (80 + i * 2) (cell_r i)]) [0..<16]) @
     [put_u32 70 0x0000FFFF, put_u16 74 3305, put_u16 76 12,
      put_u32 146 (if seq AND 1 \<noteq> 0 then 4 else 0), put_u32 150 (52800 + seq mod 20), put_u32 154 79000, put_u32 158 1500,
      put_u16 162 160, put_u16 164 164, put_u16 144 172, put_u16 166 0, (170, [0]), (173, [74]), put_u32 182 128]"

text \<open>The three builders; \<open>None\<close> is the result \<^verbatim>\<open>-1\<close> for a buffer that is too small.\<close>

definition synth_cell_info :: "nat \<Rightarrow> u32 \<Rightarrow> byte list option" where
  "synth_cell_info cap seq =
     (if cap < JK02_RECORD_LEN then None
      else Some (synth_finalize 0x02 (fold put_store (cell_stores seq) (replicate JK02_RECORD_LEN 0))))"

definition synth_settings :: "nat \<Rightarrow> byte list option" where
  "synth_settings cap =
     (if cap < JK02_RECORD_LEN then None
      else Some (synth_finalize 0x01
        (fold put_store [put_u32 26 10, put_u32 78 2000, put_u32 126 1, put_u32 114 16] (replicate JK02_RECORD_LEN 0))))"

definition char_bytes :: "string \<Rightarrow> byte list" where
  "char_bytes s = map of_char s"

text \<open>\<^verbatim>\<open>strlcpy\<close> of at most 15 characters and the zero byte.\<close>

definition synth_device_info :: "nat \<Rightarrow> string option \<Rightarrow> byte list option" where
  "synth_device_info cap name =
     (if cap < JK02_RECORD_LEN then None
      else Some (synth_finalize 0x03
        (fold put_store ([(6, char_bytes ''JK-PB2A16S20P''), (22, char_bytes ''19A''), (30, char_bytes ''19.31'')] @
           (case name of Some n \<Rightarrow> [(46, char_bytes (take 15 n) @ [0])] | None \<Rightarrow> [])) (replicate JK02_RECORD_LEN 0))))"

section \<open>The emulated module\<close>

datatype push_code = Push_cell | Push_settings | Push_devinfo

record emu_bms =
  eb_name :: string
  eb_conn :: "u16 option"
  eb_val_handle :: u16
  eb_notify :: bool
  eb_seq :: u32
  eb_autopush_ms :: "int option"
  eb_push_q :: "push_code list"
  eb_sent :: "(u16 \<times> byte list) list"
  eb_adv :: "string list"
  eb_lines :: "string list"

definition bms_emit :: "string \<Rightarrow> emu_bms \<Rightarrow> emu_bms" where
  "bms_emit l s = s\<lparr>eb_lines := eb_lines s @ [l]\<rparr>"

text \<open>A record in pieces of twenty bytes.\<close>

function chunks20 :: "byte list \<Rightarrow> byte list list" where
  "chunks20 f = (if f = [] then [] else take 20 f # chunks20 (drop 20 f))"
  by pat_completeness auto

termination by (relation "measure length") auto

declare chunks20.simps [simp del]

text \<open>
  The loop of \<^verbatim>\<open>notify_frame\<close>. Whether \<^verbatim>\<open>ble_hs_mbuf_from_flat\<close> finds a buffer for the piece at offset \<open>off\<close> is
  the parameter \<open>alloc\<close>; a piece without one is skipped and the loop goes on.
\<close>

function notify_chunks :: "(nat \<Rightarrow> bool) \<Rightarrow> nat \<Rightarrow> byte list \<Rightarrow> byte list list" where
  "notify_chunks alloc off f =
     (if f = [] then [] else (if alloc off then [take 20 f] else []) @ notify_chunks alloc (off + 20) (drop 20 f))"
  by pat_completeness auto

termination by (relation "measure (\<lambda>(alloc, off, f). length f)") auto

declare notify_chunks.simps [simp del]

definition bms_notify_frame :: "(nat \<Rightarrow> bool) \<Rightarrow> byte list \<Rightarrow> emu_bms \<Rightarrow> emu_bms" where
  "bms_notify_frame alloc f s =
     (case eb_conn s of
        None \<Rightarrow> s
      | Some c \<Rightarrow>
          if \<not> eb_notify s then s
          else bms_emit (''EVT notified '' @ dec_string (length f) @ '' bytes'')
                 (s\<lparr>eb_sent := eb_sent s @ map (Pair c) (notify_chunks alloc 0 f)\<rparr>))"

definition PUSH_DEPTH :: nat where "PUSH_DEPTH = 8"

text \<open>One round of \<^verbatim>\<open>push_task\<close>.\<close>

definition push_turn :: "(nat \<Rightarrow> bool) \<Rightarrow> emu_bms \<Rightarrow> emu_bms" where
  "push_turn alloc s =
     (case eb_push_q s of
        [] \<Rightarrow> s
      | code # q \<Rightarrow>
          let s = s\<lparr>eb_push_q := q\<rparr>;
              (fo, s) = (case code of
                 Push_cell \<Rightarrow> (synth_cell_info 320 (eb_seq s), s\<lparr>eb_seq := eb_seq s + 1\<rparr>)
               | Push_settings \<Rightarrow> (synth_settings 320, s)
               | Push_devinfo \<Rightarrow> (synth_device_info 320 (Some (eb_name s)), s))
          in case fo of Some f \<Rightarrow> bms_notify_frame alloc f s | None \<Rightarrow> s)"

definition emu_bms_push :: "string \<Rightarrow> emu_bms \<Rightarrow> emu_bms" where
  "emu_bms_push what s =
     (let code = (if what = ''settings'' then Push_settings else if what = ''devinfo'' then Push_devinfo else Push_cell)
      in if length (eb_push_q s) < PUSH_DEPTH then s\<lparr>eb_push_q := eb_push_q s @ [code]\<rparr> else s)"

text \<open>The timer: \<open>None\<close> while it is stopped, its period in milliseconds while it runs.\<close>

definition emu_bms_autopush :: "int \<Rightarrow> emu_bms \<Rightarrow> emu_bms" where
  "emu_bms_autopush ms s = (if ms \<le> 0 then s\<lparr>eb_autopush_ms := None\<rparr> else s\<lparr>eb_autopush_ms := Some ms\<rparr>)"

definition autopush_cb :: "emu_bms \<Rightarrow> emu_bms" where
  "autopush_cb = emu_bms_push ''cell''"

text \<open>A read answers with a record, unless the buffer of the host is exhausted; a write is reported and answered by a push.\<close>

definition bms_read :: "bool \<Rightarrow> emu_bms \<Rightarrow> byte list option" where
  "bms_read append_ok s = (if append_ok then synth_cell_info 320 (eb_seq s) else None)"

definition bms_write :: "byte list \<Rightarrow> emu_bms \<Rightarrow> emu_bms" where
  "bms_write data s =
     (let b = take 64 data; n = length b
      in emu_bms_push ''cell'' (bms_emit (''EVT bms_write '' @ dec_string n @ '' bytes (opcode 0x'' @
           hex2_low (if n \<ge> 5 then unat (b ! 4) else 0) @ '')'') s))"

definition bms_advertise :: "emu_bms \<Rightarrow> emu_bms" where
  "bms_advertise s = s\<lparr>eb_adv := eb_adv s @ [eb_name s]\<rparr>"

datatype bms_ev = Bms_connect int u16 | Bms_disconnect | Bms_subscribe bool

fun bms_gap_event :: "bms_ev \<Rightarrow> emu_bms \<Rightarrow> emu_bms" where
  "bms_gap_event (Bms_connect status h) s =
     (if status = 0 then bms_emit ''EVT connected'' (s\<lparr>eb_conn := Some h\<rparr>) else bms_advertise s)"
| "bms_gap_event Bms_disconnect s =
     bms_advertise (bms_emit ''EVT disconnected'' (s\<lparr>eb_conn := None, eb_notify := False\<rparr>))"
| "bms_gap_event (Bms_subscribe on) s =
     bms_emit (''EVT subscribe notify='' @ bool_digit on) (s\<lparr>eb_notify := on\<rparr>)"

text \<open>The state after the start; the host is up and advertises.\<close>

definition emu_bms_start :: "string option \<Rightarrow> u16 \<Rightarrow> emu_bms" where
  "emu_bms_start adv_name val_handle =
     bms_advertise \<lparr>eb_name = (case adv_name of Some n \<Rightarrow> take 31 n | None \<Rightarrow> ''JK-BENCH''), eb_conn = None, eb_val_handle = val_handle,
       eb_notify = False, eb_seq = 0, eb_autopush_ms = None, eb_push_q = [], eb_sent = [], eb_adv = [], eb_lines = []\<rparr>"


section \<open>The emulated application\<close>

datatype app_call =
    App_disc
  | App_disc_cancel
  | App_connect "byte list"
  | App_disc_svc u16
  | App_disc_chrs u16 u16 u16
  | App_write u16 u16 "byte list"
  | App_read u16 u16
  | App_terminate u16

record emu_app =
  ea_conn :: u16
  ea_val_handle :: u16
  ea_cccd_handle :: u16
  ea_target :: string
  ea_have_target :: bool
  ea_calls :: "app_call list"
  ea_lines :: "string list"

definition CONN_NONE :: u16 where "CONN_NONE = 0xFFFF"

definition emu_app_init :: emu_app where
  "emu_app_init = \<lparr>ea_conn = CONN_NONE, ea_val_handle = 0, ea_cccd_handle = 0, ea_target = '''', ea_have_target = False, ea_calls = [], ea_lines = []\<rparr>"

definition app_emit :: "string \<Rightarrow> emu_app \<Rightarrow> emu_app" where
  "app_emit l s = s\<lparr>ea_lines := ea_lines s @ [l]\<rparr>"

definition app_call :: "app_call \<Rightarrow> emu_app \<Rightarrow> emu_app" where
  "app_call c s = s\<lparr>ea_calls := ea_calls s @ [c]\<rparr>"

definition emu_app_scan :: "emu_app \<Rightarrow> emu_app" where
  "emu_app_scan = app_call App_disc"

text \<open>An advertisement: its address and the name field, \<open>None\<close> when the parser fails.\<close>

definition app_on_adv :: "byte list \<Rightarrow> string option \<Rightarrow> emu_app \<Rightarrow> emu_app" where
  "app_on_adv addr name s =
     (case name of
        None \<Rightarrow> s
      | Some nf \<Rightarrow>
          if nf = '''' then s
          else let nm = takeWhile (\<lambda>c. c \<noteq> CHR 0x00) (take 31 nf); s = app_emit (''EVT adv '' @ nm) s
            in if ea_have_target s \<and> nm = ea_target s then app_call (App_connect addr) (app_call App_disc_cancel s) else s)"

definition emu_app_connect :: "string option \<Rightarrow> emu_app \<Rightarrow> bool \<times> emu_app" where
  "emu_app_connect name s =
     (case name of None \<Rightarrow> (False, s) | Some n \<Rightarrow> (True, emu_app_scan (s\<lparr>ea_target := take 31 n, ea_have_target := True\<rparr>)))"

definition app_on_chr :: "u16 \<Rightarrow> u16 \<Rightarrow> emu_app \<Rightarrow> emu_app" where
  "app_on_chr uuid val_handle s =
     (if uuid = 0xFFE1
      then app_emit (''EVT chr 0xffe1 val_handle='' @ dec_string (unat val_handle)) (s\<lparr>ea_val_handle := val_handle, ea_cccd_handle := val_handle + 1\<rparr>)
      else s)"

definition app_on_svc :: "u16 \<Rightarrow> u16 \<Rightarrow> u16 \<Rightarrow> u16 \<Rightarrow> emu_app \<Rightarrow> emu_app" where
  "app_on_svc c uuid h_first h_last s = (if uuid = 0xFFE0 then app_call (App_disc_chrs c h_first h_last) s else s)"

definition emu_app_subscribe :: "emu_app \<Rightarrow> emu_app" where
  "emu_app_subscribe s = app_call (App_write (ea_conn s) (ea_cccd_handle s) [1, 0]) s"

definition emu_app_read :: "emu_app \<Rightarrow> emu_app" where
  "emu_app_read s = app_call (App_read (ea_conn s) (ea_val_handle s)) s"

definition emu_app_write :: "byte list \<Rightarrow> emu_app \<Rightarrow> emu_app" where
  "emu_app_write d s = app_call (App_write (ea_conn s) (ea_val_handle s) d) s"

definition emu_app_disconnect :: "emu_app \<Rightarrow> emu_app" where
  "emu_app_disconnect s = (if ea_conn s \<noteq> CONN_NONE then app_call (App_terminate (ea_conn s)) s else s)"

text \<open>An empty value leaves the text buffer unwritten in the source; it is printed as no digits here.\<close>

definition hex_line :: "string \<Rightarrow> byte list \<Rightarrow> string" where
  "hex_line what d = ''EVT '' @ what @ '' '' @ concat (map hex_byte_low (take 320 d))"

definition app_on_read :: "byte list option \<Rightarrow> emu_app \<Rightarrow> emu_app" where
  "app_on_read d s = (case d of Some d \<Rightarrow> app_emit (hex_line ''read'' d) s | None \<Rightarrow> s)"

datatype app_ev = App_disc_rx "byte list" "string option" | App_connected int u16 | App_disconnected | App_notify "byte list"

fun app_gap_event :: "app_ev \<Rightarrow> emu_app \<Rightarrow> emu_app" where
  "app_gap_event (App_disc_rx addr name) s = app_on_adv addr name s"
| "app_gap_event (App_connected status h) s =
     (if status = 0 then app_call (App_disc_svc h) (app_emit ''EVT connected'' (s\<lparr>ea_conn := h\<rparr>))
      else app_emit (''EVT connect_failed '' @ int_string status) s)"
| "app_gap_event App_disconnected s = app_emit ''EVT disconnected'' (s\<lparr>ea_conn := CONN_NONE\<rparr>)"
| "app_gap_event (App_notify d) s = app_emit (hex_line ''notify'' d) s"

section \<open>The command line\<close>

text \<open>\<^verbatim>\<open>unhex\<close>: two characters at a time while there are two and the buffer has room.\<close>

fun unhex :: "nat \<Rightarrow> string \<Rightarrow> byte list" where
  "unhex (Suc cap) (a # b # s) = word_of_int (strtol16 [a, b]) # unhex cap s"
| "unhex cap s = []"

datatype role = ROLE_NONE | ROLE_APP | ROLE_BMS

record ctl =
  ct_role :: role
  ct_app :: emu_app
  ct_bms :: "emu_bms option"
  ct_lines :: "string list"

definition ctl_emit :: "string \<Rightarrow> ctl \<Rightarrow> ctl" where
  "ctl_emit l s = s\<lparr>ct_lines := ct_lines s @ [l]\<rparr>"

definition role_text :: "role \<Rightarrow> string" where
  "role_text r = (case r of ROLE_NONE \<Rightarrow> ''0'' | ROLE_APP \<Rightarrow> ''1'' | ROLE_BMS \<Rightarrow> ''2'')"

definition sep :: "char \<Rightarrow> bool" where
  "sep c \<longleftrightarrow> c = CHR '' '' \<or> c = CHR 0x09 \<or> c = CHR 0x0D \<or> c = CHR 0x0A"

definition next_word :: "string \<Rightarrow> string option" where
  "next_word r = map_option fst (strtok sep r)"

definition on_app :: "(emu_app \<Rightarrow> emu_app) \<Rightarrow> ctl \<Rightarrow> ctl" where
  "on_app f s = s\<lparr>ct_app := f (ct_app s)\<rparr>"

definition on_bms :: "(emu_bms \<Rightarrow> emu_bms) \<Rightarrow> ctl \<Rightarrow> ctl" where
  "on_bms f s = s\<lparr>ct_bms := map_option f (ct_bms s)\<rparr>"

text \<open>The command \<^verbatim>\<open>role\<close> and the rest of its line.\<close>

definition role_cmd :: "u16 \<Rightarrow> string \<Rightarrow> ctl \<Rightarrow> ctl" where
  "role_cmd vh r s =
     (case strtok sep r of
        None \<Rightarrow> ctl_emit ''ERR role app|bms'' s
      | Some (which, r2) \<Rightarrow>
          if ct_role s \<noteq> ROLE_NONE
          then ctl_emit (''ERR role already '' @ role_text (ct_role s) @ '', reboot to change'') s
          else if which = ''app'' then ctl_emit ''OK role app'' (s\<lparr>ct_role := ROLE_APP, ct_app := emu_app_init\<rparr>)
          else if which = ''bms''
          then let name = (case next_word r2 of Some n \<Rightarrow> n | None \<Rightarrow> ''JK-BENCH'')
               in ctl_emit (''OK role bms '' @ name) (s\<lparr>ct_bms := Some (emu_bms_start (Some name) vh), ct_role := ROLE_BMS\<rparr>)
          else ctl_emit ''ERR role app|bms'' s)"

definition app_cmd :: "string \<Rightarrow> string \<Rightarrow> ctl \<Rightarrow> ctl" where
  "app_cmd cmd r s =
     (if cmd = ''scan'' then ctl_emit ''OK scan'' (on_app emu_app_scan s)
      else if cmd = ''connect''
      then (case emu_app_connect (next_word r) (ct_app s) of
              (ok, a) \<Rightarrow> ctl_emit (if ok then ''OK connect'' else ''ERR connect'') (s\<lparr>ct_app := a\<rparr>))
      else if cmd = ''sub'' then ctl_emit ''OK sub'' (on_app emu_app_subscribe s)
      else if cmd = ''read'' then ctl_emit ''OK read'' (on_app emu_app_read s)
      else if cmd = ''write''
      then let b = (case next_word r of Some h \<Rightarrow> unhex 64 h | None \<Rightarrow> [])
           in ctl_emit (''OK write '' @ dec_string (length b)) (on_app (emu_app_write b) s)
      else if cmd = ''disconnect'' then ctl_emit ''OK disconnect'' (on_app emu_app_disconnect s)
      else ctl_emit (''ERR unknown '' @ [CHR 0x27] @ cmd @ [CHR 0x27]) s)"

definition bms_cmd :: "string \<Rightarrow> string \<Rightarrow> ctl \<Rightarrow> ctl" where
  "bms_cmd cmd r s =
     (if cmd = ''push''
      then ctl_emit ''OK push'' (on_bms (emu_bms_push (case next_word r of Some w \<Rightarrow> w | None \<Rightarrow> ''cell'')) s)
      else if cmd = ''autopush''
      then ctl_emit ''OK autopush'' (on_bms (emu_bms_autopush (case next_word r of Some m \<Rightarrow> c_atoi m | None \<Rightarrow> 0)) s)
      else ctl_emit (''ERR unknown '' @ [CHR 0x27] @ cmd @ [CHR 0x27]) s)"

definition handle_line :: "u16 \<Rightarrow> string \<Rightarrow> ctl \<Rightarrow> ctl" where
  "handle_line vh line s =
     (case strtok sep line of
        None \<Rightarrow> s
      | Some (cmd, r) \<Rightarrow>
          if cmd = ''role'' then role_cmd vh r s
          else if cmd = ''status'' then ctl_emit (''OK role='' @ role_text (ct_role s)) s
          else case ct_role s of
            ROLE_APP \<Rightarrow> app_cmd cmd r s
          | ROLE_BMS \<Rightarrow> bms_cmd cmd r s
          | ROLE_NONE \<Rightarrow> ctl_emit ''ERR set role first: role app | role bms <name>'' s)"

definition ctl_init :: ctl where
  "ctl_init = \<lparr>ct_role = ROLE_NONE, ct_app = emu_app_init, ct_bms = None, ct_lines = []\<rparr>"

section \<open>Commands\<close>

context hex_printer
begin

lemma unhex_pr: "length bs \<le> cap \<Longrightarrow> unhex cap (concat (map pr bs)) = bs"
proof (induction bs arbitrary: cap)
  case (Cons b bs)
  then obtain cap' where "cap = Suc cap'" by (cases cap) simp_all
  with Cons strtol_pr [of b] show ?case by (simp add: pr_def)
qed simp

lemma pr_words: "list_all (\<lambda>c. \<not> sep c) (concat (map pr bs))"
proof -
  have "is_hex c \<Longrightarrow> \<not> sep c" for c by (auto simp: sep_def is_hex_def hex_value_def)
  then show ?thesis by (induction bs) (auto simp: list_all_iff dest!: pr_plain)
qed

end

lemma handle_write:
  assumes "ct_role s = ROLE_APP" "w \<noteq> ''''" "list_all (\<lambda>c. \<not> sep c) w"
  shows "handle_line vh (''write '' @ w @ [CHR 0x0A]) s =
    ctl_emit (''OK write '' @ dec_string (length (unhex 64 w))) (on_app (emu_app_write (unhex 64 w)) s)"
proof -
  have "strtok sep (''write'' @ CHR '' '' # w @ [CHR 0x0A]) = Some (''write'', w @ [CHR 0x0A])"
    by (rule strtok_word) (simp_all add: sep_def)
  moreover have "strtok sep (w @ CHR 0x0A # []) = Some (w, [])" using assms(2,3) by (intro strtok_word) (simp_all add: sep_def)
  ultimately show ?thesis using assms(1) by (simp add: handle_line_def app_cmd_def next_word_def Let_def)
qed

text \<open>The bytes of a write command, in either notation, are the bytes written.\<close>

lemma bench_write_exact:
  assumes "ct_role s = ROLE_APP" "bs \<noteq> []" "length bs \<le> 64"
  shows "handle_line vh (''write '' @ concat (map hex_byte bs) @ [CHR 0x0A]) s =
      ctl_emit (''OK write '' @ dec_string (length bs)) (on_app (emu_app_write bs) s)"
    and "handle_line vh (''write '' @ concat (map hex_byte_low bs) @ [CHR 0x0A]) s =
      ctl_emit (''OK write '' @ dec_string (length bs)) (on_app (emu_app_write bs) s)"
  using handle_write [OF assms(1), of "concat (map hex_byte bs)" vh] handle_write [OF assms(1), of "concat (map hex_byte_low bs)" vh]
    hexU.unhex_pr [OF assms(3)] hexL.unhex_pr [OF assms(3)] hexU.pr_words [of bs] hexL.pr_words [of bs] assms(2)
  by (auto simp: hexU_pr hexL_pr hex_byte_def hex_byte_low_def neq_Nil_conv)

section \<open>The records of the bench\<close>

fun apart :: "(nat \<times> nat) list \<Rightarrow> bool" where
  "apart [] = True"
| "apart ((o1, n1) # r) \<longleftrightarrow> list_all (\<lambda>(o2, n2). o1 + n1 \<le> o2 \<or> o2 + n2 \<le> o1) r \<and> apart r"

definition spans :: "store list \<Rightarrow> (nat \<times> nat) list" where
  "spans ws = map (\<lambda>w. (fst w, length (snd w))) ws"

definition inside :: "nat \<Rightarrow> (nat \<times> nat) list \<Rightarrow> bool" where
  "inside n sp \<longleftrightarrow> list_all (\<lambda>(o1, k). o1 + k \<le> n) sp"

lemma put_store_eq: "put_store w f = put_bytes (fst w) (snd w) f"
  by (simp add: put_store_def)

lemma length_put_stores: "inside (length f) (spans ws) \<Longrightarrow> length (fold put_store ws f) = length f"
  by (induction ws arbitrary: f) (simp_all add: spans_def inside_def put_store_def)

lemma stores_untouched:
  assumes "inside (length f) (spans ws)" "list_all (\<lambda>(o2, n2). off + n \<le> o2 \<or> o2 + n2 \<le> off) (spans ws)" "off + n \<le> length f"
  shows "take n (drop off (fold put_store ws f)) = take n (drop off f)"
  using assms
proof (induction ws arbitrary: f)
  case (Cons w ws)
  have w: "fst w + length (snd w) \<le> length f" "off + n \<le> fst w \<or> fst w + length (snd w) \<le> off"
    using Cons.prems by (simp_all add: spans_def inside_def)
  have "take n (drop off (fold put_store ws (put_store w f))) = take n (drop off (put_store w f))"
    using Cons.prems w(1) by (intro Cons.IH) (simp_all add: spans_def inside_def put_store_def)
  then show ?case using take_drop_put_bytes_other [OF w(1) Cons.prems(3) w(2)] by (simp add: put_store_eq [of w f])
qed simp

lemma store_read:
  assumes "inside (length f) (spans ws)" "apart (spans ws)" "(off, bs) \<in> set ws"
  shows "take (length bs) (drop off (fold put_store ws f)) = bs"
  using assms
proof (induction ws arbitrary: f)
  case (Cons w ws)
  have w: "fst w + length (snd w) \<le> length f" using Cons.prems(1) by (simp add: spans_def inside_def)
  have i: "inside (length (put_store w f)) (spans ws)" using Cons.prems(1) w by (simp add: spans_def inside_def put_store_def)
  show ?case
  proof (cases "(off, bs) \<in> set ws")
    case True
    then show ?thesis using Cons.IH [OF i] Cons.prems(2) by (simp add: spans_def)
  next
    case False
    with Cons.prems(3) have e: "w = (off, bs)" by simp
    have "take (length bs) (drop off (fold put_store ws (put_store w f))) = take (length bs) (drop off (put_store w f))"
      using i w Cons.prems(2) e by (intro stores_untouched) (simp_all add: spans_def put_store_eq [of "(off, bs)" f])
    then show ?thesis using take_drop_put_bytes_same [of off bs f] w e by (simp add: put_store_eq [of "(off, bs)" f])
  qed
qed simp

definition head_stores :: "byte \<Rightarrow> store list" where
  "head_stores ty = [(0, JK02_MAGIC), (4, [ty])]"

definition synth :: "byte \<Rightarrow> store list \<Rightarrow> byte list" where
  "synth ty ws = synth_finalize ty (fold put_store ws (replicate JK02_RECORD_LEN 0))"

definition stores_ok :: "store list \<Rightarrow> bool" where
  "stores_ok ws \<longleftrightarrow> inside 299 (spans ws) \<and> apart (spans (ws @ head_stores 0))"

lemma inside_mono: "inside n sp \<Longrightarrow> n \<le> k \<Longrightarrow> inside k sp"
  by (auto simp: inside_def list_all_iff)

lemma synth_eq: "synth ty ws = (let f = fold put_store (ws @ head_stores ty) (replicate 300 0) in f[299 := sum8 (take 299 f)])"
  by (simp add: synth_def synth_finalize_def head_stores_def JK02_RECORD_LEN_def Let_def)

lemma spans_head: "spans (ws @ head_stores ty) = spans (ws @ head_stores 0)"
  by (simp add: spans_def head_stores_def)

lemma all_inside: "stores_ok ws \<Longrightarrow> inside (length (replicate 300 (0 :: byte))) (spans (ws @ head_stores ty))"
  by (auto simp: stores_ok_def inside_def spans_def head_stores_def list_all_iff)

lemma synth_length: "stores_ok ws \<Longrightarrow> length (synth ty ws) = 300"
  using length_put_stores [OF all_inside] by (simp add: synth_eq Let_def)

lemma take_drop_last: "off + n \<le> k \<Longrightarrow> take n (drop off (f[k := x])) = take n (drop off f)"
  by (rule nth_equalityI) auto

lemma synth_read: "stores_ok ws \<Longrightarrow> (off, bs) \<in> set (ws @ head_stores ty) \<Longrightarrow> take (length bs) (drop off (synth ty ws)) = bs"
proof -
  assume ok: "stores_ok ws" and w: "(off, bs) \<in> set (ws @ head_stores ty)"
  have "off + length bs \<le> 299" using ok w by (auto simp: stores_ok_def inside_def spans_def head_stores_def list_all_iff)
  moreover have "apart (spans (ws @ head_stores ty))" using ok by (simp add: spans_head [of ws ty] stores_ok_def)
  ultimately show ?thesis
    using store_read [OF all_inside [OF ok] _ w] by (simp add: synth_eq Let_def take_drop_last)
qed

lemma synth_zero:
  assumes "stores_ok ws" "list_all (\<lambda>(o2, n2). off + n \<le> o2 \<or> o2 + n2 \<le> off) (spans (ws @ head_stores 0))" "off + n \<le> 299"
  shows "take n (drop off (synth ty ws)) = replicate n 0"
proof -
  have "take n (drop off (fold put_store (ws @ head_stores ty) (replicate 300 0))) = take n (drop off (replicate 300 (0 :: byte)))"
    using assms by (intro stores_untouched all_inside) (simp_all add: spans_head [of ws ty])
  with assms(3) show ?thesis by (simp add: synth_eq Let_def take_drop_last)
qed

lemma synth_valid:
  assumes "stores_ok ws"
  shows "valid_frame (synth ty ws)" and "take 1 (drop 4 (synth ty ws)) = [ty]" and "take 4 (synth ty ws) = JK02_MAGIC"
proof -
  show m: "take 4 (synth ty ws) = JK02_MAGIC" using synth_read [OF assms, of 0 JK02_MAGIC ty] by (simp add: head_stores_def)
  show "take 1 (drop 4 (synth ty ws)) = [ty]" using synth_read [OF assms, of 4 "[ty]" ty] by (simp add: head_stores_def)
  let ?f = "fold put_store (ws @ head_stores ty) (replicate 300 0)"
  have "length ?f = 300" using length_put_stores [OF all_inside [OF assms]] by simp
  then have "jk_checksum_ok (?f[299 := sum8 (take 299 ?f)]) 300" by (simp add: jk_checksum_ok_def)
  then show "valid_frame (synth ty ws)"
    using m synth_length [OF assms, of ty] by (simp add: valid_frame_def JK02_RECORD_LEN_def synth_eq Let_def)
qed

lemma synth_u16: "stores_ok ws \<Longrightarrow> put_u16 off v \<in> set ws \<Longrightarrow> le16 (synth ty ws) off = v"
proof -
  assume a: "stores_ok ws" "put_u16 off v \<in> set ws"
  then have "off + 2 \<le> 299" by (auto simp: stores_ok_def inside_def spans_def put_u16_def list_all_iff)
  then show ?thesis using synth_read [OF a(1), of off "bytes16 v" ty] a synth_length [OF a(1)] by (intro le16_at) (simp_all add: put_u16_def)
qed

lemma synth_u32: "stores_ok ws \<Longrightarrow> put_u32 off v \<in> set ws \<Longrightarrow> le32 (synth ty ws) off = v"
proof -
  assume a: "stores_ok ws" "put_u32 off v \<in> set ws"
  then have "off + 4 \<le> 299" by (auto simp: stores_ok_def inside_def spans_def put_u32_def list_all_iff)
  then show ?thesis using synth_read [OF a(1), of off "bytes32 v" ty] a synth_length [OF a(1)] by (intro le32_at) (simp_all add: put_u32_def)
qed

lemma synth_byte: "stores_ok ws \<Longrightarrow> (off, [v]) \<in> set (ws @ head_stores ty) \<Longrightarrow> synth ty ws ! off = v"
proof -
  assume a: "stores_ok ws" "(off, [v]) \<in> set (ws @ head_stores ty)"
  then have "off < 300" by (auto simp: stores_ok_def inside_def spans_def head_stores_def list_all_iff)
  then have "drop off (synth ty ws) = synth ty ws ! off # drop (Suc off) (synth ty ws)"
    using synth_length [OF a(1), of ty] by (simp add: Cons_nth_drop_Suc)
  then show ?thesis using synth_read [OF a] by simp
qed

lemma synth_record: "stores_ok ws \<Longrightarrow> jk_frame_record (synth ty ws) =
    (if ty = 3 then JK_REC_DEVICE_INFO else if ty = 2 then JK_REC_CELL_INFO else if ty = 1 then JK_REC_SETTINGS else JK_REC_NONE)"
  using synth_valid(3) [of ws ty] synth_length [of ws ty] synth_byte [of ws 4 ty ty]
  by (simp add: jk_frame_record_def starts_with_magic_def head_stores_def)

lemma cell_stores_ok: "stores_ok (cell_stores seq)"
proof -
  have "spans (cell_stores seq @ head_stores 0) = spans (cell_stores 0 @ head_stores 0)" "spans (cell_stores seq) = spans (cell_stores 0)"
    by (simp_all add: spans_def cell_stores_def put_u16_def put_u32_def map_concat comp_def)
  moreover have "inside 299 (spans (cell_stores 0)) \<and> apart (spans (cell_stores 0 @ head_stores 0))" by code_simp
  ultimately show ?thesis unfolding stores_ok_def by simp
qed

definition settings_stores :: "store list" where
  "settings_stores = [put_u32 26 10, put_u32 78 2000, put_u32 126 1, put_u32 114 16]"

lemma settings_stores_ok: "stores_ok settings_stores"
  by code_simp

definition devinfo_stores :: "string \<Rightarrow> store list" where
  "devinfo_stores n = [(6, char_bytes ''JK-PB2A16S20P''), (22, char_bytes ''19A''), (30, char_bytes ''19.31''), (46, char_bytes (take 15 n) @ [0])]"

lemma devinfo_stores_ok: "stores_ok (devinfo_stores n)"
  by (auto simp: stores_ok_def devinfo_stores_def spans_def inside_def head_stores_def char_bytes_def JK02_MAGIC_def)

section \<open>From the bench to the decoder\<close>

lemma synth_eqs:
  "synth_cell_info 320 seq = Some (synth 2 (cell_stores seq))" "synth_settings 320 = Some (synth 1 settings_stores)"
  "synth_device_info 320 (Some n) = Some (synth 3 (devinfo_stores n))"
  by (simp_all add: synth_cell_info_def synth_settings_def synth_device_info_def synth_def settings_stores_def devinfo_stores_def
      JK02_RECORD_LEN_def)

lemma chunks20_parts: "concat (chunks20 f) = f \<and> list_all (\<lambda>c. length c \<le> 20) (chunks20 f)"
proof (induction f rule: chunks20.induct)
  case (1 f)
  then show ?case by (cases "f = []") (simp_all add: chunks20.simps [of f] chunks20.simps [of "[]"])
qed

lemma notify_all_chunks: "(\<And>off. alloc off) \<Longrightarrow> notify_chunks alloc off f = chunks20 f"
proof (induction f arbitrary: off rule: chunks20.induct)
  case (1 f)
  show ?case
  proof (cases "f = []")
    case True
    then show ?thesis by (simp add: notify_chunks.simps [of alloc off "[]"] chunks20.simps [of "[]"])
  next
    case False
    have "alloc off" by (rule 1 (2))
    with False have "notify_chunks alloc off f = take 20 f # notify_chunks alloc (off + 20) (drop 20 f)"
      by (subst notify_chunks.simps) simp
    also have "\<dots> = chunks20 f" using False by (subst 1 (1) [OF False 1 (2)]) (simp add: chunks20.simps [of f])
    finally show ?thesis .
  qed
qed

text \<open>Whatever the allocations, no piece is longer than twenty bytes and none is sent that is not one of the record's.\<close>

lemma notify_some_chunks: "set (notify_chunks alloc off f) \<subseteq> set (chunks20 f)"
proof (induction f arbitrary: off rule: chunks20.induct)
  case (1 f)
  show ?case
  proof (cases "f = []")
    case False
    with 1 [OF False, of "off + 20"] show ?thesis by (auto simp: notify_chunks.simps [of alloc off f] chunks20.simps [of f])
  qed (simp add: notify_chunks.simps)
qed

lemma synth_delivered: "stores_ok ws \<Longrightarrow> snd (feed_chunks (jk_reasm_init ver) (chunks20 (synth ty ws))) = [synth ty ws]"
proof -
  assume "stores_ok ws"
  then have v: "valid_frame (synth ty ws)" by (rule synth_valid)
  have "r_want (jk_reasm_init ver) = 0" "r_have (jk_reasm_init ver) = 0" by (simp_all add: jk_reasm_init_def)
  from reasm_run_complete [OF reasm_wf_init this, of "[]" "[([], synth ty ws)]"] v
  show ?thesis using chunks20_parts [of "synth ty ws"] by (simp add: feed_chunks_run no_magic_short JK02_MAGIC_def)
qed

definition bench_cell :: "u32 \<Rightarrow> nat \<Rightarrow> jk_cell" where
  "bench_cell seq i = \<lparr>c_n = i + 1, c_mv = cell_mv seq i, c_r_mohm = (if i = 2 then - 1 else 140 + int i)\<rparr>"

lemma cell_store_in: "i < 16 \<Longrightarrow> put_u16 (6 + i * 2) (cell_mv seq i) \<in> set (cell_stores seq) \<and> put_u16 (80 + i * 2) (cell_r i) \<in> set (cell_stores seq)"
  unfolding cell_stores_def by force

lemma cell_decoded:
  assumes "i < 16"
  shows "cell_at (synth 2 (cell_stores seq)) i = bench_cell seq i"
proof -
  have "uint (of_nat (140 + i) :: u16) = 140 + int i" using assms by (subst unsigned_of_nat) (simp add: take_bit_nat_eq_self)
  then have r: "(if cell_r i = 0 then - 1 else uint (cell_r i)) = (if i = 2 then - 1 else 140 + int i)"
    by (auto simp: cell_r_def)
  have e: "le16 (synth 2 (cell_stores seq)) (6 + i * 2) = cell_mv seq i" "le16 (synth 2 (cell_stores seq)) (80 + i * 2) = cell_r i"
    using cell_store_in [OF assms, of seq] by (auto intro: synth_u16 [OF cell_stores_ok])
  show ?thesis unfolding cell_at_def bench_cell_def e r ..
qed

lemma cell_info_decoded:
  "\<exists>ci. jk_decode_cell_info ver (synth 2 (cell_stores seq)) = Some ci \<and> ci_cells ci = map (bench_cell seq) [0..<16] \<and>
    ci_pack_mv ci = 52800 + uint seq mod 20 \<and> ci_current_ma ci = 1500 \<and> ci_soc_pct ci = 74 \<and> ci_cycle_count ci = 128 \<and>
    ci_temp_dc ci = [160, 164, 172] \<and> ci_charging ci \<and> \<not> ci_balancing ci \<and> ci_error_bitmask ci = 0 \<and>
    ci_wire_warn_bitmask ci = (if odd (uint seq) then 4 else 0)"
proof -
  let ?f = "synth 2 (cell_stores seq)"
  note ok = cell_stores_ok [of seq]
  have w32: "put_u32 70 0xFFFF \<in> set (cell_stores seq)" "put_u32 150 (52800 + seq mod 20) \<in> set (cell_stores seq)" "put_u32 158 1500 \<in> set (cell_stores seq)"
    "put_u32 182 128 \<in> set (cell_stores seq)" "put_u32 146 (if seq AND 1 \<noteq> 0 then 4 else 0) \<in> set (cell_stores seq)"
    by (simp_all add: cell_stores_def)
  have w16: "put_u16 162 160 \<in> set (cell_stores seq)" "put_u16 164 164 \<in> set (cell_stores seq)" "put_u16 144 172 \<in> set (cell_stores seq)"
    "put_u16 166 0 \<in> set (cell_stores seq)" by (simp_all add: cell_stores_def)
  have w8: "(170, [0]) \<in> set (cell_stores seq @ head_stores 2)" "(173, [74]) \<in> set (cell_stores seq @ head_stores 2)" by (simp_all add: cell_stores_def)
  note r32 = synth_u32 [OF ok w32(1)] synth_u32 [OF ok w32(2)] synth_u32 [OF ok w32(3)] synth_u32 [OF ok w32(4)] synth_u32 [OF ok w32(5)]
  note r16 = synth_u16 [OF ok w16(1)] synth_u16 [OF ok w16(2)] synth_u16 [OF ok w16(3)] synth_u16 [OF ok w16(4)]
  note r8 = synth_byte [OF ok w8(1)] synth_byte [OF ok w8(2)]
  have "filter (bit (0xFFFF :: u32)) [0..<32] = [0..<16]" by code_simp
  moreover have "list_all (\<lambda>i. i < 32) [0..<32]" by (simp add: list_all_length)
  ultimately have cells: "decode_cells ?f 0xFFFF [0..<32] [] = map (bench_cell seq) [0..<16]"
    using decode_cells_filter [of "[]" "[0..<32]" ?f "0xFFFF"] cell_decoded [of _ seq] by (simp add: frame_consts)
  have pack: "sint (52800 + seq mod 20 :: u32) = 52800 + uint seq mod 20"
  proof -
    have m: "uint (seq mod 20) = uint seq mod 20" by (simp add: uint_mod_distrib)
    then have "uint (52800 + seq mod 20) = 52800 + uint seq mod 20" by (simp add: uint_word_ariths m)
    then show ?thesis by (simp add: sint_uint signed_take_bit_int_eq_self)
  qed
  have odd: "(seq AND 1 \<noteq> 0) = odd (uint seq)" using bit_uint_iff [of seq 0] by (simp add: and_one_eq bit_0 odd_iff_mod_2_eq_one)
  show ?thesis
    using synth_record [OF ok, of 2] synth_length [OF ok, of 2]
    by (simp add: jk_decode_cell_info_def Let_def JK02_RECORD_LEN_def cells r32 r16 r8 pack odd s32_of_def s16_of_def)
qed

lemma settings_decoded:
  "\<exists>se. jk_decode_settings ver (synth 1 settings_stores) = Some se \<and> se_balance_trigger_v se = milli_f32 10 \<and>
    se_balance_current_a se = milli_f32 2000 \<and> se_balancing_enabled se \<and> se_cell_count_set se = 16"
  using synth_record [OF settings_stores_ok, of 1] synth_length [OF settings_stores_ok, of 1]
    synth_u32 [OF settings_stores_ok, of 26 10 1] synth_u32 [OF settings_stores_ok, of 78 2000 1]
    synth_u32 [OF settings_stores_ok, of 126 1 1] synth_u32 [OF settings_stores_ok, of 114 16 1]
  by (simp add: jk_decode_settings_def JK02_RECORD_LEN_def settings_stores_def)

lemma devinfo_decoded:
  "\<exists>di. jk_decode_device_info (synth 3 (devinfo_stores n)) = Some di \<and>
    di_name di = char_bytes (take 15 n) @ replicate (32 - length (take 15 n)) 0"
proof -
  let ?f = "synth 3 (devinfo_stores n)" and ?n = "char_bytes (take 15 n)"
  let ?l = "length ?n"
  note ok = devinfo_stores_ok [of n]
  have l: "?l \<le> 15" "?l = length (take 15 n)" by (simp_all add: char_bytes_def)
  have a: "take (?l + 1) (drop 46 ?f) = ?n @ [0]" using synth_read [OF ok, of 46 "?n @ [0]" 3] by (simp add: devinfo_stores_def)
  have b: "take (15 - ?l) (drop (47 + ?l) ?f) = replicate (15 - ?l) 0"
    using l(1) by (intro synth_zero [OF ok]) (auto simp: spans_def devinfo_stores_def head_stores_def char_bytes_def JK02_MAGIC_def)
  have "take (?l + 1 + (15 - ?l)) (drop 46 ?f) = take (?l + 1) (drop 46 ?f) @ take (15 - ?l) (drop (?l + 1) (drop 46 ?f))"
    by (rule take_add)
  also have "\<dots> = (?n @ [0]) @ replicate (15 - ?l) 0" unfolding a using b by (simp add: add.commute [of ?l])
  also have "\<dots> = ?n @ replicate (Suc (15 - ?l)) 0" by simp
  also have "Suc (15 - ?l) = 16 - ?l" using l(1) by simp
  finally show ?thesis
    using synth_record [OF ok, of 3] synth_length [OF ok, of 3] l
    by (simp add: jk_decode_device_info_def put_bytes_def replicate_add [symmetric] min_def)
qed

text \<open>The notifications of one push, and what the reassembler of node A makes of them.\<close>

definition pushed :: "(nat \<Rightarrow> bool) \<Rightarrow> jk_frame_ver \<Rightarrow> u16 \<Rightarrow> string \<Rightarrow> emu_bms \<Rightarrow> byte list \<Rightarrow> bool" where
  "pushed alloc ver h what s f \<longleftrightarrow>
     (\<exists>cs. eb_sent (push_turn alloc (emu_bms_push what s)) = eb_sent s @ map (Pair h) cs \<and> list_all (\<lambda>c. length c \<le> 20) cs \<and>
        snd (feed_chunks (jk_reasm_init ver) cs) = [f])"

lemma notified_record:
  assumes "\<And>off. alloc off" "eb_conn s = Some h" "eb_notify s" "stores_ok ws" "eb_sent s' = eb_sent (bms_notify_frame alloc (synth ty ws) s)"
  shows "\<exists>cs. eb_sent s' = eb_sent s @ map (Pair h) cs \<and> list_all (\<lambda>c. length c \<le> 20) cs \<and>
    snd (feed_chunks (jk_reasm_init ver) cs) = [synth ty ws]"
proof -
  have "eb_sent s' = eb_sent s @ map (Pair h) (chunks20 (synth ty ws))" using assms(2,3,5) notify_all_chunks [OF assms(1)]
    by (simp add: bms_notify_frame_def bms_emit_def)
  then show ?thesis using chunks20_parts [of "synth ty ws"] synth_delivered [OF assms(4), of ver ty] by blast
qed

lemma push_simps:
  assumes "eb_push_q s = []"
  shows "eb_sent (push_turn alloc (emu_bms_push ''cell'' s)) = eb_sent (bms_notify_frame alloc (synth 2 (cell_stores (eb_seq s))) s)"
    and "eb_sent (push_turn alloc (emu_bms_push ''settings'' s)) = eb_sent (bms_notify_frame alloc (synth 1 settings_stores) s)"
    and "eb_sent (push_turn alloc (emu_bms_push ''devinfo'' s)) = eb_sent (bms_notify_frame alloc (synth 3 (devinfo_stores (eb_name s))) s)"
  using assms by (simp_all add: push_turn_def emu_bms_push_def PUSH_DEPTH_def synth_eqs bms_notify_frame_def bms_emit_def Let_def split: option.split)

text \<open>
  C39. The bench speaks the modules' language. While a central is connected and subscribed and the host finds a packet
  buffer for every piece (a piece without one is skipped, and the record is lost), each of the three pushes of the
  emulated module sends notifications of at most twenty bytes from which node A's reassembler obtains exactly one record,
  and node A's decoder reads back the values the bench put in: sixteen cells with their voltages and wire resistances (the
  failed one included), pack, current and flags that follow the sequence number; the balance settings; the module's name.
\<close>

theorem bench_frames_decoded:
  assumes "eb_conn s = Some h" "eb_notify s" "eb_push_q s = []" "\<And>off. alloc off"
  shows "(\<exists>f ci. pushed alloc ver h ''cell'' s f \<and> jk_decode_cell_info ver f = Some ci \<and> ci_cells ci = map (bench_cell (eb_seq s)) [0..<16] \<and>
      ci_pack_mv ci = 52800 + uint (eb_seq s) mod 20 \<and> ci_current_ma ci = 1500 \<and> ci_soc_pct ci = 74 \<and> ci_cycle_count ci = 128 \<and>
      ci_temp_dc ci = [160, 164, 172] \<and> ci_charging ci \<and> \<not> ci_balancing ci \<and> ci_error_bitmask ci = 0 \<and>
      ci_wire_warn_bitmask ci = (if odd (uint (eb_seq s)) then 4 else 0)) \<and>
    (\<exists>f se. pushed alloc ver h ''settings'' s f \<and> jk_decode_settings ver f = Some se \<and> se_balance_trigger_v se = milli_f32 10 \<and>
      se_balance_current_a se = milli_f32 2000 \<and> se_balancing_enabled se \<and> se_cell_count_set se = 16) \<and>
    (\<exists>f di. pushed alloc ver h ''devinfo'' s f \<and> jk_decode_device_info f = Some di \<and>
      di_name di = char_bytes (take 15 (eb_name s)) @ replicate (32 - length (take 15 (eb_name s))) 0)"
proof -
  have "pushed alloc ver h ''cell'' s (synth 2 (cell_stores (eb_seq s)))" "pushed alloc ver h ''settings'' s (synth 1 settings_stores)"
    "pushed alloc ver h ''devinfo'' s (synth 3 (devinfo_stores (eb_name s)))"
    using notified_record [OF assms(4,1,2) cell_stores_ok push_simps(1) [OF assms(3)]] notified_record [OF assms(4,1,2) settings_stores_ok push_simps(2) [OF assms(3)]]
      notified_record [OF assms(4,1,2) devinfo_stores_ok push_simps(3) [OF assms(3)]] by (simp_all add: pushed_def)
  then show ?thesis using cell_info_decoded [of ver "eb_seq s"] settings_decoded [of ver] devinfo_decoded [of "eb_name s"] by blast
qed

definition sample_emu :: emu_bms where
  "sample_emu = bms_gap_event (Bms_subscribe True) (bms_gap_event (Bms_connect 0 5) (emu_bms_start (Some ''JK-BENCH'') 12))"

theorem bench_frames_decoded_witness:
  "\<exists>f di. pushed (\<lambda>_. True) JK_FRAME_JK02_32S 5 ''devinfo'' sample_emu f \<and> jk_decode_device_info f = Some di \<and>
     di_name di = char_bytes ''JK-BENCH'' @ replicate 24 0"
proof -
  have s: "eb_conn sample_emu = Some 5" "eb_notify sample_emu" "eb_push_q sample_emu = []" "eb_name sample_emu = ''JK-BENCH''"
    by (simp_all add: sample_emu_def emu_bms_start_def bms_emit_def bms_advertise_def)
  from bench_frames_decoded [OF s(1-3), of "\<lambda>_. True" JK_FRAME_JK02_32S] show ?thesis unfolding s(4) by simp
qed

text \<open>Without a subscription nothing is sent, and a full queue drops the push.\<close>

lemma push_unheard: "eb_conn s = None \<or> \<not> eb_notify s \<Longrightarrow> eb_sent (push_turn alloc s) = eb_sent s"
  by (auto simp: push_turn_def bms_notify_frame_def Let_def split: list.split push_code.split option.split)

lemma push_queue_bounded: "length (eb_push_q s) \<le> PUSH_DEPTH \<Longrightarrow> length (eb_push_q (emu_bms_push what s)) \<le> PUSH_DEPTH"
  by (simp add: emu_bms_push_def Let_def)

end
