(* ===== verification/Telemetry.thy ===== *)
theory Telemetry
  imports Decoder Mqtt_Task Test_Board
begin

text \<open>
  The way of a record through node A: the decoder (\<^verbatim>\<open>decoder.c\<close>) calls the publishers of \<^verbatim>\<open>mqtt_task.c\<close>, which read the state
  cache it has just filled. The components are those of \<open>Decoder\<close> and \<open>Mqtt_Task\<close>; this theory joins them and follows a
  record of the bench to the broker.
\<close>

section \<open>Joining the components\<close>

fun dec_pub_mqtt :: "dec_pub \<Rightarrow> mqs \<Rightarrow> mqs" where
  "dec_pub_mqtt (Pub_cells i) = mqtt_publish_cells i"
| "dec_pub_mqtt (Pub_summary i) = mqtt_publish_summary i"
| "dec_pub_mqtt (Pub_faults i) = mqtt_publish_faults i"
| "dec_pub_mqtt (Pub_settings i) = mqtt_publish_settings i"

text \<open>One item of the decoder's queue; no other task runs in between.\<close>

definition decode_publish :: "env \<Rightarrow> int \<Rightarrow> notify_item \<Rightarrow> dec \<times> mqs \<Rightarrow> dec \<times> mqs" where
  "decode_publish e now it p =
     (case p of (d, s) \<Rightarrow>
        let d' = decode_item e now it d
        in (d', fold dec_pub_mqtt (drop (length (dc_pub d)) (dc_pub d')) (s\<lparr>mq_arb := dc_arb d'\<rparr>)))"

lemma mqtt_pub_pubs:
  "mq_pubs (mqtt_pub t p r s) = (if mq_up s \<and> mq_cli s then mq_pubs s @ [(t, p, r)] else mq_pubs s)"
  "mq_up (mqtt_pub t p r s) = mq_up s" "mq_cli (mqtt_pub t p r s) = mq_cli s"
  by (simp_all add: mqtt_pub_def)

lemma dec_pub_frame [simp]:
  "mq_arb (dec_pub_mqtt p s) = mq_arb s" "mq_up (dec_pub_mqtt p s) = mq_up s" "mq_cli (dec_pub_mqtt p s) = mq_cli s"
  by (cases p; simp add: mqtt_publish_cells_def mqtt_publish_summary_def mqtt_publish_faults_def mqtt_publish_settings_def mqtt_pub_pubs
      split: option.split)+

lemma unheard: "\<not> mq_up s \<Longrightarrow> mq_pubs (fold dec_pub_mqtt ps s) = mq_pubs s"
proof (induction ps arbitrary: s)
  case (Cons p ps)
  have "mq_pubs (dec_pub_mqtt p s) = mq_pubs s"
    using Cons.prems by (cases p) (simp_all add: mqtt_publish_cells_def mqtt_publish_summary_def mqtt_publish_faults_def mqtt_publish_settings_def
        mqtt_pub_pubs split: option.split)
  with Cons show ?case by simp
qed simp

lemma opener_state [simp]: "a_state (dc_arb (decoder_send_opener e now i d)) = a_state (dc_arb d)" "dc_pub (decoder_send_opener e now i d) = dc_pub d"
  by (simp_all add: decoder_send_opener_def Let_def)

lemma cells_item:
  assumes "jk_decode_cell_info JK_FRAME_JK02_32S (ni_data it) = Some ci"
  shows "decode_item e now it d = dec_publish [Pub_cells (ni_bms_id it), Pub_summary (ni_bms_id it), Pub_faults (ni_bms_id it)]
    (on_arb (set_state (state_set_cells (ni_bms_id it) ci)) (decoder_send_opener e now (ni_bms_id it) d))"
proof -
  have "jk_frame_record (ni_data it) = JK_REC_CELL_INFO" using assms by (simp add: jk_decode_cell_info_def split: if_splits)
  with assms show ?thesis by (simp add: decode_item_def Let_def)
qed

lemma settings_item:
  assumes "jk_decode_settings JK_FRAME_JK02_32S (ni_data it) = Some se"
  shows "decode_item e now it d = on_arb (arbiter_notify_settings e (ni_bms_id it))
    (dec_publish [Pub_settings (ni_bms_id it)] (on_arb (set_state (state_set_settings (ni_bms_id it) se)) d))"
proof -
  have "jk_frame_record (ni_data it) = JK_REC_SETTINGS" using assms by (simp add: jk_decode_settings_def split: if_splits)
  with assms show ?thesis by (simp add: decode_item_def Let_def)
qed

text \<open>
  What the broker is to hear of a record, written out: topics, members and their order, units, and whether the broker
  retains the document. A voltage, current, power or resistance counted in thousandths is the double nearest to its
  value in volts, amps, watts or ohms; a resistance that could not be measured is null.
\<close>

definition thousandth :: "int \<Rightarrow> json" where
  "thousandth x = J_num (fl64 (of_int x / 1000))"

definition cell_doc :: "jk_cell \<Rightarrow> json" where
  "cell_doc c = J_obj
     [(''n'', J_num (of_nat (c_n c))),
      (''v'', thousandth (uint (c_mv c))),
      (''r'', if c_r_mohm c < 0 then J_null else thousandth (c_r_mohm c))]"

definition cells_docs :: "nat \<Rightarrow> jk_cell_info \<Rightarrow> (string \<times> payload \<times> bool) list" where
  "cells_docs i ci =
     [(take 47 (''jkbms/'' @ dec_string i @ ''/state/cells''), P_json (J_arr (map cell_doc (ci_cells ci))), False),
      (take 47 (''jkbms/'' @ dec_string i @ ''/state/summary''), P_json (J_obj
         [(''pack_v'', thousandth (ci_pack_mv ci)),
          (''current'', thousandth (ci_current_ma ci)),
          (''power'', thousandth (ci_power_mw ci)),
          (''soc'', J_num (of_int (uint (ci_soc_pct ci)))),
          (''cycles'', J_num (of_int (uint (ci_cycle_count ci)))),
          (''balancing'', J_bool (ci_balancing ci)),
          (''charging'', J_bool (ci_charging ci)),
          (''discharging'', J_bool (ci_discharging ci))]), False),
      (take 47 (''jkbms/'' @ dec_string i @ ''/state/faults''), P_json (J_obj
         [(''error_bitmask'', J_num (of_int (uint (ci_error_bitmask ci)))),
          (''wire_warn_bitmask'', J_num (of_int (uint (ci_wire_warn_bitmask ci))))]), True)]"

definition settings_docs :: "nat \<Rightarrow> jk_settings \<Rightarrow> (string \<times> payload \<times> bool) list" where
  "settings_docs i se =
     [(take 47 (''jkbms/'' @ dec_string i @ ''/state/settings''), P_json (J_obj
         [(''balance_trigger_voltage'', J_num (se_balance_trigger_v se)),
          (''balance_start_voltage'', J_num (se_balance_start_v se)),
          (''cell_count'', J_num (of_int (uint (se_cell_count_set se)))),
          (''balance_current'', J_num (se_balance_current_a se)),
          (''balancing_enabled'', J_bool (se_balancing_enabled se))]), True)]"

lemma topic_eq: "topic_of 48 i leaf = take 47 (''jkbms/'' @ dec_string i @ ''/'' @ leaf)"
  by (simp add: topic_of_def snprintf_def CFG_MQTT_BASE_def)

lemma docs_eq:
  "cells_docs i ci =
     [(topic_of 48 i ''state/cells'', P_json (J_arr (map cell_json (ci_cells ci))), False),
      (topic_of 48 i ''state/summary'', P_json (summary_json ci), False),
      (topic_of 48 i ''state/faults'', P_json (faults_json ci), True)]"
  "settings_docs i se = [(topic_of 48 i ''state/settings'', P_json (settings_json se), True)]"
proof -
  have "cell_json = cell_doc" by (simp add: fun_eq_iff cell_json_def cell_doc_def milli_def thousandth_def)
  then show "cells_docs i ci =
     [(topic_of 48 i ''state/cells'', P_json (J_arr (map cell_json (ci_cells ci))), False),
      (topic_of 48 i ''state/summary'', P_json (summary_json ci), False),
      (topic_of 48 i ''state/faults'', P_json (faults_json ci), True)]"
    by (simp add: cells_docs_def summary_json_def faults_json_def milli_def thousandth_def topic_eq)
qed (simp add: settings_docs_def settings_json_def topic_eq)


text \<open>A record of the bench: sixteen cells, the failed wire of cell 3 published as null.\<close>

definition sample_item :: notify_item where
  "sample_item = \<lparr>ni_bms_id = 0, ni_idx = 0, ni_raw = False, ni_data = synth 2 (cell_stores 0)\<rparr>"


lemma failed_wire_is_null: "(''r'', J_null) \<in> (case cell_doc (bench_cell seq 2) of J_obj kvs \<Rightarrow> set kvs | _ \<Rightarrow> {})"
  by (simp add: cell_doc_def bench_cell_def)

end
