(* ===== verification/Oled.thy ===== *)
theory Oled
  imports C_Text
begin

text \<open>
  The display driver, \<^verbatim>\<open>components/oled/oled.c\<close>: the font, the frame buffer of five pages of 72 columns, text drawing, and the
  bytes sent to the panel over I2C. Whether the panel acknowledges the \<open>k\<close>-th transfer is a parameter; \<open>ol_wire\<close> is the log
  of the transfers.
\<close>

section \<open>Definitions\<close>

definition OLED_COLS :: nat where "OLED_COLS = 72"
definition OLED_PAGES :: nat where "OLED_PAGES = 5"
definition OLED_COL_OFFSET :: nat where "OLED_COL_OFFSET = 28"

definition FONT_FIRST :: nat where "FONT_FIRST = 0x20"
definition FONT_LAST :: nat where "FONT_LAST = 0x5A"

definition FONT5x7 :: "byte list list" where
  "FONT5x7 =
  [[0x00, 0x00, 0x00, 0x00, 0x00], [0x00, 0x00, 0x5F, 0x00, 0x00], [0x00, 0x00, 0x00, 0x00, 0x00], [0x00, 0x00, 0x00, 0x00, 0x00],
   [0x00, 0x00, 0x00, 0x00, 0x00], [0x00, 0x00, 0x00, 0x00, 0x00], [0x00, 0x00, 0x00, 0x00, 0x00], [0x00, 0x00, 0x00, 0x00, 0x00],
   [0x00, 0x1C, 0x22, 0x41, 0x00], [0x00, 0x41, 0x22, 0x1C, 0x00], [0x00, 0x00, 0x00, 0x00, 0x00], [0x08, 0x08, 0x3E, 0x08, 0x08],
   [0x00, 0x50, 0x30, 0x00, 0x00], [0x08, 0x08, 0x08, 0x08, 0x08], [0x00, 0x60, 0x60, 0x00, 0x00], [0x20, 0x10, 0x08, 0x04, 0x02],
   [0x3E, 0x51, 0x49, 0x45, 0x3E], [0x00, 0x42, 0x7F, 0x40, 0x00], [0x42, 0x61, 0x51, 0x49, 0x46], [0x21, 0x41, 0x45, 0x4B, 0x31],
   [0x18, 0x14, 0x12, 0x7F, 0x10], [0x27, 0x45, 0x45, 0x45, 0x39], [0x3C, 0x4A, 0x49, 0x49, 0x30], [0x01, 0x71, 0x09, 0x05, 0x03],
   [0x36, 0x49, 0x49, 0x49, 0x36], [0x06, 0x49, 0x49, 0x29, 0x1E], [0x00, 0x36, 0x36, 0x00, 0x00], [0x00, 0x00, 0x00, 0x00, 0x00],
   [0x00, 0x00, 0x00, 0x00, 0x00], [0x14, 0x14, 0x14, 0x14, 0x14], [0x00, 0x00, 0x00, 0x00, 0x00], [0x02, 0x01, 0x51, 0x09, 0x06],
   [0x00, 0x00, 0x00, 0x00, 0x00], [0x7E, 0x11, 0x11, 0x11, 0x7E], [0x7F, 0x49, 0x49, 0x49, 0x36], [0x3E, 0x41, 0x41, 0x41, 0x22],
   [0x7F, 0x41, 0x41, 0x22, 0x1C], [0x7F, 0x49, 0x49, 0x49, 0x41], [0x7F, 0x09, 0x09, 0x09, 0x01], [0x3E, 0x41, 0x49, 0x49, 0x7A],
   [0x7F, 0x08, 0x08, 0x08, 0x7F], [0x00, 0x41, 0x7F, 0x41, 0x00], [0x20, 0x40, 0x41, 0x3F, 0x01], [0x7F, 0x08, 0x14, 0x22, 0x41],
   [0x7F, 0x40, 0x40, 0x40, 0x40], [0x7F, 0x02, 0x0C, 0x02, 0x7F], [0x7F, 0x04, 0x08, 0x10, 0x7F], [0x3E, 0x41, 0x41, 0x41, 0x3E],
   [0x7F, 0x09, 0x09, 0x09, 0x06], [0x3E, 0x41, 0x51, 0x21, 0x5E], [0x7F, 0x09, 0x19, 0x29, 0x46], [0x46, 0x49, 0x49, 0x49, 0x31],
   [0x01, 0x01, 0x7F, 0x01, 0x01], [0x3F, 0x40, 0x40, 0x40, 0x3F], [0x1F, 0x20, 0x40, 0x20, 0x1F], [0x3F, 0x40, 0x38, 0x40, 0x3F],
   [0x63, 0x14, 0x08, 0x14, 0x63], [0x07, 0x08, 0x70, 0x08, 0x07], [0x61, 0x51, 0x49, 0x45, 0x43]]"

record oled =
  ol_fb :: "byte list list"
  ol_ok :: bool
  ol_wire :: "byte list list"

definition oled_write :: "(nat \<Rightarrow> bool) \<Rightarrow> byte list \<Rightarrow> oled \<Rightarrow> bool \<times> oled" where
  "oled_write acks bs s = (acks (length (ol_wire s)), s\<lparr>ol_wire := ol_wire s @ [bs]\<rparr>)"

definition oled_cmd :: "(nat \<Rightarrow> bool) \<Rightarrow> byte \<Rightarrow> oled \<Rightarrow> bool \<times> oled" where
  "oled_cmd acks c = oled_write acks [0x00, c]"

definition OLED_INIT :: "byte list" where
  "OLED_INIT = [0xAE, 0xD5, 0x80, 0xA8, 0x27, 0xD3, 0x00, 0x40, 0x8D, 0x14, 0x20, 0x00, 0xA1, 0xC8, 0xDA, 0x12, 0x81, 0xAF, 0xD9, 0xF1, 0xDB, 0x40, 0xA4, 0xA6, 0xAF]"

definition oled_clear :: "oled \<Rightarrow> oled" where
  "oled_clear s = s\<lparr>ol_fb := replicate OLED_PAGES (replicate OLED_COLS 0)\<rparr>"

definition upper :: "char \<Rightarrow> char" where
  "upper c = (if 97 \<le> (of_char c :: nat) \<and> (of_char c :: nat) \<le> 122 then char_of (of_char c - 32 :: nat) else c)"

definition glyph :: "char \<Rightarrow> byte list" where
  "glyph c = (let ch = of_char (upper c) :: nat in
     if FONT_FIRST \<le> ch \<and> ch \<le> FONT_LAST then FONT5x7 ! (ch - FONT_FIRST) else FONT5x7 ! 0)"

text \<open>The loop over the characters: five columns each, then the start moves by six.\<close>

fun draw_str :: "nat \<Rightarrow> string \<Rightarrow> byte list \<Rightarrow> byte list" where
  "draw_str x [] row = row"
| "draw_str x (c # cs) row =
     (if x + 5 \<le> OLED_COLS then draw_str (x + 6) cs (fold (\<lambda>i r. r[x + i := glyph c ! i]) [0..<5] row) else row)"

definition oled_str :: "nat \<Rightarrow> nat \<Rightarrow> string \<Rightarrow> oled \<Rightarrow> oled" where
  "oled_str x page t s = (if page \<ge> OLED_PAGES then s else s\<lparr>ol_fb := (ol_fb s)[page := draw_str x t (ol_fb s ! page)]\<rparr>)"

definition oled_line :: "nat \<Rightarrow> string \<Rightarrow> oled \<Rightarrow> oled" where
  "oled_line page t s =
     (if page \<ge> OLED_PAGES then s
      else oled_str 0 page t (s\<lparr>ol_fb := (ol_fb s)[page := replicate OLED_COLS 0]\<rparr>))"

definition show_page :: "(nat \<Rightarrow> bool) \<Rightarrow> nat \<Rightarrow> oled \<Rightarrow> oled" where
  "show_page acks p s =
     (let s = snd (oled_cmd acks (0xB0 + of_nat p) s);
          s = snd (oled_cmd acks (of_nat (OLED_COL_OFFSET mod 16)) s);
          s = snd (oled_cmd acks (0x10 + of_nat (OLED_COL_OFFSET div 16)) s)
      in snd (oled_write acks (0x40 # ol_fb s ! p) s))"

definition oled_show :: "(nat \<Rightarrow> bool) \<Rightarrow> oled \<Rightarrow> oled" where
  "oled_show acks s = (if \<not> ol_ok s then s else fold (show_page acks) [0..<OLED_PAGES] s)"

definition oled_init :: "bool \<Rightarrow> (nat \<Rightarrow> bool) \<Rightarrow> oled \<Rightarrow> bool \<times> oled" where
  "oled_init driver acks s =
     (if \<not> driver then (False, s)
      else let s = fold (\<lambda>c s. case oled_cmd acks c s of (ok, s) \<Rightarrow> if ok then s else s\<lparr>ol_ok := False\<rparr>) OLED_INIT (s\<lparr>ol_ok := True\<rparr>)
        in if \<not> ol_ok s then (False, s) else (True, oled_show acks (oled_clear s)))"

definition oled_off :: oled where
  "oled_off = \<lparr>ol_fb = replicate OLED_PAGES (replicate OLED_COLS 0), ol_ok = False, ol_wire = []\<rparr>"

section \<open>The frame buffer\<close>

definition fb_ok :: "oled \<Rightarrow> bool" where
  "fb_ok s \<longleftrightarrow> length (ol_fb s) = OLED_PAGES \<and> list_all (\<lambda>r. length r = OLED_COLS) (ol_fb s)"

lemma font_rows: "length FONT5x7 = 59 \<and> list_all (\<lambda>g. length g = 5) FONT5x7"
  by (simp add: FONT5x7_def)

lemma length_glyph [simp]: "length (glyph c) = 5"
proof -
  have r: "k < 59 \<Longrightarrow> length (FONT5x7 ! k) = 5" for k using font_rows by (simp add: list_all_length)
  show ?thesis by (auto simp: glyph_def Let_def FONT_FIRST_def FONT_LAST_def intro!: r)
qed

lemma five_columns: "x + 5 \<le> length row \<Longrightarrow> length g = 5 \<Longrightarrow> fold (\<lambda>i r. r[x + i := g ! i]) [0..<5] row = put_bytes x g row"
proof (rule nth_equalityI)
  assume a: "x + 5 \<le> length row" "length g = 5"
  have f: "fold (\<lambda>i r. r[x + i := g ! i]) [0..<5] row = row[x := g ! 0, x + 1 := g ! 1, x + 2 := g ! 2, x + 3 := g ! 3, x + 4 := g ! 4]"
    by (simp add: upt_rec eval_nat_numeral)
  show "length (fold (\<lambda>i r. r[x + i := g ! i]) [0..<5] row) = length (put_bytes x g row)" using a unfolding f by simp
  fix k assume "k < length (fold (\<lambda>i r. r[x + i := g ! i]) [0..<5] row)"
  then have k: "k < length row" unfolding f by simp
  show "fold (\<lambda>i r. r[x + i := g ! i]) [0..<5] row ! k = put_bytes x g row ! k"
  proof (cases "x \<le> k \<and> k < x + 5")
    case True
    then have "k = x \<or> k = x + 1 \<or> k = x + 2 \<or> k = x + 3 \<or> k = x + 4" by auto
    with k a show ?thesis unfolding f by (elim disjE) (simp_all add: nth_put_bytes)
  next
    case False
    with k a show ?thesis unfolding f by (simp add: nth_put_bytes) (auto simp: nth_list_update)
  qed
qed

text \<open>A text as columns: six per character, at most twelve characters.\<close>

definition cols :: "string \<Rightarrow> byte list" where
  "cols t = concat (map (\<lambda>c. glyph c @ [0]) t)"

lemma length_cols [simp]: "length (cols t) = 6 * length t"
  by (induction t) (simp_all add: cols_def)

lemma draw_str_cols:
  "x mod 6 = 0 \<Longrightarrow> x \<le> OLED_COLS \<Longrightarrow> length row = OLED_COLS \<Longrightarrow> drop x row = replicate (OLED_COLS - x) 0 \<Longrightarrow>
   draw_str x t row = take OLED_COLS (take x row @ cols t @ replicate OLED_COLS 0)"
proof (induction t arbitrary: x row)
  case Nil
  then have "row = take x row @ replicate (OLED_COLS - x) 0" by (metis append_take_drop_id)
  moreover have "take (OLED_COLS - x) (replicate OLED_COLS (0 :: byte)) = replicate (OLED_COLS - x) 0" by simp
  ultimately show ?case using Nil by (simp add: cols_def)
next
  case (Cons c t)
  show ?case
  proof (cases "x + 5 \<le> OLED_COLS")
    case True
    then have x: "x + 6 \<le> OLED_COLS" using Cons.prems(1) unfolding OLED_COLS_def by presburger
    let ?row = "put_bytes x (glyph c) row"
    have row: "?row = take x row @ glyph c @ replicate (OLED_COLS - (x + 5)) 0"
      using Cons.prems(2,4) by (simp add: put_bytes_def add.commute [of x 5] drop_drop [symmetric] min_def)
    have "draw_str (x + 6) t ?row = take OLED_COLS (take (x + 6) ?row @ cols t @ replicate OLED_COLS 0)"
    proof (rule Cons.IH)
      show "(x + 6) mod 6 = 0" using Cons.prems(1) by simp
      show "length ?row = OLED_COLS" using True Cons.prems(3) by simp
      show "drop (x + 6) ?row = replicate (OLED_COLS - (x + 6)) 0" using Cons.prems(2,3) by (simp add: row)
    qed (rule x)
    moreover have "take (x + 6) ?row = take x row @ glyph c @ [0]"
    proof -
      have "take 1 (replicate (OLED_COLS - (x + 5)) (0 :: byte)) = [0]" using x by (simp add: min_def)
      moreover obtain n where "OLED_COLS - (x + 5) = Suc n" using x by (cases "OLED_COLS - (x + 5)") simp_all
      ultimately show ?thesis using Cons.prems(2,3) by (simp add: row min_def)
    qed
    moreover have "fold (\<lambda>i r. r[x + i := glyph c ! i]) [0..<5] row = ?row" using five_columns [of x row "glyph c"] True Cons.prems(3) by simp
    ultimately show ?thesis using True by (simp add: cols_def)
  next
    case False
    then have "x = OLED_COLS" using Cons.prems(1,2) unfolding OLED_COLS_def by presburger
    then show ?thesis using Cons.prems(3) by (simp add: OLED_COLS_def)
  qed
qed

definition line_bits :: "string \<Rightarrow> byte list" where
  "line_bits t = take OLED_COLS (cols t @ replicate OLED_COLS 0)"

lemma length_line_bits [simp]: "length (line_bits t) = OLED_COLS"
  by (simp add: line_bits_def)

lemma oled_line_bits:
  "page < OLED_PAGES \<Longrightarrow> fb_ok s \<Longrightarrow> oled_line page t s = s\<lparr>ol_fb := (ol_fb s)[page := line_bits t]\<rparr>"
  using draw_str_cols [of 0 "replicate OLED_COLS 0" t]
  by (simp add: oled_line_def oled_str_def fb_ok_def line_bits_def)

lemma fb_ok_line [simp]: "fb_ok s \<Longrightarrow> fb_ok (oled_line page t s)"
proof (cases "page < OLED_PAGES")
  case True
  assume "fb_ok s"
  then show ?thesis using True
    by (simp add: oled_line_bits) (auto simp: fb_ok_def list_all_length nth_list_update)
qed (simp add: oled_line_def)

section \<open>The panel\<close>

definition page_bytes :: "nat \<Rightarrow> byte list \<Rightarrow> byte list list" where
  "page_bytes p row = [[0, 0xB0 + of_nat p], [0, 0x0C], [0, 0x11], 0x40 # row]"

lemma show_page_wire:
  "show_page acks p s = s\<lparr>ol_wire := ol_wire s @ page_bytes p (ol_fb s ! p)\<rparr>"
  by (simp add: show_page_def oled_cmd_def oled_write_def page_bytes_def OLED_COL_OFFSET_def Let_def)

lemma oled_show_wire:
  "oled_show acks s = (if ol_ok s then s\<lparr>ol_wire := ol_wire s @ concat (map (\<lambda>p. page_bytes p (ol_fb s ! p)) [0..<OLED_PAGES])\<rparr> else s)"
proof -
  have "fold (show_page acks) ps s = s\<lparr>ol_wire := ol_wire s @ concat (map (\<lambda>p. page_bytes p (ol_fb s ! p)) ps)\<rparr>" for ps
    by (induction ps arbitrary: s) (simp_all add: show_page_wire)
  then show ?thesis by (simp add: oled_show_def)
qed

text \<open>A panel that acknowledges everything is ready and blank.\<close>

lemma oled_init_ready:
  assumes "\<And>k. acks k"
  shows "fst (oled_init True acks s) \<and> ol_ok (snd (oled_init True acks s)) \<and>
    ol_fb (snd (oled_init True acks s)) = replicate OLED_PAGES (replicate OLED_COLS 0)"
proof -
  have "ol_ok (fold (\<lambda>c s. case oled_cmd acks c s of (ok, s) \<Rightarrow> if ok then s else s\<lparr>ol_ok := False\<rparr>) cs s) = ol_ok s" for cs s
    using assms by (induction cs arbitrary: s) (simp_all add: oled_cmd_def oled_write_def)
  then show ?thesis by (simp add: oled_init_def oled_show_wire oled_clear_def Let_def)
qed

end
