(* ===== verification/Display.thy ===== *)
theory Display
  imports Oled Net_Util State_Cache Nb_State
begin

text \<open>
  The status pages of both nodes, \<^verbatim>\<open>node_a/main/display.c\<close> and \<^verbatim>\<open>node_b/main/display.c\<close>: one turn of \<^verbatim>\<open>disp_task\<close> as a function
  of the network state, the flags of the other tasks and the unit tables.
\<close>

section \<open>Definitions\<close>

text \<open>\<^verbatim>\<open>ip_last2\<close>: the dots seen, the rest behind the second one.\<close>

fun behind_dots :: "nat \<Rightarrow> string \<Rightarrow> nat \<times> string" where
  "behind_dots dots [] = (dots, [])"
| "behind_dots dots (c # cs) =
     (if c = CHR ''.'' then if dots + 1 = 2 then (2, cs) else behind_dots (dots + 1) cs else behind_dots dots cs)"

definition ip_last2 :: "nat \<Rightarrow> net \<Rightarrow> string" where
  "ip_last2 n w =
     (let ip = net_wifi_ip_str 24 w in
      case behind_dots 0 ip of (dots, p) \<Rightarrow> snprintf n (if dots \<ge> 2 then p else ip))"

definition bms_up_count :: "bms_state list \<Rightarrow> nat" where
  "bms_up_count ss = length (filter (\<lambda>i. brt_link (state_get_runtime i ss) = LINK_UP) [0..<length ss])"

definition page_a :: "net \<Rightarrow> bool \<Rightarrow> bool \<Rightarrow> bms_state list \<Rightarrow> string list" where
  "page_a w mqtt tun ss =
     (let wifi = net_wifi_up w;
          ip = ip_last2 16 w;
          l4 = snprintf 16 (''BMS '' @ dec_string (bms_up_count ss) @ ''/'' @ dec_string (length ss))
      in [''NODE A'', if wifi then ''WIFI UP'' else ''WIFI --'', if wifi then ip else ''-'',
          if mqtt then ''MQTT UP'' else ''MQTT --'', if tun then ''TUN UP'' else l4])"

definition page_b :: "net \<Rightarrow> bool \<Rightarrow> nbs \<Rightarrow> string list" where
  "page_b w tun s =
     (let wifi = net_wifi_up w;
          ip = ip_last2 16 w;
          l4 = snprintf 16 (''APP '' @ dec_string (nb_active_conn_count s))
      in [''NODE B'', if wifi then ''WIFI UP'' else ''WIFI --'', if wifi then ip else ''-'',
          if tun then ''TUN UP'' else ''TUN --'', l4])"

definition draw_page :: "string list \<Rightarrow> oled \<Rightarrow> oled" where
  "draw_page ts s = fold (\<lambda>p. oled_line p (ts ! p)) [0..<5] s"

definition disp_turn_a :: "(nat \<Rightarrow> bool) \<Rightarrow> net \<Rightarrow> bool \<Rightarrow> bool \<Rightarrow> bms_state list \<Rightarrow> oled \<Rightarrow> oled" where
  "disp_turn_a acks w mqtt tun ss s = oled_show acks (draw_page (page_a w mqtt tun ss) s)"

definition disp_turn_b :: "(nat \<Rightarrow> bool) \<Rightarrow> net \<Rightarrow> bool \<Rightarrow> nbs \<Rightarrow> oled \<Rightarrow> oled" where
  "disp_turn_b acks w tun ns s = oled_show acks (draw_page (page_b w tun ns) s)"

section \<open>Addresses\<close>

lemma behind_dots_word: "CHR ''.'' \<notin> set u \<Longrightarrow> behind_dots d (u @ r) = behind_dots d r"
  by (induction u) auto

lemma dec_no_dot: "CHR ''.'' \<notin> set (dec_string n)"
  using dec_string_digits [of n] by (auto simp: list_all_iff is_digit_def)

lemma length_dec_byte: "length (dec_string (unat (b :: byte))) \<le> 3"
  using unsigned_less [of b, where ?'a = nat] by (intro length_dec_string) simp_all

definition last2 :: "net \<Rightarrow> string" where
  "last2 w = dec_string (unat (ne_ip w ! 2)) @ ''.'' @ dec_string (unat (ne_ip w ! 3))"

lemma length_last2: "length (last2 w) \<le> 7"
  using length_dec_byte [of "ne_ip w ! 2"] length_dec_byte [of "ne_ip w ! 3"] by (simp add: last2_def)

lemma ip_last2_up: "net_wifi_up w \<Longrightarrow> ip_last2 16 w = last2 w"
proof -
  assume up: "net_wifi_up w"
  have "length (ip_text (ne_ip w)) \<le> 15"
    using length_dec_byte [of "ne_ip w ! 0"] length_dec_byte [of "ne_ip w ! 1"] length_dec_byte [of "ne_ip w ! 2"] length_dec_byte [of "ne_ip w ! 3"]
    by (simp add: ip_text_def)
  then have ip: "net_wifi_ip_str 24 w = ip_text (ne_ip w)" using up by (simp add: net_wifi_ip_str_def snprintf_def)
  have "behind_dots 0 (ip_text (ne_ip w)) = (2, last2 w)"
    by (simp add: ip_text_def last2_def behind_dots_word dec_no_dot)
  then show ?thesis using ip length_last2 [of w] by (simp add: ip_last2_def snprintf_def)
qed

lemma length_ip_last2: "net_wifi_up w \<Longrightarrow> length (ip_last2 16 w) \<le> 12"
  using ip_last2_up [of w] length_last2 [of w] by simp

lemma count_text: "n \<le> 255 \<Longrightarrow> length (dec_string n) \<le> 3"
  by (rule length_dec_string) simp_all

section \<open>Pages\<close>

definition page_shown :: "string list \<Rightarrow> oled \<Rightarrow> oled \<Rightarrow> bool" where
  "page_shown ts s s' \<longleftrightarrow> ol_fb s' = map line_bits ts \<and>
     ol_wire s' = ol_wire s @ concat (map (\<lambda>p. page_bytes p (line_bits (ts ! p))) [0..<OLED_PAGES])"

lemma draw_page_fb: "fb_ok s \<Longrightarrow> length ts = 5 \<Longrightarrow> draw_page ts s = s\<lparr>ol_fb := map line_bits ts\<rparr>"
proof -
  assume s: "fb_ok s" "length ts = 5"
  have inv: "fb_ok (fold (\<lambda>p. oled_line p (ts ! p)) [0..<n] s) \<and>
      fold (\<lambda>p. oled_line p (ts ! p)) [0..<n] s = s\<lparr>ol_fb := map (\<lambda>p. line_bits (ts ! p)) [0..<n] @ drop n (ol_fb s)\<rparr>" if "n \<le> 5" for n
    using that
  proof (induction n)
    case (Suc n)
    let ?s = "fold (\<lambda>p. oled_line p (ts ! p)) [0..<n] s"
    note IH = Suc.IH [OF Suc_leD [OF Suc.prems], THEN conjunct1] Suc.IH [OF Suc_leD [OF Suc.prems], THEN conjunct2]
    have n: "n < length (ol_fb s)" using s(1) Suc.prems by (simp add: fb_ok_def OLED_PAGES_def)
    have "oled_line n (ts ! n) ?s = ?s\<lparr>ol_fb := (ol_fb ?s)[n := line_bits (ts ! n)]\<rparr>"
      using Suc.prems IH(1) by (intro oled_line_bits) (simp_all add: OLED_PAGES_def)
    moreover have "(map (\<lambda>p. line_bits (ts ! p)) [0..<n] @ drop n (ol_fb s))[n := line_bits (ts ! n)] =
        map (\<lambda>p. line_bits (ts ! p)) [0..<Suc n] @ drop (Suc n) (ol_fb s)"
      using n by (simp add: list_update_append Cons_nth_drop_Suc [symmetric])
    ultimately have "fold (\<lambda>p. oled_line p (ts ! p)) [0..<Suc n] s =
        s\<lparr>ol_fb := map (\<lambda>p. line_bits (ts ! p)) [0..<Suc n] @ drop (Suc n) (ol_fb s)\<rparr>" using IH(2) by simp
    moreover have "fb_ok (oled_line n (ts ! n) ?s)" using IH(1) by (rule fb_ok_line)
    ultimately show ?case by simp
  qed (use s in simp)
  have "map (\<lambda>p. line_bits (ts ! p)) [0..<5] = map line_bits ts"
    using s(2) by (metis (no_types, lifting) map_map comp_def map_nth map_eq_conv)
  then show ?thesis using inv [of 5] s(1) by (simp add: draw_page_def fb_ok_def OLED_PAGES_def)
qed

lemma page_shown_turn:
  "fb_ok s \<Longrightarrow> ol_ok s \<Longrightarrow> length ts = 5 \<Longrightarrow> page_shown ts s (oled_show acks (draw_page ts s))"
  by (simp add: page_shown_def draw_page_fb oled_show_wire OLED_PAGES_def nth_map cong: map_cong) (simp add: upt_rec)

text \<open>
  The display tells the truth and cuts nothing. On a panel that answered, a turn of either node's task puts exactly the
  five texts of the moment into the frame buffer and sends exactly that buffer, page by page. Every text has at most the
  twelve characters a line holds; with an address the third line is its last two numbers.
\<close>

theorem display_shows_state:
  assumes "fb_ok s" "ol_ok s" "length ss \<le> 255" "nb_active_conn_count ns \<le> 255"
  shows "page_shown (page_a w mqtt tun ss) s (disp_turn_a acks w mqtt tun ss s) \<and>
    page_shown (page_b w tun ns) s (disp_turn_b acks w tun ns s) \<and>
    list_all (\<lambda>t. length t \<le> 12) (page_a w mqtt tun ss @ page_b w tun ns) \<and>
    (net_wifi_up w \<longrightarrow> page_a w mqtt tun ss ! 2 = last2 w \<and> page_b w tun ns ! 2 = last2 w)"
proof -
  have "length (page_a w mqtt tun ss) = 5" "length (page_b w tun ns) = 5" by (simp_all add: page_a_def page_b_def Let_def)
  then have "page_shown (page_a w mqtt tun ss) s (disp_turn_a acks w mqtt tun ss s)" "page_shown (page_b w tun ns) s (disp_turn_b acks w tun ns s)"
    using page_shown_turn [OF assms(1,2)] by (simp_all add: disp_turn_a_def disp_turn_b_def)
  moreover have "bms_up_count ss \<le> 255"
    using assms(3) length_filter_le [of "\<lambda>i. brt_link (state_get_runtime i ss) = LINK_UP" "[0..<length ss]"] by (simp add: bms_up_count_def)
  then have "list_all (\<lambda>t. length t \<le> 12) (page_a w mqtt tun ss @ page_b w tun ns)"
    using length_ip_last2 [of w] count_text [of "bms_up_count ss"] count_text [OF assms(3)] count_text [OF assms(4)]
    by (auto simp: page_a_def page_b_def snprintf_def Let_def)
  moreover have "net_wifi_up w \<longrightarrow> page_a w mqtt tun ss ! 2 = last2 w \<and> page_b w tun ns ! 2 = last2 w"
    using ip_last2_up [of w] by (simp add: page_a_def page_b_def Let_def numeral_2_eq_2)
  ultimately show ?thesis by blast
qed


definition sample_net :: net where
  "sample_net = on_evt 5000000 (Ev_got_ip [192, 168, 3, 241]) (net_wifi_start 1000 (Some ''jk-node-a'') net_init)"

theorem display_shows_state_witness:
  "page_shown [''NODE A'', ''WIFI UP'', ''3.241'', ''MQTT --'', ''BMS 0/2''] (oled_off\<lparr>ol_ok := True\<rparr>)
     (disp_turn_a (\<lambda>_. True) sample_net False False (state_cache_init 2) (oled_off\<lparr>ol_ok := True\<rparr>))"
proof -
  have fb: "fb_ok (oled_off\<lparr>ol_ok := True\<rparr>)" "ol_ok (oled_off\<lparr>ol_ok := True\<rparr>)" "length (state_cache_init 2) \<le> 255"
    by (simp_all add: fb_ok_def oled_off_def list_all_iff state_cache_init_def)
  let ?ns = "nb_state_init 2 False (\<lambda>_. None)"
  have ns: "nb_active_conn_count ?ns \<le> 255"
    by (simp add: nb_active_conn_count_def nb_state_init_def zero_identity_def)
  have up: "net_wifi_up sample_net" "last2 sample_net = ''3.241''"
    by (simp_all add: sample_net_def net_wifi_up_def NO_IP_def wifi_call_def last2_def dec_string.simps char_of_def bit_0 bit_Suc_0_iff)
  have "bms_up_count (state_cache_init 2) = 0"
    by (simp add: bms_up_count_def state_cache_init_def state_get_runtime_def zero_runtime_def)
  then have "page_a sample_net False False (state_cache_init 2) = [''NODE A'', ''WIFI UP'', ''3.241'', ''MQTT --'', ''BMS 0/2'']"
    using up ip_last2_up [OF up(1)]
    by (simp add: page_a_def snprintf_def state_cache_init_def dec_string.simps char_of_def bit_0 bit_Suc_0_iff Let_def)
  with display_shows_state [OF fb ns, where w = sample_net and mqtt = False and tun = False and acks = "\<lambda>_. True"] show ?thesis by simp
qed

end
