(* ===== verification/Tunnel_Cli.thy ===== *)
theory Tunnel_Cli
  imports Ble_Periph
begin

text \<open>
  The tunnel task of node B, \<^verbatim>\<open>node_b/main/tunnel_cli.c\<close>: dispatch of the messages from node A, the resync after a
  connect, the socket loop with its keep-alive, and the outer loop with the grace window. (The sending half is in
  the theory of \<^verbatim>\<open>ble_periph\<close>, which calls it.)

  One pass of the socket loop is a \<open>turn\<close>: the environment of the calls it makes, whether a \<^verbatim>\<open>send\<close> succeeds, and what
  the socket holds (\<open>None\<close>: nothing readable within the 100 ms; \<open>Some bs\<close>: the bytes that arrive before the socket
  closes or falls idle, so an incomplete frame is a failed \<^verbatim>\<open>read_n\<close>).
\<close>

section \<open>Messages from node A\<close>

fun link_of_byte :: "byte \<Rightarrow> tunnel_link_state" where
  "link_of_byte b = (if b = 0 then LINK_UNREACHABLE else if b = 1 then LINK_REACHABLE_IDLE else LINK_UP)"

text \<open>The name of a clone: at most 31 bytes up to a terminator, a leading \<^verbatim>\<open>BMS\<close> replaced by \<^verbatim>\<open>TUN\<close>.\<close>

definition clone_name :: "byte list \<Rightarrow> byte list" where
  "clone_name pl =
     (let name = takeWhile (\<lambda>b. b \<noteq> 0) (take 31 pl) in
      if take 3 name = [0x42, 0x4D, 0x53] then [0x54, 0x55, 0x4E] @ drop 3 name else name)"

definition refresh_warm :: "nenv \<Rightarrow> nat \<Rightarrow> byte list \<Rightarrow> nb \<Rightarrow> nb" where
  "refresh_warm e i fr s =
     (if length fr \<ge> 6 \<and> take 3 fr = [0x55, 0xAA, 0xEB]
      then on_state (nb_set_warm (ne_now e) (ne_nvs_ok e) i (fr ! 4) fr) s else s)"

definition on_frame :: "nenv \<Rightarrow> byte \<Rightarrow> byte \<Rightarrow> byte list \<Rightarrow> nb \<Rightarrow> nb" where
  "on_frame e type bid pl s =
     (let i = unat bid in
      if \<not> tunnel_to_b_valid type bid pl (nb_units s) NB_MAX_CHARS NB_CACHE_MAX then s
      else if type = TUN_TABLE then
        on_state (nb_set_blueprint \<lparr>bp_char_count = unat (pl ! 0), bp_chars = descs_of_bytes (unat (pl ! 0)) (drop 1 pl), bp_valid = False\<rparr>) s
      else if type = TUN_IDENT then
        on_adv e (\<lambda>ae. adv_mgr_set_name ae i (clone_name pl)) (on_state (nb_set_ident_name i (clone_name pl)) s)
      else if type = TUN_READ_CACHE then on_state (nb_set_cache i (unat (pl ! 0)) (drop 1 pl)) s
      else if type = TUN_NOTIFY then refresh_warm e i (drop 1 pl) (on_state (nb_set_cache i (unat (pl ! 0)) (drop 1 pl)) s)
      else if type = TUN_RAW then ble_periph_forward_notify e i (drop 1 pl) s
      else if type = TUN_WRITE_RESULT then ble_periph_on_write_result e i (pl ! 1) s
      else if type = TUN_LINK then
        on_adv e (\<lambda>ae. adv_mgr_on_link ae i (link_of_byte (pl ! 0))) (on_state (nb_set_link i (link_of_byte (pl ! 0))) s)
      else s)"

definition resync :: "nb \<Rightarrow> nb" where
  "resync s =
     fold (\<lambda>i s. tunnel_cli_send_client i (ni_connected (nb_get_identity i (nb_s s))) s) [0 ..< nb_units s]
       (snd (enqueue TUN_TABLE_REQ TUNNEL_BMS_ID_LINK [] s))"

section \<open>The socket loop\<close>

definition CFG_TUNNEL_PING_MS :: int where "CFG_TUNNEL_PING_MS = 5000"

definition CFG_TUNNEL_DEAD_MS :: int where "CFG_TUNNEL_DEAD_MS = 15000"

definition CFG_TUNNEL_GRACE_MS :: int where "CFG_TUNNEL_GRACE_MS = 8000"

record turn =
  tn_env :: nenv
  tn_send_ok :: "byte list \<Rightarrow> bool"
  tn_rx :: "byte list option"

record serving =
  sv_nb :: nb
  sv_last_ping :: time_us
  sv_last_rx :: time_us
  sv_wire :: "byte list list"

text \<open>The frames sent from the queue, whether all sends succeeded, and what is left in the queue.\<close>

fun drain :: "(byte list \<Rightarrow> bool) \<Rightarrow> byte list list \<Rightarrow> byte list list \<times> bool \<times> byte list list" where
  "drain ok [] = ([], True, [])"
| "drain ok (m # q) = (if \<not> ok m then ([], False, q) else (case drain ok q of (ms, b, r) \<Rightarrow> (m # ms, b, r)))"

definition serve_begin :: "nenv \<Rightarrow> nb \<Rightarrow> serving" where
  "serve_begin e s = \<lparr>sv_nb = resync (s\<lparr>nb_up := True\<rparr>), sv_last_ping = ne_now e, sv_last_rx = ne_now e, sv_wire = []\<rparr>"

definition serve_drop :: "serving \<Rightarrow> bool \<times> serving" where
  "serve_drop v = (True, v\<lparr>sv_nb := (sv_nb v)\<lparr>nb_up := False\<rparr>\<rparr>)"

definition serve_receive :: "turn \<Rightarrow> serving \<Rightarrow> bool \<times> serving" where
  "serve_receive t v =
     (case tn_rx t of
        None \<Rightarrow> (False, v)
      | Some bs \<Rightarrow>
          (case recv_frame bs of
             Got ty bid pl _ \<Rightarrow> (False, v\<lparr>sv_nb := on_frame (tn_env t) ty bid pl (sv_nb v), sv_last_rx := ne_now (tn_env t)\<rparr>)
           | _ \<Rightarrow> (True, v)))"

definition serve_keepalive :: "turn \<Rightarrow> serving \<Rightarrow> bool \<times> serving" where
  "serve_keepalive t v =
     (let now = ne_now (tn_env t); ping = frame TUN_PING TUNNEL_BMS_ID_LINK [];
          v1 = (if now - sv_last_ping v > CFG_TUNNEL_PING_MS * 1000 \<and> tn_send_ok t ping
                then v\<lparr>sv_wire := sv_wire v @ [ping], sv_last_ping := now\<rparr> else v) in
      (now - sv_last_ping v > CFG_TUNNEL_PING_MS * 1000 \<and> \<not> tn_send_ok t ping \<or>
       now - sv_last_rx v > CFG_TUNNEL_DEAD_MS * 1000, v1))"

definition serve_turn :: "turn \<Rightarrow> serving \<Rightarrow> bool \<times> serving" where
  "serve_turn t v =
     (case drain (tn_send_ok t) (case nb_q (sv_nb v) of Some q \<Rightarrow> q | None \<Rightarrow> []) of
        (ms, ok, q') \<Rightarrow>
          let v1 = v\<lparr>sv_nb := (sv_nb v)\<lparr>nb_q := map_option (\<lambda>_. q') (nb_q (sv_nb v))\<rparr>, sv_wire := sv_wire v @ ms\<rparr> in
          if \<not> ok then serve_drop v1
          else case serve_receive t v1 of
            (True, v2) \<Rightarrow> serve_drop v2
          | (False, v2) \<Rightarrow>
              (case serve_keepalive t (v2\<lparr>sv_nb := ble_periph_replay_tick (tn_env t) (sv_nb v2)\<rparr>) of
                 (True, v3) \<Rightarrow> serve_drop v3
               | (False, v3) \<Rightarrow> (False, v3)))"

fun serve_loop :: "turn list \<Rightarrow> serving \<Rightarrow> serving" where
  "serve_loop [] v = v"
| "serve_loop (t # ts) v = (case serve_turn t v of (True, v1) \<Rightarrow> v1 | (False, v1) \<Rightarrow> serve_loop ts v1)"

section \<open>The outer loop\<close>

record tunnel_task =
  tt_nb :: nb
  tt_hold_deadline :: time_us
  tt_torn_down :: bool

text \<open>A pass whose \<^verbatim>\<open>connect_a\<close> fails.\<close>

definition tunnel_down :: "nenv \<Rightarrow> tunnel_task \<Rightarrow> tunnel_task" where
  "tunnel_down e t =
     (if \<not> tt_torn_down t \<and> tt_hold_deadline t \<noteq> 0 \<and> ne_now e > tt_hold_deadline t
      then t\<lparr>tt_nb := on_adv e adv_mgr_pause_all (ble_periph_drop_all e (tt_nb t)), tt_torn_down := True\<rparr>
      else t)"

text \<open>A pass whose \<^verbatim>\<open>connect_a\<close> succeeds: serve until the drop, then start the grace window.\<close>

definition tunnel_served :: "nenv \<Rightarrow> turn list \<Rightarrow> nenv \<Rightarrow> tunnel_task \<Rightarrow> tunnel_task" where
  "tunnel_served e0 ts e1 t =
     \<lparr>tt_nb = sv_nb (serve_loop ts (serve_begin e0 (tt_nb t))),
      tt_hold_deadline = ne_now e1 + CFG_TUNNEL_GRACE_MS * 1000, tt_torn_down = False\<rparr>"

definition tunnel_cli_start :: "nb \<Rightarrow> tunnel_task" where
  "tunnel_cli_start s = \<lparr>tt_nb = s\<lparr>nb_q := Some []\<rparr>, tt_hold_deadline = 0, tt_torn_down = False\<rparr>"

text \<open>\<^verbatim>\<open>app_main\<close>: the state after \<^verbatim>\<open>nb_state_init\<close> and \<^verbatim>\<open>adv_mgr_init\<close>, before the tunnel task starts.\<close>

definition node_b_boot :: "nat \<Rightarrow> bool \<Rightarrow> warm_flash \<Rightarrow> adv \<Rightarrow> nb" where
  "node_b_boot n open_ok fl av =
     \<lparr>nb_s = nb_state_init n open_ok fl, nb_av = av,
      nb_live = replicate n \<lparr>lv_epoch = 0, lv_aligned = False, lv_start = []\<rparr>, nb_ctr = 0x40, nb_up = False,
      nb_q = None, nb_calls = []\<rparr>"

end
