(* ===== verification/Node_B.thy ===== *)
theory Node_B
  imports Tunnel_Cli
begin

text \<open>
  Node B as a whole: its tasks as sequences of steps on the joint state, the invariant that ties the phone's
  session, the advertising sets and the queue to node A together, and the properties that rest on it.
\<close>

section \<open>Steps\<close>

datatype nb_ev =
    Host host_ev
  | Rx byte byte "byte list"
  | Tick
  | Sync
  | Down
  | Sent nat
  | Torn_down
  | Start

fun nb_step :: "nenv \<Rightarrow> nb_ev \<Rightarrow> nb \<Rightarrow> nb" where
  "nb_step e (Host ev) s = host_step e ev s"
| "nb_step e (Rx t i p) s = on_frame e t i p s"
| "nb_step e Tick s = ble_periph_replay_tick e s"
| "nb_step e Sync s = resync (s\<lparr>nb_up := True\<rparr>)"
| "nb_step e Down s = s\<lparr>nb_up := False\<rparr>"
| "nb_step e (Sent k) s = s\<lparr>nb_q := map_option (drop k) (nb_q s)\<rparr>"
| "nb_step e Torn_down s = on_adv e adv_mgr_pause_all (ble_periph_drop_all e s)"
| "nb_step e Start s = s\<lparr>nb_q := Some []\<rparr>"

text \<open>The states node B reaches from boot, in any order of steps and any environment.\<close>

inductive nb_reach :: "nat \<Rightarrow> nb \<Rightarrow> bool" for n where
  boot: "nb_reach n (node_b_boot n open_ok fl (fst (adv_mgr_init n adv_open adv_set blob rnd)))"
| step: "nb_reach n s \<Longrightarrow> nb_reach n (nb_step e ev s)"

lemma nb_reach_fold: "nb_reach n s \<Longrightarrow> nb_reach n (fold (nb_step e) evs s)"
  by (induction evs arbitrary: s) (auto intro: nb_reach.step)

text \<open>A pass of the socket loop is a sequence of these steps, and so is each pass of the outer loop.\<close>

lemma drain_drop: "drain ok q = (ms, b, q') \<Longrightarrow> \<exists>k. q' = drop k q"
proof (induction q arbitrary: ms b q')
  case (Cons m q)
  show ?case
  proof (cases "ok m")
    case True
    then obtain ms1 where "drain ok q = (ms1, b, q')" using Cons.prems by (auto split: prod.splits)
    from Cons.IH [OF this] obtain k where "q' = drop (Suc k) (m # q)" by auto
    then show ?thesis by blast
  next
    case False
    then have "q' = drop 1 (m # q)" using Cons.prems by simp
    then show ?thesis by blast
  qed
qed simp

lemma serve_keepalive_nb [simp]: "sv_nb (snd (serve_keepalive t v)) = sv_nb v"
  by (simp add: serve_keepalive_def Let_def)

lemma serve_turn_reach:
  assumes "nb_reach n (sv_nb v)"
  shows "nb_reach n (sv_nb (snd (serve_turn t v)))"
proof -
  let ?e = "tn_env t"
  obtain ms ok q' where d: "drain (tn_send_ok t) (case nb_q (sv_nb v) of Some q \<Rightarrow> q | None \<Rightarrow> []) = (ms, ok, q')" by (metis prod_cases3)
  define v1 where "v1 = v\<lparr>sv_nb := (sv_nb v)\<lparr>nb_q := map_option (\<lambda>_. q') (nb_q (sv_nb v))\<rparr>, sv_wire := sv_wire v @ ms\<rparr>"
  from drain_drop [OF d] obtain k where k: "q' = drop k (case nb_q (sv_nb v) of Some q \<Rightarrow> q | None \<Rightarrow> [])" by blast
  have "sv_nb v1 = nb_step ?e (Sent k) (sv_nb v)" by (simp add: v1_def k split: option.splits)
  with nb_reach.step [OF assms, of ?e "Sent k"] have r1: "nb_reach n (sv_nb v1)" by simp
  have drop: "nb_reach n (sv_nb (snd (serve_drop w)))" if "nb_reach n (sv_nb w)" for w
    using nb_reach.step [OF that, of ?e Down] by (simp add: serve_drop_def)
  have r2: "nb_reach n (sv_nb (snd (serve_receive t v1)))"
    using r1 nb_reach.step [OF r1, of ?e "Rx _ _ _"] by (auto simp: serve_receive_def split: option.splits recv_result.splits)
  define v2 where "v2 = snd (serve_receive t v1)"
  define v3 where "v3 = snd (serve_keepalive t (v2\<lparr>sv_nb := ble_periph_replay_tick ?e (sv_nb v2)\<rparr>))"
  have r3: "nb_reach n (sv_nb v3)"
    using nb_reach.step [OF r2, of ?e Tick] by (simp add: v3_def v2_def)
  show ?thesis
    using r1 r2 r3 drop
    by (simp add: serve_turn_def d v1_def [symmetric] Let_def case_prod_unfold v2_def [symmetric] v3_def [symmetric] split: bool.splits)
qed

lemma serve_loop_reach: "nb_reach n (sv_nb v) \<Longrightarrow> nb_reach n (sv_nb (serve_loop ts v))"
proof (induction ts arbitrary: v)
  case (Cons t ts)
  then show ?case using serve_turn_reach [OF Cons.prems, of t] by (auto simp: case_prod_unfold split: bool.splits)
qed simp

lemma tunnel_task_reach:
  assumes "nb_reach n (tt_nb t)"
  shows "nb_reach n (tt_nb (tunnel_served e0 ts e1 t))" "nb_reach n (tt_nb (tunnel_down e t))"
proof -
  have "nb_reach n (sv_nb (serve_begin e0 (tt_nb t)))"
    using nb_reach.step [OF assms, of e0 Sync] by (simp add: serve_begin_def)
  from serve_loop_reach [OF this] show "nb_reach n (tt_nb (tunnel_served e0 ts e1 t))" by (simp add: tunnel_served_def)
  show "nb_reach n (tt_nb (tunnel_down e t))"
    using assms nb_reach.step [OF assms, of e Torn_down] by (simp add: tunnel_down_def)
qed

section \<open>What an invariant has to withstand\<close>

text \<open>
  The part of the state the invariant speaks about. Everything the notification path does by itself leaves it alone;
  host events may change it between two chunks.
\<close>

abbreviation conns :: "nb \<Rightarrow> bool list" where
  "conns s \<equiv> map ni_connected (nb_ids (nb_s s))"

definition view :: "nb \<Rightarrow> bool list \<times> adv_set list \<times> byte list list option" where
  "view s = (conns s, av_sets (nb_av s), nb_q s)"

lemma map_upd_ident: "(\<And>it. ni_connected (f it) = ni_connected it) \<Longrightarrow> map ni_connected (upd_unit i f ids) = map ni_connected ids"
  by (rule nth_equalityI) (simp_all add: nth_upd_unit_field)

lemma claim_connected [simp]: "ni_connected (claim_replay t it) = ni_connected it"
  by (simp add: claim_replay_def replay_action_locked_def)

lemma nb_ops_conns:
  "map ni_connected (nb_ids (nb_set_blueprint bp s)) = map ni_connected (nb_ids s)"
  "map ni_connected (nb_ids (nb_set_ident_name i nm s)) = map ni_connected (nb_ids s)"
  "map ni_connected (nb_ids (nb_set_link i l s)) = map ni_connected (nb_ids s)"
  "map ni_connected (nb_ids (nb_set_cache i idx d s)) = map ni_connected (nb_ids s)"
  "map ni_connected (nb_ids (nb_set_warm t ok i rec f s)) = map ni_connected (nb_ids s)"
  "map ni_connected (nb_ids (nb_mark_replay t i b ep s)) = map ni_connected (nb_ids s)"
  "map ni_connected (nb_ids (nb_note_dev_forwarded t i ep s)) = map ni_connected (nb_ids s)"
  "map ni_connected (nb_ids (snd (nb_claim_replay t i s))) = map ni_connected (nb_ids s)"
  "map ni_connected (nb_ids (nb_set_notify i en s)) = map ni_connected (nb_ids s)"
  by (simp_all add: nb_op_defs map_upd_ident Let_def case_prod_unfold set_warm_other_def mark_replay_def set_notify_def)

lemma nb_set_conn_conns: "map ni_connected (nb_ids (nb_set_conn i c h s)) = upd_unit i (\<lambda>_. c) (map ni_connected (nb_ids s))"
  by (rule nth_equalityI) (auto simp: nb_set_conn_def nth_upd_unit set_conn_def Let_def)

lemma nb_do_simps [simp]: "nb_s (snd (nb_do e c s)) = nb_s s" "nb_av (snd (nb_do e c s)) = nb_av s" "nb_q (snd (nb_do e c s)) = nb_q s"
    "nb_calls (snd (nb_do e c s)) = nb_calls s @ [c]" "nb_live (snd (nb_do e c s)) = nb_live s" "nb_up (snd (nb_do e c s)) = nb_up s"
    "nb_ctr (snd (nb_do e c s)) = nb_ctr s" "fst (nb_do e c s) = ne_rc e (nb_calls s) c"
  by (simp_all add: nb_do_def)

lemma on_state_simps [simp]: "nb_s (on_state f s) = f (nb_s s)" "nb_av (on_state f s) = nb_av s" "nb_q (on_state f s) = nb_q s"
    "nb_calls (on_state f s) = nb_calls s" "nb_live (on_state f s) = nb_live s" "nb_up (on_state f s) = nb_up s" "nb_ctr (on_state f s) = nb_ctr s"
  by (simp_all add: on_state_def)

lemma on_adv_simps [simp]: "nb_s (on_adv e g s) = nb_s s" "nb_q (on_adv e g s) = nb_q s" "nb_calls (on_adv e g s) = nb_calls s"
    "nb_live (on_adv e g s) = nb_live s" "nb_up (on_adv e g s) = nb_up s" "nb_ctr (on_adv e g s) = nb_ctr s"
    "nb_av (on_adv e g s) = g ((ne_adv e)\<lparr>ae_up := nb_up s\<rparr>) (nb_av s)"
  by (simp_all add: on_adv_def)

lemma upd_live_simps [simp]: "nb_s (upd_live i f s) = nb_s s" "nb_av (upd_live i f s) = nb_av s" "nb_q (upd_live i f s) = nb_q s"
    "nb_calls (upd_live i f s) = nb_calls s" "nb_live (upd_live i f s) = upd_unit i f (nb_live s)"
    "nb_up (upd_live i f s) = nb_up s" "nb_ctr (upd_live i f s) = nb_ctr s"
  by (simp_all add: upd_live_def)

locale nb_kept =
  fixes I :: "nb \<Rightarrow> bool"
  assumes kept_view: "view s' = view s \<Longrightarrow> I s \<Longrightarrow> I s'"
    and kept_host: "I s \<Longrightarrow> I (host_step e ev s)"
    and kept_name: "I s \<Longrightarrow> I (on_adv e (\<lambda>ae. adv_mgr_set_name ae i nm) s)"
    and kept_link: "I s \<Longrightarrow> I (on_adv e (\<lambda>ae. adv_mgr_on_link ae i l) s)"
begin

lemma kept_disturb: "I s \<Longrightarrow> I (disturb e s)"
  unfolding disturb_def by (rule fold_inv [where I = I]) (auto intro: kept_host)

lemma kept_call: "I s \<Longrightarrow> I (snd (nb_do e c s))"
  by (rule kept_view [rotated]) (simp_all add: view_def)

lemma kept_notify_loop:
  assumes pos: "0 < chunk" and "I s"
  shows "I (snd (notify_loop e i it chunk data clean s))"
  using assms
proof (induction data clean s rule: chunk_induct)
  case (chunk data clean s)
  from \<open>I s\<close> have "I (disturb e s)" by (rule kept_disturb)
  moreover from this have "I (snd (nb_do e c (disturb e s)))" for c by (rule kept_call)
  ultimately show ?case using chunk by (simp add: notify_loop_step [OF _ pos refl])
qed simp

lemma kept_notify: "I s \<Longrightarrow> I (snd (notify_session e i data it s))"
proof -
  assume s: "I s"
  then have "I (on_state (nb_note_dev_forwarded (ne_now e) i (ns_epoch it)) s)"
    by (rule kept_view [rotated]) (simp add: view_def nb_ops_conns)
  with s show ?thesis by (auto simp: notify_session_def Let_def intro: kept_notify_loop)
qed

lemma kept_live: "I s \<Longrightarrow> I (upd_live i f s)"
  by (rule kept_view [rotated]) (simp_all add: view_def)

lemma kept_align: "I s \<Longrightarrow> I (snd (align_stream e i data session s))"
  by (auto simp: align_stream_def Let_def case_prod_unfold split: bool.splits intro!: kept_live kept_notify)

lemma kept_forward: "I s \<Longrightarrow> I (ble_periph_forward_notify e i data s)"
proof -
  assume s: "I s"
  then have "I (sync_live i ss s)" for ss by (simp add: sync_live_def kept_live)
  then show ?thesis using s
    by (auto simp: ble_periph_forward_notify_def Let_def case_prod_unfold split: option.splits intro!: kept_notify kept_align)
qed

lemma kept_replay_record: "I s \<Longrightarrow> I (replay_record e i session bits br s)"
proof -
  assume s: "I s"
  then have "I (s\<lparr>nb_ctr := nb_ctr s + 1\<rparr>)" by (rule kept_view [rotated]) (simp add: view_def)
  with s show ?thesis by (auto simp: replay_record_def Let_def intro!: kept_notify)
qed

lemma kept_replay_tick: "I s \<Longrightarrow> I (ble_periph_replay_tick e s)"
  unfolding ble_periph_replay_tick_def
proof (rule fold_inv [where I = I])
  fix j a assume a: "I a"
  have "I (a\<lparr>nb_s := snd (nb_claim_replay (ne_now e) j (nb_s a))\<rparr>)"
    using a by (rule kept_view [rotated]) (simp add: view_def nb_ops_conns)
  then show "I (replay_unit e j a)"
    by (auto simp: replay_unit_def case_prod_unfold Let_def intro!: fold_inv [where I = I] kept_replay_record)
qed

lemma kept_on_frame: "I s \<Longrightarrow> I (on_frame e ty bid pl s)"
proof -
  assume s: "I s"
  have st: "I (on_state f s)" if "map ni_connected (nb_ids (f (nb_s s))) = map ni_connected (nb_ids (nb_s s))" for f
    using s by (rule kept_view [rotated]) (simp add: view_def that)
  have "I (refresh_warm e i fr (on_state (nb_set_cache i idx d) s))" for i fr idx d
    using s by (rule kept_view [rotated]) (simp add: view_def refresh_warm_def nb_ops_conns)
  with s st show ?thesis
    by (auto simp: on_frame_def Let_def nb_ops_conns ble_periph_on_write_result_def intro!: kept_name kept_link kept_forward kept_call)
qed

end

section \<open>The invariant of node B\<close>

text \<open>What the reader and the validator of node A make of a queued message.\<close>

definition queued_ok :: "nat \<Rightarrow> byte list \<Rightarrow> bool" where
  "queued_ok n = accepted_by (\<lambda>t i p. tunnel_to_a_valid t i p n)"

definition count_true :: "bool list \<Rightarrow> nat" where
  "count_true bs = length (filter (\<lambda>b. b) bs)"

definition nb_inv :: "nat \<Rightarrow> nb \<Rightarrow> bool" where
  "nb_inv n s \<longleftrightarrow> length (conns s) = n \<and> n \<le> 255 \<and> conn_flags (nb_av s) = conns s \<and>
     list_all silent_ok (av_sets (nb_av s)) \<and> count_true (conns s) \<le> 1 \<and>
     (case nb_q s of Some q \<Rightarrow> length q \<le> TUN_OUT_DEPTH \<and> list_all (queued_ok n) q | None \<Rightarrow> True)"

lemma active_count: "nb_active_conn_count (nb_s s) = count_true (conns s)"
  by (simp add: nb_active_conn_count_def count_true_def filter_map comp_def)

lemma count_true_upd:
  "count_true (upd_unit i (\<lambda>_. c) bs) \<le> count_true bs + (if c then 1 else 0)"
proof (induction bs arbitrary: i)
  case (Cons b bs)
  show ?case
  proof (cases i)
    case (Suc j)
    then have "upd_unit i (\<lambda>_. c) (b # bs) = b # upd_unit j (\<lambda>_. c) bs" by (simp add: upd_unit_def)
    with Cons [of j] show ?thesis by (cases c) (simp_all add: count_true_def)
  qed (simp add: upd_unit_def count_true_def)
qed (simp add: count_true_def upd_unit_def)

lemma nb_inv_view: "view s' = view s \<Longrightarrow> nb_inv n s \<Longrightarrow> nb_inv n s'"
  by (simp add: nb_inv_def view_def)

lemma nb_invD:
  assumes "nb_inv n s"
  shows "nb_units s = n" "length (av_sets (nb_av s)) = n" "n \<le> 255" "conn_flags (nb_av s) = conns s"
    "list_all silent_ok (av_sets (nb_av s))" "count_true (conns s) \<le> 1"
proof -
  from assms have "length (conns s) = n" "conn_flags (nb_av s) = conns s" by (simp_all add: nb_inv_def)
  then show "nb_units s = n" "length (av_sets (nb_av s)) = n" by (metis length_map)+
qed (use assms in \<open>simp_all add: nb_inv_def\<close>)

lemma queued_frame: "tunnel_to_a_valid t i p n \<Longrightarrow> queued_ok n (frame t i p)"
  unfolding queued_ok_def by (rule to_a.accepted_frame)

lemma enqueue_inv: "nb_inv n s \<Longrightarrow> tunnel_to_a_valid t i p n \<Longrightarrow> nb_inv n (snd (enqueue t i p s))"
  by (auto simp: enqueue_def nb_inv_def queued_frame split: option.splits)

lemma enqueue_view [simp]: "nb_s (snd (enqueue t i p s)) = nb_s s" "nb_av (snd (enqueue t i p s)) = nb_av s"
    "nb_live (snd (enqueue t i p s)) = nb_live s" "nb_calls (snd (enqueue t i p s)) = nb_calls s"
  by (auto simp: enqueue_def split: option.splits)

lemma send_client_inv: "nb_inv n s \<Longrightarrow> i < n \<Longrightarrow> nb_inv n (tunnel_cli_send_client i c s)"
  unfolding tunnel_cli_send_client_def
  by (rule enqueue_inv) (auto simp: tunnel_to_a_valid_def tun_types tun_consts unit_byte nb_inv_def)

lemma send_write_inv:
  assumes "nb_inv n s"
  shows "nb_inv n (snd (tunnel_cli_send_write i idx wr d s))"
proof (cases "i \<ge> nb_units s \<or> idx > 1 \<or> d = [] \<or> length d > TUNNEL_MAX_WRITE_DATA")
  case False
  then have "unat (of_nat i :: byte) = i" "i < n" using nb_invD [OF assms] by (auto intro: unit_byte [of i n])
  then have "nb_inv n (snd (enqueue TUN_WRITE (of_nat i) ([idx, if wr then 1 else 0] @ d) s))"
    using False nb_invD [OF assms] assms
    by (intro enqueue_inv) (auto simp: tunnel_to_a_valid_def tun_types tun_consts not_less Suc_le_eq)
  with False show ?thesis by (simp add: tunnel_cli_send_write_def)
qed (use assms in \<open>simp add: tunnel_cli_send_write_def\<close>)

lemma inv_call: "nb_inv n s \<Longrightarrow> nb_inv n (snd (nb_do e c s))"
  by (rule nb_inv_view [rotated]) (simp_all add: view_def)

lemma drop_conn_inv:
  assumes "nb_inv n s" and "i < n"
  shows "nb_inv n (drop_conn e i s)"
proof -
  have "nb_inv n (on_adv e (\<lambda>ae. adv_mgr_on_disconnect ae i) (on_state (nb_set_conn i False 0) s))"
    using assms(1) count_true_upd [of i False "conns s"]
    by (auto simp: nb_inv_def nb_set_conn_conns adv_ops_flags adv_ops_silent split: option.splits)
  then show ?thesis unfolding drop_conn_def using assms(2) by (rule send_client_inv)
qed

lemma adopt_conn_inv:
  assumes "nb_inv n s" and "i < n"
  shows "nb_inv n (adopt_conn e i h s)"
proof -
  let ?s1 = "on_adv e (\<lambda>ae. adv_mgr_on_connect ae i) (on_state (nb_set_conn i True h) s)"
  have s1: "nb_inv n ?s1" if "count_true (conns s) = 0"
    using assms(1) count_true_upd [of i True "conns s"] that
    by (auto simp: nb_inv_def nb_set_conn_conns adv_ops_flags adv_ops_silent split: option.splits)
  then have "nb_inv n (case nb_get_name i 32 (nb_s ?s1) of Some nm \<Rightarrow> snd (nb_do e (Gap_name nm) ?s1) | None \<Rightarrow> ?s1)"
    if "count_true (conns s) = 0" using that by (auto intro: inv_call split: option.split)
  with assms show ?thesis
    by (auto simp: adopt_conn_def active_count CFG_MAX_APP_CONNS_def Let_def intro: send_client_inv inv_call)
qed

lemma identity_for_conn_less:
  assumes "identity_for_conn e h s = Some i" and "nb_inv n s"
  shows "i < n"
  using assms nb_invD(2) [OF assms(2)]
  by (auto simp: identity_for_conn_def adv_mgr_identity_for_addr_def find_index_Some_iff split: option.splits)

lemma nb_identity_less: "nb_identity_for_conn h (nb_s s) = Some i \<Longrightarrow> nb_inv n s \<Longrightarrow> i < n"
  using nb_invD(1) [of n s] by (auto simp: nb_identity_for_conn_def find_index_Some_iff)

lemma inv_adv:
  assumes "nb_inv n s" and "\<And>ae. list_all silent_ok (av_sets (f ae (nb_av s))) \<and> conn_flags (f ae (nb_av s)) = conn_flags (nb_av s)"
  shows "nb_inv n (on_adv e f s)"
  using assms by (auto simp: nb_inv_def split: option.splits)

lemma inv_state:
  assumes "nb_inv n s" and "map ni_connected (nb_ids (f (nb_s s))) = conns s"
  shows "nb_inv n (on_state f s)"
  using assms(1) by (rule nb_inv_view [rotated]) (simp add: view_def assms(2))

lemma gap_event_inv: "nb_inv n s \<Longrightarrow> nb_inv n (gap_event e ev s)"
proof (cases ev)
  case (Ev_connect st h)
  then show "nb_inv n s \<Longrightarrow> ?thesis"
    by (auto intro: adopt_conn_inv inv_call identity_for_conn_less split: option.splits)
next
  case (Ev_adv_complete i r h)
  assume s: "nb_inv n s"
  have "nb_inv n (on_adv e (\<lambda>ae. adv_mgr_on_adv_stopped ae i (r \<noteq> 0)) s)"
    using s nb_invD(5) [OF s] by (intro inv_adv) (auto simp: adv_ops_flags adv_ops_silent)
  with Ev_adv_complete show ?thesis using nb_invD(1) [OF s] by (auto simp: Let_def intro: adopt_conn_inv)
next
  case (Ev_disconnect h)
  then show "nb_inv n s \<Longrightarrow> ?thesis" by (auto intro: drop_conn_inv nb_identity_less split: option.splits)
next
  case (Ev_subscribe h en)
  then show "nb_inv n s \<Longrightarrow> ?thesis" by (auto intro: inv_state simp: nb_ops_conns split: option.splits)
qed

lemma opener_inv: "nb_inv n s \<Longrightarrow> nb_inv n (maybe_replay_opener e i d s)"
  by (auto simp: maybe_replay_opener_def Let_def nb_ops_conns intro: inv_state)

lemma app_write_inv: "nb_inv n s \<Longrightarrow> nb_inv n (snd (app_write e i idx wr d s))"
  using send_write_inv [of n s i idx wr d] by (auto simp: app_write_def case_prod_unfold opener_inv split: bool.splits)

lemma audit_inv:
  assumes "nb_inv n s"
  shows "nb_inv n (supervisor_audit e s)"
proof -
  have "nb_inv n (audit_conn e i a)" if "nb_inv n a" for i a
    using that nb_invD(1) [OF that]
    by (auto simp: audit_conn_def nb_conn_handle_def intro: drop_conn_inv split: option.splits if_splits)
  then have "nb_inv n (ble_periph_audit_conns e s)"
    unfolding ble_periph_audit_conns_def using assms by (intro fold_inv [where I = "nb_inv n"])
  then show ?thesis unfolding supervisor_audit_def
    by (rule inv_adv) (use adv_mgr_audit_keeps nb_invD(5) \<open>nb_inv n (ble_periph_audit_conns e s)\<close> in blast)
qed

lemma host_step_inv: "nb_inv n s \<Longrightarrow> nb_inv n (host_step e ev s)"
  by (cases ev) (auto simp: chr_access_def chr2_access_def intro: gap_event_inv app_write_inv audit_inv split: option.splits gatt_op.splits)

interpretation nbi: nb_kept "nb_inv n" for n
proof
  fix s s' :: nb and e ev i nm l
  show "view s' = view s \<Longrightarrow> nb_inv n s \<Longrightarrow> nb_inv n s'" by (rule nb_inv_view)
  show "nb_inv n s \<Longrightarrow> nb_inv n (host_step e ev s)" by (rule host_step_inv)
  show "nb_inv n s \<Longrightarrow> nb_inv n (on_adv e (\<lambda>ae. adv_mgr_set_name ae i nm) s)"
    by (rule inv_adv) (simp_all add: adv_ops_flags adv_ops_silent nb_invD(5))
  show "nb_inv n s \<Longrightarrow> nb_inv n (on_adv e (\<lambda>ae. adv_mgr_on_link ae i l) s)"
    by (rule inv_adv) (simp_all add: adv_ops_flags adv_ops_silent nb_invD(5))
qed

lemma resync_inv: "nb_inv n s \<Longrightarrow> nb_inv n (resync s)"
proof -
  assume s: "nb_inv n s"
  then have "nb_inv n (snd (enqueue TUN_TABLE_REQ TUNNEL_BMS_ID_LINK [] s))"
    by (rule enqueue_inv) (simp add: tunnel_to_a_valid_def tun_types tun_consts)
  then show ?thesis unfolding resync_def nb_invD(1) [OF s]
    by (rule fold_inv [where I = "nb_inv n", rotated]) (auto intro: send_client_inv)
qed

lemma torn_down_inv: "nb_inv n s \<Longrightarrow> nb_inv n (on_adv e adv_mgr_pause_all (ble_periph_drop_all e s))"
proof -
  assume s: "nb_inv n s"
  have "nb_inv n (ble_periph_drop_all e s)" unfolding ble_periph_drop_all_def
    by (rule fold_inv [where I = "nb_inv n"]) (auto simp: drop_one_def Let_def s intro: inv_call)
  then show ?thesis by (rule inv_adv) (use adv_mgr_pause_all_keeps nb_invD(5) \<open>nb_inv n (ble_periph_drop_all e s)\<close> in blast)
qed

lemma nb_step_inv: "nb_inv n s \<Longrightarrow> nb_inv n (nb_step e ev s)"
proof (cases ev)
  case Sync
  assume "nb_inv n s"
  then have "nb_inv n (s\<lparr>nb_up := True\<rparr>)" by (rule nb_inv_view [rotated]) (simp add: view_def)
  with Sync show ?thesis by (simp add: resync_inv)
next
  case Down
  assume "nb_inv n s"
  then have "nb_inv n (s\<lparr>nb_up := False\<rparr>)" by (rule nb_inv_view [rotated]) (simp add: view_def)
  with Down show ?thesis by simp
next
  case (Sent k)
  assume "nb_inv n s"
  with Sent show ?thesis by (auto simp: nb_inv_def list_all_iff dest: in_set_dropD split: option.splits)
next
  case Start
  assume "nb_inv n s"
  with Start show ?thesis by (simp add: nb_inv_def)
qed (auto intro: host_step_inv nbi.kept_on_frame nbi.kept_replay_tick torn_down_inv)

lemma nb_reach_inv: "nb_reach n s \<Longrightarrow> n \<le> 255 \<Longrightarrow> nb_inv n s"
proof (induction rule: nb_reach.induct)
  case (boot open_ok fl adv_open adv_set blob rnd)
  have "count_true (replicate n False) = 0" by (simp add: count_true_def)
  moreover have "map ni_connected (nb_ids (nb_state_init n open_ok fl)) = replicate n False"
    by (rule nth_equalityI) (simp_all add: nb_state_init_def zero_identity_def)
  moreover have "map as_connected (map (fresh_set addrs) [0 ..< n]) = replicate n False" for addrs
    by (rule nth_equalityI) (simp_all add: fresh_set_def)
  moreover have "list_all silent_ok (map (fresh_set addrs) [0 ..< n])" for addrs
    by (simp add: list_all_iff fresh_set_def silent_ok_def)
  ultimately show ?case using boot
    by (auto simp: nb_inv_def node_b_boot_def adv_mgr_init_def Let_def case_prod_unfold)
qed (rule nb_step_inv)
section \<open>Sessions and messages\<close>

text \<open>
  C35. One phone at a time, and everybody agrees. In every state node B reaches, at most one identity has a phone; the
  advertising manager and the shared state agree on which; and the set of that identity is not on the air.
\<close>

theorem one_phone_at_a_time:
  assumes "nb_reach n s" and "n \<le> 255"
  shows "nb_active_conn_count (nb_s s) \<le> 1 \<and>
    map as_connected (av_sets (nb_av s)) = map ni_connected (nb_ids (nb_s s)) \<and>
    list_all (\<lambda>v. as_connected v \<longrightarrow> \<not> as_advertising v) (av_sets (nb_av s))"
  using nb_invD [OF nb_reach_inv [OF assms]] by (simp add: active_count silent_ok_def cong: list.pred_cong)

text \<open>A node B with two units, and a host that resolves connection 5 to the first.\<close>

definition sample_nenv :: nenv where
  "sample_nenv = \<lparr>ne_now = 100, ne_adv = sample_aenv, ne_rc = (\<lambda>_ _. 0), ne_find = (\<lambda>_ _. Some ([0, 1, 2, 3, 4, 0xC5], [])),
     ne_mtu = (\<lambda>_. 131), ne_mbuf_ok = (\<lambda>_. True), ne_flat_ok = True, ne_append_ok = True, ne_nvs_ok = True, ne_intf = (\<lambda>_. [])\<rparr>"

definition sample_boot :: nb where
  "sample_boot = node_b_boot 2 True Map.empty (fst (adv_mgr_init 2 True True None [0, 1, 2, 3, 4, 5, 6, 7, 8, 9, 10, 11]))"

definition sample_connected :: nb where
  "sample_connected = nb_step sample_nenv (Host (Gap (Ev_connect 0 5))) (nb_step sample_nenv Start sample_boot)"

lemma sample_reach: "nb_reach 2 sample_connected"
  unfolding sample_connected_def sample_boot_def by (intro nb_reach.intros)

lemmas node_b_eval = node_b_boot_def nb_state_init_def zero_identity_def adv_mgr_init_def mint_addrs_def fresh_set_def Let_def
  identity_for_conn_def adv_mgr_identity_for_addr_def adopt_conn_def nb_identity_for_conn_def nb_active_conn_count_def
  on_adv_def on_state_def adv_mgr_on_connect_def apply_adv_def should_advertise_def nb_set_conn_def set_conn_def upd_ident_def
  upd_set_def upd_unit_def nb_get_name_def tunnel_cli_send_client_def enqueue_def CFG_MAX_APP_CONNS_def TUN_OUT_DEPTH_def
  TUNNEL_MAX_PAYLOAD_def sample_nenv_def sample_aenv_def

lemma sample_boot_eval:
  "map as_addr (av_sets (nb_av sample_boot)) = [[0, 1, 2, 3, 4, 0xC5], [6, 7, 8, 9, 10, 0xCB]]"
  by (simp add: sample_boot_def node_b_eval upt_rec)

lemma sample_connected_eval:
  "conns sample_connected = [True, False]" "nb_q sample_connected = Some [frame TUN_CLIENT 0 [1]]"
proof -
  let ?b = "nb_step sample_nenv Start sample_boot"
  have id: "identity_for_conn sample_nenv 5 ?b = Some 0"
    using sample_boot_eval by (simp add: identity_for_conn_def adv_mgr_identity_for_addr_def sample_nenv_def
        find_index_Some_iff sample_boot_def node_b_boot_def adv_mgr_init_def fresh_set_def mint_addrs_def Let_def upt_rec)
  have off: "nb_ids (nb_s ?b) = [zero_identity\<lparr>ni_warm_dev := [[], []]\<rparr>, zero_identity\<lparr>ni_warm_dev := [[], []]\<rparr>]"
    by (simp add: sample_boot_def node_b_boot_def nb_state_init_def restore_page_def numeral_2_eq_2)
  show "conns sample_connected = [True, False]" "nb_q sample_connected = Some [frame TUN_CLIENT 0 [1]]"
    using id off by (simp_all add: sample_connected_def adopt_conn_def nb_identity_for_conn_def nb_active_conn_count_def zero_identity_def
        CFG_MAX_APP_CONNS_def Let_def nb_get_name_def nb_set_conn_def set_conn_def upd_unit_def tunnel_cli_send_client_def
        enqueue_def TUN_OUT_DEPTH_def TUNNEL_MAX_PAYLOAD_def)
qed

theorem one_phone_at_a_time_witness:
  "nb_active_conn_count (nb_s sample_connected) \<le> 1 \<and> as_connected (aset (nb_av sample_connected) 0) \<and>
   \<not> as_advertising (aset (nb_av sample_connected) 0)"
proof -
  note f = one_phone_at_a_time [OF sample_reach]
  have m: "map as_connected (av_sets (nb_av sample_connected)) = [True, False]" using f sample_connected_eval(1) by simp
  then have l: "length (av_sets (nb_av sample_connected)) = 2" by (metis length_map list.size(3,4) Suc_1 One_nat_def add_Suc_right add_0_right)
  then have "as_connected (aset (nb_av sample_connected) 0)" using m by (metis nth_map nth_Cons_0 zero_less_numeral)
  moreover from this f l have "\<not> as_advertising (aset (nb_av sample_connected) 0)" by (auto simp: list_all_length)
  ultimately show ?thesis using f by simp
qed

text \<open>
  C36. Node A accepts every message. In every state node B reaches, the queue to node A holds at most eight
  messages, and each of them is exactly one frame that node A's reader extracts and its validator accepts, alone and
  in the stream they form on the wire.
\<close>

theorem queue_holds_valid_messages:
  assumes "nb_reach n s" and "n \<le> 255" and "nb_q s = Some q"
  shows "length q \<le> 8 \<and>
    list_all (\<lambda>m. case recv_frame m of Got t i p r \<Rightarrow> r = [] \<and> tunnel_to_a_valid t i p n | _ \<Rightarrow> False) q \<and>
    (case recv_frames (concat q) of (ms, r, dropped) \<Rightarrow>
       r = [] \<and> \<not> dropped \<and> length ms = length q \<and> list_all (\<lambda>(t, i, p). tunnel_to_a_valid t i p n) ms)"
proof -
  have q: "length q \<le> 8" "list_all (queued_ok n) q"
    using nb_reach_inv [OF assms(1,2)] assms(3) by (simp_all add: nb_inv_def TUN_OUT_DEPTH_def)
  with to_a.accepted_stream [of n q] show ?thesis by (auto simp: queued_ok_def accepted_by_def cong: list.pred_cong)
qed

theorem queue_holds_valid_messages_witness:
  "case recv_frame (frame TUN_CLIENT 0 [1]) of Got t i p r \<Rightarrow> r = [] \<and> tunnel_to_a_valid t i p 2 | _ \<Rightarrow> False"
  using queue_holds_valid_messages [OF sample_reach _ sample_connected_eval(2)] by simp

lemma enqueue_take:
  assumes "nb_q s = Some (take TUN_OUT_DEPTH xs)" and "length p \<le> TUNNEL_MAX_PAYLOAD"
  shows "nb_q (snd (enqueue t i p s)) = Some (take TUN_OUT_DEPTH (xs @ [frame t i p]))"
  using assms by (cases "length xs < TUN_OUT_DEPTH") (auto simp: enqueue_def not_less)

lemma clients_queue:
  assumes "nb_q s = Some (take TUN_OUT_DEPTH xs)"
  shows "nb_q (fold (\<lambda>i s. tunnel_cli_send_client i (ni_connected (nb_get_identity i (nb_s s))) s) is s) =
    Some (take TUN_OUT_DEPTH (xs @ map (\<lambda>i. frame TUN_CLIENT (of_nat i) [if ni_connected (nb_get_identity i (nb_s s)) then 1 else 0]) is))"
  using assms
proof (induction "is" arbitrary: s xs)
  case (Cons i "is")
  let ?c = "[if ni_connected (nb_get_identity i (nb_s s)) then 1 else 0 :: byte]"
  let ?s = "tunnel_cli_send_client i (ni_connected (nb_get_identity i (nb_s s))) s"
  have "nb_q ?s = Some (take TUN_OUT_DEPTH (xs @ [frame TUN_CLIENT (of_nat i) ?c]))"
    unfolding tunnel_cli_send_client_def by (rule enqueue_take [OF Cons.prems]) (simp add: TUNNEL_MAX_PAYLOAD_def)
  from Cons.IH [OF this] show ?case by (simp add: tunnel_cli_send_client_def)
qed simp

text \<open>
  What a resync really sends. The table request and one client report per unit are queued behind whatever the
  queue holds from the time the tunnel was down, and what exceeds its eight entries is lost: with \<open>8 - n\<close> or
  more stale messages waiting, not all reports reach node A, and with eight none does, nor the table request.
\<close>

theorem resync_behind_backlog:
  assumes "nb_reach n s" and "n \<le> 255" and "nb_q s = Some q"
  shows "nb_q (resync s) = Some (take 8 (q @ frame TUN_TABLE_REQ TUNNEL_BMS_ID_LINK [] #
    map (\<lambda>i. frame TUN_CLIENT (of_nat i) [if ni_connected (ident (nb_s s) i) then 1 else 0]) [0 ..< n]))"
proof -
  note inv = nb_reach_inv [OF assms(1,2)]
  have "nb_q s = Some (take TUN_OUT_DEPTH q)" using inv assms(3) by (simp add: nb_inv_def)
  then have "nb_q (snd (enqueue TUN_TABLE_REQ TUNNEL_BMS_ID_LINK [] s)) =
      Some (take TUN_OUT_DEPTH (q @ [frame TUN_TABLE_REQ TUNNEL_BMS_ID_LINK []]))" by (rule enqueue_take) simp
  from clients_queue [OF this, of "[0 ..< n]"] nb_invD(1) [OF inv]
  have "nb_q (resync s) = Some (take TUN_OUT_DEPTH ((q @ [frame TUN_TABLE_REQ TUNNEL_BMS_ID_LINK []]) @
      map (\<lambda>i. frame TUN_CLIENT (of_nat i) [if ni_connected (nb_get_identity i (nb_s s)) then 1 else 0]) [0 ..< n]))"
    by (simp add: resync_def)
  moreover have "map (\<lambda>i. frame TUN_CLIENT (of_nat i) [if ni_connected (nb_get_identity i (nb_s s)) then 1 else 0]) [0 ..< n] =
      map (\<lambda>i. frame TUN_CLIENT (of_nat i) [if ni_connected (ident (nb_s s) i) then 1 else 0]) [0 ..< n]"
    using nb_invD(1) [OF inv] by (intro map_cong) (simp_all add: nb_get_identity_def)
  ultimately show ?thesis by (simp add: TUN_OUT_DEPTH_def del: take_append)
qed

theorem resync_behind_backlog_witness:
  "nb_q (resync sample_connected) =
     Some [frame TUN_CLIENT 0 [1], frame TUN_TABLE_REQ TUNNEL_BMS_ID_LINK [], frame TUN_CLIENT 0 [1], frame TUN_CLIENT 1 [0]]"
proof -
  have "ni_connected (ident (nb_s sample_connected) 0)" "\<not> ni_connected (ident (nb_s sample_connected) 1)"
    using sample_connected_eval(1) by auto
  with resync_behind_backlog [OF sample_reach _ sample_connected_eval(2)] show ?thesis by (simp add: upt_rec)
qed

end
