(* ===== verification/Gatt_Table.thy ===== *)
theory Gatt_Table
  imports Node_B
begin

text \<open>
  The GATT table node B registers, \<^verbatim>\<open>s_svcs\<close> of \<^verbatim>\<open>node_b/main/ble_periph.c\<close>: services, characteristics, their flags and access
  callbacks, and what an access of a phone to an entry answers.
\<close>

section \<open>The table\<close>

definition F_READ :: u16 where "F_READ = 0x0002"
definition F_WRITE_NO_RSP :: u16 where "F_WRITE_NO_RSP = 0x0004"
definition F_WRITE :: u16 where "F_WRITE = 0x0008"
definition F_NOTIFY :: u16 where "F_NOTIFY = 0x0010"

datatype access_cb = Cb_chr | Cb_chr2 | Cb_dis | Cb_batt

record chr_def =
  xd_uuid :: u16
  xd_cb :: access_cb
  xd_flags :: u16

record svc_def =
  sd_uuid :: u16
  sd_chrs :: "chr_def list"

definition dis_chr :: "u16 \<Rightarrow> chr_def" where
  "dis_chr u = \<lparr>xd_uuid = u, xd_cb = Cb_dis, xd_flags = F_READ\<rparr>"

definition ble_periph_svcs :: "svc_def list" where
  "ble_periph_svcs =
     [\<lparr>sd_uuid = 0xFFE0, sd_chrs =
         [\<lparr>xd_uuid = 0xFFE2, xd_cb = Cb_chr2, xd_flags = F_WRITE_NO_RSP\<rparr>,
          \<lparr>xd_uuid = 0xFFE1, xd_cb = Cb_chr, xd_flags = F_READ OR F_WRITE OR F_WRITE_NO_RSP OR F_NOTIFY\<rparr>]\<rparr>,
      \<lparr>sd_uuid = 0x180A, sd_chrs = map dis_chr [0x2A29, 0x2A24, 0x2A25, 0x2A27, 0x2A26, 0x2A28, 0x2A23, 0x2A2A, 0x2A50]\<rparr>,
      \<lparr>sd_uuid = 0x180F, sd_chrs = [\<lparr>xd_uuid = 0x2A19, xd_cb = Cb_batt, xd_flags = F_READ OR F_NOTIFY\<rparr>]\<rparr>]"

definition table_chrs :: "chr_def list" where
  "table_chrs = concat (map sd_chrs ble_periph_svcs)"

text \<open>An access: the host calls the entry's callback.\<close>

definition gatt_access :: "nenv \<Rightarrow> u16 \<Rightarrow> chr_def \<Rightarrow> gatt_op \<Rightarrow> nb \<Rightarrow> att_result \<times> nb" where
  "gatt_access e conn c op s =
     (case xd_cb c of
        Cb_chr \<Rightarrow> chr_access e conn op s
      | Cb_chr2 \<Rightarrow> chr2_access e conn op s
      | Cb_dis \<Rightarrow> (dis_access e conn (xd_uuid c) op s, s)
      | Cb_batt \<Rightarrow> (batt_access e conn op s, s))"

definition has :: "chr_def \<Rightarrow> u16 \<Rightarrow> bool" where
  "has c f \<longleftrightarrow> xd_flags c AND f \<noteq> 0"

section \<open>What the table promises is served\<close>

lemma table_flags:
  "c \<in> set table_chrs \<Longrightarrow>
   (case xd_cb c of
      Cb_chr \<Rightarrow> has c F_READ \<and> has c F_WRITE \<and> has c F_WRITE_NO_RSP
    | Cb_chr2 \<Rightarrow> \<not> has c F_READ \<and> \<not> has c F_WRITE \<and> has c F_WRITE_NO_RSP
    | Cb_dis \<Rightarrow> has c F_READ \<and> \<not> has c F_WRITE \<and> \<not> has c F_WRITE_NO_RSP \<and> (\<forall>i. dis_value i (xd_uuid c) \<noteq> None)
    | Cb_batt \<Rightarrow> has c F_READ \<and> \<not> has c F_WRITE \<and> \<not> has c F_WRITE_NO_RSP)"
  by (auto simp: table_chrs_def ble_periph_svcs_def dis_chr_def has_def F_READ_def F_WRITE_def F_WRITE_NO_RSP_def F_NOTIFY_def dis_value_def)

lemma write_accepted:
  assumes "i < nb_units s" "nb_q s = Some q" "length q < TUN_OUT_DEPTH" "ne_flat_ok e" "idx \<le> 1" "d \<noteq> []" "length d \<le> TUNNEL_MAX_WRITE_DATA"
  shows "fst (app_write e i idx wr d s) = Att_ok []"
  using assms by (auto simp: app_write_def tunnel_cli_send_write_def enqueue_def TUNNEL_MAX_WRITE_DATA_def TUNNEL_MAX_PAYLOAD_def)

text \<open>
  Every entry of the table is served as its flags announce. For a phone attached to an identity: each readable entry
  answers a read with a value and changes nothing; each writable one takes every non-empty write of legal length while the
  queue to node A has room; a read or write that the flags do not announce is refused and changes nothing.
\<close>

theorem table_served:
  assumes "c \<in> set table_chrs" "identity_for_conn e conn s = Some i" "i < nb_units s"
    and "ne_append_ok e" "ne_flat_ok e" "nb_q s = Some q" "length q < TUN_OUT_DEPTH" "d \<noteq> []" "length d \<le> TUNNEL_MAX_WRITE_DATA"
  shows "(if has c F_READ then \<exists>v. gatt_access e conn c Read_chr s = (Att_ok v, s) else gatt_access e conn c Read_chr s = (Att_unlikely, s)) \<and>
    (if has c F_WRITE \<or> has c F_WRITE_NO_RSP then fst (gatt_access e conn c (Write_chr d) s) = Att_ok []
     else gatt_access e conn c (Write_chr d) s = (Att_unlikely, s)) \<and>
    gatt_access e conn c Other_op s = (Att_unlikely, s)"
proof -
  note w = write_accepted [OF assms(3,6,7,5) _ assms(8,9)]
  note f = table_flags [OF assms(1)]
  show ?thesis
  proof (cases "xd_cb c")
    case Cb_dis
    with f obtain v where "dis_value (Some i) (xd_uuid c) = Some v" by fastforce
    with f assms(2,4) Cb_dis show ?thesis by (simp add: gatt_access_def dis_access_def append_result_def)
  qed (use f w assms(2,4) in \<open>simp_all add: gatt_access_def chr_access_def chr2_access_def batt_access_def append_result_def\<close>)
qed

text \<open>Node B with its tunnel queue created, and a phone on connection 5, the first identity.\<close>

definition sample_started :: nb where
  "sample_started = nb_step sample_nenv Start sample_boot"

theorem table_served_witness:
  "(\<exists>v. gatt_access sample_nenv 5 (dis_chr 0x2A24) Read_chr sample_started = (Att_ok v, sample_started)) \<and>
   gatt_access sample_nenv 5 (dis_chr 0x2A24) (Write_chr [1]) sample_started = (Att_unlikely, sample_started)"
proof -
  have c: "dis_chr 0x2A24 \<in> set table_chrs" by (simp add: table_chrs_def ble_periph_svcs_def dis_chr_def)
  have f: "has (dis_chr 0x2A24) F_READ" "\<not> (has (dis_chr 0x2A24) F_WRITE \<or> has (dis_chr 0x2A24) F_WRITE_NO_RSP)"
    by (simp_all add: has_def dis_chr_def F_READ_def F_WRITE_def F_WRITE_NO_RSP_def)
  have i: "identity_for_conn sample_nenv 5 sample_started = Some 0"
    using sample_boot_eval by (simp add: sample_started_def identity_for_conn_def adv_mgr_identity_for_addr_def sample_nenv_def
        find_index_Some_iff sample_boot_def node_b_boot_def adv_mgr_init_def fresh_set_def mint_addrs_def Let_def upt_rec)
  have "nb_units sample_started = 2" "nb_q sample_started = Some []"
    by (simp_all add: sample_started_def sample_boot_def node_b_boot_def nb_state_init_def)
  with table_served [OF c i, of "[]" "[1]"] f show ?thesis
    by (simp add: sample_nenv_def TUN_OUT_DEPTH_def TUNNEL_MAX_WRITE_DATA_def)
qed

end
