(* ===== verification/Sock_Read.thy ===== *)
theory Sock_Read
  imports Tunnel_Wire
begin

text \<open>
  Reading a frame from the socket, the same code in \<^verbatim>\<open>node_a/main/tunnel_srv.c\<close> (\<^verbatim>\<open>serve_client\<close>) and \<^verbatim>\<open>node_b/main/tunnel_cli.c\<close>
  (\<^verbatim>\<open>serve\<close>): \<^verbatim>\<open>read_n\<close> collects what \<^verbatim>\<open>recv\<close> returns, first the header, then the payload. The connection is the list of the pieces in
  which TCP delivers the bytes until the peer closes; \<^verbatim>\<open>recv\<close> returns at most what it is asked for, from the first piece.
\<close>

section \<open>Definitions\<close>

fun sock_recv :: "nat \<Rightarrow> byte list list \<Rightarrow> byte list \<times> byte list list" where
  "sock_recv m [] = ([], [])"
| "sock_recv m (c # cs) = (take m c, if length c \<le> m then cs else drop m c # cs)"

function read_n :: "nat \<Rightarrow> byte list list \<Rightarrow> (byte list \<times> byte list list) option" where
  "read_n n cs =
     (if n = 0 then Some ([], cs)
      else case sock_recv n cs of (d, cs1) \<Rightarrow>
        if d = [] then None
        else case read_n (n - length d) cs1 of None \<Rightarrow> None | Some (r, cs2) \<Rightarrow> Some (d @ r, cs2))"
  by pat_completeness auto

termination by (relation "measure fst") auto

declare read_n.simps [simp del]

definition sock_frame :: "byte list list \<Rightarrow> (tun_msg \<times> byte list list) option" where
  "sock_frame cs =
     (case read_n TUNNEL_HDR_LEN cs of
        None \<Rightarrow> None
      | Some (h, cs1) \<Rightarrow>
          let plen = unat (le16 h 2) in
          if plen > TUNNEL_MAX_PAYLOAD then None
          else if plen = 0 then Some ((h ! 0, h ! 1, []), cs1)
          else case read_n plen cs1 of None \<Rightarrow> None | Some (p, cs2) \<Rightarrow> Some ((h ! 0, h ! 1, p), cs2))"

lemma sock_recv_cat: "fst (sock_recv m cs) @ concat (snd (sock_recv m cs)) = concat cs" "length (fst (sock_recv m cs)) \<le> m"
  by (cases cs; simp)+

lemma read_n_cat: "read_n n cs = Some (d, cs1) \<Longrightarrow> d @ concat cs1 = concat cs \<and> length d = n"
proof (induction n cs arbitrary: d cs1 rule: read_n.induct)
  case (1 n cs)
  obtain x cs2 where r: "sock_recv n cs = (x, cs2)" by (cases "sock_recv n cs")
  have c: "x @ concat cs2 = concat cs" "length x \<le> n" using sock_recv_cat [of n cs] by (simp_all add: r)
  show ?case
  proof (cases "n = 0")
    case True
    then show ?thesis using "1.prems" by (simp add: read_n.simps [of 0 cs])
  next
    case False
    then obtain d' where d: "x \<noteq> []" "read_n (n - length x) cs2 = Some (d', cs1)" "d = x @ d'"
      using "1.prems" by (simp add: read_n.simps [of n cs] r split: if_splits option.splits prod.splits)
    from "1.IH" [OF False r [symmetric] d(1,2)] c d(3) show ?thesis by (metis append.assoc length_append le_add_diff_inverse)
  qed
qed

lemma sock_frame_shorter: "sock_frame cs = Some (m, cs1) \<Longrightarrow> length (concat cs1) < length (concat cs)"
proof -
  assume f: "sock_frame cs = Some (m, cs1)"
  then obtain h cs2 where h: "read_n TUNNEL_HDR_LEN cs = Some (h, cs2)" by (auto simp: sock_frame_def split: option.splits)
  note H = read_n_cat [OF h]
  have "cs1 = cs2 \<or> (\<exists>n p. read_n n cs2 = Some (p, cs1))"
    using f h by (simp add: sock_frame_def Let_def split: if_splits option.splits prod.splits) blast
  then have "length (concat cs1) \<le> length (concat cs2)" using read_n_cat by (metis le_add2 length_append order_refl)
  moreover have "length (concat cs) = TUNNEL_HDR_LEN + length (concat cs2)" using H by (metis length_append)
  ultimately show ?thesis by (simp add: TUNNEL_HDR_LEN_def)
qed

text \<open>The messages the loop dispatches until a read fails.\<close>

function sock_frames :: "byte list list \<Rightarrow> tun_msg list" where
  "sock_frames cs = (case sock_frame cs of None \<Rightarrow> [] | Some (m, cs1) \<Rightarrow> m # sock_frames cs1)"
  by pat_completeness auto

termination by (relation "measure (\<lambda>cs. length (concat cs))") (auto dest: sock_frame_shorter)

declare sock_frames.simps [simp del]

section \<open>Pieces do not matter\<close>

lemma sock_recv_bytes:
  assumes "sock_recv m cs = (d, cs1)" "[] \<notin> set cs" "0 < m"
  shows "d @ concat cs1 = concat cs" "[] \<notin> set cs1" "length d \<le> m" "cs \<noteq> [] \<Longrightarrow> d \<noteq> []"
  using assms by (cases cs; auto split: if_splits)+

text \<open>A read succeeds exactly if enough bytes arrive, and takes exactly these, however they are cut.\<close>

lemma read_n_bytes:
  "[] \<notin> set cs \<Longrightarrow>
   (case read_n n cs of
      Some (d, cs1) \<Rightarrow> n \<le> length (concat cs) \<and> d = take n (concat cs) \<and> concat cs1 = drop n (concat cs) \<and> [] \<notin> set cs1
    | None \<Rightarrow> length (concat cs) < n)"
proof (induction n cs rule: read_n.induct)
  case (1 n cs)
  obtain d cs1 where r: "sock_recv n cs = (d, cs1)" by (cases "sock_recv n cs")
  show ?case
  proof (cases "n = 0 \<or> d = []")
    case True
    moreover have "cs = []" if "0 < n" "d = []" using that sock_recv_bytes(4) [OF r "1.prems"] by auto
    ultimately show ?thesis using "1.prems" r by (auto simp: read_n.simps [of n cs])
  next
    case False
    note b = sock_recv_bytes(1-3) [OF r "1.prems"]
    have len: "length d \<le> n" and cat: "concat cs = d @ concat cs1" and ne: "[] \<notin> set cs1" using b False by simp_all
    from "1.IH" [OF _ r [symmetric]] False ne
    have "case read_n (n - length d) cs1 of
        Some (r, cs2) \<Rightarrow> n - length d \<le> length (concat cs1) \<and> r = take (n - length d) (concat cs1) \<and>
          concat cs2 = drop (n - length d) (concat cs1) \<and> [] \<notin> set cs2
      | None \<Rightarrow> length (concat cs1) < n - length d" by simp
    then show ?thesis using False r len unfolding cat by (auto simp: read_n.simps [of n cs] split: option.splits)
  qed
qed

lemma read_n_some:
  "[] \<notin> set cs \<Longrightarrow> n \<le> length (concat cs) \<Longrightarrow>
   \<exists>cs1. read_n n cs = Some (take n (concat cs), cs1) \<and> concat cs1 = drop n (concat cs) \<and> [] \<notin> set cs1"
  using read_n_bytes [of cs n] by (auto split: option.splits)

lemma read_n_none: "[] \<notin> set cs \<Longrightarrow> length (concat cs) < n \<Longrightarrow> read_n n cs = None"
  using read_n_bytes [of cs n] by (auto split: option.splits)

lemma sock_frame_recv:
  assumes "[] \<notin> set cs"
  shows "case recv_frame (concat cs) of
      Got t i p s \<Rightarrow> \<exists>cs1. sock_frame cs = Some ((t, i, p), cs1) \<and> concat cs1 = s \<and> [] \<notin> set cs1
    | Wait \<Rightarrow> sock_frame cs = None
    | Drop \<Rightarrow> sock_frame cs = None"
proof (cases "length (concat cs) < TUNNEL_HDR_LEN")
  case True
  then show ?thesis using read_n_none [OF assms] by (simp add: recv_frame_def sock_frame_def)
next
  case False
  let ?b = "concat cs" and ?h = "take TUNNEL_HDR_LEN (concat cs)"
  obtain cs1 where h: "read_n TUNNEL_HDR_LEN cs = Some (?h, cs1)" "concat cs1 = drop TUNNEL_HDR_LEN ?b" "[] \<notin> set cs1"
    using read_n_some [OF assms, of TUNNEL_HDR_LEN] False by auto
  have f: "?h ! 0 = ?b ! 0" "?h ! 1 = ?b ! 1" "le16 ?h 2 = le16 ?b 2"
    using False by (simp_all add: TUNNEL_HDR_LEN_def) (rule le16_cong; simp add: drop_take)
  let ?n = "unat (le16 ?b 2)"
  consider "?n > TUNNEL_MAX_PAYLOAD" | "?n \<le> TUNNEL_MAX_PAYLOAD" "length (concat cs1) < ?n" | "?n \<le> TUNNEL_MAX_PAYLOAD" "?n \<le> length (concat cs1)"
    by linarith
  then show ?thesis
  proof cases
    case 2
    then show ?thesis using False h f read_n_none [OF h(3) 2(2)] by (auto simp: recv_frame_def sock_frame_def Let_def)
  next
    case 3
    obtain cs2 where p: "read_n ?n cs1 = Some (take ?n (concat cs1), cs2)" "concat cs2 = drop ?n (concat cs1)" "[] \<notin> set cs2"
      using read_n_some [OF h(3) 3(2)] by auto
    show ?thesis
    proof (cases "?n = 0")
      case True
      then show ?thesis using False h f by (simp add: recv_frame_def sock_frame_def Let_def)
    next
      case n: False
      then show ?thesis using False 3 h f p by (simp add: recv_frame_def sock_frame_def Let_def add.commute)
    qed
  qed (use False h f in \<open>simp add: recv_frame_def sock_frame_def Let_def\<close>)
qed

lemma sock_frames_recv: "[] \<notin> set cs \<Longrightarrow> sock_frames cs = fst (recv_frames (concat cs))"
proof (induction cs rule: sock_frames.induct)
  case (1 cs)
  note f = sock_frame_recv [OF "1.prems"]
  show ?case
  proof (cases "recv_frame (concat cs)")
    case (Got t i p s)
    with f obtain cs1 where c: "sock_frame cs = Some ((t, i, p), cs1)" "concat cs1 = s" "[] \<notin> set cs1" by auto
    from "1.IH" [OF c(1) refl c(3)] c Got show ?thesis
      by (simp add: sock_frames.simps [of cs] recv_frames.simps [of "concat cs"] split: prod.splits)
  qed (use f in \<open>simp_all add: sock_frames.simps [of cs] recv_frames.simps [of "concat cs"]\<close>)
qed

text \<open>
  C17. Both readers see messages, not pieces. However TCP cuts the bytes of a connection, the loop of either node dispatches
  exactly the messages of the abstract reader on the whole stream; so when the peer has framed some messages and closes, or is cut off
  inside the next header, these messages are dispatched, all of them, in order, and nothing else.
\<close>

theorem tunnel_reader_refines:
  assumes "[] \<notin> set cs"
  shows "sock_frames cs = fst (recv_frames (concat cs)) \<and>
    (\<forall>ms r. list_all msg_ok ms \<and> concat cs = encode ms @ r \<and> length r < TUNNEL_HDR_LEN \<longrightarrow> sock_frames cs = ms)"
  using sock_frames_recv [OF assms] by (auto simp: recv_frames_encode recv_frames_short)

theorem tunnel_reader_refines_witness:
  "sock_frames [[TUN_CLIENT, 2], [1], [0, 1, TUN_CLIENT, 0, 1, 0], [0, 7, 7]] = [(TUN_CLIENT, 2, [1]), (TUN_CLIENT, 0, [0])]"
proof -
  let ?cs = "[[TUN_CLIENT, 2], [1], [0, 1, TUN_CLIENT, 0, 1, 0], [0, 7, 7]] :: byte list list"
  have "list_all msg_ok [(TUN_CLIENT, 2, [1]), (TUN_CLIENT, 0, [0])]" by (simp add: msg_ok_def TUNNEL_MAX_PAYLOAD_def)
  moreover have "concat ?cs = encode [(TUN_CLIENT, 2, [1]), (TUN_CLIENT, 0, [0])] @ [7, 7]"
    by (simp add: encode_def frame_def Let_def)
  moreover have "[] \<notin> set ?cs" by simp
  note conjunct2 [OF tunnel_reader_refines [OF this], rule_format, of "[(TUN_CLIENT, 2, [1]), (TUN_CLIENT, 0, [0])]" "[7, 7]"]
  ultimately show ?thesis by (simp add: TUNNEL_HDR_LEN_def)
qed

end
