(* ===== verification/Link_Params.thy ===== *)
theory Link_Params
  imports Ble_Diag
begin

text \<open>
  The connection parameters node A asks for (\<^verbatim>\<open>s_conn_params\<close>, the renegotiation and the answer to a peer's update request in
  \<^verbatim>\<open>node_a/main/ble_owner.c\<close>), and the line that the observer \<^verbatim>\<open>scan_probe/main/app_main.c\<close> prints per advertisement.
\<close>

section \<open>Connection parameters\<close>

definition CFG_CONN_ITVL_MIN_MS :: nat where "CFG_CONN_ITVL_MIN_MS = 30"
definition CFG_CONN_ITVL_MAX_MS :: nat where "CFG_CONN_ITVL_MAX_MS = 40"
definition CFG_CONN_LATENCY :: nat where "CFG_CONN_LATENCY = 0"
definition CFG_CONN_SUPERVISION_MS :: nat where "CFG_CONN_SUPERVISION_MS = 8000"

text \<open>Intervals are in units of 1.25 ms, the supervision timeout in units of 10 ms.\<close>

record upd_params =
  cp_itvl_min :: nat
  cp_itvl_max :: nat
  cp_latency :: nat
  cp_supervision :: nat
  cp_min_ce :: nat
  cp_max_ce :: nat

definition conn_params :: upd_params where
  "conn_params = \<lparr>cp_itvl_min = CFG_CONN_ITVL_MIN_MS * 4 div 5, cp_itvl_max = CFG_CONN_ITVL_MAX_MS * 4 div 5, cp_latency = CFG_CONN_LATENCY,
     cp_supervision = CFG_CONN_SUPERVISION_MS div 10, cp_min_ce = 0, cp_max_ce = 0\<rparr>"

text \<open>The answer to a request of the peer: its connection event lengths are kept.\<close>

definition conn_update_req :: "upd_params option \<Rightarrow> upd_params option" where
  "conn_update_req self =
     map_option (\<lambda>p. p\<lparr>cp_itvl_min := CFG_CONN_ITVL_MIN_MS * 4 div 5, cp_itvl_max := CFG_CONN_ITVL_MAX_MS * 4 div 5,
       cp_latency := CFG_CONN_LATENCY, cp_supervision := CFG_CONN_SUPERVISION_MS div 10\<rparr>) self"

text \<open>What the Bluetooth specification demands of the values, the timeout against the effective interval included.\<close>

definition legal_params :: "upd_params \<Rightarrow> bool" where
  "legal_params p \<longleftrightarrow> 6 \<le> cp_itvl_min p \<and> cp_itvl_min p \<le> cp_itvl_max p \<and> cp_itvl_max p \<le> 3200 \<and> cp_latency p \<le> 499 \<and>
     10 \<le> cp_supervision p \<and> cp_supervision p \<le> 3200 \<and> (1 + cp_latency p) * cp_itvl_max p * 5 * 2 < cp_supervision p * 10 * 4"

lemma conn_params_legal: "legal_params conn_params" "conn_update_req (Some p) = Some q \<Longrightarrow> legal_params q"
  by (auto simp: legal_params_def conn_params_def conn_update_req_def CFG_CONN_ITVL_MIN_MS_def CFG_CONN_ITVL_MAX_MS_def
      CFG_CONN_LATENCY_def CFG_CONN_SUPERVISION_MS_def)

section \<open>The observer\<close>

text \<open>One line per named advertisement; \<open>None\<close> when the parser fails or there is no name.\<close>

definition scan_line :: "byte list \<Rightarrow> int \<Rightarrow> nat \<Rightarrow> string option \<Rightarrow> string option" where
  "scan_line addr rssi evt name =
     (case name of
        None \<Rightarrow> None
      | Some nm \<Rightarrow> if nm = '''' then None
          else Some (''ADV '' @ addr_text addr @ '' rssi='' @ int_string rssi @ '' evt='' @ dec_string evt @ '' name='' @
             [CHR 0x27] @ takeWhile (\<lambda>c. c \<noteq> CHR 0x00) nm @ [CHR 0x27]))"

end
