(* ===== verification/App_Probe.thy ===== *)
theory App_Probe
  imports Jk_Frame
begin

text \<open>
  The inspection tool \<^verbatim>\<open>app_probe/main/app_main.c\<close>: a phone application in miniature that runs one session at a time against an
  identity of node B. The console task is a state machine: each constructor of \<open>probe_phase\<close> is a place where
  the task sleeps, and a step runs it to the next one. The callbacks of the host task are events, and interleave with the
  steps in any order. What is printed is left out; the calls into NimBLE are logged.
\<close>

section \<open>State\<close>

datatype probe_phase =
    At_console
  | In_survey
  | Wait_connect u32
  | Wait_mtu u32
  | Wait_disc u32
  | Between_openers
  | Streaming
  | Before_follow_up
  | Closing nat
  | Close_wait nat u32

datatype probe_call =
    Set_mtu nat
  | Gap_disc nat
  | Gap_disc_cancel
  | Gap_connect "byte list"
  | Exchange_mtu u16
  | Disc_svc u16 u16
  | Disc_chrs u16 u16 u16
  | Att_write u16 u16 "byte list"
  | Gap_terminate u16

record probe =
  ap_phase :: probe_phase
  ap_target :: int
  ap_abort :: bool
  ap_write_first :: bool
  ap_conn :: u16
  ap_ffe1 :: u16
  ap_ffe2 :: u16
  ap_disc_done :: bool
  ap_found :: bool
  ap_connected :: bool
  ap_mtu_done :: bool
  ap_devinfo_seen :: bool
  ap_sent96 :: bool
  ap_rx_count :: nat
  ap_t0 :: int
  ap_calls :: "probe_call list"

definition probe_init :: probe where
  "probe_init = \<lparr>ap_phase = At_console, ap_target = -1, ap_abort = False, ap_write_first = False, ap_conn = 0xFFFF, ap_ffe1 = 0, ap_ffe2 = 0,
     ap_disc_done = False, ap_found = False, ap_connected = False, ap_mtu_done = False, ap_devinfo_seen = False, ap_sent96 = False,
     ap_rx_count = 0, ap_t0 = 0, ap_calls = []\<rparr>"

definition probe_call :: "probe_call \<Rightarrow> probe \<Rightarrow> probe" where
  "probe_call c s = s\<lparr>ap_calls := ap_calls s @ [c]\<rparr>"

definition goto :: "probe_phase \<Rightarrow> probe \<Rightarrow> probe" where
  "goto ph s = s\<lparr>ap_phase := ph\<rparr>"

definition ms_now :: "int \<Rightarrow> probe \<Rightarrow> u32" where
  "ms_now now s = word_of_int ((now - ap_t0 s) div 1000)"

section \<open>Callbacks of the host task\<close>

text \<open>The command frame: the sum of the first nineteen bytes closes it.\<close>

definition jk_cmd :: "byte \<Rightarrow> byte list" where
  "jk_cmd op = (let f = [0xAA, 0x55, 0x90, 0xEB, op] @ replicate 14 0 in f @ [sum8 f])"

datatype probe_ev =
    Ev_chr int "(u16 \<times> u16) option"
  | Ev_svc int u16 "(u16 \<times> u16) option"
  | Ev_mtu
  | Ev_adv "byte list" "string option"
  | Ev_connect int u16
  | Ev_disconnect
  | Ev_notify "byte list"

definition probe_on_chr :: "int \<Rightarrow> (u16 \<times> u16) option \<Rightarrow> probe \<Rightarrow> probe" where
  "probe_on_chr status chr s =
     (let s = (case chr of
                 Some (u, h) \<Rightarrow>
                   if status = 0
                   then (let s = (if u = 0xFFE1 then s\<lparr>ap_ffe1 := h\<rparr> else s) in if u = 0xFFE2 then s\<lparr>ap_ffe2 := h\<rparr> else s)
                   else s
               | None \<Rightarrow> s)
      in if status \<noteq> 0 then s\<lparr>ap_disc_done := True\<rparr> else s)"

definition probe_on_svc :: "int \<Rightarrow> u16 \<Rightarrow> (u16 \<times> u16) option \<Rightarrow> probe \<Rightarrow> probe" where
  "probe_on_svc status conn svc s =
     (case svc of
        Some (h1, h2) \<Rightarrow> if status = 0 then probe_call (Disc_chrs conn h1 h2) s
                         else if ap_ffe1 s = 0 \<and> ap_ffe2 s = 0 then s\<lparr>ap_disc_done := True\<rparr> else s
      | None \<Rightarrow> if status \<noteq> 0 \<and> ap_ffe1 s = 0 \<and> ap_ffe2 s = 0 then s\<lparr>ap_disc_done := True\<rparr> else s)"

text \<open>An advertisement with its name; the parser failing, or no name, is \<open>None\<close>.\<close>

definition probe_on_adv :: "byte list \<Rightarrow> string option \<Rightarrow> probe \<Rightarrow> probe" where
  "probe_on_adv addr name s =
     (if ap_target s = -1 then s
      else case name of
        None \<Rightarrow> s
      | Some nm \<Rightarrow>
          if length nm < 5 \<or> ap_target s = -2 \<or> ap_found s then s
          else if take 3 nm \<noteq> ''TUN'' \<or> int (of_char (nm ! 4)) \<noteq> 48 + ap_target s then s
          else probe_call (Gap_connect addr) (probe_call Gap_disc_cancel (s\<lparr>ap_found := True\<rparr>)))"

definition probe_on_notify :: "byte list \<Rightarrow> probe \<Rightarrow> probe" where
  "probe_on_notify d s =
     (let b = take 260 d; s = s\<lparr>ap_rx_count := ap_rx_count s + 1\<rparr> in
      if length b \<ge> 5 \<and> take 4 b = [0x55, 0xAA, 0xEB, 0x90] \<and> b ! 4 = 0x03 then s\<lparr>ap_devinfo_seen := True\<rparr> else s)"

fun probe_event :: "probe_ev \<Rightarrow> probe \<Rightarrow> probe" where
  "probe_event (Ev_chr st chr) s = probe_on_chr st chr s"
| "probe_event (Ev_svc st conn svc) s = probe_on_svc st conn svc s"
| "probe_event Ev_mtu s = s\<lparr>ap_mtu_done := True\<rparr>"
| "probe_event (Ev_adv addr name) s = probe_on_adv addr name s"
| "probe_event (Ev_connect status h) s =
     (if status = 0 then probe_call (Exchange_mtu h) (s\<lparr>ap_conn := h, ap_connected := True\<rparr>) else s)"
| "probe_event Ev_disconnect s = s\<lparr>ap_connected := False, ap_conn := 0xFFFF\<rparr>"
| "probe_event (Ev_notify d) s = probe_on_notify d s"

section \<open>The console task\<close>

text \<open>What a step reads: the clock, the key pressed, and the result of starting the scan.\<close>

record prenv =
  pr_now :: int
  pr_key :: "char option"
  pr_scan_rc :: int

definition poll_abort :: "prenv \<Rightarrow> probe \<Rightarrow> probe" where
  "poll_abort e s = (if pr_key e = Some (CHR ''q'') then s\<lparr>ap_abort := True\<rparr> else s)"

definition write_cccd :: "probe \<Rightarrow> probe" where
  "write_cccd s = probe_call (Att_write (ap_conn s) (ap_ffe1 s + 1) [0x01, 0x00]) s"

definition write_cmd :: "byte \<Rightarrow> probe \<Rightarrow> probe" where
  "write_cmd op s = probe_call (Att_write (ap_conn s) (ap_ffe1 s) (jk_cmd op)) s"

definition run_session :: "prenv \<Rightarrow> int \<Rightarrow> probe \<Rightarrow> probe" where
  "run_session e bank s =
     (let s = s\<lparr>ap_abort := False, ap_found := False, ap_connected := False, ap_mtu_done := False, ap_disc_done := False,
                ap_devinfo_seen := False, ap_sent96 := False, ap_ffe1 := 0, ap_ffe2 := 0, ap_rx_count := 0, ap_conn := 0xFFFF,
                ap_target := bank, ap_t0 := pr_now e\<rparr>;
          s = probe_call (Gap_disc 10000) (probe_call (Set_mtu 185) s)
      in if pr_scan_rc e \<noteq> 0 then goto At_console (s\<lparr>ap_target := -1\<rparr>) else goto (Wait_connect (ms_now (pr_now e) s)) s)"

definition console_step :: "prenv \<Rightarrow> probe \<Rightarrow> probe" where
  "console_step e s =
     (case pr_key e of
        None \<Rightarrow> s
      | Some c \<Rightarrow>
          if c = CHR ''o'' then s\<lparr>ap_write_first := \<not> ap_write_first s\<rparr>
          else if c = CHR ''s''
          then if ap_target s = -1 then goto In_survey (probe_call (Gap_disc 10000) (s\<lparr>ap_target := -2\<rparr>)) else s
          else if c = CHR ''q'' then s\<lparr>ap_abort := True\<rparr>
          else if 48 \<le> (of_char c :: nat) \<and> (of_char c :: nat) \<le> 51
          then if ap_target s < 0 then run_session e (int (of_char c) - 48) s else s
          else s)"

text \<open>Whether a wait with a flag, an abort key and a time limit goes on.\<close>

definition waiting :: "prenv \<Rightarrow> bool \<Rightarrow> u32 \<Rightarrow> u32 \<Rightarrow> probe \<Rightarrow> bool" where
  "waiting e flag start limit s \<longleftrightarrow> \<not> flag \<and> \<not> ap_abort s \<and> ms_now (pr_now e) s - start < limit"

definition loop_step :: "prenv \<Rightarrow> probe \<Rightarrow> probe" where
  "loop_step e s =
     (if \<not> ap_abort s \<and> ap_connected s \<and> ms_now (pr_now e) s < 25000
      then if ap_devinfo_seen s \<and> \<not> ap_sent96 s then goto Before_follow_up (s\<lparr>ap_sent96 := True\<rparr>) else goto Streaming (poll_abort e s)
      else goto (Closing 0) s)"

fun task_step :: "prenv \<Rightarrow> probe_phase \<Rightarrow> probe \<Rightarrow> probe" where
  "task_step e At_console s = console_step e s"
| "task_step e In_survey s = goto At_console (s\<lparr>ap_target := -1\<rparr>)"
| "task_step e (Wait_connect st) s =
     (if waiting e (ap_connected s) st 12000 s then poll_abort e s
      else if \<not> ap_connected s then goto (Closing 0) s
      else goto (Wait_mtu (ms_now (pr_now e) s)) s)"
| "task_step e (Wait_mtu st) s =
     (if waiting e (ap_mtu_done s) st 2000 s then poll_abort e s
      else goto (Wait_disc (ms_now (pr_now e) s)) (probe_call (Disc_svc (ap_conn s) 0xFFE0) s))"
| "task_step e (Wait_disc st) s =
     (if waiting e (ap_ffe1 s \<noteq> 0 \<and> ap_ffe2 s \<noteq> 0) st 4000 s then s
      else if ap_ffe1 s = 0 \<or> ap_ffe2 s = 0 then goto (Closing 0) s
      else goto Between_openers (if ap_write_first s then write_cmd 0x97 s else write_cccd s))"
| "task_step e Between_openers s = goto Streaming (if ap_write_first s then write_cccd s else write_cmd 0x97 s)"
| "task_step e Streaming s = loop_step e s"
| "task_step e Before_follow_up s = goto Streaming (poll_abort e (write_cmd 0x96 s))"
| "task_step e (Closing t) s =
     (if t < 2 \<and> ap_conn s \<noteq> 0xFFFF then goto (Close_wait t (ms_now (pr_now e) s)) (probe_call (Gap_terminate (ap_conn s)) s)
      else goto At_console ((probe_call Gap_disc_cancel s)\<lparr>ap_target := -1\<rparr>))"
| "task_step e (Close_wait t st) s =
     (if ap_connected s \<and> ms_now (pr_now e) s - st < 3000 then s else goto (Closing (t + 1)) s)"

inductive probe_reach :: "probe \<Rightarrow> bool" where
  init: "probe_reach probe_init"
| host: "probe_reach s \<Longrightarrow> probe_reach (probe_event ev s)"
| task: "probe_reach s \<Longrightarrow> probe_reach (task_step e (ap_phase s) s)"

section \<open>What a session sends\<close>

datatype sent_op = Subscribe | Command byte

text \<open>The operations of the latest session in order; every other value written would be \<open>None\<close>.\<close>

definition op_of :: "probe_call \<Rightarrow> sent_op option list" where
  "op_of c = (case c of Att_write _ _ d \<Rightarrow>
      [if d = [0x01, 0x00] then Some Subscribe else if d = jk_cmd (d ! 4) then Some (Command (d ! 4)) else None] | _ \<Rightarrow> [])"

definition session_calls :: "probe_call list \<Rightarrow> probe_call list" where
  "session_calls cs = rev (takeWhile (\<lambda>c. case c of Set_mtu _ \<Rightarrow> False | _ \<Rightarrow> True) (rev cs))"

definition session_ops :: "probe \<Rightarrow> sent_op option list" where
  "session_ops s = concat (map op_of (session_calls (ap_calls s)))"

definition opener :: "bool \<Rightarrow> sent_op option list" where
  "opener write_first = (if write_first then [Some (Command 0x97), Some Subscribe] else [Some Subscribe, Some (Command 0x97)])"

lemma jk_cmd_simps [simp]: "jk_cmd op ! 4 = op" "jk_cmd op \<noteq> [0x01, 0x00]" "length (jk_cmd op) = 20"
  by (simp_all add: jk_cmd_def Let_def)

lemma jk_cmd_checksum: "jk_cmd op ! 19 = sum8 (take 19 (jk_cmd op))"
  by (simp add: jk_cmd_def Let_def nth_append)

lemma session_ops_call:
  "session_ops (probe_call c s) = (case c of Set_mtu _ \<Rightarrow> [] | _ \<Rightarrow> session_ops s @ op_of c)"
  by (cases c) (simp_all add: session_ops_def probe_call_def session_calls_def op_of_def)

lemma session_ops_quiet [simp]:
  "session_ops (probe_call (Gap_disc n) s) = session_ops s" "session_ops (probe_call Gap_disc_cancel s) = session_ops s"
  "session_ops (probe_call (Gap_connect a) s) = session_ops s" "session_ops (probe_call (Exchange_mtu h) s) = session_ops s"
  "session_ops (probe_call (Disc_svc h u) s) = session_ops s" "session_ops (probe_call (Disc_chrs h a2 b2) s) = session_ops s"
  "session_ops (probe_call (Gap_terminate h) s) = session_ops s" "session_ops (probe_call (Set_mtu k) s) = []"
  "session_ops (write_cmd op s) = session_ops s @ [Some (Command op)]"
  "session_ops (write_cccd s) = session_ops s @ [Some Subscribe]"
  by (simp_all add: session_ops_call op_of_def write_cmd_def write_cccd_def)

lemma session_ops_calls: "ap_calls s' = ap_calls s \<Longrightarrow> session_ops s' = session_ops s"
  by (simp add: session_ops_def)

text \<open>The rest of the state under the calls.\<close>

lemma probe_frame [simp]:
  "ap_phase (probe_call c s) = ap_phase s" "ap_write_first (probe_call c s) = ap_write_first s" "ap_sent96 (probe_call c s) = ap_sent96 s"
  "ap_devinfo_seen (probe_call c s) = ap_devinfo_seen s" "ap_phase (goto ph s) = ph" "ap_write_first (goto ph s) = ap_write_first s"
  "ap_sent96 (goto ph s) = ap_sent96 s" "ap_devinfo_seen (goto ph s) = ap_devinfo_seen s" "session_ops (goto ph s) = session_ops s"
  "ap_phase (write_cmd op s) = ap_phase s" "ap_write_first (write_cmd op s) = ap_write_first s" "ap_sent96 (write_cmd op s) = ap_sent96 s"
  "ap_devinfo_seen (write_cmd op s) = ap_devinfo_seen s" "ap_phase (write_cccd s) = ap_phase s"
  "ap_write_first (write_cccd s) = ap_write_first s" "ap_sent96 (write_cccd s) = ap_sent96 s" "ap_devinfo_seen (write_cccd s) = ap_devinfo_seen s"
  "ap_phase (poll_abort e s) = ap_phase s" "ap_write_first (poll_abort e s) = ap_write_first s" "ap_sent96 (poll_abort e s) = ap_sent96 s"
  "ap_devinfo_seen (poll_abort e s) = ap_devinfo_seen s" "session_ops (poll_abort e s) = session_ops s"
  by (simp_all add: probe_call_def goto_def write_cmd_def write_cccd_def poll_abort_def session_ops_def)

definition whole_session :: "bool \<Rightarrow> sent_op option list" where
  "whole_session first = opener first @ [Some (Command 0x96)]"

definition within_session :: "probe \<Rightarrow> bool" where
  "within_session s \<longleftrightarrow> (\<exists>first. prefix (session_ops s) (whole_session first)) \<and>
     (Some (Command 0x96) \<in> set (session_ops s) \<longrightarrow> ap_sent96 s)"

definition probe_inv :: "probe \<Rightarrow> bool" where
  "probe_inv s \<longleftrightarrow> (ap_sent96 s \<longrightarrow> ap_devinfo_seen s) \<and>
     (case ap_phase s of
        At_console \<Rightarrow> within_session s
      | In_survey \<Rightarrow> within_session s
      | Wait_connect _ \<Rightarrow> session_ops s = [] \<and> \<not> ap_sent96 s
      | Wait_mtu _ \<Rightarrow> session_ops s = [] \<and> \<not> ap_sent96 s
      | Wait_disc _ \<Rightarrow> session_ops s = [] \<and> \<not> ap_sent96 s
      | Between_openers \<Rightarrow> session_ops s = take 1 (opener (ap_write_first s)) \<and> \<not> ap_sent96 s
      | Streaming \<Rightarrow> session_ops s = opener (ap_write_first s) @ (if ap_sent96 s then [Some (Command 0x96)] else [])
      | Before_follow_up \<Rightarrow> session_ops s = opener (ap_write_first s) \<and> ap_sent96 s
      | Closing _ \<Rightarrow> within_session s
      | Close_wait _ _ \<Rightarrow> within_session s)"

lemma no_follow_up_in_opener [simp]: "Some (Command 0x96) \<notin> set (opener f)"
  by (simp add: opener_def)

lemma inv_within: "probe_inv s \<Longrightarrow> within_session s"
  unfolding probe_inv_def
  by (cases "ap_phase s") (auto simp: within_session_def whole_session_def intro: exI [of _ "ap_write_first s"] take_is_prefix prefix_order.trans
      dest: in_set_takeD)

lemma within_cong:
  "session_ops s' = session_ops s \<Longrightarrow> ap_sent96 s' = ap_sent96 s \<Longrightarrow> within_session s' = within_session s"
  by (simp add: within_session_def)

text \<open>A step that writes nothing and only lets a device-info record arrive.\<close>

lemma inv_cong:
  "probe_inv s \<Longrightarrow> ap_phase s' = ap_phase s \<Longrightarrow> session_ops s' = session_ops s \<Longrightarrow> ap_sent96 s' = ap_sent96 s \<Longrightarrow>
   ap_write_first s' = ap_write_first s \<Longrightarrow> (ap_devinfo_seen s \<longrightarrow> ap_devinfo_seen s') \<Longrightarrow> probe_inv s'"
  using within_cong [of s' s] by (simp add: probe_inv_def split: probe_phase.splits)

lemma host_inv: "probe_inv s \<Longrightarrow> probe_inv (probe_event ev s)"
  by (cases ev; rule inv_cong [of s])
    (simp_all add: probe_on_chr_def probe_on_svc_def probe_on_adv_def probe_on_notify_def Let_def session_ops_def probe_call_def session_calls_def op_of_def
       split: option.splits)

lemma session_ops_fields [simp]:
  "session_ops (s\<lparr>ap_write_first := b\<rparr>) = session_ops s" "session_ops (s\<lparr>ap_target := k\<rparr>) = session_ops s"
  "session_ops (s\<lparr>ap_abort := b\<rparr>) = session_ops s" "session_ops (s\<lparr>ap_sent96 := b\<rparr>) = session_ops s"
  by (simp_all add: session_ops_def)

lemma run_session_inv: "probe_inv (run_session e bank s)"
  by (simp add: run_session_def probe_inv_def within_session_def Let_def)

lemma inv_rest:
  "within_session s \<Longrightarrow> (ap_sent96 s \<longrightarrow> ap_devinfo_seen s) \<Longrightarrow> ap_phase s \<in> {At_console, In_survey} \<union> range Closing \<Longrightarrow> probe_inv s"
  by (auto simp: probe_inv_def)

lemma console_inv: "probe_inv s \<Longrightarrow> ap_phase s = At_console \<Longrightarrow> probe_inv (console_step e s)"
proof -
  assume a: "probe_inv s" "ap_phase s = At_console"
  then have w: "within_session s" "ap_sent96 s \<longrightarrow> ap_devinfo_seen s" by (simp_all add: probe_inv_def)
  have "probe_inv s'" if "session_ops s' = session_ops s" "ap_sent96 s' = ap_sent96 s" "ap_devinfo_seen s' = ap_devinfo_seen s"
    "ap_phase s' \<in> {At_console, In_survey}" for s'
    using that w within_cong [of s' s] by (intro inv_rest) auto
  then show ?thesis using a run_session_inv by (simp add: console_step_def split: option.split)
qed

lemma task_inv: "probe_inv s \<Longrightarrow> probe_inv (task_step e (ap_phase s) s)"
proof -
  assume a: "probe_inv s"
  note w = inv_within [OF a]
  have d: "ap_sent96 s \<longrightarrow> ap_devinfo_seen s" using a by (simp add: probe_inv_def)
  have close: "probe_inv (goto (Closing t) s)" for t
    using w d within_cong [of "goto (Closing t) s" s] by (intro inv_rest) auto
  have poll: "probe_inv (poll_abort e s)" using a by (rule inv_cong) simp_all
  show ?thesis
  proof (cases "ap_phase s")
    case At_console
    with console_inv [OF a] show ?thesis by simp
  next
    case In_survey
    then show ?thesis using w d within_cong [of "s\<lparr>ap_target := -1\<rparr>" s] within_cong [of "goto At_console (s\<lparr>ap_target := -1\<rparr>)" s]
      by (auto intro!: inv_rest)
  next
    case (Closing t)
    then show ?thesis
      using w d by (auto simp: probe_inv_def within_session_def intro: session_ops_calls)
  next
    case (Close_wait t st)
    with a close show ?thesis by simp
  qed (use a d close poll in \<open>auto simp: probe_inv_def loop_step_def opener_def\<close>)
qed

lemma probe_reach_inv: "probe_reach s \<Longrightarrow> probe_inv s"
proof (induction rule: probe_reach.induct)
  case init
  show ?case by (simp add: probe_inv_def probe_init_def within_session_def session_ops_def session_calls_def)
qed (auto intro: host_inv task_inv)

text \<open>
  The probe only polls. Whatever the user types, whatever the host reports and in whichever order, a session writes
  nothing but the subscription, one device-info request and then at most one cell-info request, the latter only after a device-info
  record arrived; the first two in the order chosen. No clock command is ever sent.
\<close>

theorem probe_only_polls:
  assumes "probe_reach s"
  shows "(\<exists>first. prefix (session_ops s) (whole_session first)) \<and>
    (Some (Command 0x96) \<in> set (session_ops s) \<longrightarrow> ap_devinfo_seen s) \<and>
    (\<forall>op. Some (Command op) \<in> set (session_ops s) \<longrightarrow> op = 0x97 \<or> op = 0x96) \<and> None \<notin> set (session_ops s)"
proof -
  have i: "probe_inv s" using probe_reach_inv [OF assms] .
  then obtain first where p: "prefix (session_ops s) (whole_session first)" and c: "Some (Command 0x96) \<in> set (session_ops s) \<longrightarrow> ap_sent96 s"
    using inv_within [OF i] by (auto simp: within_session_def)
  have "set (session_ops s) \<subseteq> set (whole_session first)" using p by (rule set_mono_prefix)
  then have "set (session_ops s) \<subseteq> {Some Subscribe, Some (Command 0x97), Some (Command 0x96)}"
    by (auto simp: whole_session_def opener_def split: if_splits)
  then show ?thesis using p c i by (auto simp: probe_inv_def)
qed

text \<open>A session from the key to the follow-up.\<close>

fun probe_do :: "prenv + probe_ev \<Rightarrow> probe \<Rightarrow> probe" where
  "probe_do (Inl e) s = task_step e (ap_phase s) s"
| "probe_do (Inr ev) s = probe_event ev s"

lemma reach_do: "probe_reach s \<Longrightarrow> probe_reach (fold probe_do xs s)"
proof (induction xs arbitrary: s)
  case (Cons x xs)
  then have "probe_reach (probe_do x s)" by (cases x) (simp_all add: probe_reach.host probe_reach.task)
  with Cons.IH show ?case by simp
qed simp

definition sample_pr :: "char option \<Rightarrow> int \<Rightarrow> prenv" where
  "sample_pr k t = \<lparr>pr_now = t, pr_key = k, pr_scan_rc = 0\<rparr>"

definition sample_session :: "(prenv + probe_ev) list" where
  "sample_session = [Inl (sample_pr (Some (CHR ''1'')) 1000000), Inr (Ev_adv [] (Some ''TUN 1-01'')), Inr (Ev_connect 0 7), Inl (sample_pr None 1500000),
     Inr Ev_mtu, Inl (sample_pr None 1600000), Inr (Ev_chr 0 (Some (0xFFE2, 12))), Inr (Ev_chr 0 (Some (0xFFE1, 14))),
     Inl (sample_pr None 1700000), Inl (sample_pr None 1900000), Inr (Ev_notify [0x55, 0xAA, 0xEB, 0x90, 0x03]),
     Inl (sample_pr None 1950000), Inl (sample_pr None 2200000)]"

theorem probe_only_polls_witness:
  "session_ops (fold probe_do sample_session probe_init) = whole_session False \<and> ap_devinfo_seen (fold probe_do sample_session probe_init)"
proof -
  have ops: "session_ops (fold probe_do sample_session probe_init) = whole_session False"
    by code_simp
  moreover have "probe_reach (fold probe_do sample_session probe_init)" by (rule reach_do [OF probe_reach.init])
  ultimately show ?thesis using probe_only_polls by (fastforce simp: whole_session_def)
qed

text \<open>
  A session that gives up while its connect is still pending does not cancel it: when the identity answers afterwards, the probe stays
  connected at the console, and nothing ever closes the connection.
\<close>

definition late_connect :: "(prenv + probe_ev) list" where
  "late_connect = [Inl (sample_pr (Some (CHR ''1'')) 1000000), Inr (Ev_adv [] (Some ''TUN 1-01'')), Inl (sample_pr None 13100000),
     Inl (sample_pr None 13100000), Inr (Ev_connect 0 7)]"

lemma late_connect_leaks:
  "ap_phase (fold probe_do late_connect probe_init) = At_console \<and> ap_connected (fold probe_do late_connect probe_init) \<and>
   Gap_terminate 7 \<notin> set (ap_calls (fold probe_do late_connect probe_init))"
  by code_simp

end
