(* ===== verification/Ble_Owner.thy ===== *)
theory Ble_Owner
  imports Ble_Model "HOL-Library.Multiset"
begin

text \<open>
  The invariant of the link pool and the account of transactions: every request the task executes is
  answered exactly once, or is the one active transaction of its unit's link.
\<close>

section \<open>Frames\<close>

lemma links_upd_link [simp]: "bo_links (upd_link k f s) = upd_unit k f (bo_links s)"
  by (simp add: upd_link_def)

lemma upd_link_frame [simp]:
  "bo_issued (upd_link k f s) = bo_issued s" "bo_conn_inflight (upd_link k f s) = bo_conn_inflight s"
  "bo_calls (upd_link k f s) = bo_calls s" "bo_state (upd_link k f s) = bo_state s"
  "bo_decode_q (upd_link k f s) = bo_decode_q s" "bo_write_cookie (upd_link k f s) = bo_write_cookie s"
  by (simp_all add: upd_link_def)

lemma respond_frame [simp]:
  "bo_links (respond e i c st s) = bo_links s" "bo_conn_inflight (respond e i c st s) = bo_conn_inflight s"
  "bo_issued (respond e i c st s) = bo_issued s @ [\<lparr>rs_bms_id = i, rs_cmd_id = c, rs_status = st\<rparr>]"
  "bo_calls (respond e i c st s) = bo_calls s" "bo_state (respond e i c st s) = bo_state s"
  "bo_decode_q (respond e i c st s) = bo_decode_q s" "bo_write_cookie (respond e i c st s) = bo_write_cookie s"
  by (simp_all add: respond_def Let_def)

lemma ble_frame [simp]:
  "bo_links (snd (ble e c s)) = bo_links s" "bo_conn_inflight (snd (ble e c s)) = bo_conn_inflight s"
  "bo_issued (snd (ble e c s)) = bo_issued s" "bo_calls (snd (ble e c s)) = bo_calls s @ [c]"
  "bo_state (snd (ble e c s)) = bo_state s" "bo_decode_q (snd (ble e c s)) = bo_decode_q s"
  "bo_write_cookie (snd (ble e c s)) = bo_write_cookie s"
  by (simp_all add: ble_def)

lemma publish_frame [simp]:
  "bo_links (ble_publish p s) = bo_links s" "bo_conn_inflight (ble_publish p s) = bo_conn_inflight s"
  "bo_issued (ble_publish p s) = bo_issued s" "bo_calls (ble_publish p s) = bo_calls s"
  "bo_state (ble_publish p s) = bo_state s" "bo_decode_q (ble_publish p s) = bo_decode_q s"
  "bo_write_cookie (ble_publish p s) = bo_write_cookie s"
  by (simp_all add: ble_publish_def)

lemma own_set_link_state_frame [simp]:
  "bo_links (own_set_link_state e i st h s) = bo_links s" "bo_conn_inflight (own_set_link_state e i st h s) = bo_conn_inflight s"
  "bo_issued (own_set_link_state e i st h s) = bo_issued s" "bo_calls (own_set_link_state e i st h s) = bo_calls s"
  "bo_decode_q (own_set_link_state e i st h s) = bo_decode_q s" "bo_write_cookie (own_set_link_state e i st h s) = bo_write_cookie s"
  "bo_state (own_set_link_state e i st h s) = state_set_link_state i st h (if h then be_now e else 0) (bo_state s)"
  by (simp_all add: own_set_link_state_def Let_def)

lemma queues_frame [simp]:
  "bo_links (send_notify e it s) = bo_links s" "bo_conn_inflight (send_notify e it s) = bo_conn_inflight s"
  "bo_issued (send_notify e it s) = bo_issued s" "bo_calls (send_notify e it s) = bo_calls s"
  "bo_links (send_decode e it s) = bo_links s" "bo_conn_inflight (send_decode e it s) = bo_conn_inflight s"
  "bo_issued (send_decode e it s) = bo_issued s" "bo_calls (send_decode e it s) = bo_calls s"
  "bo_state (send_notify e it s) = bo_state s" "bo_state (send_decode e it s) = bo_state s"
  "bo_write_cookie (send_notify e it s) = bo_write_cookie s" "bo_write_cookie (send_decode e it s) = bo_write_cookie s"
  by (simp_all add: send_notify_def send_decode_def)

section \<open>The account of transactions\<close>

definition rkey :: "bms_response \<Rightarrow> nat \<times> u64" where
  "rkey r = (rs_bms_id r, rs_cmd_id r)"

definition qkey :: "bms_request \<Rightarrow> nat \<times> u64" where
  "qkey r = (rq_bms_id r, rq_cmd_id r)"

definition owed :: "link \<Rightarrow> (nat \<times> u64) multiset" where
  "owed l = (if l_txn_active l then {#(l_bms_id l, rq_cmd_id (l_txn l))#} else {#})"

definition ledger :: "bo \<Rightarrow> (nat \<times> u64) multiset" where
  "ledger s = mset (map rkey (bo_issued s)) + (\<Sum>l\<leftarrow>bo_links s. owed l)"

lemma ledger_upd_link:
  assumes "k < length (bo_links s)" "owed (f (lnk s k)) = owed (lnk s k)"
  shows "ledger (upd_link k f s) = ledger s"
  using sum_list_upd_unit [OF assms(1), of owed f] assms(2) by (simp add: ledger_def)

lemma ledger_answer:
  assumes "k < length (bo_links s)" "l_txn_active (lnk s k)"
  shows "ledger (answer e k st s) = ledger s"
  using sum_list_upd_unit [OF assms(1), of owed "\<lambda>l. l\<lparr>l_txn_active := False\<rparr>"] assms(2)
  by (simp add: ledger_def answer_def owed_def rkey_def)

lemma ledger_cong: "bo_issued s' = bo_issued s \<Longrightarrow> bo_links s' = bo_links s \<Longrightarrow> ledger s' = ledger s"
  by (simp add: ledger_def)

section \<open>The invariant of a link\<close>

text \<open>The handles discovery has collected lie in order inside the service.\<close>

definition gatt_ok :: "link \<Rightarrow> bool" where
  "gatt_ok l \<longleftrightarrow>
     (l_val_handle l \<noteq> 0 \<longrightarrow> l_val_handle l \<le> l_ffe1_end l \<and> l_ffe1_end l \<le> l_service_end l \<and> l_val_handle l \<le> l_last_chr_value l) \<and>
     (l_cccd_handle l \<noteq> 0 \<longrightarrow> l_val_handle l < l_cccd_handle l \<and> l_cccd_handle l \<le> l_ffe1_end l) \<and>
     (l_ffe2_cccd_handle l \<noteq> 0 \<longrightarrow> l_ffe2_handle l < l_ffe2_cccd_handle l \<and> l_ffe2_cccd_handle l \<le> l_ffe2_end l) \<and>
     (l_descriptor_phase l = DSC_NONE \<longrightarrow> l_cccd_handle l = 0 \<and> l_ffe2_cccd_handle l = 0) \<and>
     (l_descriptor_phase l \<noteq> DSC_NONE \<longrightarrow> l_val_handle l \<noteq> 0 \<and> l_service_seen l) \<and>
     (l_descriptor_phase l = DSC_FFE2 \<or> l_descriptor_phase l = DSC_DONE \<longrightarrow> l_cccd_handle l \<noteq> 0) \<and>
     (l_subscription_pending l \<longrightarrow> l_descriptor_phase l = DSC_DONE) \<and>
     (\<not> l_service_seen l \<longrightarrow> l_val_handle l = 0 \<and> l_service_end l = 0)"

definition fresh_link :: "link \<Rightarrow> bool" where
  "fresh_link l \<longleftrightarrow> \<not> l_discovery_pending l \<and> \<not> l_discovery_failed l \<and> \<not> l_table_ready l \<and> l_conn_handle l = 0 \<and>
     l_val_handle l = 0 \<and> l_service_end l = 0"

definition link_ok :: "bool \<Rightarrow> link \<Rightarrow> bool" where
  "link_ok infl l \<longleftrightarrow>
     (l_in_use l \<longrightarrow> infl \<or> l_discovery_pending l \<or> l_discovery_failed l \<or> l_table_ready l) \<and>
     (\<not> l_in_use l \<longrightarrow> \<not> l_txn_active l \<and> \<not> infl \<and> \<not> l_discovery_pending l) \<and>
     (infl \<longrightarrow> fresh_link l) \<and>
     (l_discovery_pending l \<longrightarrow> \<not> l_discovery_failed l \<and> \<not> l_table_ready l \<and> gatt_ok l) \<and>
     (l_in_use l \<and> l_discovery_failed l \<longrightarrow> \<not> l_txn_active l \<and> \<not> l_table_ready l) \<and>
     (l_in_use l \<and> l_table_ready l \<longrightarrow> gatt_ok l \<and> l_descriptor_phase l = DSC_DONE) \<and>
     (l_txn_active l \<longrightarrow> l_table_ready l = (rq_kind (l_txn l) \<noteq> TXN_CONNECT))"

definition bo_inv :: "bo \<Rightarrow> bool" where
  "bo_inv s \<longleftrightarrow> length (bo_links s) = CFG_LINK_POOL_SIZE \<and>
     (\<forall>k < CFG_LINK_POOL_SIZE. link_ok (bo_conn_inflight s = Some k) (lnk s k)) \<and>
     (\<forall>j < CFG_LINK_POOL_SIZE. \<forall>k < CFG_LINK_POOL_SIZE. l_in_use (lnk s j) \<and> l_in_use (lnk s k) \<and>
        l_bms_id (lnk s j) = l_bms_id (lnk s k) \<longrightarrow> j = k)"

text \<open>
  A section that works on link \<open>k\<close> alone: it keeps the link's invariant and the account, does not take the slot
  for another unit, and does not touch other links.
\<close>

definition keeps :: "nat \<Rightarrow> bo \<Rightarrow> bo \<Rightarrow> bool" where
  "keeps k s s' \<longleftrightarrow>
     (k < length (bo_links s) \<and> link_ok (bo_conn_inflight s = Some k) (lnk s k) \<longrightarrow>
        link_ok (bo_conn_inflight s' = Some k) (lnk s' k) \<and> ledger s' = ledger s \<and>
        length (bo_links s') = length (bo_links s) \<and> (\<forall>j. j \<noteq> k \<longrightarrow> lnk s' j = lnk s j) \<and>
        (\<forall>j. j \<noteq> k \<longrightarrow> (bo_conn_inflight s' = Some j) = (bo_conn_inflight s = Some j)) \<and>
        (l_in_use (lnk s' k) \<longrightarrow> l_in_use (lnk s k) \<and> l_bms_id (lnk s' k) = l_bms_id (lnk s k)))"

lemma keeps_refl: "keeps k s s"
  by (simp add: keeps_def)

lemma keeps_trans: "keeps k s t \<Longrightarrow> keeps k t u \<Longrightarrow> keeps k s u"
  by (auto simp: keeps_def)

lemma keeps_frame:
  "bo_links s' = bo_links s \<Longrightarrow> bo_conn_inflight s' = bo_conn_inflight s \<Longrightarrow> bo_issued s' = bo_issued s \<Longrightarrow> keeps k s s'"
  by (simp add: keeps_def ledger_def)

lemma keeps_upd_link:
  assumes "link_ok (bo_conn_inflight s = Some k) (lnk s k) \<Longrightarrow> link_ok (bo_conn_inflight s = Some k) (f (lnk s k))"
    and "owed (f (lnk s k)) = owed (lnk s k)" and "l_in_use (f (lnk s k)) \<Longrightarrow> l_in_use (lnk s k)"
    and "l_bms_id (f (lnk s k)) = l_bms_id (lnk s k)"
  shows "keeps k s (upd_link k f s)"
  using assms by (auto simp: keeps_def ledger_upd_link nth_upd_unit)

lemma bo_inv_step:
  assumes inv: "bo_inv s" and k: "k < CFG_LINK_POOL_SIZE" and len: "length (bo_links s') = CFG_LINK_POOL_SIZE"
    and here: "link_ok (bo_conn_inflight s' = Some k) (lnk s' k)" "l_in_use (lnk s' k) \<Longrightarrow> l_in_use (lnk s k) \<and> l_bms_id (lnk s' k) = l_bms_id (lnk s k)"
    and there: "\<And>j. j \<noteq> k \<Longrightarrow> lnk s' j = lnk s j" "\<And>j. j \<noteq> k \<Longrightarrow> (bo_conn_inflight s' = Some j) = (bo_conn_inflight s = Some j)"
  shows "bo_inv s'"
proof -
  from inv have ok: "\<And>j. j < CFG_LINK_POOL_SIZE \<Longrightarrow> link_ok (bo_conn_inflight s = Some j) (lnk s j)" and
    dis: "\<And>i j. i < CFG_LINK_POOL_SIZE \<Longrightarrow> j < CFG_LINK_POOL_SIZE \<Longrightarrow> l_in_use (lnk s i) \<Longrightarrow> l_in_use (lnk s j) \<Longrightarrow>
        l_bms_id (lnk s i) = l_bms_id (lnk s j) \<Longrightarrow> i = j" by (auto simp: bo_inv_def)
  have "link_ok (bo_conn_inflight s' = Some j) (lnk s' j)" if "j < CFG_LINK_POOL_SIZE" for j
    using here there ok [OF that] by (cases "j = k") simp_all
  moreover have "i = j" if "i < CFG_LINK_POOL_SIZE" "j < CFG_LINK_POOL_SIZE" "l_in_use (lnk s' i)" "l_in_use (lnk s' j)"
      "l_bms_id (lnk s' i) = l_bms_id (lnk s' j)" for i j
    using that here(2) there(1) dis [OF that(1,2)] by (cases "i = k"; cases "j = k") auto
  ultimately show ?thesis using len by (auto simp: bo_inv_def)
qed

lemma keeps_inv:
  assumes "bo_inv s" "k < CFG_LINK_POOL_SIZE" "keeps k s s'"
  shows "bo_inv s' \<and> ledger s' = ledger s"
proof -
  from assms(1,2) have len: "length (bo_links s) = CFG_LINK_POOL_SIZE" and
    ok: "link_ok (bo_conn_inflight s = Some k) (lnk s k)" by (auto simp: bo_inv_def)
  with assms(2,3) have K: "link_ok (bo_conn_inflight s' = Some k) (lnk s' k)" "ledger s' = ledger s"
    "length (bo_links s') = CFG_LINK_POOL_SIZE" "\<And>j. j \<noteq> k \<Longrightarrow> lnk s' j = lnk s j"
    "\<And>j. j \<noteq> k \<Longrightarrow> (bo_conn_inflight s' = Some j) = (bo_conn_inflight s = Some j)"
    "l_in_use (lnk s' k) \<Longrightarrow> l_in_use (lnk s k) \<and> l_bms_id (lnk s' k) = l_bms_id (lnk s k)"
    by (auto simp: keeps_def)
  from bo_inv_step [OF assms(1,2) K(3,1,6,4,5)] K(2) show ?thesis by simp
qed

section \<open>Discovery keeps the invariant\<close>

lemma keeps_ble [simp]: "keeps k s (snd (ble e c s))"
  by (rule keeps_frame) simp_all

lemma keeps_own_set_link_state [simp]: "keeps k s (own_set_link_state e i st h s)"
  by (rule keeps_frame) simp_all

lemma keeps_publish [simp]: "keeps k s (ble_publish p s)"
  by (rule keeps_frame) simp_all

lemma keeps_discovery_terminate: "keeps k s (discovery_terminate e k s)"
proof -
  have "keeps k s (upd_link k (\<lambda>l. l\<lparr>l_terminate_retry_us := be_now e + 1000000\<rparr>) s)"
    by (rule keeps_upd_link) (auto simp: link_ok_def gatt_ok_def fresh_link_def owed_def)
  from keeps_trans [OF this keeps_ble] show ?thesis by (simp add: discovery_terminate_def Let_def)
qed

text \<open>
  Marking a link failed and answering its connect belong together: between the two the invariant is open.
\<close>

lemma link_ok_failed:
  assumes "link_ok b l" "l_discovery_pending l"
  shows "link_ok b ((mark_failed l)\<lparr>l_txn_active := False\<rparr>)" "l_txn_active l \<Longrightarrow> rq_kind (l_txn l) = TXN_CONNECT" "\<not> b" "l_in_use l"
  using assms by (auto simp: link_ok_def mark_failed_def fresh_link_def)

lemma mark_failed_fields [simp]:
  "l_txn_active (mark_failed l) = l_txn_active l" "l_txn (mark_failed l) = l_txn l" "l_bms_id (mark_failed l) = l_bms_id l"
  "l_in_use (mark_failed l) = l_in_use l"
  by (simp_all add: mark_failed_def)

lemma keeps_discovery_fail: "keeps k s (discovery_fail e k st s)"
proof (cases "k < length (bo_links s) \<and> link_ok (bo_conn_inflight s = Some k) (lnk s k) \<and> l_discovery_pending (lnk s k)")
  case True
  then have k: "k < length (bo_links s)" and ok: "link_ok (bo_conn_inflight s = Some k) (lnk s k)" and pend: "l_discovery_pending (lnk s k)"
    by simp_all
  let ?u = "own_set_link_state e (l_bms_id (lnk s k)) LINK_REACHABLE_IDLE False (upd_link k mark_failed s)"
  let ?v = "if l_txn_active (lnk s k) then answer e k st ?u else ?u"
  have "discovery_fail e k st s = discovery_terminate e k ?v"
    using k pend link_ok_failed(2) [OF ok pend] by (auto simp: discovery_fail_def Let_def nth_upd_unit)
  moreover have "keeps k s ?v"
  proof -
    have "lnk ?v k = (mark_failed (lnk s k))\<lparr>l_txn_active := False\<rparr>"
      using k by (auto simp: answer_def nth_upd_unit)
    moreover have "ledger ?u = ledger s" using ledger_upd_link [OF k, of mark_failed] by (simp add: owed_def ledger_def)
    then have "ledger ?v = ledger s" using k ledger_answer [of k ?u] by (auto simp: nth_upd_unit)
    moreover have "bo_conn_inflight ?v = bo_conn_inflight s" "length (bo_links ?v) = length (bo_links s)"
      "\<forall>j. j \<noteq> k \<longrightarrow> lnk ?v j = lnk s j" by (auto simp: answer_def)
    ultimately show ?thesis using link_ok_failed [OF ok pend] by (simp add: keeps_def)
  qed
  ultimately show ?thesis using keeps_trans [OF _ keeps_discovery_terminate] by metis
next
  case False
  then show ?thesis by (auto simp: keeps_def discovery_fail_def)
qed

lemmas keeps_intros = keeps_refl keeps_trans [OF _ keeps_discovery_fail] keeps_trans [OF _ keeps_ble]
  keeps_trans [OF _ keeps_own_set_link_state] keeps_trans [OF _ keeps_publish]

lemma discovery_link_Some:
  assumes "discovery_link ch cookie s = Some k"
  shows "k < length (bo_links s)" "l_in_use (lnk s k)" "l_discovery_pending (lnk s k)" "l_conn_handle (lnk s k) = ch"
    "l_discovery_cookie (lnk s k) = cookie"
  using assms by (auto simp: discovery_link_def find_index_Some_iff split: if_splits)

lemmas link_ok_defs = link_ok_def gatt_ok_def fresh_link_def owed_def

lemma keeps_subscription_start:
  assumes "l_cccd_handle (lnk s k) \<noteq> 0" "l_descriptor_phase (lnk s k) \<noteq> DSC_NONE"
  shows "keeps k s (subscription_start e k s)"
proof -
  let ?u = "upd_link k (\<lambda>l. l\<lparr>l_descriptor_phase := DSC_DONE, l_subscription_pending := True\<rparr>) s"
  have "keeps k s ?u"
    by (rule keeps_upd_link) (use assms in \<open>auto simp: link_ok_defs\<close>)
  then show ?thesis
    unfolding subscription_start_def Let_def case_prod_unfold by (auto intro: keeps_intros)
qed

lemma keeps_phase_FFE2:
  assumes "l_cccd_handle (lnk s k) \<noteq> 0" "l_descriptor_phase (lnk s k) \<noteq> DSC_NONE"
    and "\<not> l_subscription_pending (lnk s k)" "\<not> l_table_ready (lnk s k)"
  shows "keeps k s (upd_link k (\<lambda>l. l\<lparr>l_descriptor_phase := DSC_FFE2\<rparr>) s)"
  by (rule keeps_upd_link) (use assms in \<open>auto simp: link_ok_defs\<close>)

lemma keeps_secondary:
  assumes "l_cccd_handle (lnk s k) \<noteq> 0" "l_descriptor_phase (lnk s k) = DSC_FFE1" "l_discovery_pending (lnk s k)"
  shows "keeps k s (secondary_descriptors_or_subscribe e k s)"
proof (cases "k < length (bo_links s) \<and> link_ok (bo_conn_inflight s = Some k) (lnk s k)")
  case True
  let ?u = "upd_link k (\<lambda>l. l\<lparr>l_descriptor_phase := DSC_FFE2\<rparr>) s"
  from True assms have "\<not> l_subscription_pending (lnk s k)" "\<not> l_table_ready (lnk s k)"
    by (auto simp: link_ok_def gatt_ok_def)
  with assms have u: "keeps k s ?u" by (intro keeps_phase_FFE2) auto
  have "keeps k s (subscription_start e k s)" using assms by (intro keeps_subscription_start) auto
  moreover have "keeps k s (subscription_start e k (snd (ble e c ?u)))" for c
    by (rule keeps_trans [OF keeps_trans [OF u keeps_ble] keeps_subscription_start]) (use True assms in \<open>simp_all add: nth_upd_unit\<close>)
  ultimately show ?thesis
    unfolding secondary_descriptors_or_subscribe_def Let_def case_prod_unfold using u by (auto intro: keeps_intros)
qed (auto simp: keeps_def)

lemma keeps_set_cccd:
  assumes "l_descriptor_phase (lnk s k) = (if prim then DSC_FFE1 else DSC_FFE2)"
    and "h \<noteq> 0 \<Longrightarrow> (if prim then l_val_handle (lnk s k) < h \<and> h \<le> l_ffe1_end (lnk s k)
                    else l_ffe2_handle (lnk s k) < h \<and> h \<le> l_ffe2_end (lnk s k))"
  shows "keeps k s (upd_link k (set_cccd prim h) s)"
  by (rule keeps_upd_link) (use assms in \<open>auto simp: link_ok_defs set_cccd_def split: if_splits\<close>)

lemma keeps_dsc_found:
  assumes "l_descriptor_phase (lnk s k) = (if prim then DSC_FFE1 else DSC_FFE2)" "l_discovery_pending (lnk s k)"
  shows "keeps k s (dsc_found e k prim status dsc s)"
proof (cases "k < length (bo_links s) \<and> link_ok (bo_conn_inflight s = Some k) (lnk s k)")
  case True
  define hit where "hit = (case dsc of None \<Rightarrow> None | Some d \<Rightarrow> if ds_uuid d = 0x2902 then Some (ds_handle d) else None)"
  define bad where "bad = (case hit of None \<Rightarrow> False | Some h \<Rightarrow>
      h \<le> (if prim then l_val_handle (lnk s k) else l_ffe2_handle (lnk s k)) \<or>
      h > (if prim then l_ffe1_end (lnk s k) else l_ffe2_end (lnk s k)) \<or>
      ((if prim then l_cccd_handle (lnk s k) else l_ffe2_cccd_handle (lnk s k)) \<noteq> 0 \<and>
       (if prim then l_cccd_handle (lnk s k) else l_ffe2_cccd_handle (lnk s k)) \<noteq> h))"
  define u where "u = (case hit of None \<Rightarrow> s | Some h \<Rightarrow> upd_link k (set_cccd prim h) s)"
  define c where "c = (case hit of None \<Rightarrow> (if prim then l_cccd_handle (lnk s k) else l_ffe2_cccd_handle (lnk s k)) | Some h \<Rightarrow> h)"
  have eq: "dsc_found e k prim status dsc s =
     (if bad then discovery_fail e k RESP_GATT_ERR s
      else if status = BLE_HS_EDONE then
        (if prim \<and> c = 0 then discovery_fail e k RESP_GATT_ERR u
         else if prim then secondary_descriptors_or_subscribe e k u else subscription_start e k u)
      else u)"
    unfolding dsc_found_def Let_def hit_def [symmetric] bad_def [symmetric] u_def [symmetric] c_def [symmetric] ..
  have ku: "keeps k s u" if "\<not> bad"
  proof (cases hit)
    case (Some h)
    with that have "if prim then l_val_handle (lnk s k) < h \<and> h \<le> l_ffe1_end (lnk s k)
        else l_ffe2_handle (lnk s k) < h \<and> h \<le> l_ffe2_end (lnk s k)"
      by (auto simp: bad_def not_le not_less split: if_splits)
    from keeps_set_cccd [OF assms(1) this] Some show ?thesis by (simp add: u_def)
  qed (simp add: u_def keeps_refl)
  have lu: "l_descriptor_phase (lnk u k) = l_descriptor_phase (lnk s k)" "l_discovery_pending (lnk u k) = l_discovery_pending (lnk s k)"
    using True by (auto simp: u_def set_cccd_def nth_upd_unit split: option.splits)
  have cu: "prim \<Longrightarrow> l_cccd_handle (lnk u k) = c" "\<not> prim \<Longrightarrow> l_cccd_handle (lnk u k) = l_cccd_handle (lnk s k)"
    using True by (auto simp: u_def c_def set_cccd_def nth_upd_unit split: option.splits)
  have "\<not> prim \<Longrightarrow> l_cccd_handle (lnk s k) \<noteq> 0" using True assms by (auto simp: link_ok_def gatt_ok_def)
  then have "keeps k u (subscription_start e k u)" if "\<not> prim"
    using that assms lu cu by (intro keeps_subscription_start) auto
  moreover have "keeps k u (secondary_descriptors_or_subscribe e k u)" if "prim" "c \<noteq> 0"
    using that assms lu cu by (intro keeps_secondary) auto
  ultimately show ?thesis using ku unfolding eq by (auto intro: keeps_intros keeps_trans)
qed (auto simp: keeps_def)

lemma keeps_on_dsc_disc: "discovery_link ch cookie s = Some k \<Longrightarrow> keeps k s (on_dsc_disc e ch err cv dsc cookie s)"
proof -
  assume d: "discovery_link ch cookie s = Some k"
  note dl = discovery_link_Some [OF d]
  have "keeps k s (subscription_start e k (upd_link k (set_cccd False 0) s))"
    if "l_descriptor_phase (lnk s k) = DSC_FFE2"
  proof (cases "link_ok (bo_conn_inflight s = Some k) (lnk s k)")
    case True
    then have "l_cccd_handle (lnk s k) \<noteq> 0" using that dl by (auto simp: link_ok_def gatt_ok_def)
    then show ?thesis using that dl
      by (intro keeps_trans [OF keeps_set_cccd keeps_subscription_start]) (auto simp: nth_upd_unit set_cccd_def)
  qed (auto simp: keeps_def)
  then show ?thesis using dl(3)
    by (auto simp: on_dsc_disc_def d Let_def split: option.split intro!: keeps_intros keeps_dsc_found)
qed

lemma word_pred_ge: "(a :: u16) < b \<Longrightarrow> a \<le> b - 1"
  by uint_arith

lemma word_pred_le: "(a :: u16) < b \<Longrightarrow> b < c \<Longrightarrow> c \<le> d \<Longrightarrow> b - 1 \<le> d \<and> c \<noteq> 0 \<and> d \<noteq> 0"
  by uint_arith

lemma note_chr_fields [simp]:
  "l_in_use (note_chr c l) = l_in_use l" "l_bms_id (note_chr c l) = l_bms_id l" "l_txn_active (note_chr c l) = l_txn_active l"
  "l_txn (note_chr c l) = l_txn l" "l_discovery_pending (note_chr c l) = l_discovery_pending l"
  "l_discovery_failed (note_chr c l) = l_discovery_failed l" "l_table_ready (note_chr c l) = l_table_ready l"
  "l_descriptor_phase (note_chr c l) = l_descriptor_phase l" "l_cccd_handle (note_chr c l) = l_cccd_handle l"
  "l_ffe2_cccd_handle (note_chr c l) = l_ffe2_cccd_handle l" "l_subscription_pending (note_chr c l) = l_subscription_pending l"
  "l_service_seen (note_chr c l) = l_service_seen l" "l_service_end (note_chr c l) = l_service_end l"
  "l_last_chr_value (note_chr c l) = ch_val c" "l_conn_handle (note_chr c l) = l_conn_handle l"
  by (simp_all add: note_chr_def Let_def)

lemma note_chr_val:
  "l_val_handle (note_chr c l) = (if ch_uuid c = JK_CHR_UUID then ch_val c else l_val_handle l)"
  "l_ffe1_end (note_chr c l) = (if ch_uuid c = JK_CHR_UUID then l_service_end l
     else if l_val_handle l \<noteq> 0 \<and> ch_def c > l_val_handle l \<and> ch_def c \<le> l_ffe1_end l then ch_def c - 1 else l_ffe1_end l)"
  by (simp_all add: note_chr_def Let_def JK_CHR_UUID_def JK_CHR2_UUID_def)

lemma note_chr_gatt_ok:
  assumes "gatt_ok l" "\<not> chr_bad c l" "l_descriptor_phase l = DSC_NONE"
  shows "gatt_ok (note_chr c l)"
proof -
  from assms(2) have c: "l_last_chr_value l < ch_def c" "ch_def c < ch_val c" "ch_val c \<le> l_service_end l"
    by (auto simp: chr_bad_def not_le not_less)
  from word_pred_le [OF this] have pos: "ch_def c - 1 \<le> l_service_end l" "ch_val c \<noteq> 0" "l_service_end l \<noteq> 0" by auto
  then show ?thesis using assms(1,3) c pos
    by (auto simp: gatt_ok_def note_chr_val intro: word_pred_ge order.trans less_imp_le)
qed

lemma keeps_phase_FFE1:
  assumes "l_val_handle (lnk s k) \<noteq> 0" "l_descriptor_phase (lnk s k) = DSC_NONE" "l_discovery_pending (lnk s k)"
  shows "keeps k s (upd_link k (\<lambda>l. l\<lparr>l_descriptor_phase := DSC_FFE1\<rparr>) s)"
  by (rule keeps_upd_link) (use assms in \<open>auto simp: link_ok_defs\<close>)

lemma keeps_on_chr_disc:
  assumes d: "discovery_link ch cookie s = Some k"
  shows "keeps k s (on_chr_disc e ch err chr cookie s)"
proof (cases "l_descriptor_phase (lnk s k) = DSC_NONE \<and> (case chr of None \<Rightarrow> True | Some c \<Rightarrow> \<not> chr_bad c (lnk s k))")
  case True
  note dl = discovery_link_Some [OF d]
  define u where "u = (case chr of None \<Rightarrow> s | Some c \<Rightarrow> upd_link k (note_chr c) s)"
  have ku: "keeps k s u"
  proof (cases chr)
    case (Some c)
    have "keeps k s (upd_link k (note_chr c) s)"
      by (rule keeps_upd_link)
         (use True dl Some in \<open>auto simp: link_ok_def fresh_link_def owed_def intro: note_chr_gatt_ok\<close>)
    with Some show ?thesis by (simp add: u_def)
  qed (simp add: u_def keeps_refl)
  have "l_descriptor_phase (lnk u k) = DSC_NONE" "l_discovery_pending (lnk u k)"
    using True dl by (auto simp: u_def nth_upd_unit split: option.splits)
  then have "keeps k s (upd_link k (\<lambda>l. l\<lparr>l_descriptor_phase := DSC_FFE1\<rparr>) u)" if "l_val_handle (lnk u k) \<noteq> 0"
    using that by (intro keeps_trans [OF ku keeps_phase_FFE1])
  with True ku show ?thesis
    by (auto simp: on_chr_disc_def d Let_def case_prod_unfold u_def [symmetric] split: option.split_asm intro!: keeps_intros)
next
  case False
  then show ?thesis
    by (auto simp: on_chr_disc_def d Let_def case_prod_unfold split: option.splits intro!: keeps_intros)
qed

lemma keeps_service:
  assumes "\<not> l_service_seen (lnk s k)" "l_discovery_pending (lnk s k)"
  shows "keeps k s (upd_link k (\<lambda>l. l\<lparr>l_service_seen := True, l_service_end := v\<rparr>) s)"
  by (rule keeps_upd_link) (use assms in \<open>auto simp: link_ok_defs\<close>)


lemma keeps_on_svc_disc:
  assumes d: "discovery_link ch cookie s = Some k"
  shows "keeps k s (on_svc_disc e ch err svc cookie s)"
proof -
  note dl = discovery_link_Some [OF d]
  have "keeps k s (upd_link k (\<lambda>l. l\<lparr>l_service_seen := True, l_service_end := v\<rparr>) s)" if "\<not> l_service_seen (lnk s k)" for v
    using that dl by (intro keeps_service) auto
  then show ?thesis
    by (auto simp: on_svc_disc_def d Let_def case_prod_unfold split: option.split intro!: keeps_intros)
qed

lemma link_ok_ready:
  assumes "link_ok b l" "l_discovery_pending l" "l_subscription_pending l"
  shows "link_ok b (l\<lparr>l_subscription_pending := False, l_discovery_pending := False, l_table := t, l_table_ready := True, l_txn_active := False\<rparr>)"
    "l_txn_active l \<Longrightarrow> rq_kind (l_txn l) = TXN_CONNECT"
  using assms by (auto simp: link_ok_def gatt_ok_def fresh_link_def)

lemma keeps_on_subscribe_done:
  assumes d: "discovery_link ch cookie s = Some k"
  shows "keeps k s (on_subscribe_done e ch err attr cookie s)"
proof (cases "l_subscription_pending (lnk s k) \<and> err = Some 0 \<and> attr = Some (l_cccd_handle (lnk s k)) \<and>
    link_ok (bo_conn_inflight s = Some k) (lnk s k)")
  case True
  note dl = discovery_link_Some [OF d]
  let ?f = "\<lambda>l. l\<lparr>l_subscription_pending := False, l_discovery_pending := False,
      l_table := (l_table l)\<lparr>h_valid := True\<rparr>, l_table_ready := True\<rparr>"
  let ?u = "own_set_link_state e (l_bms_id (lnk s k)) LINK_UP True (upd_link k ?f s)"
  let ?v = "if l_txn_active (lnk s k) then answer e k RESP_OK ?u else ?u"
  have ok: "link_ok (bo_conn_inflight s = Some k) (lnk s k)" using True by simp
  from True have sub: "l_subscription_pending (lnk s k)" by simp
  have "on_subscribe_done e ch err attr cookie s = ?v"
    using dl True link_ok_ready(2) [OF ok dl(3) sub]
    by (auto simp: on_subscribe_done_def d Let_def nth_upd_unit)
  moreover have "lnk ?v k = (?f (lnk s k))\<lparr>l_txn_active := False\<rparr>" using dl(1) by (auto simp: answer_def nth_upd_unit)
  moreover have "ledger ?u = ledger s" using ledger_upd_link [OF dl(1), of ?f] by (simp add: owed_def ledger_def)
  then have "ledger ?v = ledger s" using dl(1) ledger_answer [of k ?u] by (auto simp: nth_upd_unit)
  moreover have "bo_conn_inflight ?v = bo_conn_inflight s" "length (bo_links ?v) = length (bo_links s)"
    "\<forall>j. j \<noteq> k \<longrightarrow> lnk ?v j = lnk s j" by (auto simp: answer_def)
  ultimately show ?thesis using link_ok_ready(1) [OF ok dl(3) sub] dl(2) by (simp add: keeps_def)
next
  case False
  have "keeps k s (discovery_fail e k RESP_GATT_ERR s)" by (intro keeps_intros)
  then show ?thesis using False by (auto simp: on_subscribe_done_def d keeps_def)
qed

section \<open>Answers keep the invariant\<close>

lemma keeps_answer:
  assumes "l_txn_active (lnk s k)"
  shows "keeps k s (answer e k st s)"
proof -
  have "link_ok b (l\<lparr>l_txn_active := False\<rparr>)" if "link_ok b l" for b l using that by (auto simp: link_ok_defs)
  then show ?thesis using assms ledger_answer [of k s e st] by (auto simp: keeps_def answer_def nth_upd_unit)
qed

lemma keeps_complete_poll: "keeps k s (complete_poll_if_ready e k s)"
  by (simp add: complete_poll_if_ready_def Let_def keeps_refl keeps_answer)

text \<open>Updates of fields the invariant does not read.\<close>

definition quiet :: "(link \<Rightarrow> link) \<Rightarrow> bool" where
  "quiet f \<longleftrightarrow> (\<forall>l b. link_ok b (f l) = link_ok b l \<and> owed (f l) = owed l \<and> l_in_use (f l) = l_in_use l \<and> l_bms_id (f l) = l_bms_id l)"

lemma keeps_quiet: "quiet f \<Longrightarrow> keeps k s (upd_link k f s)"
  by (rule keeps_upd_link) (auto simp: quiet_def)

lemma quiet_fields:
  "quiet (\<lambda>l. l\<lparr>l_timeout_strikes := t l\<rparr>)" "quiet (\<lambda>l. l\<lparr>l_poll_record_seen := p\<rparr>)" "quiet (\<lambda>l. l\<lparr>l_reasm := r\<rparr>)"
  "quiet (\<lambda>l. l\<lparr>l_write_cookie := c\<rparr>)" "quiet (\<lambda>l. l\<lparr>l_renegotiate_at_us := u\<rparr>)"
  by (simp_all add: quiet_def link_ok_defs)

lemma keeps_on_complete_frame: "keeps k s (on_complete_frame e k fr s)"
proof -
  let ?u = "upd_link k (\<lambda>l. l\<lparr>l_timeout_strikes := 0\<rparr>) s"
  define it where "it = \<lparr>ni_bms_id = l_bms_id (lnk ?u k), ni_idx = 0, ni_raw = False, ni_data = fr\<rparr>"
  define v where "v = send_decode e it (send_notify e it ?u)"
  define w where "w = v\<lparr>bo_state := state_note_frame (l_bms_id (lnk v k)) (be_now e) (bo_state v)\<rparr>"
  have "keeps k ?u w" by (rule keeps_frame) (simp_all add: w_def v_def)
  with keeps_quiet [OF quiet_fields(1)] have w: "keeps k s w" by (rule keeps_trans)
  have "keeps k w (upd_link k (\<lambda>l. l\<lparr>l_poll_record_seen := True\<rparr>) w)" by (rule keeps_quiet [OF quiet_fields(2)])
  from keeps_trans [OF keeps_trans [OF w this] keeps_complete_poll] w show ?thesis
    unfolding on_complete_frame_def Let_def it_def [symmetric] v_def [symmetric] w_def [symmetric] by simp
qed

lemma keeps_fold: "(\<And>x t. keeps k t (f x t)) \<Longrightarrow> keeps k s (fold f xs s)"
  by (induction xs arbitrary: s) (auto intro: keeps_refl keeps_trans)

lemma keeps_on_notify: "keeps k s (snd (on_notify e k data s))"
proof -
  have n: "keeps k s (send_notify e it s)" for it by (rule keeps_frame) simp_all
  have u: "keeps k t (fold (on_complete_frame e k) fs (upd_link k (\<lambda>l. l\<lparr>l_reasm := r\<rparr>) t))" for t r fs
    by (rule keeps_trans [OF keeps_quiet [OF quiet_fields(3)] keeps_fold [OF keeps_on_complete_frame]])
  show ?thesis using u keeps_trans [OF n u] by (auto simp: on_notify_def Let_def split: prod.split)
qed

lemma link_by_conn_Some:
  assumes "link_by_conn ch s = Some k"
  shows "k < length (bo_links s)" "l_in_use (lnk s k)" "l_conn_handle (lnk s k) = ch"
    "l_discovery_pending (lnk s k) \<or> l_discovery_failed (lnk s k) \<or> l_table_ready (lnk s k)"
  using assms by (auto simp: link_by_conn_def find_index_Some_iff)

lemma keeps_gap_notify_rx:
  assumes "link_by_conn ch s = Some k"
  shows "keeps k s (gap_notify_rx e ch flat s)"
proof -
  have d: "keeps k s (t\<lparr>bo_devinfo := x\<rparr>)" if "keeps k s t" for t x
    by (rule keeps_trans [OF that keeps_frame]) simp_all
  show ?thesis
    using keeps_on_notify [of k s e] d assms
    by (auto simp: gap_notify_rx_def Let_def case_prod_unfold split: option.split intro!: keeps_intros)
qed

lemma keeps_gatt_write_done:
  assumes "link_by_conn ch s = Some k"
  shows "keeps k s (on_gatt_write_done e ch err attr cookie s)"
proof -
  let ?u = "upd_link k (\<lambda>l. l\<lparr>l_write_cookie := 0\<rparr>) s"
  have u: "keeps k s ?u" by (rule keeps_quiet [OF quiet_fields(4)])
  show ?thesis
    using keeps_trans [OF u keeps_answer] keeps_trans [OF u keeps_complete_poll] u assms
    by (auto simp: on_gatt_write_done_def Let_def intro: keeps_refl)
qed

lemma link_ok_free: "link_ok b l \<Longrightarrow> \<not> l_txn_active l \<Longrightarrow> \<not> b \<Longrightarrow> link_ok b (l\<lparr>l_in_use := False, l_discovery_pending := False, l_subscription_pending := x\<rparr>)"
  by (auto simp: link_ok_def)

lemma keeps_gap_disconnect:
  assumes "link_by_conn ch s = Some k"
  shows "keeps k s (gap_disconnect e ch reason s)"
proof -
  note lb = link_by_conn_Some [OF assms]
  let ?t = "s\<lparr>bo_disc_events := bo_disc_events s + 1\<rparr>"
  have t: "link_by_conn ch ?t = Some k" using assms by (simp add: link_by_conn_def)
  define u where "u = own_set_link_state e (l_bms_id (lnk s k)) LINK_REACHABLE_IDLE False ?t"
  define v where "v = (if l_txn_active (lnk u k) then answer e k RESP_LINK_DOWN u else u)"
  have "keeps k s u" by (rule keeps_frame) (simp_all add: u_def)
  then have v: "keeps k s v" unfolding v_def by (auto intro: keeps_trans keeps_answer)
  have lu: "lnk u k = lnk s k" by (simp add: u_def)
  have na: "\<not> l_txn_active (lnk v k)" and inf: "bo_conn_inflight v = bo_conn_inflight s" "length (bo_links v) = length (bo_links s)"
    using lb(1) by (auto simp: v_def u_def answer_def nth_upd_unit)
  have "keeps k v (upd_link k (\<lambda>l. l\<lparr>l_in_use := False, l_discovery_pending := False, l_subscription_pending := False\<rparr>) v)"
    if "bo_conn_inflight s \<noteq> Some k"
    by (rule keeps_upd_link) (use na inf that in \<open>auto intro: link_ok_free simp: owed_def\<close>)
  note freed = keeps_trans [OF keeps_trans [OF v this] keeps_publish]
  have eq: "gap_disconnect e ch reason s =
      ble_publish (Pub_llevent ''disconnect'' (l_bms_id (lnk s k)) reason)
        (upd_link k (\<lambda>l. l\<lparr>l_in_use := False, l_discovery_pending := False, l_subscription_pending := False\<rparr>) v)"
    unfolding gap_disconnect_def Let_def t by (simp add: v_def u_def)
  show ?thesis
  proof (cases "bo_conn_inflight s = Some k")
    case True
    then show ?thesis using lb by (auto simp: keeps_def link_ok_def fresh_link_def)
  next
    case False
    from freed [OF False] show ?thesis unfolding eq .
  qed
qed


section \<open>Connecting\<close>

lemma link_by_bms_Some:
  assumes "link_by_bms i s = Some k"
  shows "k < length (bo_links s)" "l_in_use (lnk s k)" "l_bms_id (lnk s k) = i"
  using assms by (auto simp: link_by_bms_def find_index_Some_iff)

lemma link_by_bms_None: "link_by_bms i s = None \<Longrightarrow> k < length (bo_links s) \<Longrightarrow> l_in_use (lnk s k) \<Longrightarrow> l_bms_id (lnk s k) \<noteq> i"
  by (auto simp: link_by_bms_def find_index_None_iff)

text \<open>The state of a slot that has been taken for a connect and not yet been given to the radio.\<close>

definition taken_link :: "link \<Rightarrow> bool" where
  "taken_link l \<longleftrightarrow> l_in_use l \<and> fresh_link l \<and> l_txn_active l \<and> rq_kind (l_txn l) = TXN_CONNECT"

lemma link_ok_taken: "taken_link l \<Longrightarrow> link_ok True l" "taken_link l \<Longrightarrow> link_ok False (l\<lparr>l_txn_active := False, l_in_use := False\<rparr>)"
  by (auto simp: taken_link_def link_ok_def fresh_link_def)

text \<open>What \<^verbatim>\<open>start_connect\<close> does to a taken slot: the slot is in flight, or it is free and the request answered.\<close>

lemma start_connect_cases:
  assumes k: "k < length (bo_links s)" and t: "taken_link (lnk s k)"
  obtains (inflight) "bo_links (start_connect e k s) = bo_links s" "bo_issued (start_connect e k s) = bo_issued s"
      "bo_conn_inflight s = None" "bo_conn_inflight (start_connect e k s) = Some k"
  | (answered) st where "bo_links (start_connect e k s) = upd_unit k (\<lambda>l. l\<lparr>l_txn_active := False, l_in_use := False\<rparr>) (bo_links s)"
      "bo_issued (start_connect e k s) = bo_issued s @ [\<lparr>rs_bms_id = l_bms_id (lnk s k), rs_cmd_id = rq_cmd_id (l_txn (lnk s k)), rs_status = st\<rparr>]"
      "bo_conn_inflight (start_connect e k s) = bo_conn_inflight s"
proof -
  let ?free = "upd_link k (\<lambda>l. l\<lparr>l_in_use := False\<rparr>)"
  have free: "bo_links (?free (answer e k st u)) = upd_unit k (\<lambda>l. l\<lparr>l_txn_active := False, l_in_use := False\<rparr>) (bo_links u)"
      "bo_issued (?free (answer e k st u)) = bo_issued u @ [\<lparr>rs_bms_id = l_bms_id (lnk u k), rs_cmd_id = rq_cmd_id (l_txn (lnk u k)), rs_status = st\<rparr>]"
      "bo_conn_inflight (?free (answer e k st u)) = bo_conn_inflight u" for st u
    by (simp_all add: answer_def upd_unit_twice comp_def)
  let ?A = "name_for (be_fleet e) (l_bms_id (lnk s k)) = None \<or> addr_for (be_fleet e) (l_bms_id (lnk s k)) = None \<or>
    \<not> bo_ble_enabled s \<or> be_wifi_down_ms e > CFG_WIFI_QUIESCE_MS"
  let ?u = "s\<lparr>bo_conn_inflight := Some k\<rparr>" and ?c = "Gap_connect k (the (addr_for (be_fleet e) (l_bms_id (lnk s k))))"
  note sc = start_connect_def [of e k s, unfolded Let_def case_prod_unfold]
  consider "?A" | "\<not> ?A" "bo_conn_inflight s \<noteq> None \<or> bo_scan_active s"
    | "\<not> ?A" "\<not> (bo_conn_inflight s \<noteq> None \<or> bo_scan_active s)" "fst (ble e ?c ?u) \<noteq> 0"
    | "\<not> ?A" "\<not> (bo_conn_inflight s \<noteq> None \<or> bo_scan_active s)" "fst (ble e ?c ?u) = 0" by blast
  then show ?thesis
  proof cases
    case 1
    then have "start_connect e k s = ?free (answer e k RESP_LINK_DOWN s)" unfolding sc by (rule if_P)
    then show ?thesis using answered free by simp
  next
    case 2
    then have "start_connect e k s = ?free (answer e k RESP_CONNECT_WAIT s)" unfolding sc if_not_P [OF 2(1)] by (intro if_P)
    then show ?thesis using answered free by simp
  next
    case 3
    then have "start_connect e k s = ?free (answer e k RESP_LINK_DOWN ((snd (ble e ?c ?u))\<lparr>bo_conn_inflight := None\<rparr>))"
      unfolding sc if_not_P [OF 3(1)] if_not_P [OF 3(2)] by (intro if_P)
    then show ?thesis using answered free 3 by simp
  next
    case 4
    then have "start_connect e k s = snd (ble e ?c ?u)"
      unfolding sc if_not_P [OF 4(1)] if_not_P [OF 4(2)] by simp
    then show ?thesis using inflight 4 by simp
  qed
qed

text \<open>A new connect: the account grows by the request, and the pool stays well formed.\<close>

lemma bo_inv_taken:
  assumes inv: "bo_inv s" and k: "k < CFG_LINK_POOL_SIZE" and free: "\<not> l_in_use (lnk s k)" and l: "taken_link l"
    and new: "\<And>j. j < CFG_LINK_POOL_SIZE \<Longrightarrow> l_in_use (lnk s j) \<Longrightarrow> l_bms_id (lnk s j) \<noteq> l_bms_id l"
    and u: "u = upd_link k (\<lambda>_. l) s"
  shows "bo_inv (start_connect e k u) \<and> ledger (start_connect e k u) = add_mset (l_bms_id l, rq_cmd_id (l_txn l)) (ledger s)"
proof -
  from inv k have len: "length (bo_links s) = CFG_LINK_POOL_SIZE" and ok: "link_ok (bo_conn_inflight s = Some k) (lnk s k)"
    by (auto simp: bo_inv_def)
  from ok free have nf: "bo_conn_inflight s \<noteq> Some k" "owed (lnk s k) = {#}" by (auto simp: link_ok_def owed_def)
  have lu: "lnk u k = l" "\<And>j. j \<noteq> k \<Longrightarrow> lnk u j = lnk s j" "length (bo_links u) = CFG_LINK_POOL_SIZE"
    using k len by (auto simp: u nth_upd_unit)
  have lo: "owed l = {#(l_bms_id l, rq_cmd_id (l_txn l))#}" using l by (simp add: taken_link_def owed_def)
  have led: "ledger u = add_mset (l_bms_id l, rq_cmd_id (l_txn l)) (ledger s)"
    using sum_list_upd_unit [of k "bo_links s" owed "\<lambda>_. l"] k len nf(2) lo by (simp add: ledger_def u)
  from k l lu have "k < length (bo_links u)" "taken_link (lnk u k)" by simp_all
  then show ?thesis
  proof (cases rule: start_connect_cases [where e = e])
    case inflight
    have "bo_conn_inflight s = None" using inflight(3) u by simp
    then have "bo_inv (start_connect e k u)"
      using inv inflight lu k link_ok_taken(1) [OF l] new l
      by (auto simp: bo_inv_def taken_link_def) (metis, metis)
    with inflight led show ?thesis by (simp add: ledger_def)
  next
    case (answered st)
    have "bo_inv (start_connect e k u)"
      using inv answered lu k nf(1) link_ok_taken(2) [OF l] by (auto simp: bo_inv_def u nth_upd_unit)
    moreover have "ledger (start_connect e k u) = ledger u"
      using sum_list_upd_unit [of k "bo_links u" owed "\<lambda>l. l\<lparr>l_txn_active := False, l_in_use := False\<rparr>"] lu k lo answered
      by (simp add: ledger_def owed_def rkey_def)
    ultimately show ?thesis using led by simp
  qed
qed


lemma keeps_discovery_start:
  assumes k: "k < length (bo_links s)" and l: "l_in_use (lnk s k)" "fresh_link ((lnk s k)\<lparr>l_conn_handle := 0\<rparr>)"
    "l_txn_active (lnk s k) \<longrightarrow> rq_kind (l_txn (lnk s k)) = TXN_CONNECT" and n: "bo_conn_inflight s \<noteq> Some k"
  shows "link_ok (bo_conn_inflight (discovery_start e k s) = Some k) (lnk (discovery_start e k s) k) \<and>
    ledger (discovery_start e k s) = ledger s \<and> length (bo_links (discovery_start e k s)) = length (bo_links s) \<and>
    (\<forall>j. j \<noteq> k \<longrightarrow> lnk (discovery_start e k s) j = lnk s j) \<and>
    (\<forall>j. j \<noteq> k \<longrightarrow> (bo_conn_inflight (discovery_start e k s) = Some j) = (bo_conn_inflight s = Some j)) \<and>
    (l_in_use (lnk (discovery_start e k s) k) \<longrightarrow> l_bms_id (lnk (discovery_start e k s) k) = l_bms_id (lnk s k))"
proof -
  define cookie where "cookie = next_cookie (bo_discovery_cookie s)"
  define f :: "link \<Rightarrow> link" where "f = (\<lambda>l. l\<lparr>l_discovery_pending := True, l_subscription_pending := False, l_discovery_failed := False,
      l_descriptor_phase := DSC_NONE, l_last_chr_value := 0, l_cccd_handle := 0, l_ffe2_cccd_handle := 0,
      l_service_seen := False, l_table_ready := False, l_discovery_cookie := cookie\<rparr>)"
  define u where "u = upd_link k f (s\<lparr>bo_discovery_cookie := cookie\<rparr>)"
  have lu: "lnk u k = f (lnk s k)" "\<And>j. j \<noteq> k \<Longrightarrow> lnk u j = lnk s j" "length (bo_links u) = length (bo_links s)"
      "bo_conn_inflight u = bo_conn_inflight s"
    using k by (auto simp: u_def nth_upd_unit)
  have ok: "link_ok False (f (lnk s k))" using l by (auto simp: f_def link_ok_def gatt_ok_def fresh_link_def)
  have "ledger (s\<lparr>bo_discovery_cookie := cookie\<rparr>) = ledger s" by (simp add: ledger_def)
  moreover have "owed (f (lnk s k)) = owed (lnk s k)" by (simp add: owed_def f_def)
  ultimately have led: "ledger u = ledger s" using ledger_upd_link [of k "s\<lparr>bo_discovery_cookie := cookie\<rparr>" f] k by (simp add: u_def)
  have "keeps k u (discovery_start e k s)"
    unfolding discovery_start_def Let_def case_prod_unfold cookie_def [symmetric] f_def [symmetric] u_def [symmetric]
    by (auto intro!: keeps_intros)
  then show ?thesis using lu ok led k n by (auto simp: keeps_def f_def)
qed

lemma inv_gap_connect:
  assumes inv: "bo_inv s" and k: "k < CFG_LINK_POOL_SIZE" and i: "bo_conn_inflight s = None \<or> bo_conn_inflight s = Some k"
  shows "bo_inv (gap_connect e k status ch s) \<and> ledger (gap_connect e k status ch s) = ledger s"
proof (cases "bo_conn_inflight s = Some k")
  case False
  with i have "bo_conn_inflight s = None" by simp
  then have "keeps k s (gap_connect e k status ch s)" by (auto simp: gap_connect_def Let_def intro!: keeps_intros keeps_frame)
  with inv k show ?thesis by (rule keeps_inv)
next
  case True
  from inv k have ok: "link_ok True (lnk s k)" and len: "length (bo_links s) = CFG_LINK_POOL_SIZE" using True by (auto simp: bo_inv_def)
  then have l: "l_in_use (lnk s k)" "fresh_link (lnk s k)" "l_txn_active (lnk s k) \<longrightarrow> rq_kind (l_txn (lnk s k)) = TXN_CONNECT"
    by (auto simp: link_ok_def fresh_link_def)
  have "keeps k s (gap_connect e k status ch s)"
  proof (cases "status = 0")
    case s0: True
    define u where "u = upd_link k (\<lambda>l. l\<lparr>l_conn_handle := ch\<rparr>) (s\<lparr>bo_conn_inflight := None, bo_conn_events := bo_conn_events s + 1\<rparr>)"
    have lu: "lnk u k = (lnk s k)\<lparr>l_conn_handle := ch\<rparr>" "\<And>j. j \<noteq> k \<Longrightarrow> lnk u j = lnk s j" "length (bo_links u) = CFG_LINK_POOL_SIZE"
      "bo_conn_inflight u = None" using k len by (auto simp: u_def nth_upd_unit)
    have "ledger (s\<lparr>bo_conn_inflight := None, bo_conn_events := bo_conn_events s + 1\<rparr>) = ledger s" by (simp add: ledger_def)
    then have led: "ledger u = ledger s"
      using ledger_upd_link [of k "s\<lparr>bo_conn_inflight := None, bo_conn_events := bo_conn_events s + 1\<rparr>" "\<lambda>l. l\<lparr>l_conn_handle := ch\<rparr>"] k len
      by (simp add: u_def owed_def)
    have "keeps k s (discovery_start e k u)"
      using keeps_discovery_start [of k u e] l lu led k len True by (auto simp: keeps_def fresh_link_def)
    then show ?thesis using s0 l True
      by (auto simp: gap_connect_def Let_def fresh_link_def u_def intro!: keeps_intros)
  next
    case s1: False
    define u where "u = own_set_link_state e (l_bms_id (lnk s k)) LINK_UNREACHABLE False (s\<lparr>bo_conn_inflight := None\<rparr>)"
    define v where "v = (if l_txn_active (lnk u k) then answer e k RESP_LINK_DOWN u else u)"
    have "ledger u = ledger s" by (simp add: u_def ledger_def)
    then have led: "ledger v = ledger s" using ledger_answer [of k u e] k len by (auto simp: v_def u_def)
    have lv: "lnk v k = (lnk s k)\<lparr>l_txn_active := False\<rparr>" "\<And>j. j \<noteq> k \<Longrightarrow> lnk v j = lnk s j" "length (bo_links v) = CFG_LINK_POOL_SIZE"
      "bo_conn_inflight v = None" using k len by (auto simp: v_def u_def answer_def nth_upd_unit)
    have "ledger (upd_link k (\<lambda>l. l\<lparr>l_in_use := False\<rparr>) v) = ledger v"
      by (rule ledger_upd_link) (use k lv in \<open>simp_all add: owed_def\<close>)
    with lv led l k True len have "keeps k s (upd_link k (\<lambda>l. l\<lparr>l_in_use := False\<rparr>) v)"
      by (auto simp: keeps_def nth_upd_unit link_ok_def fresh_link_def)
    moreover have "gap_connect e k status ch s = upd_link k (\<lambda>l. l\<lparr>l_in_use := False\<rparr>) v"
      using s1 l True by (simp add: gap_connect_def Let_def fresh_link_def u_def v_def)
    ultimately show ?thesis by simp
  qed
  with inv k show ?thesis by (rule keeps_inv)
qed

section \<open>Executing requests\<close>

text \<open>The section accounts for the request: it is answered, or it is now owed by the unit's link.\<close>

definition books :: "bms_request \<Rightarrow> bo \<Rightarrow> bo \<Rightarrow> bool" where
  "books req s s' \<longleftrightarrow> (bo_inv s \<longrightarrow> bo_inv s' \<and> ledger s' = add_mset (qkey req) (ledger s))"

lemma books_reply: "books req s (reply e req st s)"
  by (auto simp: books_def reply_def bo_inv_def ledger_def rkey_def qkey_def)

lemma bo_inv_cong: "bo_links t = bo_links s \<Longrightarrow> bo_conn_inflight t = bo_conn_inflight s \<Longrightarrow> bo_inv t = bo_inv s"
  by (simp only: bo_inv_def)

lemma books_after: "bo_links t = bo_links s \<Longrightarrow> bo_conn_inflight t = bo_conn_inflight s \<Longrightarrow> bo_issued t = bo_issued s \<Longrightarrow>
    books req t u \<Longrightarrow> books req s u"
  using bo_inv_cong [of t s] ledger_cong [of t s] by (simp only: books_def)

lemma books_upd_respond:
  assumes k: "k < CFG_LINK_POOL_SIZE" and links: "bo_links t = upd_unit k f (bo_links s)"
    and rest: "bo_conn_inflight t = bo_conn_inflight s" "bo_issued t = bo_issued s"
    and f: "\<And>b. link_ok b (lnk s k) \<Longrightarrow> link_ok b (f (lnk s k))" "owed (lnk s k) = {#}" "owed (f (lnk s k)) = {#}"
      "l_in_use (f (lnk s k)) = l_in_use (lnk s k)" "l_bms_id (f (lnk s k)) = l_bms_id (lnk s k)"
  shows "books req s (respond e (rq_bms_id req) (rq_cmd_id req) st t)"
proof -
  have "bo_inv t \<and> ledger t = ledger s" if inv: "bo_inv s"
  proof -
    have "keeps k s (upd_link k f s)" by (rule keeps_upd_link) (use f in auto)
    from keeps_inv [OF inv k this] links rest show ?thesis by (simp add: bo_inv_def ledger_def)
  qed
  then have "books req s (reply e req st t)" using books_reply [of req t e st] by (simp add: books_def)
  then show ?thesis by (simp add: reply_def)
qed

lemma ready_txn_ok:
  assumes "link_ok b l" "l_in_use l" "l_table_ready l" "rq_kind req \<noteq> TXN_CONNECT"
  shows "link_ok b (l\<lparr>l_txn := req, l_txn_active := a, l_txn_deadline_us := d, l_want_record := w, l_poll_record_seen := p,
    l_write_handle := h, l_write_cookie := c\<rparr>)"
  using assms by (auto simp: link_ok_def gatt_ok_def fresh_link_def)

lemma books_submit_write:
  assumes k: "k < CFG_LINK_POOL_SIZE" and l: "l_in_use (lnk s k)" "l_table_ready (lnk s k)" "\<not> l_txn_active (lnk s k)"
      "l_bms_id (lnk s k) = rq_bms_id req" and kind: "rq_kind req \<noteq> TXN_CONNECT"
  shows "books req s (submit_write e k req handle wr data expected s)"
proof (cases "wr \<and> bo_write_cookie s = - 1")
  case True
  then show ?thesis using books_reply by (simp add: submit_write_def reply_def)
next
  case False
  define a where "a = (wr \<or> rq_kind req = TXN_POLL)"
  define cookie where "cookie = (if wr then bo_write_cookie s + 1 else 0)"
  define f :: "link \<Rightarrow> link" where "f = (\<lambda>l. l\<lparr>l_txn := req, l_txn_active := a, l_txn_deadline_us := be_now e + rq_timeout_ms req * 1000,
      l_want_record := Some expected, l_poll_record_seen := False, l_write_handle := handle, l_write_cookie := cookie\<rparr>)"
  define u where "u = upd_link k f (if wr then s\<lparr>bo_write_cookie := cookie\<rparr> else s)"
  define c where "c = (if wr then Gattc_write_flat (l_conn_handle (lnk u k)) handle data (Write_cb cookie)
      else Gattc_write_no_rsp_flat (l_conn_handle (lnk u k)) handle data)"
  define v where "v = snd (ble e c u)"
  have eq: "submit_write e k req handle wr data expected s =
     (if fst (ble e c u) \<noteq> 0 then respond e (rq_bms_id req) (rq_cmd_id req) RESP_GATT_ERR
          (upd_link k (\<lambda>l. l\<lparr>l_txn_active := False, l_write_cookie := 0\<rparr>) v)
      else if \<not> a then respond e (rq_bms_id req) (rq_cmd_id req) RESP_OK v else v)"
    unfolding submit_write_def Let_def if_not_P [OF False] case_prod_unfold cookie_def [symmetric] a_def [symmetric]
      f_def [symmetric] u_def [symmetric] c_def [symmetric] v_def [symmetric] ..
  have v: "bo_links v = upd_unit k f (bo_links s)" "bo_conn_inflight v = bo_conn_inflight s" "bo_issued v = bo_issued s"
    by (auto simp: v_def u_def)
  have fl: "l_in_use (f x) = l_in_use x" "l_bms_id (f x) = l_bms_id x" "l_table_ready (f x) = l_table_ready x"
      "owed (f x) = (if a then {#(l_bms_id x, rq_cmd_id req)#} else {#})" for x
    by (simp_all add: f_def owed_def)
  have ok: "link_ok b (f (lnk s k))" if "link_ok b (lnk s k)" for b
    unfolding f_def by (rule ready_txn_ok [OF that l(1,2) kind])
  have none: "owed (lnk s k) = {#}" using l(3) by (simp add: owed_def)
  let ?g = "\<lambda>l. (f l)\<lparr>l_txn_active := False, l_write_cookie := 0\<rparr>"
  have gok: "link_ok b (?g (lnk s k))" if "link_ok b (lnk s k)" for b
    using ok [OF that] by (auto simp: link_ok_defs)
  have "books req s (respond e (rq_bms_id req) (rq_cmd_id req) RESP_GATT_ERR (upd_link k (\<lambda>l. l\<lparr>l_txn_active := False, l_write_cookie := 0\<rparr>) v))"
    by (rule books_upd_respond [OF k, where f = ?g])
       (use v none fl in \<open>simp_all add: comp_def owed_def gok\<close>)
  moreover have "books req s (respond e (rq_bms_id req) (rq_cmd_id req) RESP_OK v)" if "\<not> a"
    by (rule books_upd_respond [OF k, where f = f]) (use v ok none fl that in auto)
  moreover have "books req s v" if "a"
  proof -
    have "bo_inv v \<and> ledger v = add_mset (qkey req) (ledger s)" if inv: "bo_inv s"
    proof -
      have len: "k < length (bo_links s)" using inv k by (simp add: bo_inv_def)
      have "ledger v = ledger s + {#qkey req#}"
        using sum_list_upd_unit [OF len, of owed f] none fl(4) l(4) \<open>a\<close> v by (simp add: ledger_def qkey_def)
      moreover have "bo_inv v"
        by (rule bo_inv_step [OF inv k]) (use inv v ok fl k len in \<open>simp_all add: bo_inv_def nth_upd_unit\<close>)
      ultimately show ?thesis by simp
    qed
    then show ?thesis by (simp add: books_def)
  qed
  ultimately show ?thesis unfolding eq by simp
qed

lemma books_exec_ready:
  assumes k: "k < CFG_LINK_POOL_SIZE" and l: "l_in_use (lnk s k)" "l_table_ready (lnk s k)" "\<not> l_txn_active (lnk s k)"
      "l_bms_id (lnk s k) = rq_bms_id req" and kind: "rq_kind req \<noteq> TXN_CONNECT"
  shows "books req s (exec_ready e req k s)"
proof -
  have w: "books req s (submit_write e k req h wr data x (s\<lparr>bo_nonce := n\<rparr>))" for h wr data x n
    by (rule books_after [where t = "s\<lparr>bo_nonce := n\<rparr>"]) (use books_submit_write [OF k, of "s\<lparr>bo_nonce := n\<rparr>"] l kind in auto)
  have t: "books req s (reply e req st (snd (ble e c s)))" for c st
    by (rule books_after [where t = "snd (ble e c s)"]) (auto intro: books_reply)
  show ?thesis
    using kind w t books_submit_write [OF k l kind] books_reply
    by (auto simp: exec_ready_def Let_def case_prod_unfold split: txn_kind.split)
qed

lemma books_exec_connect:
  assumes lo: "lo = link_by_bms (rq_bms_id req) s" and kind: "rq_kind req = TXN_CONNECT"
  shows "books req s (exec_connect e req lo s)"
proof (cases lo)
  case (Some k)
  note lb = link_by_bms_Some [OF Some [unfolded lo]]
  have "bo_inv s \<Longrightarrow> l_discovery_pending (lnk s k) \<or> l_discovery_failed (lnk s k) \<or> l_table_ready (lnk s k) \<or> bo_conn_inflight s = Some k"
    using lb by (auto simp: bo_inv_def link_ok_def)
  then show ?thesis using Some books_reply [of req s e] by (auto simp: exec_connect_def Let_def books_def)
next
  case None
  note nb = link_by_bms_None [OF None [unfolded lo]]
  show ?thesis
  proof (cases "find_index (\<lambda>l. \<not> l_in_use l) (bo_links s)")
    case fi: None
    then show ?thesis using None books_reply by (simp add: exec_connect_def link_alloc_def)
  next
    case fi: (Some k)
    define l where "l = zero_link\<lparr>l_in_use := True, l_bms_id := rq_bms_id req, l_reasm := jk_reasm_init JK_FRAME_JK02_32S,
        l_txn_active := True, l_txn := req, l_txn_deadline_us := be_now e + rq_timeout_ms req * 1000\<rparr>"
    have tk: "taken_link l" "l_bms_id l = rq_bms_id req" "l_txn l = req"
      using kind by (simp_all add: l_def taken_link_def fresh_link_def zero_link_def)
    have eq: "exec_connect e req lo s = start_connect e k (upd_link k (\<lambda>_. l) s)"
      using None fi by (simp add: exec_connect_def link_alloc_def l_def upd_link_def comp_def)
    have "bo_inv (start_connect e k (upd_link k (\<lambda>_. l) s)) \<and>
        ledger (start_connect e k (upd_link k (\<lambda>_. l) s)) = add_mset (qkey req) (ledger s)" if inv: "bo_inv s"
    proof -
      from find_index_SomeD [OF fi] inv have "k < CFG_LINK_POOL_SIZE" "\<not> l_in_use (lnk s k)" by (auto simp: bo_inv_def)
      moreover have "l_bms_id (lnk s j) \<noteq> l_bms_id l" if "j < CFG_LINK_POOL_SIZE" "l_in_use (lnk s j)" for j
        using nb [of j] that inv tk by (simp add: bo_inv_def)
      ultimately show ?thesis using bo_inv_taken [OF inv _ _ tk(1) _ refl] tk by (simp add: qkey_def)
    qed
    then show ?thesis unfolding eq books_def by blast
  qed
qed

lemma books_exec_request: "books req s (exec_request e req s)"
proof (cases "rq_kind req = TXN_CONNECT")
  case True
  then show ?thesis using books_reply books_exec_connect by (auto simp: exec_request_def Let_def)
next
  case False
  show ?thesis
  proof (cases "link_by_bms (rq_bms_id req) s")
    case (Some k)
    note lb = link_by_bms_Some [OF Some]
    show ?thesis
    proof (cases "k < CFG_LINK_POOL_SIZE")
      case True
      then show ?thesis using Some lb False books_reply
        by (auto simp: exec_request_def Let_def intro: books_exec_ready)
    next
      case k: False
      then show ?thesis using lb by (auto simp: books_def bo_inv_def)
    qed
  qed (use False books_reply in \<open>auto simp: exec_request_def Let_def\<close>)
qed

section \<open>The sweep\<close>

lemma keeps_sweep_link: "keeps k s (sweep_link e k s)"
proof -
  have "keeps k s (upd_link k (\<lambda>l. l\<lparr>l_timeout_strikes := l_timeout_strikes l + 1\<rparr>) (answer e k RESP_TIMEOUT s))"
    if "l_txn_active (lnk s k)"
    by (rule keeps_trans [OF keeps_answer [OF that] keeps_quiet [OF quiet_fields(1)]])
  then show ?thesis
    by (auto simp: sweep_link_def Let_def intro!: keeps_intros keeps_trans [OF _ keeps_discovery_terminate])
qed

lemma inv_fold_keeps:
  assumes "\<And>k t. k < CFG_LINK_POOL_SIZE \<Longrightarrow> keeps k t (f k t)" "bo_inv s"
  shows "bo_inv (fold f [0..<CFG_LINK_POOL_SIZE] s) \<and> ledger (fold f [0..<CFG_LINK_POOL_SIZE] s) = ledger s"
proof -
  have "bo_inv (fold f [0..<CFG_LINK_POOL_SIZE] s) \<and> ledger s = ledger (fold f [0..<CFG_LINK_POOL_SIZE] s)"
    by (rule fold_inv_rel [where R = "\<lambda>a b. ledger a = ledger b"]) (use assms keeps_inv in \<open>auto simp: atLeast0LessThan\<close>)
  then show ?thesis by simp
qed

lemma bo_invD:
  assumes "bo_inv s" "k < CFG_LINK_POOL_SIZE"
  shows "k < length (bo_links s) \<and> link_ok (bo_conn_inflight s = Some k) (lnk s k)"
  using assms unfolding bo_inv_def by simp

section \<open>Runs\<close>

text \<open>The critical sections of the component, and the other tasks' sections on the state cache.\<close>

datatype bo_event =
    E_exec bms_request
  | E_sweep
  | E_renegotiate
  | E_scan_turn
  | E_scan_req
  | E_scan_disc byte "byte list" int "string option"
  | E_scan_done
  | E_set_ble bool
  | E_rawcap int
  | E_keepalive
  | E_connect nat int u16
  | E_disconnect u16 int
  | E_notify u16 "byte list option"
  | E_svc u16 "int option" "gatt_svc option" u32
  | E_chr u16 "int option" "gatt_chr option" u32
  | E_dsc u16 "int option" u16 "gatt_dsc option" u32
  | E_subscribed u16 "int option" "u16 option" u32
  | E_write_done u16 "int option" "u16 option" u32
  | E_cache sc_op nat

fun bo_step :: "benv \<Rightarrow> bo_event \<Rightarrow> bo \<Rightarrow> bo" where
  "bo_step e (E_exec req) s = exec_request e req s"
| "bo_step e E_sweep s = sweep_timeouts e s"
| "bo_step e E_renegotiate s = renegotiate e s"
| "bo_step e E_scan_turn s = serve_scan_req e s"
| "bo_step e E_scan_req s = ble_owner_scan_dump s"
| "bo_step e (E_scan_disc t a r n) s = scan_dump_disc t a r n s"
| "bo_step e E_scan_done s = scan_dump_complete s"
| "bo_step e (E_set_ble on) s = ble_owner_set_ble e on s"
| "bo_step e (E_rawcap n) s = ble_owner_rawcap e n s"
| "bo_step e E_keepalive s = ble_owner_keepalive_read e s"
| "bo_step e (E_connect k status ch) s = gap_connect e k status ch s"
| "bo_step e (E_disconnect ch reason) s = gap_disconnect e ch reason s"
| "bo_step e (E_notify ch flat) s = gap_notify_rx e ch flat s"
| "bo_step e (E_svc ch err v c) s = on_svc_disc e ch err v c s"
| "bo_step e (E_chr ch err v c) s = on_chr_disc e ch err v c s"
| "bo_step e (E_dsc ch err h v c) s = on_dsc_disc e ch err h v c s"
| "bo_step e (E_subscribed ch err a c) s = on_subscribe_done e ch err a c s"
| "bo_step e (E_write_done ch err a c) s = on_gatt_write_done e ch err a c s"
| "bo_step e (E_cache op i) s = s\<lparr>bo_state := sc_apply op i (bo_state s)\<rparr>"

text \<open>
  What the code relies on of the stack: the completion of a connect names a slot of the pool, and while a
  connect is in flight no other slot's completion arrives (NimBLE runs one connect procedure at a time). A late
  completion for a slot that is no longer in flight is allowed.
\<close>

fun bo_legal :: "bo \<Rightarrow> bo_event \<Rightarrow> bool" where
  "bo_legal s (E_connect k status ch) = (k < CFG_LINK_POOL_SIZE \<and> (bo_conn_inflight s = None \<or> bo_conn_inflight s = Some k))"
| "bo_legal s ev = True"

fun executed :: "bo_event \<Rightarrow> bms_request list" where
  "executed (E_exec req) = [req]"
| "executed ev = []"

inductive bo_run :: "nat \<Rightarrow> bms_request list \<Rightarrow> bo \<Rightarrow> bool" for n where
  start: "bo_run n [] (ble_owner_start n nv)"
| step: "bo_run n reqs s \<Longrightarrow> bo_legal s ev \<Longrightarrow> bo_run n (reqs @ executed ev) (bo_step e ev s)"

text \<open>Sections that leave links, account and connect alone.\<close>

definition still :: "bo \<Rightarrow> bo \<Rightarrow> bool" where
  "still s t \<longleftrightarrow> bo_links t = bo_links s \<and> bo_conn_inflight t = bo_conn_inflight s \<and> bo_issued t = bo_issued s"

lemma still_inv: "still s t \<Longrightarrow> bo_inv s \<Longrightarrow> bo_inv t \<and> ledger t = ledger s"
  using bo_inv_cong [of t s] ledger_cong [of t s] by (simp add: still_def)

lemma still_ops:
  "still s (serve_scan_req e s)" "still s (ble_owner_scan_dump s)" "still s (scan_dump_disc t a r n s)"
  "still s (scan_dump_complete s)" "still s (ble_owner_rawcap e m s)" "still s (ble_owner_keepalive_read e s)"
  "still s (s\<lparr>bo_state := ss\<rparr>)"
  by (simp_all add: still_def serve_scan_req_def do_scan_dump_def case_prod_unfold ble_owner_scan_dump_def scan_dump_disc_def
      scan_dump_complete_def ble_owner_rawcap_def ble_owner_keepalive_read_def Let_def split: option.split)

lemma still_set_ble: "still s (ble_owner_set_ble e on s)"
proof -
  let ?t = "s\<lparr>bo_ble_enabled := on, bo_nvs := nvs_put_ble_enabled (be_nvs_ok e) on (bo_nvs s)\<rparr>"
  have "still s (fold (\<lambda>k s. if l_in_use (lnk s k) \<and> l_conn_handle (lnk s k) \<noteq> 0
      then snd (ble e (Gap_terminate (l_conn_handle (lnk s k))) s) else s) ks ?t)" for ks
    by (rule fold_inv [where I = "still s"]) (simp_all add: still_def)
  moreover have "still s ?t" by (simp add: still_def)
  ultimately show ?thesis unfolding ble_owner_set_ble_def Let_def by (cases on) simp_all
qed

lemma keeps_renegotiate: "keeps k s (renegotiate_link e k s)"
  using keeps_trans [OF keeps_quiet [OF quiet_fields(5)] keeps_ble]
  by (auto simp: renegotiate_link_def Let_def intro: keeps_refl)

lemma keeps_None:
  "discovery_link ch c s = None \<Longrightarrow> on_svc_disc e ch err v c s = s" "discovery_link ch c s = None \<Longrightarrow> on_chr_disc e ch err w c s = s"
  "discovery_link ch c s = None \<Longrightarrow> on_dsc_disc e ch err h x c s = s" "discovery_link ch c s = None \<Longrightarrow> on_subscribe_done e ch err a c s = s"
  "link_by_conn ch s = None \<Longrightarrow> gap_notify_rx e ch flat s = s" "link_by_conn ch s = None \<Longrightarrow> on_gatt_write_done e ch err a c s = s"
  by (auto simp: on_svc_disc_def on_chr_disc_def on_dsc_disc_def on_subscribe_done_def gap_notify_rx_def on_gatt_write_done_def
      split: option.split)

lemma inv_disconnect:
  assumes "bo_inv s"
  shows "bo_inv (gap_disconnect e ch reason s) \<and> ledger (gap_disconnect e ch reason s) = ledger s"
proof (cases "link_by_conn ch s")
  case None
  then have "link_by_conn ch (s\<lparr>bo_disc_events := bo_disc_events s + 1\<rparr>) = None" by (simp add: link_by_conn_def)
  then have "still s (gap_disconnect e ch reason s)" by (simp add: gap_disconnect_def Let_def still_def)
  then show ?thesis using still_inv assms by blast
next
  case (Some k)
  then show ?thesis using keeps_inv [OF assms _ keeps_gap_disconnect] link_by_conn_Some(1) assms by (metis bo_inv_def)
qed

lemma inv_on_link:
  assumes inv: "bo_inv s" and no: "lo = None \<Longrightarrow> t = s" and k: "\<And>k. lo = Some k \<Longrightarrow> k < length (bo_links s) \<and> keeps k s t"
  shows "bo_inv t \<and> ledger t = ledger s"
proof (cases lo)
  case (Some k)
  with k inv have "k < CFG_LINK_POOL_SIZE" "keeps k s t" by (auto simp: bo_inv_def)
  with inv show ?thesis by (intro keeps_inv)
qed (use inv no in simp)

lemma bo_step_inv:
  assumes inv: "bo_inv s" and legal: "bo_legal s ev"
  shows "bo_inv (bo_step e ev s) \<and> ledger (bo_step e ev s) = ledger s + mset (map qkey (executed ev))"
proof (cases ev)
  case (E_exec req)
  then show ?thesis using books_exec_request [of req s e] inv by (simp add: books_def)
next
  case E_sweep
  then show ?thesis using inv_fold_keeps [OF keeps_sweep_link inv] by (simp add: sweep_timeouts_def)
next
  case E_renegotiate
  then show ?thesis using inv_fold_keeps [OF keeps_renegotiate inv] by (simp add: renegotiate_def)
next
  case (E_connect k status ch)
  then show ?thesis using inv_gap_connect [OF inv] legal by simp
next
  case (E_disconnect ch reason)
  then show ?thesis using inv_disconnect [OF inv] by simp
next
  case (E_notify ch flat)
  then show ?thesis
    using inv_on_link [OF inv keeps_None(5), of "link_by_conn ch s" ch e flat] keeps_gap_notify_rx link_by_conn_Some(1) by fastforce
next
  case (E_write_done ch err a c)
  then show ?thesis
    using inv_on_link [OF inv keeps_None(6), of "link_by_conn ch s" ch e err a c] keeps_gatt_write_done link_by_conn_Some(1) by fastforce
next
  case (E_svc ch err v c)
  then show ?thesis
    using inv_on_link [OF inv keeps_None(1), of "discovery_link ch c s" ch c e err v] keeps_on_svc_disc discovery_link_Some(1) by fastforce
next
  case (E_chr ch err v c)
  then show ?thesis
    using inv_on_link [OF inv keeps_None(2), of "discovery_link ch c s" ch c e err v] keeps_on_chr_disc discovery_link_Some(1) by fastforce
next
  case (E_dsc ch err h v c)
  then show ?thesis
    using inv_on_link [OF inv keeps_None(3), of "discovery_link ch c s" ch c e err h v] keeps_on_dsc_disc discovery_link_Some(1) by fastforce
next
  case (E_subscribed ch err a c)
  then show ?thesis
    using inv_on_link [OF inv keeps_None(4), of "discovery_link ch c s" ch c e err a] keeps_on_subscribe_done discovery_link_Some(1) by fastforce
next
  case (E_set_ble on)
  then show ?thesis using still_inv [OF still_set_ble inv] by simp
qed (use still_inv [OF still_ops(1) inv] still_inv [OF still_ops(2) inv] still_inv [OF still_ops(3) inv] still_inv [OF still_ops(4) inv]
      still_inv [OF still_ops(5) inv] still_inv [OF still_ops(6) inv] still_inv [OF still_ops(7) inv] in simp_all)

lemma bo_start_inv: "bo_inv (ble_owner_start n nv) \<and> ledger (ble_owner_start n nv) = {#}"
proof -
  have "link_ok False zero_link" "\<not> l_in_use zero_link" by (simp_all add: zero_link_def link_ok_def fresh_link_def)
  moreover have "(\<Sum>l\<leftarrow>replicate m zero_link. owed l) = {#}" for m by (induction m) (simp_all add: owed_def zero_link_def)
  ultimately show ?thesis by (simp add: bo_inv_def ledger_def ble_owner_start_def)
qed

lemma bo_run_inv: "bo_run n reqs s \<Longrightarrow> bo_inv s \<and> ledger s = mset (map qkey reqs)"
proof (induction rule: bo_run.induct)
  case (step reqs s ev e)
  then show ?case using bo_step_inv [of s ev e] by simp
qed (simp add: bo_start_inv)

end
