(* ===== verification/Ble_Ready.thy ===== *)
theory Ble_Ready
  imports Ble_Owner
begin

text \<open>
  Where a ready link comes from: every section of \<^verbatim>\<open>ble_owner.c\<close> but the successful completion of a
  subscription leaves the links that are ready as they are and makes no other link ready, and a
  subscription is only pending on a link whose CCCD write has been handed to NimBLE.
\<close>

section \<open>One section\<close>

definition link_on :: "link \<Rightarrow> bool" where
  "link_on l \<longleftrightarrow> l_in_use l \<and> l_table_ready l"

definition link_ident :: "link \<Rightarrow> nat \<times> u16 \<times> u16 \<times> u16 \<times> u32" where
  "link_ident l = (l_bms_id l, l_conn_handle l, l_val_handle l, l_cccd_handle l, l_discovery_cookie l)"

definition sub_call :: "link \<Rightarrow> ble_call" where
  "sub_call l = Gattc_write_flat (l_conn_handle l) (l_cccd_handle l) [0x01, 0x00] (Subscribe_cb (l_discovery_cookie l))"

definition wait_sub :: "link \<Rightarrow> bool" where
  "wait_sub l \<longleftrightarrow> l_in_use l \<and> l_subscription_pending l"

definition kept :: "ble_call set \<Rightarrow> link \<Rightarrow> link \<Rightarrow> bool" where
  "kept calls l m \<longleftrightarrow> (link_on m \<longrightarrow> link_on l \<and> link_ident m = link_ident l) \<and>
     (wait_sub m \<longrightarrow> wait_sub l \<and> sub_call m = sub_call l \<or> sub_call m \<in> calls)"

definition steady :: "bo \<Rightarrow> bo \<Rightarrow> bool" where
  "steady s t \<longleftrightarrow> length (bo_links t) = length (bo_links s) \<and> set (bo_calls s) \<subseteq> set (bo_calls t) \<and>
     (\<forall>k<length (bo_links s). kept (set (bo_calls t)) (lnk s k) (lnk t k))"

lemmas kept_defs = kept_def link_on_def wait_sub_def link_ident_def sub_call_def

lemma kept_refl: "kept c l l"
  by (simp add: kept_def)

lemma kept_trans: "kept c l m \<Longrightarrow> kept d m n \<Longrightarrow> c \<subseteq> d \<Longrightarrow> kept d l n"
  by (auto simp: kept_def)

lemma steady_trans [trans]: "steady s t \<Longrightarrow> steady t u \<Longrightarrow> steady s u"
  unfolding steady_def by (auto intro: kept_trans)

lemma steady_frame: "bo_links t = bo_links s \<Longrightarrow> set (bo_calls s) \<subseteq> set (bo_calls t) \<Longrightarrow> steady s t"
  by (simp add: steady_def kept_refl)

lemma steady_refl: "steady s s"
  by (simp add: steady_frame)

lemma steady_upd: "kept (set (bo_calls s)) (lnk s k) (f (lnk s k)) \<Longrightarrow> steady s (upd_link k f s)"
  by (auto simp: steady_def nth_upd_unit kept_refl)

lemma steady_fold: "(\<And>x t. steady t (f x t)) \<Longrightarrow> steady s (fold f xs s)"
  by (induction xs arbitrary: s) (auto intro: steady_refl steady_trans)

lemma steady_ops:
  "steady s (snd (ble e c s))" "steady s (ble_publish p s)" "steady s (respond e i cid st s)" "steady s (own_set_link_state e i ls h s)"
  "steady s (answer e k st s)" "steady s (send_notify e it s)" "steady s (send_decode e it s)"
proof -
  show "steady s (answer e k st s)"
    unfolding answer_def
    by (rule steady_trans [of s "upd_link k (\<lambda>l. l\<lparr>l_txn_active := False\<rparr>) s"])
      (auto intro!: steady_upd steady_frame simp: kept_defs)
qed (rule steady_frame; auto)+

lemmas steady_after = steady_ops [THEN steady_trans [rotated]]

lemma steady_discovery_terminate: "steady s (discovery_terminate e k s)"
  unfolding discovery_terminate_def Let_def
  by (intro steady_after(1) steady_upd) (simp add: kept_defs)

lemma steady_discovery_fail: "steady s (discovery_fail e k st s)"
proof -
  have "steady s (upd_link k mark_failed s)" by (rule steady_upd) (simp add: kept_defs mark_failed_def)
  then show ?thesis unfolding discovery_fail_def Let_def
    by (auto intro!: steady_refl steady_trans [OF _ steady_discovery_terminate] steady_after)
qed

lemmas steady_more = steady_after steady_trans [OF _ steady_discovery_fail]

section \<open>Discovery\<close>

lemma steady_subscription_start: "steady s (subscription_start e k s)"
proof -
  define u where "u = upd_link k (\<lambda>l. l\<lparr>l_descriptor_phase := DSC_DONE, l_subscription_pending := True\<rparr>) s"
  have "steady s (snd (ble e (sub_call (lnk u k)) u))"
    by (auto simp: steady_def u_def nth_upd_unit kept_refl) (auto simp: kept_defs)
  then show ?thesis
    unfolding subscription_start_def Let_def case_prod_unfold u_def [symmetric] sub_call_def [symmetric]
    by (auto intro!: steady_more)
qed

lemma steady_secondary: "steady s (secondary_descriptors_or_subscribe e k s)"
proof -
  have "steady s (upd_link k (\<lambda>l. l\<lparr>l_descriptor_phase := DSC_FFE2\<rparr>) s)" by (rule steady_upd) (simp add: kept_defs)
  then show ?thesis unfolding secondary_descriptors_or_subscribe_def Let_def case_prod_unfold
    by (auto intro!: steady_more steady_subscription_start steady_trans [OF _ steady_subscription_start])
qed

text \<open>A link under discovery whose subscription has not begun.\<close>

definition early :: "link \<Rightarrow> bool" where
  "early l \<longleftrightarrow> \<not> l_table_ready l \<and> \<not> l_subscription_pending l"

lemma steady_early: "early (f (lnk s k)) \<Longrightarrow> steady s (upd_link k f s)"
  by (rule steady_upd) (simp add: early_def kept_defs)

lemma early_set_cccd: "early l \<Longrightarrow> early (set_cccd prim h l)"
  by (simp add: early_def set_cccd_def)

lemma early_note_chr: "early l \<Longrightarrow> early (note_chr c l)"
  by (simp add: early_def note_chr_def Let_def)

lemma steady_dsc_found:
  assumes "early (lnk s k)"
  shows "steady s (dsc_found e k prim status dsc s)"
proof -
  have "steady s (upd_link k (set_cccd prim h) s)" for h using assms by (intro steady_early early_set_cccd)
  then show ?thesis unfolding dsc_found_def Let_def
    by (auto intro!: steady_refl steady_discovery_fail steady_secondary steady_subscription_start
        steady_trans [OF _ steady_discovery_fail] steady_trans [OF _ steady_secondary] steady_trans [OF _ steady_subscription_start]
        split: option.split)
qed

lemma discovery_early:
  assumes "bo_inv s" "discovery_link ch cookie s = Some k" "l_descriptor_phase (lnk s k) \<noteq> DSC_DONE"
  shows "early (lnk s k)"
proof -
  note d = discovery_link_Some [OF assms(2)]
  with assms(1) have "link_ok (bo_conn_inflight s = Some k) (lnk s k)" by (auto simp: bo_inv_def)
  with d(3) assms(3) show ?thesis by (auto simp: early_def link_ok_def gatt_ok_def)
qed

lemma steady_on_dsc_disc: "bo_inv s \<Longrightarrow> steady s (on_dsc_disc e ch err cv dsc cookie s)"
proof (cases "discovery_link ch cookie s")
  case (Some k)
  assume inv: "bo_inv s"
  show ?thesis
  proof (cases "l_descriptor_phase (lnk s k) = DSC_FFE1 \<or> l_descriptor_phase (lnk s k) = DSC_FFE2")
    case True
    then have "early (lnk s k)" using discovery_early [OF inv Some] by auto
    then have "steady s (upd_link k (set_cccd p 0) s)" "steady s (dsc_found e k p st dsc s)" for p st
      by (auto intro: steady_early early_set_cccd steady_dsc_found)
    then show ?thesis unfolding on_dsc_disc_def Some option.case Let_def
      by (auto intro!: steady_refl steady_discovery_fail steady_trans [OF _ steady_subscription_start] split: option.split)
  qed (simp add: on_dsc_disc_def Some steady_refl)
qed (simp add: on_dsc_disc_def steady_refl)

lemma steady_on_chr_disc: "bo_inv s \<Longrightarrow> steady s (on_chr_disc e ch err chr cookie s)"
proof (cases "discovery_link ch cookie s")
  case (Some k)
  assume inv: "bo_inv s"
  show ?thesis
  proof (cases "l_descriptor_phase (lnk s k) = DSC_NONE")
    case True
    then have "early (lnk s k)" using discovery_early [OF inv Some] by auto
    then have n: "steady s (upd_link k (note_chr c) s)" for c by (intro steady_early early_note_chr)
    have p: "steady t (upd_link k (\<lambda>l. l\<lparr>l_descriptor_phase := DSC_FFE1\<rparr>) t)" for t by (rule steady_upd) (simp add: kept_defs)
    from n p show ?thesis unfolding on_chr_disc_def Some option.case Let_def case_prod_unfold
      by (auto intro!: steady_refl steady_discovery_fail steady_more steady_trans [OF _ p] split: option.split)
  qed (simp add: on_chr_disc_def Some steady_refl)
qed (simp add: on_chr_disc_def steady_refl)

lemma steady_on_svc_disc: "steady s (on_svc_disc e ch err svc cookie s)"
proof (cases "discovery_link ch cookie s")
  case (Some k)
  have "steady s (upd_link k (\<lambda>l. l\<lparr>l_service_seen := True, l_service_end := v\<rparr>) s)" for v by (rule steady_upd) (simp add: kept_defs)
  then show ?thesis unfolding on_svc_disc_def Some option.case Let_def case_prod_unfold
    by (auto intro!: steady_refl steady_discovery_fail steady_more split: option.split)
qed (simp add: on_svc_disc_def steady_refl)

section \<open>Connections and transactions\<close>

lemma steady_from_discovery_start:
  assumes "k < length (bo_links s)"
  shows "steady s (discovery_start e k (upd_link k (\<lambda>l. l\<lparr>l_conn_handle := ch\<rparr>) (s\<lparr>bo_conn_inflight := i, bo_conn_events := n\<rparr>)))"
  (is "steady s (discovery_start e k ?u)")
proof -
  define c where "c = next_cookie (bo_discovery_cookie ?u)"
  define f :: "link \<Rightarrow> link" where "f = (\<lambda>l. l\<lparr>l_discovery_pending := True, l_subscription_pending := False, l_discovery_failed := False,
      l_descriptor_phase := DSC_NONE, l_last_chr_value := 0, l_cccd_handle := 0, l_ffe2_cccd_handle := 0,
      l_service_seen := False, l_table_ready := False, l_discovery_cookie := c\<rparr>)"
  have "steady s (upd_link k f (?u\<lparr>bo_discovery_cookie := c\<rparr>))"
    using assms by (auto simp: steady_def nth_upd_unit kept_refl f_def) (auto simp: kept_defs)
  then show ?thesis
    unfolding discovery_start_def Let_def case_prod_unfold c_def [symmetric] f_def [symmetric]
    by (auto intro!: steady_more)
qed

lemma steady_gap_connect: "k < length (bo_links s) \<Longrightarrow> steady s (gap_connect e k status ch s)"
proof -
  assume k: "k < length (bo_links s)"
  have a: "steady s (s\<lparr>bo_conn_inflight := i\<rparr>)" for i by (rule steady_frame) simp_all
  have d: "steady s (discovery_start e k (upd_link k (\<lambda>l. l\<lparr>l_conn_handle := ch\<rparr>) (s\<lparr>bo_conn_inflight := i, bo_conn_events := n\<rparr>)))" for i n
    using k by (rule steady_from_discovery_start)
  have free: "steady t (upd_link k (\<lambda>l. l\<lparr>l_in_use := False\<rparr>) t)" for t by (rule steady_upd) (simp add: kept_defs)
  show ?thesis unfolding gap_connect_def Let_def
    using a d by (auto intro!: steady_more steady_trans [OF _ free])
qed

lemma steady_gap_disconnect: "steady s (gap_disconnect e ch reason s)"
proof -
  have a: "steady s (s\<lparr>bo_disc_events := n\<rparr>)" for n by (rule steady_frame) simp_all
  have free: "steady t (upd_link k (\<lambda>l. l\<lparr>l_in_use := False, l_discovery_pending := False, l_subscription_pending := False\<rparr>) t)" for t k
    by (rule steady_upd) (simp add: kept_defs)
  show ?thesis unfolding gap_disconnect_def Let_def
    by (auto intro!: a steady_more steady_trans [OF _ free] split: option.split)
qed

lemma steady_complete_poll: "steady s (complete_poll_if_ready e k s)"
  by (auto simp: complete_poll_if_ready_def Let_def intro: steady_refl steady_ops)

lemma steady_on_complete_frame: "steady s (on_complete_frame e k fr s)"
proof -
  have a: "steady t (upd_link k (\<lambda>l. l\<lparr>l_timeout_strikes := 0\<rparr>) t)" "steady t (upd_link k (\<lambda>l. l\<lparr>l_poll_record_seen := True\<rparr>) t)"
    "steady t (t\<lparr>bo_state := b\<rparr>)" for t b
    by (auto intro!: steady_upd steady_frame simp: kept_defs)
  show ?thesis unfolding on_complete_frame_def Let_def
    by (auto intro!: a steady_more steady_trans [OF _ a(3)] steady_trans [OF _ a(2)] steady_trans [OF _ steady_complete_poll])
qed

lemma steady_gap_notify_rx: "steady s (gap_notify_rx e ch flat s)"
proof -
  have r: "steady t (upd_link k (\<lambda>l. l\<lparr>l_reasm := r\<rparr>) t)" for t k r by (rule steady_upd) (simp add: kept_defs)
  have f: "steady t (fold (on_complete_frame e k) fs t)" for t k fs by (rule steady_fold) (rule steady_on_complete_frame)
  have n: "steady s (snd (on_notify e k data s))" for k data
    unfolding on_notify_def Let_def case_prod_unfold by (auto intro!: steady_trans [OF _ f] steady_trans [OF _ r] steady_ops steady_refl)
  have d: "steady t (t\<lparr>bo_devinfo := x\<rparr>)" for t x by (rule steady_frame) simp_all
  show ?thesis unfolding gap_notify_rx_def Let_def case_prod_unfold
    by (auto intro!: steady_refl n steady_after steady_trans [OF _ d] split: option.split)
qed

lemma steady_gatt_write_done: "steady s (on_gatt_write_done e ch err attr cookie s)"
proof -
  have a: "steady t (upd_link k (\<lambda>l. l\<lparr>l_write_cookie := 0\<rparr>) t)" for t k by (rule steady_upd) (simp add: kept_defs)
  show ?thesis unfolding on_gatt_write_done_def Let_def
    by (auto intro!: steady_refl a steady_after steady_trans [OF _ steady_complete_poll] split: option.split)
qed

lemma steady_start_connect: "steady s (start_connect e k s)"
proof -
  have free: "steady t (upd_link k (\<lambda>l. l\<lparr>l_in_use := False\<rparr>) t)" for t by (rule steady_upd) (simp add: kept_defs)
  have i: "steady t (t\<lparr>bo_conn_inflight := x\<rparr>)" for t x by (rule steady_frame) simp_all
  show ?thesis unfolding start_connect_def Let_def case_prod_unfold
    by (auto intro!: steady_ops steady_after steady_trans [OF _ free] steady_trans [OF _ i] i)
qed

lemma steady_submit_write: "steady s (submit_write e k req handle wr data expected s)"
proof -
  have u: "steady t (upd_link k (\<lambda>l. l\<lparr>l_txn := req, l_txn_active := x, l_txn_deadline_us := d,
      l_want_record := w, l_poll_record_seen := False, l_write_handle := handle, l_write_cookie := c\<rparr>) t)"
    "steady t (upd_link k (\<lambda>l. l\<lparr>l_txn_active := False, l_write_cookie := 0\<rparr>) t)" "steady t (t\<lparr>bo_write_cookie := c\<rparr>)" for t x d w c
    by (auto intro!: steady_upd steady_frame simp: kept_defs)
  show ?thesis unfolding submit_write_def Let_def case_prod_unfold
    by (auto intro!: steady_ops steady_after steady_trans [OF _ u(1)] steady_trans [OF _ u(2)] u)
qed

lemma steady_exec_request: "steady s (exec_request e req s)"
proof -
  have t: "steady u (upd_link k (\<lambda>l. l\<lparr>l_txn_active := True, l_txn := req, l_txn_deadline_us := d\<rparr>) u)"
    "steady u (upd_link k (\<lambda>l. zero_link\<lparr>l_in_use := True, l_bms_id := i, l_reasm := r\<rparr>) u)" "steady u (u\<lparr>bo_nonce := x\<rparr>)"
    "steady u (reply e req st u)" for u k d i r x st
    by (auto intro!: steady_upd steady_frame simp: kept_defs zero_link_def reply_def)
  have c: "steady s (exec_connect e req lo s)" for lo
    unfolding exec_connect_def link_alloc_def Let_def
    by (auto intro!: t steady_trans [OF _ steady_start_connect] steady_trans [OF _ t(1)] split: option.split)
  have r: "steady s (exec_ready e req k s)" for k
    unfolding exec_ready_def Let_def case_prod_unfold
    by (auto intro!: t steady_refl steady_submit_write steady_ops steady_trans [OF _ t(4)] steady_trans [OF _ steady_submit_write] split: txn_kind.split)
  show ?thesis unfolding exec_request_def Let_def
    by (auto intro!: t c r split: option.split)
qed

lemma steady_sweep: "steady s (sweep_timeouts e s)"
proof -
  have a: "steady t (upd_link k (\<lambda>l. l\<lparr>l_timeout_strikes := l_timeout_strikes l + 1\<rparr>) t)" for t k by (rule steady_upd) (simp add: kept_defs)
  show ?thesis unfolding sweep_timeouts_def sweep_link_def Let_def
    by (rule steady_fold) (auto intro!: steady_refl steady_ops steady_discovery_terminate steady_discovery_fail steady_trans [OF _ a])
qed

lemma steady_renegotiate: "steady s (renegotiate e s)"
proof -
  have a: "steady t (upd_link k (\<lambda>l. l\<lparr>l_renegotiate_at_us := 0\<rparr>) t)" for t k by (rule steady_upd) (simp add: kept_defs)
  show ?thesis unfolding renegotiate_def renegotiate_link_def Let_def
    by (rule steady_fold) (auto intro!: a steady_refl steady_after)
qed

lemma steady_still:
  "steady s (serve_scan_req e s)" "steady s (ble_owner_scan_dump s)" "steady s (scan_dump_disc t a r n s)"
  "steady s (scan_dump_complete s)" "steady s (ble_owner_rawcap e m s)" "steady s (ble_owner_keepalive_read e s)"
  "steady s (s\<lparr>bo_state := ss\<rparr>)"
  by (rule steady_frame; auto simp: serve_scan_req_def do_scan_dump_def case_prod_unfold ble_owner_scan_dump_def scan_dump_disc_def
      scan_dump_complete_def ble_owner_rawcap_def ble_owner_keepalive_read_def Let_def ble_def split: option.split)+

lemma steady_set_ble: "steady s (ble_owner_set_ble e on s)"
proof -
  have a: "steady s (s\<lparr>bo_ble_enabled := b, bo_nvs := nv\<rparr>)" for b nv by (rule steady_frame) simp_all
  show ?thesis unfolding ble_owner_set_ble_def Let_def
    by (cases on) (auto intro!: a steady_trans [OF a steady_fold] steady_ops steady_refl)
qed

section \<open>The step that makes a link ready\<close>

text \<open>
  The pool around a successful completion: the subscription was pending on link \<open>k\<close>, the completion carries
  status zero and the handle of the link's CCCD, and the link keeps its unit, connection and handles.
\<close>

definition subscription_done :: "bo_event \<Rightarrow> link \<Rightarrow> link \<Rightarrow> bool" where
  "subscription_done ev l m \<longleftrightarrow> wait_sub l \<and> \<not> wait_sub m \<and> link_ident m = link_ident l \<and>
     ev = E_subscribed (l_conn_handle m) (Some 0) (Some (l_cccd_handle m)) (l_discovery_cookie m)"

lemma subscribe_done_step:
  assumes "k < length (bo_links s)"
  shows "steady s (on_subscribe_done e ch err attr cookie s) \<or>
    length (bo_links (on_subscribe_done e ch err attr cookie s)) = length (bo_links s) \<and>
    set (bo_calls s) \<subseteq> set (bo_calls (on_subscribe_done e ch err attr cookie s)) \<and>
    (kept (set (bo_calls s)) (lnk s k) (lnk (on_subscribe_done e ch err attr cookie s) k) \<or>
     subscription_done (E_subscribed ch err attr cookie) (lnk s k) (lnk (on_subscribe_done e ch err attr cookie s) k))"
proof (cases "discovery_link ch cookie s")
  case None
  then show ?thesis by (simp add: on_subscribe_done_def steady_refl)
next
  case (Some j)
  note d = discovery_link_Some [OF Some]
  show ?thesis
  proof (cases "l_subscription_pending (lnk s j) \<and> err = Some 0 \<and> attr = Some (l_cccd_handle (lnk s j))")
    case False
    then show ?thesis using steady_discovery_fail by (auto simp: on_subscribe_done_def Some steady_refl)
  next
    case True
    let ?t = "on_subscribe_done e ch err attr cookie s"
    have fr: "length (bo_links ?t) = length (bo_links s)" "bo_calls ?t = bo_calls s"
      using True by (auto simp: on_subscribe_done_def Some Let_def answer_def)
    have other: "lnk ?t i = lnk s i" if "i \<noteq> j" for i using True that by (auto simp: on_subscribe_done_def Some Let_def answer_def)
    have here: "subscription_done (E_subscribed ch err attr cookie) (lnk s j) (lnk ?t j)"
      using True d by (auto simp: on_subscribe_done_def Some Let_def answer_def nth_upd_unit subscription_done_def wait_sub_def link_ident_def)
    from fr other here show ?thesis by (cases "k = j") (auto simp: kept_refl)
  qed
qed

lemma step_kept:
  assumes "bo_inv s" "bo_legal s ev" "k < CFG_LINK_POOL_SIZE"
  shows "set (bo_calls s) \<subseteq> set (bo_calls (bo_step e ev s)) \<and>
    (kept (set (bo_calls (bo_step e ev s))) (lnk s k) (lnk (bo_step e ev s) k) \<or> subscription_done ev (lnk s k) (lnk (bo_step e ev s) k))"
proof -
  from assms(1) have len: "length (bo_links s) = CFG_LINK_POOL_SIZE" by (simp add: bo_inv_def)
  have steady: "?thesis" if "steady s (bo_step e ev s)" using that assms(3) len by (simp add: steady_def)
  show ?thesis
  proof (cases ev)
    case (E_subscribed ch err a c)
    with steady subscribe_done_step [of k s e ch err a c] assms(3) len show ?thesis by (auto simp: kept_def)
  next
    case (E_connect j status ch)
    with steady steady_gap_connect assms(2) len show ?thesis by simp
  qed (rule steady; simp add: steady_exec_request steady_sweep steady_renegotiate steady_still steady_set_ble steady_gap_disconnect
      steady_gap_notify_rx steady_on_svc_disc steady_on_chr_disc [OF assms(1)] steady_on_dsc_disc [OF assms(1)] steady_gatt_write_done)+
qed

section \<open>The run up to a ready link\<close>

text \<open>A step of the task over which link \<open>k\<close> stays ready, for the same unit, connection and handles.\<close>

definition ready_step :: "nat \<Rightarrow> bo \<Rightarrow> bo \<Rightarrow> bool" where
  "ready_step k s t \<longleftrightarrow> (\<exists>e ev. bo_legal s ev \<and> t = bo_step e ev s) \<and> link_on (lnk s k) \<and> link_on (lnk t k) \<and> link_ident (lnk t k) = link_ident (lnk s k)"

lemma pending_write_sent:
  assumes "bo_run n reqs s" "k < CFG_LINK_POOL_SIZE" "wait_sub (lnk s k)"
  shows "sub_call (lnk s k) \<in> set (bo_calls s)"
  using assms
proof (induction rule: bo_run.induct)
  case (start nv)
  then show ?case by (simp add: ble_owner_start_def wait_sub_def zero_link_def)
next
  case (step reqs s ev e)
  from bo_run_inv [OF step.hyps(1)] have "bo_inv s" by simp
  from step_kept [OF this step.hyps(2) step.prems(1), of e] step show ?case by (auto simp: kept_def subscription_done_def)
qed

definition verified_at :: "nat \<Rightarrow> bms_request list \<Rightarrow> nat \<Rightarrow> link \<Rightarrow> bo \<Rightarrow> benv \<Rightarrow> bo \<Rightarrow> bool" where
  "verified_at n reqs k l s0 e s \<longleftrightarrow> bo_run n reqs s0 \<and> wait_sub (lnk s0 k) \<and> link_ident (lnk s0 k) = link_ident l \<and>
     sub_call l \<in> set (bo_calls s0) \<and>
     rtranclp (ready_step k) (bo_step e (E_subscribed (l_conn_handle l) (Some 0) (Some (l_cccd_handle l)) (l_discovery_cookie l)) s0) s"

lemma ready_origin:
  assumes "bo_run n reqs s" "k < CFG_LINK_POOL_SIZE" "link_on (lnk s k)"
  shows "\<exists>reqs0 s0 e. verified_at n reqs0 k (lnk s k) s0 e s"
  using assms
proof (induction rule: bo_run.induct)
  case (start nv)
  then show ?case by (simp add: ble_owner_start_def link_on_def zero_link_def)
next
  case (step reqs s ev e)
  let ?t = "bo_step e ev s"
  from bo_run_inv [OF step.hyps(1)] have "bo_inv s" by simp
  from step_kept [OF this step.hyps(2) step.prems(1), of e]
  consider "kept (set (bo_calls ?t)) (lnk s k) (lnk ?t k)" | "subscription_done ev (lnk s k) (lnk ?t k)" by blast
  then show ?case
  proof cases
    case 1
    with step.prems(2) have u: "link_on (lnk s k)" "link_ident (lnk ?t k) = link_ident (lnk s k)" by (simp_all add: kept_def)
    with step.IH step.prems(1) obtain reqs0 s0 e0 where v: "verified_at n reqs0 k (lnk s k) s0 e0 s" by blast
    have "ready_step k s ?t" using u step.prems(2) step.hyps(2) by (auto simp: ready_step_def)
    with v u(2) have "verified_at n reqs0 k (lnk ?t k) s0 e0 ?t"
      by (auto simp: verified_at_def link_ident_def sub_call_def)
    then show ?thesis by blast
  next
    case 2
    then have "sub_call (lnk ?t k) = sub_call (lnk s k)" by (simp add: subscription_done_def link_ident_def sub_call_def)
    with 2 pending_write_sent [OF step.hyps(1) step.prems(1)] step.hyps(1)
    have "verified_at n reqs k (lnk ?t k) s e ?t" by (simp add: verified_at_def subscription_done_def)
    then show ?thesis by blast
  qed
qed

end
