(* ===== verification/Ble_Spec.thy ===== *)
theory Ble_Spec
  imports Ble_Ready
begin

text \<open>The properties of the BLE task, over every run of its critical sections.\<close>

section \<open>Transactions\<close>

text \<open>
  C27. Every transaction is answered exactly once. In every state the task can reach, whatever the radio, the
  phone, the timers and the other tasks do, the requests executed so far are, as a multiset of unit and
  command id, exactly the responses issued plus the transactions that are active on the links: no request is
  lost, none is answered twice, and no response is made up.
\<close>

theorem every_request_answered_once:
  assumes "bo_run n reqs s"
  shows "mset (map qkey reqs) = mset (map rkey (bo_issued s)) +
    mset (map (\<lambda>l. (l_bms_id l, rq_cmd_id (l_txn l))) (filter l_txn_active (bo_links s)))"
proof -
  have "(\<Sum>l\<leftarrow>ls. owed l) = mset (map (\<lambda>l. (l_bms_id l, rq_cmd_id (l_txn l))) (filter l_txn_active ls))" for ls
    by (induction ls) (simp_all add: owed_def)
  with bo_run_inv [OF assms] show ?thesis by (simp add: ledger_def)
qed

definition sample_benv :: benv where
  "sample_benv = \<lparr>be_now = 7, be_rsp_ok = (\<lambda>_ _. True), be_notify_ok = (\<lambda>_ _. True), be_decode_ok = (\<lambda>_ _. True), be_rc = (\<lambda>_ _. 0),
     be_fleet = [\<lparr>t_name = Some ''bank'', t_bms_id = 0, t_addr = [1, 2, 3, 4, 5, 6]\<rparr>], be_wifi_down_ms = 0, be_nvs_ok = True,
     be_rssi = (\<lambda>_. None)\<rparr>"

definition sample_nvs :: nvs where
  "sample_nvs = \<lparr>nv_harvest = (\<lambda>_. None), nv_ble_en = None, nv_meas = None\<rparr>"

definition sample_connect :: bms_request where
  "sample_connect = zero_request\<lparr>rq_kind := TXN_CONNECT, rq_source := SRC_INTERNAL, rq_cmd_id := 1, rq_timeout_ms := 9000\<rparr>"

text \<open>A connect is executed and brought up to a ready link, step by step as the stack reports it.\<close>

definition link_up_events :: "bo_event list" where
  "link_up_events =
     [E_set_ble True, E_exec sample_connect, E_connect 0 0 1,
      E_svc 1 (Some 0) (Some \<lparr>sv_uuid = 0xFFE0, sv_start = 10, sv_end = 20\<rparr>) 1,
      E_chr 1 (Some 0) (Some \<lparr>ch_uuid = 0xFFE1, ch_def = 11, ch_val = 12, ch_props = 0x1C\<rparr>) 1,
      E_chr 1 (Some 14) None 1,
      E_dsc 1 (Some 0) 12 (Some \<lparr>ds_uuid = 0x2902, ds_handle = 13\<rparr>) 1,
      E_dsc 1 (Some 14) 12 None 1,
      E_subscribed 1 (Some 0) (Some 13) 1]"

definition link_up_state :: bo where
  "link_up_state = fold (bo_step sample_benv) link_up_events (ble_owner_start 1 sample_nvs)"

fun legal_run :: "benv \<Rightarrow> bo_event list \<Rightarrow> bo \<Rightarrow> bool" where
  "legal_run e [] s = True"
| "legal_run e (ev # evs) s = (bo_legal s ev \<and> legal_run e evs (bo_step e ev s))"

lemma bo_run_events:
  "bo_run n reqs s \<Longrightarrow> legal_run e evs s \<Longrightarrow> bo_run n (reqs @ concat (map executed evs)) (fold (bo_step e) evs s)"
proof (induction evs arbitrary: reqs s)
  case (Cons ev evs)
  then have "bo_run n (reqs @ executed ev) (bo_step e ev s)" by (intro bo_run.step) simp_all
  with Cons show ?case by fastforce
qed simp

lemma pool_loops: "replicate CFG_LINK_POOL_SIZE x = [x, x, x, x]" "[0..<CFG_LINK_POOL_SIZE] = [0, 1, 2, 3]" "0 < CFG_LINK_POOL_SIZE"
  by (simp_all add: CFG_LINK_POOL_SIZE_def eval_nat_numeral)

lemmas ble_eval = bo_step.simps exec_request_def exec_connect_def link_by_bms_def link_by_conn_def link_alloc_def start_connect_def
  gap_connect_def discovery_start_def on_svc_disc_def on_chr_disc_def on_dsc_disc_def dsc_found_def on_subscribe_done_def
  secondary_descriptors_or_subscribe_def subscription_start_def answer_def respond_def own_set_link_state_def ble_def ble_publish_def
  discovery_link_def next_cookie_def note_chr_def chr_bad_def set_cccd_def idle_revoked_def ble_owner_set_ble_def nvs_put_ble_enabled_def
  name_for_def addr_for_def upd_link_def upd_unit_def Let_def zero_link_def zero_request_def ble_owner_start_def
  pool_loops CFG_WIFI_QUIESCE_MS_def JK_SVC_UUID_def JK_CHR_UUID_def JK_CHR2_UUID_def BLE_HS_EDONE_def

lemmas link_up_eval = link_up_state_def link_up_events_def sample_benv_def sample_nvs_def sample_connect_def ble_eval

text \<open>The first link after each step; the other slots stay free.\<close>

definition at_link :: "link \<Rightarrow> nat option \<Rightarrow> u32 \<Rightarrow> bo \<Rightarrow> bool" where
  "at_link l infl cookie s \<longleftrightarrow> bo_links s = [l, zero_link, zero_link, zero_link] \<and> bo_conn_inflight s = infl \<and>
     bo_discovery_cookie s = cookie \<and> \<not> bo_scan_active s \<and> bo_ble_enabled s"

definition up1 :: link where
  "up1 = zero_link\<lparr>l_in_use := True, l_reasm := jk_reasm_init JK_FRAME_JK02_32S, l_txn_active := True, l_txn := sample_connect,
     l_txn_deadline_us := 9000007\<rparr>"

definition up2 :: link where
  "up2 = up1\<lparr>l_conn_handle := 1, l_discovery_pending := True, l_discovery_cookie := 1\<rparr>"

definition up3 :: link where
  "up3 = up2\<lparr>l_service_seen := True, l_service_end := 20\<rparr>"

definition up4 :: link where
  "up4 = up3\<lparr>l_last_chr_value := 12, l_val_handle := 12, l_ffe1_props := 0x1C, l_ffe1_end := 20,
     l_table := zero_harvest\<lparr>h_chars := [\<lparr>cd_svc_uuid = 0xFFE0, cd_chr_uuid = 0xFFE1, cd_props = 0x1C\<rparr>]\<rparr>\<rparr>"

definition up5 :: link where
  "up5 = up4\<lparr>l_descriptor_phase := DSC_FFE1\<rparr>"

definition up6 :: link where
  "up6 = up5\<lparr>l_cccd_handle := 13\<rparr>"

definition up7 :: link where
  "up7 = up6\<lparr>l_descriptor_phase := DSC_DONE, l_subscription_pending := True\<rparr>"

definition up8 :: link where
  "up8 = up7\<lparr>l_subscription_pending := False, l_discovery_pending := False, l_table := (l_table up7)\<lparr>h_valid := True\<rparr>,
     l_table_ready := True, l_txn_active := False\<rparr>"

lemmas up_defs = up1_def up2_def up3_def up4_def up5_def up6_def up7_def up8_def

lemma up_start: "at_link zero_link None 0 (bo_step sample_benv (E_set_ble True) (ble_owner_start 1 sample_nvs))"
  by (simp add: at_link_def ble_owner_start_def ble_owner_set_ble_def pool_loops)

lemma sample_addr: "[1, 2, 3, 4, 5, 6] \<noteq> (replicate 6 0 :: byte list)"
  by (simp add: eval_nat_numeral)

lemma up_exec: "at_link zero_link None 0 s \<Longrightarrow> at_link up1 (Some 0) 0 (bo_step sample_benv (E_exec sample_connect) s)"
  by (simp add: at_link_def up_defs ble_eval sample_benv_def sample_connect_def sample_addr)

lemma up_connect: "at_link up1 (Some 0) 0 s \<Longrightarrow> at_link up2 None 1 (bo_step sample_benv (E_connect 0 0 1) s)"
  by (simp add: at_link_def up_defs ble_eval sample_benv_def)

lemma up_service:
  "at_link up2 None 1 s \<Longrightarrow> at_link up3 None 1 (bo_step sample_benv (E_svc 1 (Some 0) (Some \<lparr>sv_uuid = 0xFFE0, sv_start = 10, sv_end = 20\<rparr>) 1) s)"
  by (simp add: at_link_def up_defs ble_eval sample_benv_def)

lemma up_chr:
  "at_link up3 None 1 s \<Longrightarrow>
    at_link up4 None 1 (bo_step sample_benv (E_chr 1 (Some 0) (Some \<lparr>ch_uuid = 0xFFE1, ch_def = 11, ch_val = 12, ch_props = 0x1C\<rparr>) 1) s)"
  by (simp add: at_link_def up_defs ble_eval sample_benv_def)

lemma up_chrs: "at_link up4 None 1 s \<Longrightarrow> at_link up5 None 1 (bo_step sample_benv (E_chr 1 (Some 14) None 1) s)"
  by (simp add: at_link_def up_defs ble_eval sample_benv_def)

lemma up_dsc:
  "at_link up5 None 1 s \<Longrightarrow> at_link up6 None 1 (bo_step sample_benv (E_dsc 1 (Some 0) 12 (Some \<lparr>ds_uuid = 0x2902, ds_handle = 13\<rparr>) 1) s)"
  by (simp add: at_link_def up_defs ble_eval sample_benv_def)

lemma up_dscs: "at_link up6 None 1 s \<Longrightarrow> at_link up7 None 1 (bo_step sample_benv (E_dsc 1 (Some 14) 12 None 1) s)"
  by (simp add: at_link_def up_defs ble_eval sample_benv_def)

lemma up_subscribed: "at_link up7 None 1 s \<Longrightarrow> at_link up8 None 1 (bo_step sample_benv (E_subscribed 1 (Some 0) (Some 13) 1) s)"
  by (simp add: at_link_def up_defs ble_eval sample_benv_def sample_connect_def)

lemmas up_steps = up_subscribed [OF up_dscs [OF up_dsc [OF up_chrs [OF up_chr [OF up_service [OF up_connect [OF up_exec]]]]]]]

lemma link_up_state_eval: "at_link up8 None 1 link_up_state"
  unfolding link_up_state_def link_up_events_def using up_steps [OF up_start] by simp

lemma link_up_run: "bo_run 1 [sample_connect] link_up_state"
proof -
  have "bo_conn_inflight (bo_step sample_benv (E_exec sample_connect) (bo_step sample_benv (E_set_ble True) (ble_owner_start 1 sample_nvs))) = Some 0"
    using up_exec [OF up_start] by (simp add: at_link_def)
  then have "legal_run sample_benv link_up_events (ble_owner_start 1 sample_nvs)"
    by (simp add: link_up_events_def pool_loops)
  from bo_run_events [OF bo_run.start this] show ?thesis unfolding link_up_state_def by (simp add: link_up_events_def)
qed

theorem every_request_answered_once_witness:
  "mset (map rkey (bo_issued link_up_state)) = {#(0, 1)#}"
  using every_request_answered_once [OF link_up_run] link_up_state_eval
  by (simp add: at_link_def up_defs zero_link_def qkey_def sample_connect_def zero_request_def)

lemma sweep_link_due:
  assumes "bo_inv s" "k < CFG_LINK_POOL_SIZE"
  shows "l_txn_active (lnk (sweep_link e k s) k) \<longrightarrow> be_now e \<le> l_txn_deadline_us (lnk (sweep_link e k s) k)"
proof -
  from assms have ok: "link_ok (bo_conn_inflight s = Some k) (lnk s k)" and len: "k < length (bo_links s)" by (auto simp: bo_inv_def)
  then have inuse: "l_txn_active (lnk s k) \<Longrightarrow> l_in_use (lnk s k)" "l_txn_active (lnk s k) \<Longrightarrow> \<not> l_discovery_failed (lnk s k)"
    by (auto simp: link_ok_def)
  show ?thesis
  proof (cases "l_txn_active (lnk s k)")
    case True
    note act = True inuse [OF True]
    show ?thesis
    proof (cases "be_now e > l_txn_deadline_us (lnk s k)")
      case late: True
      then show ?thesis using act len
        by (auto simp: sweep_link_def Let_def discovery_fail_def discovery_terminate_def answer_def nth_upd_unit)
    next
      case False
      then show ?thesis using act by (simp add: sweep_link_def Let_def)
    qed
  next
    case False
    then show ?thesis using len by (auto simp: sweep_link_def Let_def discovery_terminate_def nth_upd_unit)
  qed
qed

lemma sweep_loop_due:
  assumes "bo_inv s" "m \<le> CFG_LINK_POOL_SIZE"
  shows "bo_inv (fold (sweep_link e) [0..<m] s) \<and> (\<forall>k<m. l_txn_active (lnk (fold (sweep_link e) [0..<m] s) k) \<longrightarrow>
    be_now e \<le> l_txn_deadline_us (lnk (fold (sweep_link e) [0..<m] s) k))"
  using assms(2)
proof (induction m)
  case (Suc m)
  let ?s = "fold (sweep_link e) [0..<m] s"
  from Suc have inv: "bo_inv ?s" and m: "m < CFG_LINK_POOL_SIZE" by simp_all
  have kp: "keeps m ?s (sweep_link e m ?s)" by (rule keeps_sweep_link)
  have "lnk (sweep_link e m ?s) k = lnk ?s k" if "k \<noteq> m" for k
    using kp bo_invD [OF inv m] that by (simp add: keeps_def)
  with Suc sweep_link_due [OF inv m, of e] keeps_inv [OF inv m kp] show ?case by (auto simp: less_Suc_eq)
qed (use assms in simp)

text \<open>
  C28. Every transaction is answered by its deadline. In every reachable state, after a sweep at time \<open>t\<close> no
  transaction whose deadline lies before \<open>t\<close> is active: also when its link is still discovering, or has
  failed and waits for the teardown.
\<close>

theorem no_transaction_outlives_its_deadline:
  assumes "bo_run n reqs s" and "k < CFG_LINK_POOL_SIZE"
  shows "l_txn_active (lnk (sweep_timeouts e s) k) \<longrightarrow> be_now e \<le> l_txn_deadline_us (lnk (sweep_timeouts e s) k)"
  using sweep_loop_due [of s CFG_LINK_POOL_SIZE e] bo_run_inv [OF assms(1)] assms(2) by (simp add: sweep_timeouts_def)

lemma sweep_link_deadline: "l_txn_deadline_us (lnk (sweep_link e j s) k) = l_txn_deadline_us (lnk s k)"
  by (simp add: sweep_link_def Let_def discovery_fail_def discovery_terminate_def answer_def mark_failed_def nth_upd_unit_field)

lemma sweep_deadline: "l_txn_deadline_us (lnk (sweep_timeouts e s) k) = l_txn_deadline_us (lnk s k)"
  unfolding sweep_timeouts_def
  by (rule fold_inv [where I = "\<lambda>t. l_txn_deadline_us (lnk t k) = l_txn_deadline_us (lnk s k)"]) (simp_all add: sweep_link_deadline)

definition late_benv :: benv where
  "late_benv = sample_benv\<lparr>be_now := 9000008\<rparr>"

definition connecting_state :: bo where
  "connecting_state = fold (bo_step sample_benv) [E_set_ble True, E_exec sample_connect] (ble_owner_start 1 sample_nvs)"

lemma connecting_run: "bo_run 1 [sample_connect] connecting_state"
  using bo_run_events [OF bo_run.start, of sample_benv "[E_set_ble True, E_exec sample_connect]"] by (simp add: connecting_state_def)

theorem no_transaction_outlives_its_deadline_witness:
  "l_txn_active (lnk connecting_state 0) \<and> \<not> l_txn_active (lnk (sweep_timeouts late_benv connecting_state) 0)"
proof -
  have c: "at_link up1 (Some 0) 0 connecting_state" using up_exec [OF up_start] by (simp add: connecting_state_def)
  then have "l_txn_deadline_us (lnk (sweep_timeouts late_benv connecting_state) 0) = 9000007"
    by (simp add: sweep_deadline at_link_def up_defs)
  moreover have "l_txn_active (lnk connecting_state 0)" using c by (simp add: at_link_def up_defs)
  ultimately show ?thesis using no_transaction_outlives_its_deadline [OF connecting_run, of 0 late_benv] pool_loops(3)
    by (simp add: late_benv_def)
qed

section \<open>Links\<close>

text \<open>
  C29. A ready link is a verified link. In every reachable state a unit has at most one link, and a link that counts
  as ready has a CCCD that lies behind the FFE1 value and inside the descriptor range of
  FFE1, before the next characteristic and inside the service; an FFE2 subscription, if there is one, uses a
  descriptor of FFE2's own range. And it was subscribed through that CCCD: the run went through a state \<open>s0\<close> in
  which the subscription of this link was pending and the write that enables its notifications had been
  handed to NimBLE; the next event reported, for this connection, this CCCD and this
  discovery, the success of that write; from then on the link has been ready at every moment. Results that
  arrive late, out of order, for another connection, or from an
  earlier discovery of a reused slot cannot bring a link into that state otherwise.
\<close>

theorem ready_link_is_verified:
  assumes "bo_run n reqs s" and "k < CFG_LINK_POOL_SIZE" and "l_in_use (lnk s k)" and "l_table_ready (lnk s k)"
  shows "l_val_handle (lnk s k) \<noteq> 0 \<and> l_val_handle (lnk s k) < l_cccd_handle (lnk s k) \<and>
    l_cccd_handle (lnk s k) \<le> l_ffe1_end (lnk s k) \<and> l_ffe1_end (lnk s k) \<le> l_service_end (lnk s k) \<and>
    (l_ffe2_cccd_handle (lnk s k) \<noteq> 0 \<longrightarrow>
       l_ffe2_handle (lnk s k) < l_ffe2_cccd_handle (lnk s k) \<and> l_ffe2_cccd_handle (lnk s k) \<le> l_ffe2_end (lnk s k)) \<and>
    (\<forall>j<CFG_LINK_POOL_SIZE. l_in_use (lnk s j) \<and> l_bms_id (lnk s j) = l_bms_id (lnk s k) \<longrightarrow> j = k) \<and>
    (\<exists>reqs0 s0 e. bo_run n reqs0 s0 \<and> l_in_use (lnk s0 k) \<and> l_subscription_pending (lnk s0 k) \<and>
       link_ident (lnk s0 k) = link_ident (lnk s k) \<and>
       Gattc_write_flat (l_conn_handle (lnk s k)) (l_cccd_handle (lnk s k)) [0x01, 0x00]
         (Subscribe_cb (l_discovery_cookie (lnk s k))) \<in> set (bo_calls s0) \<and>
       rtranclp (ready_step k)
         (bo_step e (E_subscribed (l_conn_handle (lnk s k)) (Some 0) (Some (l_cccd_handle (lnk s k)))
            (l_discovery_cookie (lnk s k))) s0) s)"
proof -
  from bo_run_inv [OF assms(1)] have inv: "bo_inv s" by simp
  with bo_invD [OF inv assms(2)] assms(3,4) have g: "gatt_ok (lnk s k)" and p: "l_descriptor_phase (lnk s k) = DSC_DONE"
    by (auto simp: link_ok_def)
  from inv assms(2,3) have "\<forall>j<CFG_LINK_POOL_SIZE. l_in_use (lnk s j) \<and> l_bms_id (lnk s j) = l_bms_id (lnk s k) \<longrightarrow> j = k"
    unfolding bo_inv_def by blast
  moreover from ready_origin [OF assms(1,2)] assms(3,4) obtain reqs0 s0 e where "verified_at n reqs0 k (lnk s k) s0 e s"
    by (auto simp: link_on_def)
  note this [unfolded verified_at_def wait_sub_def sub_call_def]
  ultimately show ?thesis using g p unfolding gatt_ok_def by blast
qed

theorem ready_link_is_verified_witness:
  "l_table_ready (lnk link_up_state 0) \<and> l_val_handle (lnk link_up_state 0) < l_cccd_handle (lnk link_up_state 0)"
  using ready_link_is_verified [OF link_up_run, of 0] link_up_state_eval
  by (simp add: pool_loops at_link_def up_defs)

section \<open>The idle-release fence\<close>

lemma reply_calls [simp]: "bo_calls (reply e req st s) = bo_calls s"
  by (simp add: reply_def)

text \<open>
  C30. An idle release never cuts off a phone. The supervisor decides on a snapshot \<open>ss\<close> of the state cache and
  puts the unit's epoch into the request; the request then waits in two queues while other tasks work. If
  executing it calls into the radio at all, then it is a teardown, and at every moment since the
  snapshot, whatever fewer than \<open>2 ^ 64\<close> operations ran meanwhile, the link was held and no phone was connected
  to the unit.
\<close>

theorem idle_release_is_safe:
  assumes "rq_idle_only req" and "rq_bms_id req < length ss" and "rq_idle_epoch req = epoch (ss ! rq_bms_id req)"
    and "bo_state s = sc_run as ss" and "length as < 2 ^ 64" and "bo_calls (exec_request e req s) \<noteq> bo_calls s"
  shows "rq_kind req = TXN_DISCONNECT \<and> edges (sc_run (take n as) ss ! rq_bms_id req) = (False, True)"
proof -
  let ?i = "rq_bms_id req"
  have "\<not> idle_revoked req s" using assms(6) by (auto simp: exec_request_def Let_def)
  moreover have "state_get_runtime ?i (bo_state s) = st_rt (sc_run as ss ! ?i)"
    using assms(2,4) by (simp add: state_get_runtime_def length_sc_run)
  ultimately have now: "rq_kind req = TXN_DISCONNECT" "edges (sc_run as ss ! ?i) = (False, True)" "epoch (sc_run as ss ! ?i) = epoch (ss ! ?i)"
    using assms(1,3) by (auto simp: idle_revoked_def Let_def)
  from epoch_fence [OF assms(2,5) now(3), of "length as"] epoch_fence [OF assms(2,5) now(3), of n] now(1,2)
  show ?thesis by simp
qed

definition idle_state :: bo where
  "idle_state = link_up_state\<lparr>bo_state := state_set_link_state 0 LINK_UP True 7 (state_cache_init 1)\<rparr>"

definition sample_idle :: bms_request where
  "sample_idle = zero_request\<lparr>rq_kind := TXN_DISCONNECT, rq_source := SRC_INTERNAL, rq_cmd_id := 2, rq_idle_only := True, rq_idle_epoch := 1\<rparr>"

theorem idle_release_is_safe_witness:
  "edges (sc_run (take 1 [(0, Note_frame 9)]) (state_set_link_state 0 LINK_UP True 7 (state_cache_init 1)) ! 0) = (False, True)"
proof -
  let ?ss = "state_set_link_state 0 LINK_UP True 7 (state_cache_init 1)"
  define s where "s = idle_state\<lparr>bo_state := sc_run [(0, Note_frame 9)] ?ss\<rparr>"
  have l: "bo_links s = [up8, zero_link, zero_link, zero_link]"
    using link_up_state_eval by (simp add: s_def idle_state_def at_link_def)
  have rt: "state_get_runtime 0 (bo_state s) = st_rt (sc_run [(0, Note_frame 9)] ?ss ! 0)"
    by (simp add: s_def state_get_runtime_def sc_apply_upd_unit state_set_link_state_def upd_rt_def state_cache_init_def)
  have facts: "brt_link_held (st_rt (sc_run [(0, Note_frame 9)] ?ss ! 0))" "\<not> brt_app_connected (st_rt (sc_run [(0, Note_frame 9)] ?ss ! 0))"
      "brt_idle_epoch (st_rt (sc_run [(0, Note_frame 9)] ?ss ! 0)) = 1" "epoch (?ss ! 0) = 1"
    by (simp_all add: sc_apply.simps state_note_frame_def state_set_link_state_def upd_rt_def upd_unit_def note_frame_def set_link_state_def
        state_cache_init_def zero_runtime_def Let_def)
  have "bo_calls (exec_request sample_benv sample_idle s) = bo_calls s @ [Gap_terminate 1]"
    using l rt facts
    by (simp add: exec_request_def idle_revoked_def Let_def link_by_bms_def exec_ready_def up_defs zero_link_def sample_idle_def zero_request_def)
  then show ?thesis
    using idle_release_is_safe [of sample_idle ?ss s "[(0, Note_frame 9)]" sample_benv 1] facts(4)
    by (simp add: sample_idle_def zero_request_def s_def state_set_link_state_def upd_rt_def state_cache_init_def)
qed

section \<open>From the radio to the decoder\<close>

definition record_item :: "nat \<Rightarrow> byte list \<Rightarrow> notify_item" where
  "record_item i fr = \<lparr>ni_bms_id = i, ni_idx = 0, ni_raw = False, ni_data = fr\<rparr>"

text \<open>What the notification path leaves alone: the slot's identity and its reassembler.\<close>

definition same_route :: "link \<Rightarrow> link \<Rightarrow> bool" where
  "same_route l l' \<longleftrightarrow> l_in_use l' = l_in_use l \<and> l_conn_handle l' = l_conn_handle l \<and> l_bms_id l' = l_bms_id l \<and>
     l_discovery_pending l' = l_discovery_pending l \<and> l_discovery_failed l' = l_discovery_failed l \<and> l_table_ready l' = l_table_ready l"

definition routed :: "u16 \<Rightarrow> nat \<Rightarrow> bo \<Rightarrow> bo \<Rightarrow> bool" where
  "routed ch k s t \<longleftrightarrow> link_by_conn ch t = link_by_conn ch s \<and> l_bms_id (lnk t k) = l_bms_id (lnk s k) \<and> length (bo_links t) = length (bo_links s)"

lemma routed_refl: "routed ch k s s" and routed_trans: "routed ch k s t \<Longrightarrow> routed ch k t u \<Longrightarrow> routed ch k s u"
  by (simp_all add: routed_def)

lemma routed_upd: "(\<And>l. same_route l (f l)) \<Longrightarrow> routed ch k s (upd_link k f s)"
  by (auto simp: routed_def link_by_conn_def same_route_def intro!: find_index_upd_unit nth_upd_unit_field)

lemma routed_links: "bo_links t = bo_links s \<Longrightarrow> routed ch k s t"
  by (simp add: routed_def link_by_conn_def)

lemma routed_answer: "routed ch k s (answer e k st s)"
  unfolding answer_def
  by (rule routed_trans [OF routed_upd [where f = "\<lambda>l. l\<lparr>l_txn_active := False\<rparr>"] routed_links]) (simp_all add: same_route_def)

lemma routed_complete_frame: "routed ch k s (on_complete_frame e k fr s)"
proof -
  let ?u = "upd_link k (\<lambda>l. l\<lparr>l_timeout_strikes := 0\<rparr>) s"
  define it where "it = \<lparr>ni_bms_id = l_bms_id (lnk ?u k), ni_idx = 0, ni_raw = False, ni_data = fr\<rparr>"
  define v where "v = send_decode e it (send_notify e it ?u)"
  define w where "w = v\<lparr>bo_state := state_note_frame (l_bms_id (lnk v k)) (be_now e) (bo_state v)\<rparr>"
  have "routed ch k s ?u" by (rule routed_upd) (simp add: same_route_def)
  moreover have "routed ch k ?u w" by (rule routed_links) (simp add: w_def v_def)
  ultimately have w: "routed ch k s w" by (rule routed_trans)
  have p: "routed ch k t (upd_link k (\<lambda>l. l\<lparr>l_poll_record_seen := True\<rparr>) t)" for t
    by (rule routed_upd) (simp add: same_route_def)
  have c: "routed ch k t (complete_poll_if_ready e k t)" for t
    by (simp add: complete_poll_if_ready_def Let_def routed_refl routed_answer)
  show ?thesis using w routed_trans [OF routed_trans [OF w p] c]
    unfolding on_complete_frame_def Let_def it_def [symmetric] v_def [symmetric] w_def [symmetric] by simp
qed

lemma complete_frame_decode:
  assumes "\<And>q it. be_decode_ok e q it"
  shows "bo_decode_q (on_complete_frame e k fr s) = bo_decode_q s @ [record_item (l_bms_id (lnk s k)) fr]"
    "l_reasm (lnk (on_complete_frame e k fr s) k) = l_reasm (lnk s k)"
  using assms
  by (simp_all add: on_complete_frame_def Let_def send_decode_def send_notify_def complete_poll_if_ready_def answer_def record_item_def
      nth_upd_unit_field)

lemma complete_frames_decode:
  assumes "\<And>q it. be_decode_ok e q it"
  shows "bo_decode_q (fold (on_complete_frame e k) fs s) = bo_decode_q s @ map (record_item (l_bms_id (lnk s k))) fs \<and>
    l_reasm (lnk (fold (on_complete_frame e k) fs s) k) = l_reasm (lnk s k) \<and> routed ch k s (fold (on_complete_frame e k) fs s)"
proof (induction fs arbitrary: s)
  case (Cons fr fs)
  have "routed ch k s (on_complete_frame e k fr s)" by (rule routed_complete_frame)
  with Cons [of "on_complete_frame e k fr s"] show ?case
    by (auto simp: complete_frame_decode [OF assms] routed_def)
qed (simp add: routed_refl)

lemma notify_rx_decode:
  assumes "\<And>q it. be_decode_ok e q it" "length c \<le> 256" "link_by_conn ch s = Some k" "notify_frames (l_reasm (lnk s k)) c = (r, fs)"
  shows "bo_decode_q (gap_notify_rx e ch (Some c) s) = bo_decode_q s @ map (record_item (l_bms_id (lnk s k))) fs \<and>
    l_reasm (lnk (gap_notify_rx e ch (Some c) s) k) = r \<and> routed ch k s (gap_notify_rx e ch (Some c) s)"
proof -
  define u where "u = (if brt_app_connected (state_get_runtime (l_bms_id (lnk s k)) (bo_state s)) \<and> length c \<le> JK_FRAME_MAX
     then send_notify e \<lparr>ni_bms_id = l_bms_id (lnk s k), ni_idx = 0, ni_raw = True, ni_data = c\<rparr> s else s)"
  define v where "v = upd_link k (\<lambda>l. l\<lparr>l_reasm := r\<rparr>) u"
  have lu: "bo_links u = bo_links s" "bo_decode_q u = bo_decode_q s" by (simp_all add: u_def send_notify_def)
  have k: "k < length (bo_links s)" by (rule link_by_conn_Some [OF assms(3)])
  have v: "bo_decode_q v = bo_decode_q s" "l_reasm (lnk v k) = r" "l_bms_id (lnk v k) = l_bms_id (lnk s k)"
    using k lu by (simp_all add: v_def nth_upd_unit)
  have "routed ch k u v" unfolding v_def by (rule routed_upd) (simp add: same_route_def)
  then have rv: "routed ch k s v" using routed_trans [OF routed_links [of u s]] lu(1) by blast
  let ?w = "fold (on_complete_frame e k) fs v"
  have w: "bo_decode_q ?w = bo_decode_q s @ map (record_item (l_bms_id (lnk s k))) fs" "l_reasm (lnk ?w k) = r" "routed ch k s ?w"
    using complete_frames_decode [OF assms(1), where ch = ch and k = k and fs = fs and s = v] v routed_trans [OF rv] by auto
  have "snd (on_notify e k c s) = ?w"
    using assms(4) lu by (simp add: on_notify_def Let_def u_def [symmetric] v_def [symmetric])
  then have "bo_links (gap_notify_rx e ch (Some c) s) = bo_links ?w \<and> bo_decode_q (gap_notify_rx e ch (Some c) s) = bo_decode_q ?w"
    using assms(2,3) by (simp add: gap_notify_rx_def Let_def case_prod_unfold)
  with w show ?thesis by (simp add: routed_def link_by_conn_def)
qed

text \<open>
  C31. The decoder gets every record. Let a unit's link be routed, its reassembler be as after power-up, and
  the unit send any stream of valid records with magic-free bytes around them, cut into notifications of at
  most 256 bytes in any way, between which the phone may come and go and polls may complete. Then, as long as
  the decoder's queue has room, exactly these records are queued for the decoder, in order, under
  the unit's id.
\<close>

theorem decoder_gets_every_record:
  assumes "link_by_conn ch s = Some k" and "l_reasm (lnk s k) = jk_reasm_init ver"
    and "list_all (\<lambda>(e, c). (\<forall>q it. be_decode_ok e q it) \<and> length c \<le> 256) ecs"
    and "concat (map snd ecs) = concat (map (\<lambda>(n, f). n @ f) nfs) @ t"
    and "list_all (\<lambda>(n, f). \<not> sublist JK02_MAGIC n \<and> valid_frame f) nfs" and "\<not> sublist JK02_MAGIC t"
  shows "bo_decode_q (fold (\<lambda>(e, c). gap_notify_rx e ch (Some c)) ecs s) =
    bo_decode_q s @ map (\<lambda>(n, f). record_item (l_bms_id (lnk s k)) f) nfs"
proof -
  have feed: "bo_decode_q (fold (\<lambda>(e, c). gap_notify_rx e ch (Some c)) ecs s) =
      bo_decode_q s @ map (record_item (l_bms_id (lnk s k))) (snd (feed_chunks (l_reasm (lnk s k)) (map snd ecs)))"
    using assms(1,3)
  proof (induction ecs arbitrary: s)
    case (Cons ec ecs)
    obtain e c where ec: "ec = (e, c)" by fastforce
    obtain r fs where nf: "notify_frames (l_reasm (lnk s k)) c = (r, fs)" by fastforce
    let ?s = "gap_notify_rx e ch (Some c) s"
    have one: "bo_decode_q ?s = bo_decode_q s @ map (record_item (l_bms_id (lnk s k))) fs" "l_reasm (lnk ?s k) = r" "routed ch k s ?s"
      using notify_rx_decode [OF _ _ Cons.prems(1) nf, of e] Cons.prems(2) ec by auto
    then have "link_by_conn ch ?s = Some k" "l_bms_id (lnk ?s k) = l_bms_id (lnk s k)" using Cons.prems(1) by (simp_all add: routed_def)
    with Cons.IH [of ?s] Cons.prems(2) one nf ec show ?case by (auto simp: case_prod_unfold)
  qed simp
  have "r_want (jk_reasm_init ver) = 0" "r_have (jk_reasm_init ver) = 0" by (simp_all add: jk_reasm_init_def)
  from reasm_run_complete [OF reasm_wf_init this assms(6,5)] assms(2,4)
  have "snd (feed_chunks (l_reasm (lnk s k)) (map snd ecs)) = map snd nfs" by (simp add: feed_chunks_run)
  with feed show ?thesis by (simp add: case_prod_unfold comp_def)
qed

theorem decoder_gets_every_record_witness:
  "bo_decode_q (fold (\<lambda>(e, c). gap_notify_rx e 1 (Some c)) [(sample_benv, 0x55 # take 200 sample_frame), (sample_benv, drop 200 sample_frame)]
     link_up_state) = bo_decode_q link_up_state @ [record_item 0 sample_frame]"
proof -
  have l: "bo_links link_up_state = [up8, zero_link, zero_link, zero_link]" using link_up_state_eval by (simp add: at_link_def)
  then have "link_by_conn 1 link_up_state = Some 0" "l_reasm (lnk link_up_state 0) = jk_reasm_init JK_FRAME_JK02_32S"
      "l_bms_id (lnk link_up_state 0) = 0"
    by (simp_all add: link_by_conn_def up_defs zero_link_def)
  moreover have noise: "\<not> sublist JK02_MAGIC [0x55]" "\<not> sublist JK02_MAGIC []"
    by (simp_all add: no_magic_short) (simp add: JK02_MAGIC_def)
  ultimately show ?thesis using decoder_gets_every_record [of 1 link_up_state 0 JK_FRAME_JK02_32S
      "[(sample_benv, 0x55 # take 200 sample_frame), (sample_benv, drop 200 sample_frame)]" "[([0x55], sample_frame)]" "[]"]
    by (simp add: sample_frame_valid noise length_sample_frame sample_benv_def)
qed

end
