(* ===== verification/Node_B_Spec.thy ===== *)
theory Node_B_Spec
  imports Node_B
begin

text \<open>
  What the phone receives from node B, and the end of the grace window. The environment is \<open>calm\<close> where a property
  is about the bytes that reach the phone: submissions succeed and no host event falls between two chunks.
\<close>

section \<open>Notifications in a calm environment\<close>

definition calm :: "nenv \<Rightarrow> bool" where
  "calm e \<longleftrightarrow> ne_intf e = (\<lambda>_. []) \<and> ne_rc e = (\<lambda>_ _. 0) \<and> ne_mbuf_ok e = (\<lambda>_. True)"

text \<open>The bytes submitted to connection \<open>h\<close>, in order.\<close>

fun notified :: "u16 \<Rightarrow> nb_call \<Rightarrow> byte list" where
  "notified h (Notify h' d) = (if h' = h then d else [])"
| "notified h _ = []"

definition phone_bytes :: "u16 \<Rightarrow> nb \<Rightarrow> byte list" where
  "phone_bytes h s = concat (map (notified h) (nb_calls s))"

definition session :: "nat \<Rightarrow> nb \<Rightarrow> nb_notify_session" where
  "session i s = nb_get_notify_session i (nb_s s)"

definition subscribed :: "nb_notify_session \<Rightarrow> bool" where
  "subscribed it \<longleftrightarrow> ns_connected it \<and> ns_notify_enabled it"

lemma disturb_calm [simp]: "calm e \<Longrightarrow> disturb e s = s"
  by (simp add: disturb_def calm_def)

lemma phone_bytes_do [simp]: "phone_bytes h (snd (nb_do e c s)) = phone_bytes h s @ notified h c"
  by (simp add: phone_bytes_def)

lemma phone_bytes_cong: "nb_calls s = nb_calls s' \<Longrightarrow> phone_bytes h s = phone_bytes h s'"
  by (simp add: phone_bytes_def)

lemma notify_loop_calm:
  assumes pos: "0 < chunk" and "calm e" and "same_session it (session i s)" and "clean"
  shows "\<exists>s'. notify_loop e i it chunk data clean s = (True, s') \<and> nb_s s' = nb_s s \<and> nb_live s' = nb_live s \<and>
    nb_ctr s' = nb_ctr s \<and> phone_bytes (ns_conn_handle it) s' = phone_bytes (ns_conn_handle it) s @ data"
  using assms
proof (induction data clean s rule: chunk_induct)
  case (chunk data clean s)
  let ?s1 = "snd (nb_do e (Notify (ns_conn_handle it) (take chunk data)) s)"
  have "same_session it (session i ?s1)" using chunk.prems(2) by (simp add: session_def)
  from chunk.IH [OF chunk.prems(1) this TrueI] obtain s' where s': "notify_loop e i it chunk (drop chunk data) True ?s1 = (True, s')" "nb_s s' = nb_s ?s1"
      "nb_live s' = nb_live ?s1" "nb_ctr s' = nb_ctr ?s1"
      "phone_bytes (ns_conn_handle it) s' = phone_bytes (ns_conn_handle it) ?s1 @ drop chunk data"
    by blast
  have "notify_loop e i it chunk data clean s = notify_loop e i it chunk (drop chunk data) True ?s1"
  proof -
    have "disturb e s = s" using chunk.prems(1) by simp
    moreover have "same_session it (nb_get_notify_session i (nb_s s))" using chunk.prems(2) by (simp add: session_def)
    moreover have "ne_mbuf_ok e (nb_calls s)" "fst (nb_do e c s) = 0" for c using chunk.prems(1) by (simp_all add: calm_def)
    ultimately show ?thesis using chunk.prems(3)
      by (subst notify_loop_step [OF \<open>data \<noteq> []\<close> pos refl]) (simp only: if_False simp_thms)
  qed
  with s' show ?case by simp
qed auto

lemma session_dev [simp]:
  "nb_get_notify_session i (nb_note_dev_forwarded t j ep st) = nb_get_notify_session i st"
  by (cases "j < length (nb_ids st)")
     (auto simp: nb_get_notify_session_def nb_note_dev_forwarded_def nth_upd_unit session_of_def)

lemma warm_dev [simp]: "warm_record now i rec (nb_note_dev_forwarded t j ep st) = warm_record now i rec st"
  by (auto simp: warm_record_def nb_get_warm_def nb_get_warm_dev_def nb_note_dev_forwarded_def Let_def nth_upd_unit_field)

lemma notify_session_calm:
  assumes "calm e" and "subscribed (session i s)"
  shows "\<exists>s'. notify_session e i data (session i s) s = (True, s') \<and> session i s' = session i s \<and> nb_live s' = nb_live s \<and>
    nb_ctr s' = nb_ctr s \<and> (\<forall>now rec. warm_record now i rec (nb_s s') = warm_record now i rec (nb_s s)) \<and> nb_units s' = nb_units s \<and>
    phone_bytes (ns_conn_handle (session i s)) s' = phone_bytes (ns_conn_handle (session i s)) s @ data"
proof -
  let ?it = "session i s" and ?h = "ns_conn_handle (session i s)"
  define s1 where "s1 = (if take 5 data = DEVINFO_HEADER then on_state (nb_note_dev_forwarded (ne_now e) i (ns_epoch ?it)) s else s)"
  have s1: "session i s1 = ?it" "nb_live s1 = nb_live s" "nb_ctr s1 = nb_ctr s" "phone_bytes ?h s1 = phone_bytes ?h s" "nb_units s1 = nb_units s"
      "\<forall>now rec. warm_record now i rec (nb_s s1) = warm_record now i rec (nb_s s)"
    by (simp_all add: s1_def session_def phone_bytes_def) (simp add: nb_note_dev_forwarded_def)
  have "same_session ?it (session i s1)" using assms(2) s1(1) by (simp add: same_session_def subscribed_def)
  from notify_loop_calm [OF chunk_size_pos assms(1) this TrueI] obtain s' where
    "notify_loop e i ?it (chunk_size (ne_mtu e ?h)) data True s1 = (True, s')" "nb_s s' = nb_s s1" "nb_live s' = nb_live s1"
    "nb_ctr s' = nb_ctr s1" "phone_bytes ?h s' = phone_bytes ?h s1 @ data" by blast
  moreover have "notify_session e i data ?it s = notify_loop e i ?it (chunk_size (ne_mtu e ?h)) data True s1"
    using assms(2) by (simp add: notify_session_def subscribed_def s1_def Let_def)
  ultimately show ?thesis using s1 by (auto simp: session_def)
qed

section \<open>The live stream\<close>

text \<open>The offset of the first record of a stream.\<close>

definition first_record :: "byte list \<Rightarrow> nat \<Rightarrow> bool" where
  "first_record raw k \<longleftrightarrow> record_at raw k \<and> (\<forall>j < k. \<not> record_at raw j)"

lemma first_record_mono: "first_record raw k \<Longrightarrow> first_record (raw @ c) k"
  unfolding first_record_def record_at_def by (auto simp: STREAM_START_RECORD_LEN_def)

text \<open>
  What the alignment has achieved after the raw bytes \<open>raw\<close> of the session: nothing has been sent and the buffer is
  where the search stands, or all bytes from the first record on have been sent.
\<close>

definition streaming :: "nat \<Rightarrow> nb_notify_session \<Rightarrow> byte list \<Rightarrow> byte list \<Rightarrow> nb \<Rightarrow> bool" where
  "streaming i it old raw s \<longleftrightarrow> session i s = it \<and> i < nb_units s \<and> i < length (nb_live s) \<and>
     (if lv_epoch (nb_live s ! i) \<noteq> ns_epoch it then raw = [] \<and> phone_bytes (ns_conn_handle it) s = old
      else if lv_aligned (nb_live s ! i)
      then \<exists>k. first_record raw k \<and> phone_bytes (ns_conn_handle it) s = old @ drop k raw
      else ss_inv raw (lv_start (nb_live s ! i)) \<and> phone_bytes (ns_conn_handle it) s = old)"

lemma streaming_sync:
  assumes "streaming i it old raw s"
  shows "streaming i it old raw (sync_live i it s) \<and> lv_epoch (nb_live (sync_live i it s) ! i) = ns_epoch it"
  using assms ss_inv_Nil
  by (auto simp: streaming_def sync_live_def session_def upd_unit_same phone_bytes_def split: if_splits)

text \<open>A hit of the search ends the first record of the stream.\<close>

lemma hit_first_record:
  assumes "ss_inv raw d" and "stream_start_push d c = (d', True, n)"
  shows "n \<le> length c \<and> (\<exists>k. first_record (raw @ c) k \<and> drop k (raw @ c) = d' @ drop n c)"
proof -
  note inv = ss_loop_inv [OF assms(1), of c 0 d' True n, folded stream_start_push_def, OF assms(2)]
  then obtain p where p: "raw @ take n c = p @ d'" "\<forall>j < length p. dead (drop j (raw @ take n c))"
    and d: "ss_record d'" and n: "n \<le> length c" by (auto simp del: drop_append)
  have all: "raw @ c = p @ d' @ drop n c" using p(1) append_take_drop_id [of n c] by (metis append.assoc)
  have "length d' = 300" using d by (simp add: ss_record_def STREAM_START_RECORD_LEN_def)
  then have "record_at (raw @ c) (length p)" using d unfolding all by (simp add: record_at_def STREAM_START_RECORD_LEN_def)
  moreover have "\<not> record_at (raw @ c) j" if "j < length p" for j
  proof -
    have "dead (drop j (p @ d'))" using p that by metis
    from dead_no_record [OF this, of "drop n c"] show ?thesis by (simp add: all)
  qed
  ultimately have "first_record (raw @ c) (length p)" by (simp add: first_record_def)
  with n all show ?thesis by auto
qed

lemma miss_search:
  assumes "ss_inv raw d" and "stream_start_push d c = (d', False, n)"
  shows "ss_inv (raw @ c) d'"
  using ss_loop_inv [OF assms(1), of c 0 d' False n, folded stream_start_push_def, OF assms(2)] by simp

lemma session_upd_live [simp]: "session i (upd_live j f s) = session i s"
  by (simp add: session_def)

lemma phone_upd_live [simp]: "phone_bytes h (upd_live j f s) = phone_bytes h s"
  by (simp add: phone_bytes_def)

text \<open>The search on one chunk, and the chunk that follows an open gate.\<close>

lemma streaming_align:
  assumes str: "streaming i it old raw s" and calm: "calm e" and sub: "subscribed it"
    and ep: "lv_epoch (nb_live s ! i) = ns_epoch it" "\<not> lv_aligned (nb_live s ! i)"
  shows "case align_stream e i c it s of
      (None, s') \<Rightarrow> streaming i it old (raw @ c) s'
    | (Some rest, s') \<Rightarrow> \<exists>k r. first_record (raw @ c) k \<and> drop k (raw @ c) = r @ rest \<and> session i s' = it \<and> i < nb_units s' \<and>
        i < length (nb_live s') \<and> lv_epoch (nb_live s' ! i) = ns_epoch it \<and> lv_aligned (nb_live s' ! i) \<and>
        phone_bytes (ns_conn_handle it) s' = old @ r"
proof -
  let ?h = "ns_conn_handle it" and ?v = "nb_live s ! i"
  from str ep have i: "session i s = it" "i < nb_units s" "i < length (nb_live s)" "ss_inv raw (lv_start ?v)" "phone_bytes ?h s = old"
    by (simp_all add: streaming_def)
  obtain d' hit n where push: "stream_start_push (lv_start ?v) c = (d', hit, n)" by (metis prod_cases3)
  let ?s1 = "upd_live i (\<lambda>v. v\<lparr>lv_start := d'\<rparr>) s"
  show ?thesis
  proof (cases hit)
    case False
    with miss_search [OF i(4)] push have "ss_inv (raw @ c) d'" by simp
    with False push i ep show ?thesis by (simp add: align_stream_def streaming_def upd_unit_same)
  next
    case True
    from hit_first_record [OF i(4), of c d' n] push True obtain k where k: "first_record (raw @ c) k" "drop k (raw @ c) = d' @ drop n c" by auto
    have "subscribed (session i ?s1)" using sub i(1) by simp
    from notify_session_calm [OF calm this, of d'] i(1) obtain s2 where s2: "notify_session e i d' it ?s1 = (True, s2)"
      "session i s2 = it" "nb_live s2 = nb_live ?s1" "nb_units s2 = nb_units ?s1" "phone_bytes ?h s2 = phone_bytes ?h ?s1 @ d'" by auto
    then have "align_stream e i c it s = (Some (drop n c), upd_live i (\<lambda>v. v\<lparr>lv_aligned := True\<rparr>) (upd_live i (\<lambda>v. v\<lparr>lv_start := []\<rparr>) s2))"
      using push True by (simp add: align_stream_def Let_def)
    with s2 i ep k show ?thesis by (auto simp: upd_unit_same nth_upd_unit)
  qed
qed

lemma streaming_open:
  assumes "session i s = it" "i < nb_units s" "i < length (nb_live s)" "lv_epoch (nb_live s ! i) = ns_epoch it" "lv_aligned (nb_live s ! i)"
    and "calm e" "subscribed it" and k: "first_record raw k" "drop k raw = r @ rest" "phone_bytes (ns_conn_handle it) s = old @ r"
  shows "streaming i it old raw (if rest \<noteq> [] then snd (notify_session e i rest it s) else s)"
proof (cases "rest = []")
  case False
  from notify_session_calm [OF assms(6), of i s rest] assms(1,7) obtain s' where "notify_session e i rest it s = (True, s')"
    "session i s' = it" "nb_live s' = nb_live s" "nb_units s' = nb_units s" "phone_bytes (ns_conn_handle it) s' = phone_bytes (ns_conn_handle it) s @ rest"
    by auto
  with False assms show ?thesis by (auto simp: streaming_def)
qed (use assms in \<open>auto simp: streaming_def\<close>)

lemma streaming_step:
  assumes str: "streaming i it old raw s" and calm: "calm e" and sub: "subscribed it"
  shows "streaming i it old (raw @ c) (ble_periph_forward_notify e i c s)"
proof -
  let ?s1 = "sync_live i it s"
  from streaming_sync [OF str] have s1: "streaming i it old raw ?s1" "lv_epoch (nb_live ?s1 ! i) = ns_epoch it" by simp_all
  from str have i: "i < nb_units s" "nb_get_notify_session i (nb_s s) = it" by (simp_all add: streaming_def session_def)
  have fwd: "ble_periph_forward_notify e i c s =
     (case (if \<not> lv_aligned (nb_live ?s1 ! i) then align_stream e i c it ?s1 else (Some c, ?s1)) of
        (None, s2) \<Rightarrow> s2 | (Some rest, s2) \<Rightarrow> if rest \<noteq> [] then snd (notify_session e i rest it s2) else s2)"
    using i sub by (simp add: ble_periph_forward_notify_def Let_def subscribed_def)
  show ?thesis
  proof (cases "lv_aligned (nb_live ?s1 ! i)")
    case False
    note al = streaming_align [OF s1(1) calm sub s1(2) False, of c]
    show ?thesis
    proof (cases "align_stream e i c it ?s1")
      case (Pair r s2)
      show ?thesis
      proof (cases r)
        case None
        with al Pair False show ?thesis unfolding fwd by simp
      next
        case (Some rest)
        with al Pair obtain k r0 where "first_record (raw @ c) k" "drop k (raw @ c) = r0 @ rest" "session i s2 = it" "i < nb_units s2"
            "i < length (nb_live s2)" "lv_epoch (nb_live s2 ! i) = ns_epoch it" "lv_aligned (nb_live s2 ! i)"
            "phone_bytes (ns_conn_handle it) s2 = old @ r0" by (auto simp del: drop_append)
        from streaming_open [OF this(3-7) calm sub this(1,2,8)] Some Pair False show ?thesis unfolding fwd by simp
      qed
    qed
  next
    case True
    with s1 obtain k where k: "first_record raw k" "phone_bytes (ns_conn_handle it) ?s1 = old @ drop k raw" by (auto simp: streaming_def)
    moreover have "k \<le> length raw" using k(1) by (simp add: first_record_def record_at_def)
    ultimately have "first_record (raw @ c) k" "drop k (raw @ c) = drop k raw @ c" by (simp_all add: first_record_mono)
    moreover from s1(1) have "session i ?s1 = it" "i < nb_units ?s1" "i < length (nb_live ?s1)" by (simp_all add: streaming_def)
    ultimately have "streaming i it old (raw @ c) (if c \<noteq> [] then snd (notify_session e i c it ?s1) else ?s1)"
      by (intro streaming_open [OF _ _ _ s1(2) True calm sub _ _ k(2)])
    then show ?thesis unfolding fwd using True by simp
  qed
qed

lemma streaming_run:
  assumes "streaming i it old raw s" "subscribed it" "list_all (\<lambda>(e, c). calm e) ecs"
  shows "streaming i it old (raw @ concat (map snd ecs)) (fold (\<lambda>(e, c). ble_periph_forward_notify e i c) ecs s)"
  using assms
proof (induction ecs arbitrary: raw s)
  case (Cons ec ecs)
  obtain e c where ec: "ec = (e, c)" by (cases ec)
  with Cons.prems streaming_step [of i it old raw s e c]
  have "streaming i it old (raw @ c) (ble_periph_forward_notify e i c s)" by simp
  from Cons.IH [OF this] Cons.prems ec show ?case by simp
qed simp

lemma stream_delivered:
  assumes "subscribed (session i s)" and "i < nb_units s" and "i < length (nb_live s)"
    and "lv_epoch (nb_live s ! i) \<noteq> ns_epoch (session i s)" and "list_all (\<lambda>(e, c). calm e) ecs"
  shows "\<exists>sent. phone_bytes (ns_conn_handle (session i s)) (fold (\<lambda>(e, c). ble_periph_forward_notify e i c) ecs s) =
      phone_bytes (ns_conn_handle (session i s)) s @ sent \<and>
    (\<forall>k. record_at (concat (map snd ecs)) k \<and> (\<forall>j < k. \<not> record_at (concat (map snd ecs)) j) \<longrightarrow>
       sent = drop k (concat (map snd ecs))) \<and>
    ((\<forall>k. \<not> record_at (concat (map snd ecs)) k) \<longrightarrow> sent = [])"
proof -
  let ?it = "session i s" and ?raw = "concat (map snd ecs)"
  let ?s' = "fold (\<lambda>(e, c). ble_periph_forward_notify e i c) ecs s" and ?old = "phone_bytes (ns_conn_handle (session i s)) s"
  have "streaming i ?it ?old [] s" using assms by (simp add: streaming_def)
  from streaming_run [OF this assms(1,5)] have st: "streaming i ?it ?old ?raw ?s'" by simp
  consider k where "first_record ?raw k" "phone_bytes (ns_conn_handle ?it) ?s' = ?old @ drop k ?raw"
    | "\<forall>k. \<not> record_at ?raw k" "phone_bytes (ns_conn_handle ?it) ?s' = ?old"
  proof (cases "lv_epoch (nb_live ?s' ! i) = ns_epoch ?it \<and> lv_aligned (nb_live ?s' ! i)")
    case False
    have "\<not> record_at ?raw k" for k
    proof (cases "lv_epoch (nb_live ?s' ! i) = ns_epoch ?it")
      case True
      with st False have "ss_inv ?raw (lv_start (nb_live ?s' ! i))" by (auto simp: streaming_def)
      then obtain p d where p: "?raw = p @ d" "\<forall>j < length p. dead (drop j ?raw)" "length d < STREAM_START_RECORD_LEN"
        unfolding ss_inv_def by blast
      then show ?thesis using dead_no_record [of k ?raw "[]"] by (cases "k < length p") (auto simp: record_at_def)
    next
      case False
      then have "?raw = []" using st unfolding streaming_def by presburger
      show ?thesis unfolding \<open>?raw = []\<close> by (simp add: record_at_def STREAM_START_RECORD_LEN_def)
    qed
    with False st that(2) show ?thesis by (auto simp: streaming_def split: if_splits)
  qed (use st that in \<open>auto simp: streaming_def\<close>)
  then show ?thesis
  proof cases
    case 1
    have "k' = k" if "record_at ?raw k'" "\<forall>j < k'. \<not> record_at ?raw j" for k'
      using that 1(1) by (metis first_record_def linorder_neqE_nat)
    with 1 show ?thesis by (intro exI [of _ "drop k ?raw"]) (auto simp: first_record_def)
  qed auto
qed
definition sample_subscribed :: nb where
  "sample_subscribed = nb_step sample_nenv (Host (Gap (Ev_subscribe 5 True))) sample_connected"

lemma sample_subscribed_ids:
  "nb_ids (nb_s sample_subscribed) = [zero_identity\<lparr>ni_warm_dev := [[], []], ni_connected := True, ni_conn_handle := 5,
      ni_notify_epoch := 2, ni_notify_enabled := True\<rparr>, zero_identity\<lparr>ni_warm_dev := [[], []]\<rparr>]" (is ?ids)
  and sample_subscribed_rest:
  "nb_live sample_subscribed = [\<lparr>lv_epoch = 0, lv_aligned = False, lv_start = []\<rparr>, \<lparr>lv_epoch = 0, lv_aligned = False, lv_start = []\<rparr>]"
  "nb_calls sample_subscribed = []" (is ?calls)
proof -
  let ?b = "nb_step sample_nenv Start sample_boot"
  have id: "identity_for_conn sample_nenv 5 ?b = Some 0"
    using sample_boot_eval by (simp add: identity_for_conn_def adv_mgr_identity_for_addr_def sample_nenv_def
        find_index_Some_iff sample_boot_def node_b_boot_def adv_mgr_init_def fresh_set_def mint_addrs_def Let_def upt_rec)
  have off: "nb_ids (nb_s ?b) = [zero_identity\<lparr>ni_warm_dev := [[], []]\<rparr>, zero_identity\<lparr>ni_warm_dev := [[], []]\<rparr>]"
      "nb_live ?b = [\<lparr>lv_epoch = 0, lv_aligned = False, lv_start = []\<rparr>, \<lparr>lv_epoch = 0, lv_aligned = False, lv_start = []\<rparr>]"
      "nb_calls ?b = []"
    by (simp_all add: sample_boot_def node_b_boot_def nb_state_init_def restore_page_def numeral_2_eq_2)
  have "nb_ids (nb_s sample_connected) = [zero_identity\<lparr>ni_warm_dev := [[], []], ni_connected := True, ni_conn_handle := 5,
      ni_notify_epoch := 1\<rparr>, zero_identity\<lparr>ni_warm_dev := [[], []]\<rparr>]"
    "nb_live sample_connected = nb_live ?b" "nb_calls sample_connected = []"
    using id off by (simp_all add: sample_connected_def adopt_conn_def nb_identity_for_conn_def nb_active_conn_count_def zero_identity_def
        CFG_MAX_APP_CONNS_def Let_def nb_get_name_def nb_set_conn_def set_conn_def upd_unit_def tunnel_cli_send_client_def)
  then show ?ids "nb_live sample_subscribed = [\<lparr>lv_epoch = 0, lv_aligned = False, lv_start = []\<rparr>, \<lparr>lv_epoch = 0, lv_aligned = False, lv_start = []\<rparr>]" ?calls
    using off by (simp_all add: sample_subscribed_def nb_identity_for_conn_def zero_identity_def nb_set_notify_def set_notify_def upd_unit_def)
qed

text \<open>
  The phone sees the raw stream from its first complete record on, and nothing else. When a session has just been
  established and raw chunks of the unit arrive, cut in any way, then what is notified to the phone is exactly the
  concatenation of the chunks from the first checksum-valid record onwards; while no complete record has arrived,
  nothing is notified. No byte is lost, repeated or reordered at the hand-over from the search to the open gate.
\<close>

theorem phone_stream_from_first_record:
  assumes "subscribed (session i s)" and "i < nb_units s" and "i < length (nb_live s)"
    and "lv_epoch (nb_live s ! i) \<noteq> ns_epoch (session i s)" and "list_all (\<lambda>(e, c). calm e) ecs"
  shows "\<exists>sent. phone_bytes (ns_conn_handle (session i s)) (fold (\<lambda>(e, c). ble_periph_forward_notify e i c) ecs s) =
      phone_bytes (ns_conn_handle (session i s)) s @ sent \<and>
    (\<forall>k. record_at (concat (map snd ecs)) k \<and> (\<forall>j < k. \<not> record_at (concat (map snd ecs)) j) \<longrightarrow>
       sent = drop k (concat (map snd ecs))) \<and>
    ((\<forall>k. \<not> record_at (concat (map snd ecs)) k) \<longrightarrow> sent = [])"
  using assms by (rule stream_delivered)

lemma sample_subscribed_eval:
  "session 0 sample_subscribed = \<lparr>ns_epoch = 2, ns_conn_handle = 5, ns_connected = True, ns_notify_enabled = True\<rparr>"
  "nb_units sample_subscribed = 2"
  by (simp_all add: session_def nb_get_notify_session_def session_of_def sample_subscribed_ids zero_identity_def)

lemma sample_first_record:
  "record_at (0x41 # ss_sample @ [7, 8]) 1" "\<forall>j < 1. \<not> record_at (0x41 # ss_sample @ [7, 8]) j"
proof -
  have "length ss_sample = 300" using ss_sample_record by (simp add: ss_record_def STREAM_START_RECORD_LEN_def)
  then show "record_at (0x41 # ss_sample @ [7, 8]) 1"
    using ss_sample_record by (simp add: record_at_def STREAM_START_RECORD_LEN_def)
  have "\<not> record_at (0x41 # ss_sample @ [7, 8]) 0"
    by (simp add: record_at_def ss_record_def ss_magic_def STREAM_START_RECORD_LEN_def)
  then show "\<forall>j < 1. \<not> record_at (0x41 # ss_sample @ [7, 8]) j" by simp
qed

lemma sample_nenv_calm: "calm sample_nenv"
  by (simp add: calm_def sample_nenv_def)

theorem phone_stream_from_first_record_witness:
  "phone_bytes 5 (fold (\<lambda>(e, c). ble_periph_forward_notify e 0 c)
     [(sample_nenv, 0x41 # take 100 ss_sample), (sample_nenv, drop 100 ss_sample @ [7, 8])] sample_subscribed) = ss_sample @ [7, 8]"
proof -
  let ?ecs = "[(sample_nenv, 0x41 # take 100 ss_sample), (sample_nenv, drop 100 ss_sample @ [7, 8])]"
  have raw: "concat (map snd ?ecs) = 0x41 # ss_sample @ [7, 8]" by simp
  have "\<exists>sent. phone_bytes 5 (fold (\<lambda>(e, c). ble_periph_forward_notify e 0 c) ?ecs sample_subscribed) = phone_bytes 5 sample_subscribed @ sent \<and>
    (\<forall>k. record_at (concat (map snd ?ecs)) k \<and> (\<forall>j < k. \<not> record_at (concat (map snd ?ecs)) j) \<longrightarrow> sent = drop k (concat (map snd ?ecs)))"
    using phone_stream_from_first_record [of 0 sample_subscribed ?ecs] sample_subscribed_eval sample_subscribed_rest sample_nenv_calm
    by (auto simp del: fold_simps simp: subscribed_def)
  then obtain sent where s: "phone_bytes 5 (fold (\<lambda>(e, c). ble_periph_forward_notify e 0 c) ?ecs sample_subscribed) = phone_bytes 5 sample_subscribed @ sent"
    "\<forall>k. record_at (0x41 # ss_sample @ [7, 8]) k \<and> (\<forall>j < k. \<not> record_at (0x41 # ss_sample @ [7, 8]) j) \<longrightarrow> sent = drop k (0x41 # ss_sample @ [7, 8])"
    unfolding raw by blast
  from s(2) sample_first_record have "sent = drop 1 (0x41 # ss_sample @ [7, 8])" by blast
  with s(1) show ?thesis using sample_subscribed_rest(2) by (simp add: phone_bytes_def del: fold_simps)
qed

section \<open>The replay burst\<close>

text \<open>The nonempty records behind the claimed bits, in the order of delivery, and their stamped forms.\<close>

definition owed_records :: "time_us \<Rightarrow> nat \<Rightarrow> byte \<Rightarrow> (byte \<times> byte) list \<Rightarrow> nbs \<Rightarrow> byte list list" where
  "owed_records now i bits brs st =
     filter (\<lambda>w. w \<noteq> []) (map (\<lambda>(b, rec). if bits AND b = 0 then [] else warm_record now i rec st) brs)"

fun stamp_all :: "byte \<Rightarrow> byte list list \<Rightarrow> byte list list" where
  "stamp_all c [] = []"
| "stamp_all c (w # ws) = stamp c w # stamp_all (if length w \<ge> 6 then c + 1 else c) ws"

lemma length_stamp_all [simp]: "length (stamp_all c ws) = length ws"
  by (induction ws arbitrary: c) simp_all

lemma owed_records_cong:
  assumes "\<And>r. warm_record now i r st = warm_record now i r st'"
  shows "owed_records now i bits brs st = owed_records now i bits brs st'"
proof -
  have "(\<lambda>r. warm_record now i r st) = (\<lambda>r. warm_record now i r st')" using assms by blast
  then show ?thesis unfolding owed_records_def by metis
qed

lemma replay_records_calm:
  assumes "calm e" and "subscribed (session i s)"
  shows "phone_bytes (ns_conn_handle (session i s)) (fold (replay_record e i (session i s) bits) brs s) =
    phone_bytes (ns_conn_handle (session i s)) s @ concat (stamp_all (nb_ctr s) (owed_records (ne_now e) i bits brs (nb_s s)))"
  using assms(2)
proof (induction brs arbitrary: s)
  case (Cons br brs)
  obtain b rec where br: "br = (b, rec)" by (cases br)
  let ?w = "warm_record (ne_now e) i rec (nb_s s)"
  show ?case
  proof (cases "bits AND b = 0 \<or> ?w = []")
    case True
    then have "replay_record e i (session i s) bits br s = s" by (auto simp: replay_record_def br)
    moreover have "owed_records (ne_now e) i bits (br # brs) (nb_s s) = owed_records (ne_now e) i bits brs (nb_s s)"
      using True by (auto simp: owed_records_def br)
    ultimately show ?thesis using Cons by simp
  next
    case False
    define s1 where "s1 = (if length ?w \<ge> 6 then s\<lparr>nb_ctr := nb_ctr s + 1\<rparr> else s)"
    have s1: "session i s1 = session i s" "nb_s s1 = nb_s s" "phone_bytes h s1 = phone_bytes h s" for h
      by (simp_all add: s1_def session_def phone_bytes_def)
    with notify_session_calm [OF assms(1), of i s1 "stamp (nb_ctr s) ?w"] Cons.prems obtain s2
      where s2: "notify_session e i (stamp (nb_ctr s) ?w) (session i s) s1 = (True, s2)" "session i s2 = session i s" "nb_ctr s2 = nb_ctr s1"
        "\<forall>now rec. warm_record now i rec (nb_s s2) = warm_record now i rec (nb_s s)"
        "phone_bytes (ns_conn_handle (session i s)) s2 = phone_bytes (ns_conn_handle (session i s)) s @ stamp (nb_ctr s) ?w"
      by auto
    have step: "replay_record e i (session i s) bits br s = s2"
      using False s2(1) by (simp add: replay_record_def br s1_def [symmetric])
    have "owed_records (ne_now e) i bits (br # brs) (nb_s s) = ?w # owed_records (ne_now e) i bits brs (nb_s s2)"
      using False s2(4) owed_records_cong [of "ne_now e" i "nb_s s2" "nb_s s"] by (simp add: owed_records_def br)
    moreover have "nb_ctr s2 = (if length ?w \<ge> 6 then nb_ctr s + 1 else nb_ctr s)" using s2(3) by (simp add: s1_def)
    ultimately show ?thesis using Cons.IH [of s2] Cons.prems s2(2,5) step by simp
  qed
qed (simp add: owed_records_def)

lemma session_claim [simp]: "nb_get_notify_session i (snd (nb_claim_replay t j st)) = nb_get_notify_session i st"
  by (cases "j < length (nb_ids st)")
     (auto simp: nb_get_notify_session_def nb_claim_replay_def case_prod_unfold nth_upd_unit session_of_def claim_replay_def
       replay_action_locked_def)

lemma warm_claim [simp]: "warm_record now i rec (snd (nb_claim_replay t j st)) = warm_record now i rec st"
  by (cases "j < length (nb_ids st)")
     (auto simp: warm_record_def nb_get_warm_def nb_get_warm_dev_def nb_claim_replay_def case_prod_unfold nth_upd_unit Let_def
       claim_replay_def replay_action_locked_def)

lemma stamp_spec:
  assumes "6 \<le> length w"
  shows "length (stamp c w) = length w" "6 < length w \<longrightarrow> stamp c w ! 5 = c" "sum8 (butlast (stamp c w)) = last (stamp c w)"
    "j < length w - 1 \<Longrightarrow> j \<noteq> 5 \<Longrightarrow> stamp c w ! j = w ! j"
proof -
  let ?w = "w[5 := c]" and ?n = "length w - 1"
  have "w \<noteq> []" using assms by auto
  have st: "stamp c w = ?w[?n := sum8 (take ?n ?w)]" using assms by (simp add: stamp_def Let_def)
  show "length (stamp c w) = length w" "6 < length w \<longrightarrow> stamp c w ! 5 = c" using assms by (auto simp: st)
  show "j < length w - 1 \<Longrightarrow> j \<noteq> 5 \<Longrightarrow> stamp c w ! j = w ! j" by (simp add: st)
  have "butlast (stamp c w) = take ?n ?w" by (simp add: st butlast_conv_take)
  moreover have "last (stamp c w) = sum8 (take ?n ?w)" using assms \<open>w \<noteq> []\<close> by (simp add: st last_conv_nth)
  ultimately show "sum8 (butlast (stamp c w)) = last (stamp c w)" by simp
qed

lemma stamp_all_nth:
  "list_all (\<lambda>w. 6 < length w) ws \<Longrightarrow> k < length ws \<Longrightarrow> stamp_all c ws ! k = stamp (c + of_nat k) (ws ! k)"
proof (induction ws arbitrary: c k)
  case (Cons w ws)
  then show ?case by (cases k) (simp_all add: ac_simps)
qed simp

text \<open>
  C37. A replay is a burst of fresh, valid records. When a replay is claimed, the phone receives for each claimed bit
  whose cache holds a record, in the order device info, settings, cell info, that record with the next value of a
  running frame counter and a recomputed checksum, every other byte unchanged; an empty or outdated cache
  contributes nothing. So no two replays look alike to the app, which drops repeated counters.
\<close>

theorem replay_burst_is_fresh:
  assumes "calm e" and "fst (nb_claim_replay (ne_now e) i (nb_s s)) = (1, it, bits)"
    and "ws = owed_records (ne_now e) i bits replay_seq (nb_s s)" and "list_all (\<lambda>w. 6 < length w) ws"
  shows "\<exists>sent. phone_bytes (ns_conn_handle it) (replay_unit e i s) = phone_bytes (ns_conn_handle it) s @ concat sent \<and>
    length sent = length ws \<and>
    (\<forall>k < length ws. length (sent ! k) = length (ws ! k) \<and> sent ! k ! 5 = nb_ctr s + of_nat k \<and>
       sum8 (butlast (sent ! k)) = last (sent ! k) \<and>
       (\<forall>j < length (ws ! k) - 1. j \<noteq> 5 \<longrightarrow> sent ! k ! j = ws ! k ! j))"
proof -
  let ?s1 = "s\<lparr>nb_s := snd (nb_claim_replay (ne_now e) i (nb_s s))\<rparr>"
  have it: "it = session i s" "subscribed it"
    using assms(2) by (auto simp: nb_claim_replay_def replay_action_locked_def session_def nb_get_notify_session_def subscribed_def
        session_of_def replay_owed_def split: if_splits)
  then have s1: "session i ?s1 = it" "nb_ctr ?s1 = nb_ctr s" "phone_bytes h ?s1 = phone_bytes h s" for h
    by (simp_all add: session_def phone_bytes_def)
  have "replay_unit e i s = fold (replay_record e i it bits) replay_seq ?s1"
    using assms(2) by (simp add: replay_unit_def case_prod_unfold Let_def)
  moreover have "owed_records (ne_now e) i bits replay_seq (nb_s ?s1) = ws"
    unfolding assms(3) by (rule owed_records_cong) simp
  ultimately have "phone_bytes (ns_conn_handle it) (replay_unit e i s) = phone_bytes (ns_conn_handle it) s @ concat (stamp_all (nb_ctr s) ws)"
    using replay_records_calm [OF assms(1), of i ?s1 bits replay_seq] s1 it(2) by simp
  moreover have "length (ws ! k) > 6" if "k < length ws" for k using assms(4) that by (simp add: list_all_length)
  ultimately show ?thesis using stamp_all_nth [OF assms(4), of _ "nb_ctr s"]
    by (intro exI [of _ "stamp_all (nb_ctr s) ws"]) (auto simp: stamp_spec less_imp_le)
qed

definition sample_owing :: nb where
  "sample_owing = on_state (nb_mark_replay 90 0 NB_REPLAY_SETTINGS 2) (on_state (nb_set_warm 80 True 0 0x01 [0x55, 0xAA, 0xEB, 0x90, 1, 9, 7, 0]) sample_subscribed)"

theorem replay_burst_is_fresh_witness:
  "\<exists>r. phone_bytes 5 (replay_unit sample_nenv 0 sample_owing) = r \<and> r ! 5 = nb_ctr sample_owing \<and> r ! 6 = 7"
proof -
  have u: "nb_units sample_subscribed = 2" "ni_connected (ident (nb_s sample_subscribed) 0)" "ni_notify_enabled (ident (nb_s sample_subscribed) 0)"
      "ni_notify_epoch (ident (nb_s sample_subscribed) 0) = 2" "ni_conn_handle (ident (nb_s sample_subscribed) 0) = 5"
      "ni_pending_replay (ident (nb_s sample_subscribed) 0) = 0" "ni_dev_seen_us (ident (nb_s sample_subscribed) 0) = 0"
      "ni_link (ident (nb_s sample_subscribed) 0) = LINK_UNREACHABLE"
    by (simp_all add: sample_subscribed_ids zero_identity_def)
  have warm: "warm_record 100 0 0x01 (nb_s sample_owing) = [0x55, 0xAA, 0xEB, 0x90, 1, 9, 7, 0]"
    using u(1) by (simp add: sample_owing_def warm_record_def nb_get_warm_def nb_set_warm_def nb_mark_replay_def mark_replay_def nth_upd_unit
        set_warm_other_def Let_def NB_CACHE_MAX_def)
  have claim: "fst (nb_claim_replay (ne_now sample_nenv) 0 (nb_s sample_owing)) = (1, session 0 sample_subscribed, NB_REPLAY_SETTINGS)"
    using u sample_subscribed_eval(1)
    by (simp add: sample_owing_def nb_claim_replay_def nb_set_warm_def nb_mark_replay_def mark_replay_def nth_upd_unit set_warm_other_def
        replay_action_locked_def replay_owed_def replay_expired_def NB_REPLAY_SETTINGS_def sample_nenv_def session_of_def)
  have ws: "owed_records (ne_now sample_nenv) 0 NB_REPLAY_SETTINGS replay_seq (nb_s sample_owing) = [[0x55, 0xAA, 0xEB, 0x90, 1, 9, 7, 0]]"
    using warm by (simp add: owed_records_def replay_seq_def NB_REPLAY_SETTINGS_def NB_REPLAY_DEVINFO_def NB_REPLAY_CELLINFO_def sample_nenv_def)
  have "calm sample_nenv" by (simp add: calm_def sample_nenv_def)
  from replay_burst_is_fresh [OF this claim ws [symmetric]] obtain sent where
    s: "phone_bytes 5 (replay_unit sample_nenv 0 sample_owing) = phone_bytes 5 sample_owing @ concat sent" "length sent = 1"
      "sent ! 0 ! 5 = nb_ctr sample_owing" "sent ! 0 ! 6 = 7"
    using sample_subscribed_eval(1) by auto
  then obtain r where "sent = [r]" by (cases sent) auto
  moreover have "phone_bytes 5 sample_owing = []" using sample_subscribed_rest(2) by (simp add: sample_owing_def phone_bytes_def)
  ultimately show ?thesis using s by simp
qed
section \<open>The grace window\<close>

lemma drop_all_calls:
  "nb_s (fold (drop_one e) is s) = nb_s s \<and> nb_av (fold (drop_one e) is s) = nb_av s \<and>
   nb_calls (fold (drop_one e) is s) = nb_calls s @
     map (\<lambda>i. Terminate (ni_conn_handle (nb_get_identity i (nb_s s)))) (filter (\<lambda>i. ni_connected (nb_get_identity i (nb_s s))) is)"
  by (induction "is" arbitrary: s) (simp_all add: drop_one_def Let_def)

lemma pause_set_sets: "av_sets (pause_set e i a) = upd_unit i (\<lambda>v. v\<lparr>as_advertising := False\<rparr>) (av_sets a)"
proof -
  have "v\<lparr>as_advertising := False\<rparr> = v" if "\<not> as_advertising v" for v :: adv_set using that by (cases v) simp
  then have "\<not> as_advertising (aset a i) \<Longrightarrow> upd_unit i (\<lambda>v. v\<lparr>as_advertising := False\<rparr>) (av_sets a) = av_sets a"
    by (intro upd_unit_id) blast
  then show ?thesis by (simp add: pause_set_def)
qed

lemma pause_all_off: "k \<le> length (av_sets a) \<Longrightarrow> j < k \<Longrightarrow> \<not> as_advertising (aset (fold (pause_set e) [0 ..< k] a) j)"
proof (induction k)
  case (Suc k)
  have "length (av_sets (fold (pause_set e) [0 ..< k] a)) = length (av_sets a)"
    by (rule fold_inv) (simp_all add: pause_set_sets)
  with Suc show ?case by (cases "j = k") (simp_all add: pause_set_sets upd_unit_same)
qed simp

lemma pause_all_length [simp]: "length (av_sets (adv_mgr_pause_all e a)) = length (av_sets a)"
  unfolding adv_mgr_pause_all_def by (rule fold_inv) (simp_all add: pause_set_sets)

lemma pause_all_calls:
  "k \<le> length (av_sets a) \<Longrightarrow>
   av_calls (fold (pause_set e) [0 ..< k] a) = av_calls a @ map Adv_stop (filter (\<lambda>i. as_advertising (aset a i)) [0 ..< k]) \<and>
   (\<forall>j\<ge>k. aset (fold (pause_set e) [0 ..< k] a) j = aset a j)"
proof (induction k)
  case (Suc k)
  let ?b = "fold (pause_set e) [0 ..< k] a"
  from Suc have b: "av_calls ?b = av_calls a @ map Adv_stop (filter (\<lambda>i. as_advertising (aset a i)) [0 ..< k])"
    "\<forall>j\<ge>k. aset ?b j = aset a j" by simp_all
  have "av_calls (pause_set e k ?b) = av_calls ?b @ (if as_advertising (aset ?b k) then [Adv_stop k] else [])"
    by (simp add: pause_set_def)
  with b show ?case by (auto simp: pause_set_sets)
qed simp

lemma down_torn: "tt_torn_down t \<Longrightarrow> fold tunnel_down es t = t"
  by (induction es) (simp_all add: tunnel_down_def)

lemma down_held: "\<not> tt_torn_down t \<Longrightarrow> tt_hold_deadline t \<noteq> 0 \<Longrightarrow> list_all (\<lambda>e. ne_now e \<le> tt_hold_deadline t) es \<Longrightarrow> fold tunnel_down es t = t"
  by (induction es) (auto simp: tunnel_down_def)

text \<open>
  C38. The phones are held through the grace window and let go after it, once. Consider failed connects to node A, one
  after the other, with nothing else in between. Those up to the deadline do nothing; the first one after it asks the
  stack to terminate the connection of every connected phone and, for every set that is marked as advertising, to
  stop it, in the order of the units, and marks all sets as off; later ones do nothing more. Identities and caches are
  kept throughout. That a set may be off the air before the deadline is another
  matter: the supervisor's audit, which runs meanwhile, applies the policy, and a tunnel that is down wants no set.
\<close>

theorem grace_window_teardown:
  assumes "\<not> tt_torn_down t" and "tt_hold_deadline t \<noteq> 0" and "list_all (\<lambda>e. ne_now e \<le> tt_hold_deadline t) pre"
    and "ne_now e > tt_hold_deadline t"
  shows "fold tunnel_down pre t = t \<and>
    (let s = tt_nb t; s' = tt_nb (fold tunnel_down (pre @ e # post) t) in
     nb_s s' = nb_s s \<and> list_all (\<lambda>v. \<not> as_advertising v) (av_sets (nb_av s')) \<and>
     av_calls (nb_av s') = av_calls (nb_av s) @
       map Adv_stop (filter (\<lambda>i. as_advertising (av_sets (nb_av s) ! i)) [0 ..< length (av_sets (nb_av s))]) \<and>
     nb_calls s' = nb_calls s @ map (\<lambda>it. Terminate (ni_conn_handle it)) (filter ni_connected (nb_ids (nb_s s))))"
proof -
  let ?t1 = "tunnel_down e t" and ?s = "tt_nb t"
  have t1: "tt_nb ?t1 = on_adv e adv_mgr_pause_all (ble_periph_drop_all e ?s)" "tt_torn_down ?t1"
    using assms by (simp_all add: tunnel_down_def)
  have run: "fold tunnel_down (pre @ e # post) t = ?t1"
    using down_held [OF assms(1-3)] down_torn [OF t1(2)] by simp
  have ids: "map (\<lambda>i. Terminate (ni_conn_handle (nb_get_identity i (nb_s ?s)))) (filter (\<lambda>i. ni_connected (nb_get_identity i (nb_s ?s))) [0 ..< nb_units ?s])
      = map (\<lambda>it. Terminate (ni_conn_handle it)) (filter ni_connected (nb_ids (nb_s ?s)))"
  proof -
    have "map (\<lambda>i. nb_get_identity i (nb_s ?s)) [0 ..< nb_units ?s] = nb_ids (nb_s ?s)"
      by (rule nth_equalityI) (simp_all add: nb_get_identity_def)
    then have "filter ni_connected (nb_ids (nb_s ?s)) =
        map (\<lambda>i. nb_get_identity i (nb_s ?s)) (filter (\<lambda>i. ni_connected (nb_get_identity i (nb_s ?s))) [0 ..< nb_units ?s])"
      by (metis (no_types, lifting) comp_apply filter_cong filter_map)
    then show ?thesis by simp
  qed
  have "list_all (\<lambda>v. \<not> as_advertising v) (av_sets (adv_mgr_pause_all ae a))" for ae a
    using pause_all_off [of "length (av_sets a)" a _ ae] pause_all_length [of ae a]
    unfolding list_all_length by (simp add: adv_mgr_pause_all_def)
  moreover have "av_calls (adv_mgr_pause_all ae a) = av_calls a @ map Adv_stop (filter (\<lambda>i. as_advertising (aset a i)) [0 ..< length (av_sets a)])"
    for ae a
    using pause_all_calls [of "length (av_sets a)" a ae] by (simp add: adv_mgr_pause_all_def)
  ultimately show ?thesis
    using down_held [OF assms(1-3)] run t1(1) drop_all_calls [of e "[0 ..< nb_units ?s]" ?s] ids
    by (simp add: Let_def ble_periph_drop_all_def)
qed

theorem grace_window_teardown_witness:
  "nb_calls (tt_nb (fold tunnel_down [sample_nenv, sample_nenv\<lparr>ne_now := 9000\<rparr>] \<lparr>tt_nb = sample_subscribed, tt_hold_deadline = 8000, tt_torn_down = False\<rparr>))
   = [Terminate 5]"
proof -
  have f: "filter ni_connected (nb_ids (nb_s sample_subscribed)) = [nb_ids (nb_s sample_subscribed) ! 0]"
      "ni_conn_handle (nb_ids (nb_s sample_subscribed) ! 0) = 5"
    by (simp_all add: sample_subscribed_ids zero_identity_def)
  have "list_all (\<lambda>e. ne_now e \<le> 8000) [sample_nenv]" by (simp add: sample_nenv_def)
  with grace_window_teardown [of "\<lparr>tt_nb = sample_subscribed, tt_hold_deadline = 8000, tt_torn_down = False\<rparr>" "[sample_nenv]"
      "sample_nenv\<lparr>ne_now := 9000\<rparr>" "[]"] f sample_subscribed_rest(2)
  show ?thesis by (auto simp: Let_def)
qed

end
