(* ===== verification/Spec2Isabelle.thy ===== *)
theory Spec2Isabelle
  imports Upkeep Telemetry Display Gatt_Table Sock_Read Link_Params App_Probe Ble_Spec Node_B_Spec
begin

text \<open>
  A verification development of the firmware of the JK-BMS BLE tunnel. Node A holds BLE links to up to four JK
  battery-management units, serialises everything that is sent to them, decodes, caches and publishes their records.
  Node B shows the units to the official phone application as if they were local. The nodes exchange framed messages
  over one TCP connection.

  \<^bold>\<open>Theories and sources.\<close> Every theory follows one part of the source and keeps its names where it can.

  \<^item> \<open>Prelude\<close>, \<open>C_Float\<close>: machine integers, little-endian fields, the 8-bit sum, guarded per-unit tables; the rounding of
    \<^verbatim>\<open>float\<close> and \<^verbatim>\<open>double\<close> arithmetic as functions on rationals.
  \<^item> \<open>Jk_Frame\<close>, \<open>Jk_Write\<close>: \<^verbatim>\<open>components/jk_proto\<close>, the records from the modules (reassembly from notifications, checksum,
    the three decoders) and the commands to them (reads with their nonce, settings writes).
  \<^item> \<open>Tunnel_Wire\<close>: \<^verbatim>\<open>components/common/include/tunnel_proto.h\<close> and \<^verbatim>\<open>tunnel_validate.h\<close>, the framing and frame reading
    that both nodes share; \<open>Sock_Read\<close>, the socket reads of both nodes that implement it.
  \<^item> \<open>State_Cache\<close>, \<open>Na_Types\<close>, \<open>Command_Validation\<close>, \<open>Measure\<close>: \<^verbatim>\<open>node_a/main/state_cache.c\<close>, \<^verbatim>\<open>na_types.h\<close> and \<^verbatim>\<open>config.h\<close>,
    \<^verbatim>\<open>command_validation.c\<close>, \<^verbatim>\<open>nvs_store.c\<close> and \<^verbatim>\<open>measure.c\<close>.
  \<^item> \<open>Arbiter_Model\<close> (the code), \<open>Arbiter_Ring\<close>, \<open>Arbiter\<close> (invariant and lemmas), \<open>Arbiter_Spec\<close> (properties): the arbiter task,
    \<^verbatim>\<open>node_a/main/arbiter.c\<close>: pending rings, dispatch, balance writes and their readback, backoff, sessions of the phone.
  \<^item> \<open>Ble_Model\<close> (the code), \<open>Ble_Owner\<close> (invariant), \<open>Ble_Ready\<close> (how a link becomes ready), \<open>Ble_Spec\<close> (properties): the BLE
    task, \<^verbatim>\<open>node_a/main/ble_owner.c\<close>: link pool, GATT discovery, subscription, GAP events, transactions and their timeouts,
    notifications.
  \<^item> \<open>Decoder\<close>: \<^verbatim>\<open>node_a/main/decoder.c\<close>, records into the cache and the session's opener commands.
  \<^item> \<open>Tunnel_Srv\<close>: \<^verbatim>\<open>node_a/main/tunnel_srv.c\<close>, the outgoing queue, the announcements, the messages from node B, the socket loop.
  \<^item> \<open>Supervisor\<close>: \<^verbatim>\<open>node_a/main/supervisor.c\<close>, the one-second tick: harvest, maintenance of each unit, boot verification.
  \<^item> \<open>C_Text\<close>: what the source uses of the C library on strings (\<^verbatim>\<open>snprintf\<close>, decimal and hexadecimal text, \<^verbatim>\<open>atoi\<close>,
    \<^verbatim>\<open>strtol\<close>, \<^verbatim>\<open>sscanf\<close>, \<^verbatim>\<open>strtok\<close>).
  \<^item> \<open>Mqtt_Task\<close>: \<^verbatim>\<open>node_a/main/mqtt_task.c\<close>, topics, publishers, reports, routing of commands; \<open>Telemetry\<close> joins it with the
    decoder: from a record to the documents on the broker.
  \<^item> \<open>Ble_Diag\<close>: the diagnostics of \<^verbatim>\<open>node_a/main/ble_owner.c\<close> that end as text, above all the walk over a unit's GATT table;
    \<open>Link_Params\<close>, the connection parameters, and the line that \<^verbatim>\<open>scan_probe\<close> prints.
  \<^item> \<open>Ota\<close>, \<open>Net_Util\<close>, \<open>Oled\<close>, \<open>Display\<close>: \<^verbatim>\<open>components/ota\<close>, \<^verbatim>\<open>net_util\<close>, \<^verbatim>\<open>oled\<close>, and the status pages of both nodes
    (\<^verbatim>\<open>display.c\<close>).
  \<^item> \<open>Nb_State\<close>, \<open>Adv_Mgr\<close>, \<open>Stream_Start\<close>, \<open>Ble_Periph\<close>, \<open>Tunnel_Cli\<close>: \<^verbatim>\<open>node_b/main/nb_state.c\<close>, \<^verbatim>\<open>adv_mgr.c\<close>,
    \<^verbatim>\<open>stream_start.c\<close>, \<^verbatim>\<open>ble_periph.c\<close>, \<^verbatim>\<open>tunnel_cli.c\<close>; \<open>Node_B\<close> joins them (all interleavings of their steps and the
    invariant), \<open>Node_B_Spec\<close> has the properties of the phone's stream, the replays and the grace window.
  \<^item> \<open>Test_Board\<close>: \<^verbatim>\<open>test_board/main\<close>, the bench: synthetic records, an emulated module, an emulated phone, the command line;
    \<open>App_Probe\<close>: \<^verbatim>\<open>app_probe/main\<close>, the inspection tool, a phone application in miniature.
  \<^item> \<open>Gatt_Table\<close>: the GATT table of \<^verbatim>\<open>node_b/main/ble_periph.c\<close>; \<open>Upkeep\<close>: what the calls of both supervisors do, the restored
    radio switch, the report of an interrupted measurement at boot, the remote log (\<^verbatim>\<open>log_udp.c\<close>).
  \<^item> This theory: the two nodes together, from a module's notification to the phone and from the phone's write to the
    arbiter.

  \<^bold>\<open>How code becomes definitions.\<close> A C struct is a record, an enumeration a datatype, a statically sized array with its
  length a list, a C string a string or the list of its bytes. Where the sizes of node B's arrays are what a theorem is about, a
  store outside an array lengthens the list (\<open>store_at\<close>), so that a guard that is missing shows. Statics of a file are the state of its theory. A task is a
  function on that state per message, event or pass of its loop, and a run is any sequence of such steps
  (\<open>arb_run\<close>, \<open>bo_run\<close>, \<open>nb_reach\<close>). A critical section (state cache, node B's table, the link pool) is one step.
  Counters that can wrap (epochs, command ids, nonces, frame counters, register values, length fields) are words;
  timestamps are the signed microseconds of \<^verbatim>\<open>esp_timer_get_time\<close> as integers, one reading per section of code.
  Failing paths are values: \<^verbatim>\<open>option\<close> results, acknowledgements with their status, a record of the calls issued.

  \<^bold>\<open>Parameters.\<close> What is not under \<^verbatim>\<open>src/\<close> is an argument: the return codes of NimBLE (functions of the calls so
  far), the acceptance of FreeRTOS queues, whether the host finds a packet buffer, the NVS library (the blobs stored and whether a write succeeds), the cJSON
  parser (the document parsed), sockets (whether a send succeeds, the bytes received), the HTTP server and the partition API of
  the update receiver, the display's acknowledgements, the clock, and the fleet table, which each site writes into
  \<^verbatim>\<open>secret.h\<close>. The hypotheses on them are stated in the properties that use them, such as that a queue accepts, or that a stack reports success (\<open>calm\<close>).

  \<^bold>\<open>What is shown.\<close> The records handed to the decoder are exactly the valid records of the byte stream, at every cut of the
  stream, from the radio to the decoder's queue and, for the raw stream, through both nodes to the phone. Transactions of
  a unit are serialised, answered exactly once and in order, pending work is neither lost nor reordered. Only well-formed
  settings writes in the safe envelope reach a unit, with the value asked for; a balance command has exactly one of two effects, and for setpoints of
  whole thousandths a readback confirms exactly the value written. A link is ready only after its module has acknowledged the subscription. Idle links are released only when no phone can be
  harmed; an idle node sends nothing; the boot verification ends. Each node accepts every message of the other. On node B one phone at most is connected, advertising follows the
  policy, replays are fresh, owed and delivered at most once, and buffers keep their sizes. Commands from the broker reach
  the unit they name, and the broker hears exactly the values of the latest record; an update is applied completely or not
  at all, the receiver heals itself, and rollback is cancelled only when it is up. Every entry of node B's GATT table is served
  as its flags announce. The bench speaks the modules' language, and the inspection tool only polls.

  \<^bold>\<open>Bounds.\<close> No definition carries fuel: loops of the source are structural or have a measure (the notification loop
  consumes at least one byte per chunk, the byte searches shorten their buffer). The queues have the depths of the source
  (24 and 8 frames, rings of 8), the unit identifiers stay below 255, the link id of the wire format. The update receiver ends
  after at most three receive calls per byte announced.

  \<^bold>\<open>Not modelled.\<close> The printing of JSON documents (cJSON; a document is a value), the creation of queues and the order of
  the starts (\<^verbatim>\<open>queues.c\<close>, \<^verbatim>\<open>app_main.c\<close>), SNTP, the set-up of serial port and watchdog, and
  \<^verbatim>\<open>tools\<close>, the host-side tests of the same files against stubs. A socket read that waits for bytes which never come
  is not a state of the model: a connection is the pieces that arrive until it is closed. Preemption is modelled between
  critical sections and, where the code allows it, between the chunks of one notification, not between single instructions.
  Three places of the source run without a lock and are steps of the model all the same: the operations of \<^verbatim>\<open>adv_mgr.c\<close>,
  which the host task, the tunnel task and the supervisor call; a GAP event of \<^verbatim>\<open>ble_periph.c\<close>; and the opener of
  \<^verbatim>\<open>decoder.c\<close>, which the decoder and the supervisor send. What is proved of them holds as long as these calls do not overlap.
\<close>

section \<open>From the module to the phone\<close>

text \<open>
  The receiving part of node B's loop (\<^verbatim>\<open>serve\<close>): every frame of the bytes is read and dispatched, each in its own
  environment. The replay tick between the frames is left out here; \<open>b_serve\<close> has it.
\<close>

definition b_dispatch :: "nenv list \<Rightarrow> byte list \<Rightarrow> nb \<Rightarrow> nb" where
  "b_dispatch es bs s = (case recv_frames bs of (ms, _, _) \<Rightarrow> fold (\<lambda>(e, t, b, p) s. on_frame e t b p s) (zip es ms) s)"

text \<open>
  The same with the replay tick that \<^verbatim>\<open>serve\<close> runs after every frame, and what it means that no phone waits for a
  replay.
\<close>

definition b_serve :: "nenv list \<Rightarrow> byte list \<Rightarrow> nb \<Rightarrow> nb" where
  "b_serve es bs s =
     (case recv_frames bs of (ms, _, _) \<Rightarrow> fold (\<lambda>(e, t, b, p) s. ble_periph_replay_tick e (on_frame e t b p s)) (zip es ms) s)"

definition no_debt :: "nb \<Rightarrow> bool" where
  "no_debt s \<longleftrightarrow> (\<forall>i<nb_units s. \<not> replay_owed (nb_ids (nb_s s) ! i))"

lemma claim_no_debt:
  assumes "i < nb_units s" "no_debt s"
  shows "nb_claim_replay now i (nb_s s) = ((0, no_session, 0), nb_s s)"
proof -
  have a: "replay_action_locked now (nb_ids (nb_s s) ! i) = (0, nb_ids (nb_s s) ! i)"
    using assms by (simp add: replay_action_locked_def no_debt_def)
  then show ?thesis using assms(1) by (simp add: nb_claim_replay_def upd_ident_def claim_replay_def)
qed

lemma tick_no_debt: "no_debt s \<Longrightarrow> ble_periph_replay_tick e s = s"
proof -
  assume s: "no_debt s"
  have "fold (replay_unit e) is s = s" if "set is \<subseteq> {..<nb_units s}" for "is"
    using that by (induction "is") (use s in \<open>simp_all add: replay_unit_def claim_no_debt\<close>)
  then show ?thesis by (simp add: ble_periph_replay_tick_def atLeast0LessThan)
qed

lemma no_debt_ids: "nb_ids (nb_s t) = nb_ids (nb_s s) \<Longrightarrow> no_debt t = no_debt s"
  by (simp add: no_debt_def)

lemma no_debt_dev: "no_debt s \<Longrightarrow> no_debt (on_state (nb_note_dev_forwarded now i ep) s)"
  by (auto simp: no_debt_def nb_note_dev_forwarded_def nth_upd_unit replay_owed_def)

lemma no_debt_loop:
  assumes "0 < chunk" and "calm e" and "no_debt s"
  shows "no_debt (snd (notify_loop e i it chunk data clean s))"
  using assms
proof (induction data clean s rule: chunk_induct)
  case (chunk data clean s)
  have "no_debt (snd (nb_do e c s))" for c using chunk.prems(2) by (simp add: no_debt_def)
  with chunk.IH chunk.prems show ?case by (simp add: notify_loop_step [OF \<open>data \<noteq> []\<close> \<open>0 < chunk\<close> refl])
qed simp

lemma no_debt_forward:
  assumes "calm e" and "no_debt s"
  shows "no_debt (ble_periph_forward_notify e i data s)"
proof -
  have n: "no_debt (snd (notify_session e i d it t))" if "no_debt t" for d it t
    using that assms(1) by (auto simp: notify_session_def Let_def no_debt_loop no_debt_dev)
  have l: "no_debt (upd_live i f t) = no_debt t" for f t by (rule no_debt_ids) simp
  have a: "no_debt (snd (align_stream e i data it t))" if "no_debt t" for it t
    using n that by (auto simp: align_stream_def Let_def case_prod_unfold l split: bool.splits)
  have "no_debt (sync_live i it s)" for it using assms(2) by (simp add: sync_live_def l)
  then show ?thesis using assms(2) n a
    by (auto simp: ble_periph_forward_notify_def Let_def case_prod_unfold split: option.splits)
qed

lemma raw_frames_read:
  assumes "list_all (\<lambda>it. item_ok n it \<and> ni_raw it) its" "n \<le> 255"
  shows "recv_frames (concat (map notify_frame its)) =
    (map (\<lambda>it. (TUN_RAW, of_nat (ni_bms_id it), of_nat (ni_idx it) # ni_data it)) its, [], False)"
proof -
  have "list_all msg_ok (map (\<lambda>it. (TUN_RAW, of_nat (ni_bms_id it), of_nat (ni_idx it) # ni_data it)) its)"
    using assms by (auto simp: list_all_iff msg_ok_def item_ok_def JK_FRAME_MAX_def TUNNEL_MAX_PAYLOAD_def)
  from recv_frames_encode [OF this, of "[]"]
  have "recv_frames (encode (map (\<lambda>it. (TUN_RAW, of_nat (ni_bms_id it), of_nat (ni_idx it) # ni_data it)) its)) =
      (map (\<lambda>it. (TUN_RAW, of_nat (ni_bms_id it), of_nat (ni_idx it) # ni_data it)) its, [], False)"
    by (simp add: recv_frames_short TUNNEL_HDR_LEN_def)
  moreover have "map (\<lambda>x. case x of (t, i, p) \<Rightarrow> frame t i p) (map (\<lambda>it. (TUN_RAW, of_nat (ni_bms_id it), of_nat (ni_idx it) # ni_data it)) its) =
      map notify_frame its"
    using assms by (auto simp: notify_frame_def list_all_iff)
  ultimately show ?thesis unfolding encode_def by metis
qed

lemma on_frame_raw:
  assumes "item_ok (nb_units s) it" "nb_units s \<le> 255"
  shows "on_frame e TUN_RAW (of_nat (ni_bms_id it)) (of_nat (ni_idx it) # ni_data it) s =
    ble_periph_forward_notify e (ni_bms_id it) (ni_data it) s"
proof -
  have i: "ni_bms_id it < nb_units s" and x: "ni_idx it \<le> 1" and d: "length (ni_data it) \<le> 320"
    using assms(1) by (simp_all add: item_ok_def JK_FRAME_MAX_def)
  have "tunnel_to_b_valid TUN_RAW (of_nat (ni_bms_id it)) (of_nat (ni_idx it) # ni_data it) (nb_units s) NB_MAX_CHARS NB_CACHE_MAX"
    using i x d assms(2) by (auto simp: tunnel_to_b_valid_def tun_types tun_consts NB_MAX_CHARS_def NB_CACHE_MAX_def unit_byte
        unit_byte [of "ni_idx it" 2])
  then show ?thesis using i assms(2) by (simp add: on_frame_def Let_def tun_types unit_byte)
qed

lemma nb_reach_units: "nb_reach n s \<Longrightarrow> n \<le> 255 \<Longrightarrow> nb_units s = n"
  using nb_reach_inv [of n s] by (simp add: nb_inv_def)

lemma dispatch_raw:
  assumes "nb_reach n s" "n \<le> 255" "list_all (\<lambda>it. item_ok n it \<and> ni_bms_id it = i) its"
  shows "fold (\<lambda>(e, t, b, p) s. on_frame e t b p s)
      (zip es (map (\<lambda>it. (TUN_RAW, of_nat (ni_bms_id it), of_nat (ni_idx it) # ni_data it)) its)) s =
    fold (\<lambda>(e, c). ble_periph_forward_notify e i c) (zip es (map ni_data its)) s"
  using assms
proof (induction its arbitrary: es s)
  case (Cons it its)
  show ?case
  proof (cases es)
    case es: (Cons e es')
    let ?s = "ble_periph_forward_notify e i (ni_data it) s"
    have step: "on_frame e TUN_RAW (of_nat (ni_bms_id it)) (of_nat (ni_idx it) # ni_data it) s = ?s"
      using on_frame_raw [of s it e] Cons.prems nb_reach_units by auto
    have "nb_reach n ?s"
      using nb_reach.step [OF Cons.prems(1), of e "Rx TUN_RAW (of_nat (ni_bms_id it)) (of_nat (ni_idx it) # ni_data it)"] step by simp
    with Cons es step show ?thesis by simp
  qed simp
qed simp

lemma serve_raw:
  assumes "nb_reach n s" "n \<le> 255" "list_all (\<lambda>it. item_ok n it \<and> ni_bms_id it = i) its" "list_all calm es" "no_debt s"
  shows "fold (\<lambda>(e, t, b, p) s. ble_periph_replay_tick e (on_frame e t b p s))
      (zip es (map (\<lambda>it. (TUN_RAW, of_nat (ni_bms_id it), of_nat (ni_idx it) # ni_data it)) its)) s =
    fold (\<lambda>(e, c). ble_periph_forward_notify e i c) (zip es (map ni_data its)) s"
  using assms
proof (induction its arbitrary: es s)
  case (Cons it its)
  show ?case
  proof (cases es)
    case es: (Cons e es')
    let ?s = "ble_periph_forward_notify e i (ni_data it) s"
    have step: "on_frame e TUN_RAW (of_nat (ni_bms_id it)) (of_nat (ni_idx it) # ni_data it) s = ?s"
      using on_frame_raw [of s it e] Cons.prems nb_reach_units by auto
    have "nb_reach n ?s"
      using nb_reach.step [OF Cons.prems(1), of e "Rx TUN_RAW (of_nat (ni_bms_id it)) (of_nat (ni_idx it) # ni_data it)"] step by simp
    moreover have "no_debt ?s" using Cons.prems(4,5) es by (simp add: no_debt_forward)
    ultimately show ?thesis using Cons.IH [of ?s es'] Cons.prems es step tick_no_debt [of ?s e] by simp
  qed simp
qed simp

text \<open>
  C4. The phone hears the module. Take raw chunks a unit notified, each queued by node A as one item, and a phone that
  has just subscribed on node B. Framed by node A, carried as bytes, split and dispatched by node B, the chunks reach
  the phone as exactly the module's byte stream from its first complete record on: nothing lost, repeated, reordered or
  altered by either node, and nothing at all before a complete record has arrived. With the replay tick that node B runs
  after each frame it is the same, byte for byte, as long as no phone waits for a replay.
\<close>

theorem phone_hears_the_module:
  assumes "nb_reach n s" and "n \<le> 255" and "i < n" and "i < length (nb_live s)"
    and "subscribed (session i s)" and "lv_epoch (nb_live s ! i) \<noteq> ns_epoch (session i s)"
    and its: "list_all (\<lambda>it. item_ok n it \<and> ni_raw it \<and> ni_bms_id it = i) its"
    and es: "length es = length its" "list_all calm es"
  shows "\<exists>sent. phone_bytes (ns_conn_handle (session i s)) (b_dispatch es (concat (map notify_frame its)) s) =
      phone_bytes (ns_conn_handle (session i s)) s @ sent \<and>
    (\<forall>k. record_at (concat (map ni_data its)) k \<and> (\<forall>j < k. \<not> record_at (concat (map ni_data its)) j) \<longrightarrow>
       sent = drop k (concat (map ni_data its))) \<and>
    ((\<forall>k. \<not> record_at (concat (map ni_data its)) k) \<longrightarrow> sent = []) \<and>
    (no_debt s \<longrightarrow> b_serve es (concat (map notify_frame its)) s = b_dispatch es (concat (map notify_frame its)) s)"
proof -
  have ok: "list_all (\<lambda>it. item_ok n it \<and> ni_raw it) its" "list_all (\<lambda>it. item_ok n it \<and> ni_bms_id it = i) its"
    using its by (auto simp: list_all_iff)
  have "b_dispatch es (concat (map notify_frame its)) s = fold (\<lambda>(e, c). ble_periph_forward_notify e i c) (zip es (map ni_data its)) s"
    unfolding b_dispatch_def raw_frames_read [OF ok(1) assms(2)] using dispatch_raw [OF assms(1,2) ok(2), of es] by simp
  moreover have "map snd (zip es (map ni_data its)) = map ni_data its" using es(1) by simp
  moreover have "list_all (\<lambda>(e, c). calm e) (zip es (map ni_data its))"
    using es(2) by (auto simp: list_all_iff dest: set_zip_leftD)
  moreover have "i < nb_units s" using nb_reach_units [OF assms(1,2)] assms(3) by simp
  moreover have "no_debt s \<Longrightarrow> b_serve es (concat (map notify_frame its)) s = b_dispatch es (concat (map notify_frame its)) s"
    unfolding b_serve_def b_dispatch_def raw_frames_read [OF ok(1) assms(2)]
    using serve_raw [OF assms(1,2) ok(2) es(2)] dispatch_raw [OF assms(1,2) ok(2), of es] by simp
  ultimately show ?thesis using stream_delivered [OF assms(5) _ assms(4,6), of "zip es (map ni_data its)"] by auto
qed

theorem phone_hears_the_module_witness:
  "phone_bytes 5 (b_dispatch [sample_nenv, sample_nenv] (concat (map notify_frame
     [\<lparr>ni_bms_id = 0, ni_idx = 0, ni_raw = True, ni_data = 0x41 # take 100 ss_sample\<rparr>,
      \<lparr>ni_bms_id = 0, ni_idx = 0, ni_raw = True, ni_data = drop 100 ss_sample @ [7, 8]\<rparr>])) sample_subscribed) = ss_sample @ [7, 8]"
  (is "phone_bytes 5 (b_dispatch ?es (concat (map notify_frame ?its)) _) = _")
proof -
  have len: "length ss_sample = 300" using ss_sample_record by (simp add: ss_record_def STREAM_START_RECORD_LEN_def)
  have reach: "nb_reach 2 sample_subscribed" unfolding sample_subscribed_def by (rule nb_reach.step [OF sample_reach])
  have its: "list_all (\<lambda>it. item_ok 2 it \<and> ni_raw it \<and> ni_bms_id it = 0) ?its" by (simp add: item_ok_def JK_FRAME_MAX_def len)
  have raw: "concat (map ni_data ?its) = 0x41 # ss_sample @ [7, 8]" by simp
  have sub: "subscribed (session 0 sample_subscribed)" "lv_epoch (nb_live sample_subscribed ! 0) \<noteq> ns_epoch (session 0 sample_subscribed)"
      "ns_conn_handle (session 0 sample_subscribed) = 5" "phone_bytes 5 sample_subscribed = []"
    using sample_subscribed_eval sample_subscribed_rest by (simp_all add: subscribed_def phone_bytes_def)
  obtain sent where s: "phone_bytes 5 (b_dispatch ?es (concat (map notify_frame ?its)) sample_subscribed) = sent"
    "\<forall>k. record_at (0x41 # ss_sample @ [7, 8]) k \<and> (\<forall>j < k. \<not> record_at (0x41 # ss_sample @ [7, 8]) j) \<longrightarrow>
       sent = drop k (0x41 # ss_sample @ [7, 8])"
    using phone_hears_the_module [OF reach _ _ _ sub(1,2) its, of ?es] sample_nenv_calm sample_subscribed_rest(1)
    unfolding raw sub(3,4) by auto
  from s(2) sample_first_record have "sent = drop 1 (0x41 # ss_sample @ [7, 8])" by blast
  with s(1) show ?thesis by simp
qed


section \<open>From the phone to the module\<close>

lemma srv_write_delivers:
  assumes "tunnel_to_a_valid TUN_WRITE b ([idx, if wr then 1 else 0] @ d) (na_units a)"
    and room: "\<And>q m. e_in_ok (se_arb e) q m"
  shows "a_in_q (na_arb (srv_on_frame e TUN_WRITE b ([idx, if wr then 1 else 0] @ d) a)) =
    a_in_q (na_arb a) @ (if is_devreq d then [ARB_APP_DEVREQ (unat b)] else []) @ [ARB_REQ (app_request (unat b) (unat idx) wr d)]"
proof -
  have v: "unat b < na_units a" "d \<noteq> []" "length d \<le> REQ_PAYLOAD_MAX" "unat idx \<le> 1"
    using assms(1) by (auto simp: tunnel_to_a_valid_def tun_types REQ_PAYLOAD_MAX_def word_le_nat_alt split: if_splits)
  have w: "a_in_q (arbiter_app_write (se_arb e) (unat b) (unat idx) wr' d x) = a_in_q x @ [ARB_REQ (app_request (unat b) (unat idx) wr' d)]"
    if "units x = na_units a" for x wr'
    using v that room by (simp add: app_write_eq arb_in_send_def)
  have n: "a_in_q (arbiter_note_app_devreq (se_arb e) (unat b) x) = a_in_q x @ [ARB_APP_DEVREQ (unat b)]" if "units x = na_units a" for x
    using v that room by (simp add: arbiter_note_app_devreq_def arb_in_send_def)
  have u: "units (dc_arb (na_dec a)) = na_units a" by (simp add: na_units_def na_arb_def)
  show ?thesis
    using assms(1) by (simp add: srv_on_frame_def tun_types srv_on_write_def Let_def on_na_arb_def na_arb_def on_arb_def w n u)
qed

lemma replay_debt_queue [simp]: "nb_q (maybe_replay_opener e i d s) = nb_q s"
  by (simp add: maybe_replay_opener_def Let_def)

text \<open>
  C5. A phone's write reaches the arbiter unchanged, or is refused. When node B acknowledges a write of the phone on
  either characteristic, exactly one frame was queued, and when node A reads that frame, the arbiter's queue receives
  exactly the write: same unit, same characteristic, same write type, same bytes, preceded by the device-info note if and
  only if the bytes are that request. A write that is not acknowledged queues nothing.
\<close>

theorem phone_write_reaches_arbiter:
  assumes "app_write eb i idx wr d s = (r, s')" and "nb_q s = Some q"
    and "na_units a = nb_units s" and "nb_units s \<le> 255" and "\<And>q m. e_in_ok (se_arb e) q m"
  shows "(r \<noteq> Att_ok [] \<longrightarrow> nb_q s' = Some q) \<and>
    (r = Att_ok [] \<longrightarrow> (\<exists>m. nb_q s' = Some (q @ [m]) \<and>
      (case recv_frame m of
         Got t b p rest \<Rightarrow> rest = [] \<and> a_in_q (na_arb (srv_on_frame e t b p a)) =
           a_in_q (na_arb a) @ (if is_devreq d then [ARB_APP_DEVREQ i] else []) @ [ARB_REQ (app_request i (unat idx) wr d)]
       | _ \<Rightarrow> False)))"
proof (cases "r = Att_ok []")
  case True
  let ?pl = "[idx, if wr then 1 else 0] @ d"
  have d: "d \<noteq> []" "length d \<le> TUNNEL_MAX_WRITE_DATA"
    using assms(1) True by (auto simp: app_write_def split: if_splits)
  have i: "i < nb_units s" "idx \<le> 1" and q: "nb_q s' = Some (q @ [frame TUN_WRITE (of_nat i) ?pl])"
    using assms(1,2) d True
    by (auto simp: app_write_def tunnel_cli_send_write_def enqueue_def TUNNEL_MAX_PAYLOAD_def TUNNEL_MAX_WRITE_DATA_def split: if_splits)
  have b: "unat (of_nat i :: byte) = i" using i(1) assms(4) by (rule unit_byte)
  have "length ?pl \<le> TUNNEL_MAX_PAYLOAD" using d by (simp add: TUNNEL_MAX_PAYLOAD_def TUNNEL_MAX_WRITE_DATA_def)
  from recv_frame_frame [OF this, of TUN_WRITE "of_nat i" "[]"]
  have "recv_frame (frame TUN_WRITE (of_nat i) ?pl) = Got TUN_WRITE (of_nat i) ?pl []" by simp
  moreover have "tunnel_to_a_valid TUN_WRITE (of_nat i) ?pl (na_units a)"
    using d i assms(3) b by (cases d) (auto simp: tunnel_to_a_valid_def tun_types tun_consts)
  note srv_write_delivers [OF this assms(5)]
  ultimately show ?thesis
    using q b True by (intro conjI impI exI [of _ "frame TUN_WRITE (of_nat i) ?pl"]) simp_all
next
  case False
  then show ?thesis
    using assms(1,2) by (auto simp: app_write_def tunnel_cli_send_write_def enqueue_def split: if_splits)
qed

definition sample_na2 :: na where
  "sample_na2 = on_na_arb (\<lambda>_. arbiter_start 2 sample_meas) sample_na"

theorem phone_write_reaches_arbiter_witness:
  "\<exists>m. nb_q (snd (app_write sample_nenv 0 1 False [0xAA, 0x55, 0x90, 0xEB, 0x97] sample_connected)) = Some ([frame TUN_CLIENT 0 [1]] @ [m]) \<and>
     (case recv_frame m of
        Got t b p rest \<Rightarrow> rest = [] \<and> a_in_q (na_arb (srv_on_frame sample_senv t b p sample_na2)) =
          [ARB_APP_DEVREQ 0, ARB_REQ (app_request 0 1 False [0xAA, 0x55, 0x90, 0xEB, 0x97])]
      | _ \<Rightarrow> False)"
proof -
  let ?d = "[0xAA, 0x55, 0x90, 0xEB, 0x97] :: byte list"
  have u: "nb_units sample_connected = 2" using nb_reach_units [OF sample_reach] by simp
  have a: "na_units sample_na2 = 2" "a_in_q (na_arb sample_na2) = []"
    by (simp_all add: sample_na2_def on_na_arb_def on_arb_def na_units_def na_arb_def units_def arbiter_start_def)
  have ok: "fst (app_write sample_nenv 0 1 False ?d sample_connected) = Att_ok []"
    using u sample_connected_eval(2)
    by (simp add: app_write_def sample_nenv_def tunnel_cli_send_write_def enqueue_def TUN_OUT_DEPTH_def tun_consts)
  have w: "app_write sample_nenv 0 1 False ?d sample_connected = (Att_ok [], snd (app_write sample_nenv 0 1 False ?d sample_connected))"
    using ok by (metis prod.collapse)
  have q: "a_in_q (na_arb sample_na2) @ (if is_devreq ?d then [ARB_APP_DEVREQ 0] else []) @ [ARB_REQ (app_request 0 (unat (1 :: byte)) False ?d)] =
      [ARB_APP_DEVREQ 0, ARB_REQ (app_request 0 1 False ?d)]"
    using a by (simp add: is_devreq_def)
  show ?thesis
    unfolding q [symmetric]
    by (rule mp [OF conjunct2 [OF phone_write_reaches_arbiter [OF w sample_connected_eval(2)]]]) (simp_all add: u a sample_senv_def sample_env_def)
qed

end
